(* ===== verification/Prelude.thy ===== *)
theory Prelude imports Main "HOL-Library.Sublist" "HOL-Library.Char_ord" begin

text \<open>
  Shared vocabulary of the development: the part of the JavaScript string library that the web
  application uses, and the collections of rewrite rules the component theories extend.

  A JavaScript string is a \<open>string\<close>, one \<open>char\<close> per UTF-16 code unit, so the model covers the
  code units below 256 (Latin-1).  The one larger unit the sources write, the ellipsis U+2026, is
  represented by the control code 0x85, which no operation below treats specially.
\<close>

named_theorems js_simps \<open>evaluation rules for the JavaScript string operations\<close>
named_theorems bff_simps \<open>evaluation rules for server actions\<close>
named_theorems frame_simps \<open>which parts of the server state an action leaves alone\<close>

section \<open>Characters\<close>

abbreviation newline :: char where "newline \<equiv> CHR 0x0A"
abbreviation creturn :: char where "creturn \<equiv> CHR 0x0D"
abbreviation tabchar :: char where "tabchar \<equiv> CHR 0x09"
abbreviation backslash :: char where "backslash \<equiv> CHR 0x5C"
abbreviation dquote :: char where "dquote \<equiv> CHR 0x22"
abbreviation squote :: char where "squote \<equiv> CHR 0x27"
abbreviation ellipsis :: char where "ellipsis \<equiv> CHR 0x85"

text \<open>The white space that \<open>trim\<close> removes and the regular expression class \<open>\s\<close> matches.\<close>

definition js_ws :: "char \<Rightarrow> bool" where
  "js_ws c = (c \<in> {CHR 0x09, CHR 0x0A, CHR 0x0B, CHR 0x0C, CHR 0x0D, CHR 0x20, CHR 0xA0})"

definition is_digit :: "char \<Rightarrow> bool" where
  "is_digit c = (CHR ''0'' \<le> c \<and> c \<le> CHR ''9'')"

definition is_upper :: "char \<Rightarrow> bool" where
  "is_upper c = (CHR ''A'' \<le> c \<and> c \<le> CHR ''Z'')"

definition is_lower :: "char \<Rightarrow> bool" where
  "is_lower c = (CHR ''a'' \<le> c \<and> c \<le> CHR ''z'')"

text \<open>The regular expression class \<open>\w\<close>.\<close>

definition is_word_char :: "char \<Rightarrow> bool" where
  "is_word_char c = (is_upper c \<or> is_lower c \<or> is_digit c \<or> c = CHR ''_'')"

definition is_hex_digit :: "char \<Rightarrow> bool" where
  "is_hex_digit c = (is_digit c \<or> (CHR ''a'' \<le> c \<and> c \<le> CHR ''f'') \<or> (CHR ''A'' \<le> c \<and> c \<le> CHR ''F''))"

definition upper_char :: "char \<Rightarrow> char" where
  "upper_char c = (if is_lower c then char_of (of_char c - 32 :: nat) else c)"

definition lower_char :: "char \<Rightarrow> char" where
  "lower_char c = (if is_upper c then char_of (of_char c + 32 :: nat) else c)"

section \<open>Strings\<close>

definition toUpperCase :: "string \<Rightarrow> string" where
  "toUpperCase s = map upper_char s"

definition toLowerCase :: "string \<Rightarrow> string" where
  "toLowerCase s = map lower_char s"

definition trimStart :: "string \<Rightarrow> string" where
  "trimStart s = dropWhile js_ws s"

definition trimEnd :: "string \<Rightarrow> string" where
  "trimEnd s = rev (dropWhile js_ws (rev s))"

definition trim :: "string \<Rightarrow> string" where
  "trim s = trimEnd (trimStart s)"

definition startsWith :: "string \<Rightarrow> string \<Rightarrow> bool" where
  "startsWith s p = (take (length p) s = p)"

definition includes_str :: "string \<Rightarrow> string \<Rightarrow> bool" where
  "includes_str s p = sublist p s"

text \<open>\<open>s.indexOf(c)\<close>, with \<open>None\<close> for -1.\<close>

fun indexOf :: "char \<Rightarrow> string \<Rightarrow> nat option" where
  "indexOf c [] = None"
| "indexOf c (d # ds) = (if d = c then Some 0 else map_option Suc (indexOf c ds))"

text \<open>\<open>s.split(/\r?\n/)\<close>\<close>

fun split_lines :: "string \<Rightarrow> string list" where
  "split_lines [] = [[]]"
| "split_lines [c] = (if c = newline then [[], []] else [[c]])"
| "split_lines (c # d # ds) =
     (if c = newline then [] # split_lines (d # ds)
      else if c = creturn \<and> d = newline then [] # split_lines ds
      else (c # hd (split_lines (d # ds))) # tl (split_lines (d # ds)))"

text \<open>\<open>parts.join(sep)\<close>\<close>

fun join :: "string \<Rightarrow> string list \<Rightarrow> string" where
  "join sep [] = []"
| "join sep [x] = x"
| "join sep (x # y # xs) = x @ sep @ join sep (y # xs)"

text \<open>\<open>s.split(c)\<close> for a one-character separator.\<close>

fun split_on :: "char \<Rightarrow> string \<Rightarrow> string list" where
  "split_on c [] = [[]]"
| "split_on c (d # ds) =
     (if d = c then [] # split_on c ds
      else (d # hd (split_on c ds)) # tl (split_on c ds))"

text \<open>\<open>s.replace("c", t)\<close> with a string pattern: the first occurrence only.\<close>

fun replace_first :: "char \<Rightarrow> string \<Rightarrow> string \<Rightarrow> string" where
  "replace_first c t [] = []"
| "replace_first c t (d # ds) = (if d = c then t @ ds else d # replace_first c t ds)"

text \<open>Decimal rendering of a number in a template literal.\<close>

fun show_nat :: "nat \<Rightarrow> string" where
  "show_nat n = (if n < 10 then [char_of (48 + n)] else show_nat (n div 10) @ [char_of (48 + n mod 10)])"

declare show_nat.simps [simp del]

definition show_int :: "int \<Rightarrow> string" where
  "show_int i = (if i < 0 then CHR ''-'' # show_nat (nat (- i)) else show_nat (nat i))"

section \<open>Lemmas\<close>

lemma js_ws_simps [simp, js_simps]:
  "js_ws newline" "js_ws creturn" "js_ws tabchar" "js_ws CHR '' ''"
  by (simp_all add: js_ws_def)

lemma startsWith_iff: "startsWith s p \<longleftrightarrow> (\<exists>r. s = p @ r)"
  unfolding startsWith_def by (metis append_take_drop_id append_eq_conv_conj)

lemma startsWith_split: "startsWith s p \<Longrightarrow> s = p @ drop (length p) s"
  unfolding startsWith_def by (metis append_take_drop_id)

lemma trim_Nil [simp, js_simps]: "trim [] = []"
  by (simp add: trim_def trimStart_def trimEnd_def)

lemma dropWhile_rev_id: "xs = [] \<or> \<not> P (last xs) \<Longrightarrow> dropWhile P (rev xs) = rev xs"
  by (cases xs rule: rev_cases) auto

lemma trimEnd_id: "s = [] \<or> \<not> js_ws (last s) \<Longrightarrow> trimEnd s = s"
  unfolding trimEnd_def by (subst dropWhile_rev_id) auto

lemma trimStart_id: "s = [] \<or> \<not> js_ws (hd s) \<Longrightarrow> trimStart s = s"
  unfolding trimStart_def by (cases s) auto

lemma trim_id:
  assumes "s = [] \<or> \<not> js_ws (hd s) \<and> \<not> js_ws (last s)"
  shows "trim s = s"
  using assms unfolding trim_def by (metis trimEnd_id trimStart_id)

lemma trimEnd_last: "trimEnd s = [] \<or> \<not> js_ws (last (trimEnd s))"
proof (cases "dropWhile js_ws (rev s)")
  case Nil
  then show ?thesis by (simp add: trimEnd_def)
next
  case (Cons x xs)
  then have "\<not> js_ws x" by (metis dropWhile_eq_Cons_conv)
  with Cons show ?thesis by (simp add: trimEnd_def)
qed

lemma trimEnd_prefix: "prefix (trimEnd s) s"
  unfolding trimEnd_def using suffix_dropWhile suffix_to_prefix by (metis rev_rev_ident)

lemma trim_hd: "trim s = [] \<or> \<not> js_ws (hd (trim s))"
proof (cases "trimStart s")
  case Nil
  then show ?thesis by (simp add: trim_def trimEnd_def)
next
  case (Cons x xs)
  then have "\<not> js_ws x" unfolding trimStart_def by (metis dropWhile_eq_Cons_conv)
  moreover have "prefix (trim s) (x # xs)" using trimEnd_prefix Cons by (metis trim_def)
  ultimately show ?thesis by (cases "trim s") auto
qed

lemma trim_last: "trim s = [] \<or> \<not> js_ws (last (trim s))"
  by (simp add: trim_def trimEnd_last)

lemma trim_trim [simp]: "trim (trim s) = trim s"
  using trim_hd trim_last by (intro trim_id) blast

lemma trim_subset: "set (trim s) \<subseteq> set s"
proof
  fix c assume "c \<in> set (trim s)"
  then have "c \<in> set (rev (dropWhile js_ws s))"
    unfolding trim_def trimEnd_def trimStart_def
    by (metis set_dropWhileD set_rev)
  then show "c \<in> set s" by (simp add: set_dropWhileD)
qed

lemma length_trim_le: "length (trim s) \<le> length s"
  unfolding trim_def trimEnd_def trimStart_def
  by (metis length_dropWhile_le length_rev order_trans)

lemma trim_no_ws: "(\<And>c. c \<in> set s \<Longrightarrow> \<not> js_ws c) \<Longrightarrow> trim s = s"
  by (rule trim_id) (metis hd_in_set last_in_set)

lemma indexOf_None: "indexOf c s = None \<longleftrightarrow> c \<notin> set s"
  by (induction s) auto

lemma indexOf_append: "c \<notin> set p \<Longrightarrow> indexOf c (p @ c # s) = Some (length p)"
  by (induction p) auto

lemma indexOf_Some_less: "indexOf c s = Some i \<Longrightarrow> i < length s"
  by (induction s arbitrary: i) (auto split: if_splits)

lemma split_lines_nonempty [simp]: "split_lines s \<noteq> []"
  by (induction s rule: split_lines.induct) auto

text \<open>The equations of \<open>split_lines\<close> name the rest of the lines twice; the evaluator gets them with
  the rest shared.\<close>

lemma split_lines_shared [code]:
  "split_lines [] = [[]]"
  "split_lines [c] = (if c = newline then [[], []] else [[c]])"
  "split_lines (c # d # ds) =
     (if c = newline then [] # split_lines (d # ds)
      else if c = creturn \<and> d = newline then [] # split_lines ds
      else (case split_lines (d # ds) of [] \<Rightarrow> [[c]] | l # ls \<Rightarrow> (c # l) # ls))"
  by (simp_all split: list.split)

lemma split_lines_no_newline: "newline \<notin> set s \<Longrightarrow> split_lines s = [s]"
  by (induction s rule: split_lines.induct) auto

lemma split_lines_Cons_newline: "split_lines (newline # s) = [] # split_lines s"
  by (cases s) auto

lemma split_lines_Cons:
  assumes "c \<noteq> newline" "c \<noteq> creturn \<or> s = [] \<or> hd s \<noteq> newline"
  shows "split_lines (c # s) = (c # hd (split_lines s)) # tl (split_lines s)"
  using assms by (cases s) auto

lemma split_lines_append:
  assumes "newline \<notin> set p" "p = [] \<or> last p \<noteq> creturn"
  shows "split_lines (p @ newline # s) = p # split_lines s"
  using assms
proof (induction p)
  case Nil
  then show ?case by (simp add: split_lines_Cons_newline)
next
  case (Cons c p)
  then have "c \<noteq> creturn \<or> hd (p @ newline # s) \<noteq> newline"
    by (cases p) auto
  with Cons show ?case
    by (cases p) (auto simp: split_lines_Cons)
qed

lemma hd_tl_split_lines:
  "hd (split_lines s) \<in> set (split_lines s)"
  "l \<in> set (tl (split_lines s)) \<Longrightarrow> l \<in> set (split_lines s)"
  using split_lines_nonempty [of s] by (cases "split_lines s"; auto)+

lemma split_lines_lines: "l \<in> set (split_lines s) \<Longrightarrow> newline \<notin> set l"
  by (induction s arbitrary: l rule: split_lines.induct)
    (auto split: if_splits intro: hd_tl_split_lines)

lemma split_on_nonempty [simp]: "split_on c s \<noteq> []"
  by (cases s) auto

lemma show_nat_digits: "c \<in> set (show_nat n) \<Longrightarrow> is_digit c"
proof (induction n rule: show_nat.induct)
  case (1 n)
  have digit: "k < 10 \<Longrightarrow> is_digit (char_of (48 + k))" for k :: nat
    by (simp add: is_digit_def less_eq_char_def of_char_of)
  show ?case
  proof (cases "n < 10")
    case True
    with "1.prems" digit [of n] show ?thesis by (simp add: show_nat.simps [of n])
  next
    case False
    with "1.prems" "1.IH" digit [of "n mod 10"] show ?thesis
      by (auto simp: show_nat.simps [of n])
  qed
qed

text \<open>\<open>split_on\<close> with an accumulator, for evaluation.\<close>

fun split_acc :: "char \<Rightarrow> string \<Rightarrow> string \<Rightarrow> string list" where
  "split_acc c acc [] = [rev acc]"
| "split_acc c acc (d # ds) = (if d = c then rev acc # split_acc c [] ds else split_acc c (d # acc) ds)"

lemma split_acc_split_on: "split_acc c acc s = (rev acc @ hd (split_on c s)) # tl (split_on c s)"
  by (induction s arbitrary: acc) auto

lemma split_on_code [code]: "split_on c s = split_acc c [] s"
  by (simp add: split_acc_split_on)

lemma join_split_on: "join [c] (split_on c s) = s"
proof (induction s)
  case (Cons d s)
  obtain x xs where x: "split_on c s = x # xs" by (cases "split_on c s") auto
  with Cons show ?case by (cases xs) auto
qed simp

lemma split_on_append: "split_on c (a @ c # b) = split_on c a @ split_on c b"
proof (induction a)
  case (Cons d a)
  then show ?case by (cases "split_on c a") auto
qed simp

lemma split_on_none: "c \<notin> set s \<Longrightarrow> split_on c s = [s]"
  by (induction s) auto

lemma split_on_join:
  assumes "xs \<noteq> []" "\<And>x. x \<in> set xs \<Longrightarrow> c \<notin> set x"
  shows "split_on c (join [c] xs) = xs"
  using assms
proof (induction "[c]" xs rule: join.induct)
  case (3 x y xs)
  then have "split_on c (x @ c # join [c] (y # xs)) = [x] @ (y # xs)"
    by (simp only: split_on_append) (simp add: split_on_none)
  then show ?case by simp
qed (simp_all add: split_on_none)

lemma show_nat_inj: "show_nat m = show_nat n \<Longrightarrow> m = n"
proof (induction m arbitrary: n rule: show_nat.induct)
  case (1 m)
  have d: "char_of (48 + i) = (char_of (48 + j) :: char) \<longleftrightarrow> i = j" if "i < 10" "j < 10" for i j :: nat
  proof -
    have "(48 + i) mod 256 = 48 + i" "(48 + j) mod 256 = 48 + j" using that by simp_all
    then have "of_char (char_of (48 + i)) = 48 + i" "of_char (char_of (48 + j)) = 48 + j" by simp_all
    then show ?thesis by (metis add_left_cancel)
  qed
  have ne: "show_nat k \<noteq> []" for k by (simp add: show_nat.simps [of k])
  show ?case
  proof (cases "m < 10")
    case True
    then have m: "show_nat m = [char_of (48 + m)]" by (simp add: show_nat.simps [of m])
    show ?thesis
    proof (cases "n < 10")
      case True
      with "1.prems" m d [OF \<open>m < 10\<close> True] show ?thesis by (simp add: show_nat.simps [of n])
    next
      case False
      with "1.prems" m not_sym [OF ne] show ?thesis by (simp add: show_nat.simps [of n])
    qed
  next
    case False
    then have m: "show_nat m = show_nat (m div 10) @ [char_of (48 + m mod 10)]" by (simp add: show_nat.simps [of m])
    show ?thesis
    proof (cases "n < 10")
      case True
      with "1.prems" m ne show ?thesis by (simp add: show_nat.simps [of n])
    next
      case n: False
      with "1.prems" m have "show_nat (m div 10) = show_nat (n div 10)" "(char_of (48 + m mod 10) :: char) = char_of (48 + n mod 10)"
        by (simp_all add: show_nat.simps [of n])
      then have "m div 10 = n div 10" "m mod 10 = n mod 10"
        using "1.IH" [OF False] d [of "m mod 10" "n mod 10"] by auto
      then show "m = n" by (metis div_mult_mod_eq)
    qed
  qed
qed

text \<open>A filtered list, seen around one of its elements.\<close>

lemma filter_split_nth:
  assumes "i < length xs"
  shows "filter P xs = filter P (take i xs) @ (if P (xs ! i) then [xs ! i] else []) @ filter P (drop (Suc i) xs)"
proof -
  have "filter P xs = filter P (take i xs @ xs ! i # drop (Suc i) xs)"
    by (rule arg_cong [OF id_take_nth_drop [OF assms]])
  then show ?thesis by simp
qed

end
