(* ===== verification/Codec.thy ===== *)
theory Codec imports Prelude begin

text \<open>
  The contract of an encoding: decoding what was encoded gives the value back, for the values the
  encoding is meant for.  The components that parse what the application (or its browser half)
  writes interpret it on their own encoder and decoder.
\<close>

locale codec =
  fixes enc :: "'a \<Rightarrow> 'b" and dec :: "'b \<Rightarrow> 'a option" and ok :: "'a \<Rightarrow> bool"
  assumes dec_enc: "ok x \<Longrightarrow> dec (enc x) = Some x"
begin

lemma enc_eq_iff: "ok x \<Longrightarrow> ok y \<Longrightarrow> enc x = enc y \<longleftrightarrow> x = y"
  by (metis dec_enc option.inject)

lemma dec_enc_map: "list_all ok xs \<Longrightarrow> map (\<lambda>x. dec (enc x)) xs = map Some xs"
  by (induction xs) (auto simp: dec_enc)

end

end
