(* ===== verification/Dotenv.thy ===== *)
theory Dotenv imports Prelude Codec begin

text \<open>
  The parser for pasted \<open>.env\<close> text (web/lib/dotenv.ts): lines, comments, \<open>export\<close> prefixes, quoted
  values that may span lines, double-quote escapes, and the heuristic that decides whether a paste is
  a file.  Line numbers are one-based, as in the source's messages.
\<close>

section \<open>Model\<close>

record ParsedEntry =
  entry_key :: string
  entry_value :: string

record Skipped =
  skip_line :: nat
  skip_text :: string

record ParseResult =
  entries :: "ParsedEntry list"
  skipped :: "Skipped list"

text \<open>\<open>VALID_KEY\<close>: a letter or underscore, then word characters.\<close>

fun valid_key :: "string \<Rightarrow> bool" where
  "valid_key [] = False"
| "valid_key (c # cs) = ((is_upper c \<or> is_lower c \<or> c = CHR ''_'') \<and> list_all is_word_char cs)"

text \<open>\<open>closingIndex\<close>: the first unescaped quote.\<close>

fun closingIndex :: "string \<Rightarrow> char \<Rightarrow> nat option" where
  "closingIndex [] q = None"
| "closingIndex (c # cs) q =
     (if c = backslash then
        (case cs of [] \<Rightarrow> None | d # ds \<Rightarrow> map_option (\<lambda>i. i + 2) (closingIndex ds q))
      else if c = q then Some 0
      else map_option Suc (closingIndex cs q))"

text \<open>\<open>value.replace(/\\x/g, r)\<close> for a two-character pattern: backslash, then \<open>x\<close>.\<close>

fun replace_escape :: "char \<Rightarrow> string \<Rightarrow> string \<Rightarrow> string" where
  "replace_escape x r [] = []"
| "replace_escape x r [c] = [c]"
| "replace_escape x r (c # d # ds) =
     (if c = backslash \<and> d = x then r @ replace_escape x r ds
      else c # replace_escape x r (d # ds))"

text \<open>The five global replacements run one after the other, in the source's order.\<close>

definition unescapeDouble :: "string \<Rightarrow> string" where
  "unescapeDouble v =
     replace_escape backslash [backslash]
       (replace_escape dquote [dquote]
         (replace_escape (CHR ''t'') [tabchar]
           (replace_escape (CHR ''r'') [creturn]
             (replace_escape (CHR ''n'') [newline] v))))"

definition truncate_text :: "string \<Rightarrow> string" where
  "truncate_text t = (if length t > 24 then take 24 t @ [ellipsis] else t)"

text \<open>\<open>line.replace(/^export\s+/, "")\<close>\<close>

definition strip_export :: "string \<Rightarrow> string" where
  "strip_export l =
     (let r = drop 6 l in
      if startsWith l ''export'' \<and> r \<noteq> [] \<and> js_ws (hd r) then dropWhile js_ws r else l)"

text \<open>\<open>rest.search(/\s#/)\<close>\<close>

fun search_comment :: "string \<Rightarrow> nat option" where
  "search_comment [] = None"
| "search_comment [c] = None"
| "search_comment (c # d # ds) =
     (if js_ws c \<and> d = CHR ''#'' then Some 0 else map_option Suc (search_comment (d # ds)))"

text \<open>
  The inner loop of a quoted value.  Starting from \<open>body\<close>, whole lines are appended until the
  closing quote is found or the lines run out.  The result is the body, the number of lines it
  consumed, and the lines left.
\<close>

fun gather :: "char \<Rightarrow> string \<Rightarrow> string list \<Rightarrow> string \<times> nat \<times> string list" where
  "gather q body [] = (body, 0, [])"
| "gather q body (l # ls) =
     (if closingIndex body q \<noteq> None then (body, 0, l # ls)
      else (case gather q (body @ newline # l) ls of (b, n, rest) \<Rightarrow> (b, Suc n, rest)))"

definition add_entry :: "string \<Rightarrow> string \<Rightarrow> ParseResult \<Rightarrow> ParseResult" where
  "add_entry k v r = r\<lparr>entries := \<lparr>entry_key = k, entry_value = v\<rparr> # entries r\<rparr>"

definition add_skipped :: "nat \<Rightarrow> string \<Rightarrow> ParseResult \<Rightarrow> ParseResult" where
  "add_skipped n t r = r\<lparr>skipped := \<lparr>skip_line = n, skip_text = t\<rparr> # skipped r\<rparr>"

text \<open>
  What one logical line contributes, and the lines that follow it.  \<open>i\<close> is the zero-based index
  of \<open>raw\<close>; the result's number is the index of the next line to read.
\<close>

datatype outcome = Ignored | Entry string string | SkippedLine nat string

definition parse_line :: "nat \<Rightarrow> string \<Rightarrow> string list \<Rightarrow> outcome \<times> nat \<times> string list" where
  "parse_line i raw ls =
     (let l = trim raw in
      if l = [] \<or> startsWith l ''#'' then (Ignored, i + 1, ls)
      else let w = strip_export l in
      case indexOf (CHR ''='') w of
        None \<Rightarrow> (SkippedLine (i + 1) (truncate_text w), i + 1, ls)
      | Some equals \<Rightarrow>
          let k = trim (take equals w) in
          if \<not> valid_key k then (SkippedLine (i + 1) (truncate_text w), i + 1, ls)
          else let rest = trim (drop (equals + 1) w) in
          if rest \<noteq> [] \<and> (hd rest = dquote \<or> hd rest = squote) then
            (let quote = hd rest in
             case gather quote (tl rest) ls of (body, n, ls') \<Rightarrow>
               (case closingIndex body quote of
                  None \<Rightarrow> (SkippedLine (i + n + 1) (truncate_text (k @ [CHR ''='', ellipsis])), i + n + 1, ls')
                | Some close_at \<Rightarrow>
                    let v = take close_at body in
                    (Entry k (if quote = dquote then unescapeDouble v else v), i + n + 1, ls')))
          else
            let rest' = (case search_comment rest of None \<Rightarrow> rest | Some c \<Rightarrow> take c rest) in
            (Entry k (trim rest'), i + 1, ls))"

lemma gather_length: "gather q body ls = (b, n, rest) \<Longrightarrow> n + length rest = length ls"
  by (induction q body ls arbitrary: b n rest rule: gather.induct)
    (auto split: if_splits prod.splits)

lemma parse_line_length: "parse_line i raw ls = (oc, j, rest) \<Longrightarrow> length rest \<le> length ls"
  by (auto simp: parse_line_def Let_def split: if_splits option.splits prod.splits dest: gather_length)

function parse_loop :: "nat \<Rightarrow> string list \<Rightarrow> ParseResult" where
  "parse_loop i [] = \<lparr>entries = [], skipped = []\<rparr>"
| "parse_loop i (raw # ls) =
     (case parse_line i raw ls of
        (Ignored, j, rest) \<Rightarrow> parse_loop j rest
      | (Entry k v, j, rest) \<Rightarrow> add_entry k v (parse_loop j rest)
      | (SkippedLine n t, j, rest) \<Rightarrow> add_skipped n t (parse_loop j rest))"
  by pat_completeness auto
termination
proof (relation "measure (\<lambda>(i, ls). length ls)", simp_all add: less_Suc_eq_le)
qed (auto dest: parse_line_length [OF sym])

definition parseDotenv :: "string \<Rightarrow> ParseResult" where
  "parseDotenv input = parse_loop 0 (split_lines input)"

definition looksLikeDotenv :: "string \<Rightarrow> bool" where
  "looksLikeDotenv t =
     (let r = parseDotenv t in
      length (entries r) > 0 \<and> length (entries r) \<ge> length (skipped r))"


section \<open>Well-formedness of what the parser reports\<close>

text \<open>
  The reports of a line that starts at index \<open>i\<close> and leaves the loop at index \<open>j\<close>: keys are valid,
  skipped text is at most 24 characters and a marker, and the line named lies in \<open>i + 1 .. j\<close>.
\<close>

definition outcome_ok :: "nat \<Rightarrow> nat \<Rightarrow> outcome \<Rightarrow> bool" where
  "outcome_ok i j oc = (case oc of
     Ignored \<Rightarrow> True
   | Entry k v \<Rightarrow> valid_key k
   | SkippedLine n t \<Rightarrow> i < n \<and> n \<le> j \<and> length t \<le> 25)"

lemma truncate_text_length: "length (truncate_text t) \<le> 25"
  by (simp add: truncate_text_def)

lemma parse_line_outcome:
  "parse_line i raw ls = (oc, j, rest) \<Longrightarrow> outcome_ok i j oc \<and> j + length rest = i + 1 + length ls"
  by (auto simp: parse_line_def outcome_ok_def Let_def truncate_text_length
      split: if_splits option.splits prod.splits dest: gather_length)

lemma add_entry_sel [simp]:
  "entries (add_entry k v r) = \<lparr>entry_key = k, entry_value = v\<rparr> # entries r"
  "skipped (add_entry k v r) = skipped r"
  by (simp_all add: add_entry_def)

lemma add_skipped_sel [simp]:
  "entries (add_skipped n t r) = entries r"
  "skipped (add_skipped n t r) = \<lparr>skip_line = n, skip_text = t\<rparr> # skipped r"
  by (simp_all add: add_skipped_def)

definition result_ok :: "nat \<Rightarrow> nat \<Rightarrow> ParseResult \<Rightarrow> bool" where
  "result_ok i n r =
     (list_all (\<lambda>e. valid_key (entry_key e)) (entries r) \<and>
      list_all (\<lambda>s. i < skip_line s \<and> skip_line s \<le> i + n \<and> length (skip_text s) \<le> 25) (skipped r) \<and>
      length (entries r) + length (skipped r) \<le> n)"

lemma result_ok_shift:
  assumes "result_ok j m r" "j + m = i + n" "i \<le> j"
  shows "result_ok i n r"
proof -
  have "m \<le> n" using assms(2,3) by simp
  with assms show ?thesis
    by (auto simp: result_ok_def list_all_iff)
qed

lemma result_ok_add:
  assumes "result_ok j m r" "j + m = i + Suc n" "i < j" "outcome_ok i j oc"
  shows "oc = Entry k v \<Longrightarrow> result_ok i (Suc n) (add_entry k v r)"
    and "oc = SkippedLine l t \<Longrightarrow> result_ok i (Suc n) (add_skipped l t r)"
  using assms by (auto simp: result_ok_def outcome_ok_def list_all_iff)

lemma parse_loop_ok: "result_ok i (length ls) (parse_loop i ls)"
proof (induction i ls rule: parse_loop.induct)
  case (1 i)
  then show ?case by (simp add: result_ok_def)
next
  case (2 i raw ls)
  obtain oc j rest where p: "parse_line i raw ls = (oc, j, rest)"
    by (cases "parse_line i raw ls") auto
  have o: "outcome_ok i j oc" and l: "j + length rest = i + Suc (length ls)"
    using parse_line_outcome [OF p] by auto
  have ij: "i < j" using l parse_line_length [OF p] by simp
  have r: "result_ok j (length rest) (parse_loop j rest)"
    using 2 p by (cases oc) auto
  show ?case
    using p o l ij r result_ok_add [OF r l ij o] result_ok_shift [OF r, of i "Suc (length ls)"]
    by (cases oc) auto
qed

section \<open>Rendering, and the round trip\<close>

text \<open>
  The quoted form of an entry, as \<open>.env\<close> files write it.  A value the parser gives back unchanged holds
  neither the quote, nor a backslash, nor a carriage return, and the first of several lines does not
  end in white space.
\<close>

definition render_entry :: "char \<Rightarrow> ParsedEntry \<Rightarrow> string" where
  "render_entry q e = entry_key e @ [CHR ''='', q] @ entry_value e @ [q]"

definition render :: "char \<Rightarrow> ParsedEntry list \<Rightarrow> string" where
  "render q es = join [newline] (map (render_entry q) es)"

definition first_line_kept :: "string \<Rightarrow> bool" where
  "first_line_kept v =
     (tl (split_lines v) = [] \<or> hd (split_lines v) = [] \<or> \<not> js_ws (last (hd (split_lines v))))"

definition renderable :: "char \<Rightarrow> ParsedEntry \<Rightarrow> bool" where
  "renderable q e =
     (valid_key (entry_key e) \<and> q \<notin> set (entry_value e) \<and> backslash \<notin> set (entry_value e) \<and>
      creturn \<notin> set (entry_value e) \<and> first_line_kept (entry_value e))"

lemma closingIndex_append:
  "q \<notin> set b \<Longrightarrow> backslash \<notin> set b \<Longrightarrow> q \<noteq> backslash \<Longrightarrow> closingIndex (b @ [q]) q = Some (length b)"
  by (induction b) auto

lemma closingIndex_None:
  "q \<notin> set b \<Longrightarrow> closingIndex b q = None"
proof (induction b q rule: closingIndex.induct)
  case (2 c cs q)
  then show ?case by (cases cs) auto
qed simp

lemma replace_escape_id: "backslash \<notin> set v \<Longrightarrow> replace_escape x r v = v"
  by (induction x r v rule: replace_escape.induct) auto

lemma unescapeDouble_id: "backslash \<notin> set v \<Longrightarrow> unescapeDouble v = v"
  by (simp add: unescapeDouble_def replace_escape_id)

text \<open>The text after an entry: nothing, or a line break and more lines.\<close>

inductive tail_lines :: "string \<Rightarrow> string list \<Rightarrow> bool" where
  tail_end: "tail_lines [] []"
| tail_more: "tail_lines (newline # s) (split_lines s)"

inductive_cases tail_linesE: "tail_lines t ls"

lemma split_lines_quote_tail:
  assumes "tail_lines t ls" "q \<noteq> newline" "q \<noteq> creturn"
  shows "split_lines (q # t) = [q] # ls"
  using assms by (cases rule: tail_lines.cases) (auto simp: split_lines_append [where p = "[q]", simplified])

lemma gather_value:
  assumes "tail_lines t ls" "q = squote \<or> q = dquote"
    and "q \<notin> set v" "backslash \<notin> set v" "creturn \<notin> set v"
    and "q \<notin> set b" "backslash \<notin> set b"
  shows "\<exists>n. gather q (b @ hd (split_lines (v @ q # t))) (tl (split_lines (v @ q # t))) = (b @ v @ [q], n, ls)"
  using assms
proof (induction v arbitrary: b)
  case Nil
  then have "split_lines (q # t) = [q] # ls"
    by (intro split_lines_quote_tail) auto
  moreover have "closingIndex (b @ [q]) q = Some (length b)"
    using Nil by (intro closingIndex_append) auto
  ultimately show ?case by (cases ls) auto
next
  case (Cons c v)
  let ?L = "split_lines (v @ q # t)"
  from Cons have IH: "q \<notin> set b' \<Longrightarrow> backslash \<notin> set b' \<Longrightarrow>
    \<exists>n. gather q (b' @ hd ?L) (tl ?L) = (b' @ v @ [q], n, ls)" for b'
    by simp
  show ?case
  proof (cases "c = newline")
    case True
    obtain n where n: "gather q ((b @ [newline]) @ hd ?L) (tl ?L) = ((b @ [newline]) @ v @ [q], n, ls)"
      using IH [of "b @ [newline]"] Cons.prems True by auto
    obtain h T where L: "?L = h # T" by (cases ?L) auto
    have "gather q b ?L = (b @ newline # v @ [q], Suc n, ls)"
      using n closingIndex_None [of q b] Cons.prems by (simp add: L)
    with True show ?thesis by (auto simp: split_lines_Cons_newline)
  next
    case False
    then have "split_lines (c # v @ q # t) = (c # hd ?L) # tl ?L"
      using Cons.prems by (intro split_lines_Cons) auto
    then show ?thesis using IH [of "b @ [c]"] Cons.prems by auto
  qed
qed

lemma valid_key_chars: "valid_key k \<Longrightarrow> c \<in> set k \<Longrightarrow> is_word_char c"
  by (cases k) (auto simp: list_all_iff is_word_char_def)

lemma word_char_not:
  "is_word_char c \<Longrightarrow> \<not> js_ws c \<and> c \<noteq> CHR ''='' \<and> c \<noteq> newline \<and> c \<noteq> creturn \<and> c \<noteq> CHR ''#''"
  by (auto simp: is_word_char_def is_upper_def is_lower_def is_digit_def js_ws_def less_eq_char_def)

lemma strip_export_key:
  assumes "valid_key k"
  shows "strip_export (k @ CHR ''='' # r) = k @ CHR ''='' # r"
proof -
  have ne: "c \<in> set k \<or> c = CHR ''='' \<Longrightarrow> \<not> js_ws c" for c
    using valid_key_chars [OF assms] word_char_not by (auto simp: js_ws_def)
  have ns: "CHR ''='' \<notin> set k"
    using valid_key_chars [OF assms] word_char_not by blast
  show ?thesis
  proof (cases "6 \<le> length k")
    case True
    then have "drop 6 (k @ CHR ''='' # r) = drop 6 k @ CHR ''='' # r" by simp
    moreover have "\<not> js_ws (hd (drop 6 k @ CHR ''='' # r))"
    proof (cases "drop 6 k")
      case (Cons d ds)
      then have "d \<in> set k" by (metis in_set_dropD list.set_intros(1))
      with Cons ne show ?thesis by simp
    qed (simp add: ne)
    ultimately show ?thesis by (simp add: strip_export_def Let_def)
  next
    case False
    then have "CHR ''='' \<in> set (take 6 (k @ CHR ''='' # r))"
      by (simp add: take_Cons')
    moreover have "length ''export'' = 6" "CHR ''='' \<notin> set ''export''" by simp_all
    ultimately have "\<not> startsWith (k @ CHR ''='' # r) ''export''"
      unfolding startsWith_def by metis
    then show ?thesis by (simp add: strip_export_def Let_def)
  qed
qed


lemma valid_key_facts:
  assumes "valid_key k"
  shows "k \<noteq> []" "\<not> js_ws (hd k)" "hd k \<noteq> CHR ''#''" "CHR ''='' \<notin> set k" "trim k = k"
    "newline \<notin> set k" "creturn \<notin> set k"
proof -
  show ne: "k \<noteq> []" using assms by auto
  have w: "c \<in> set k \<Longrightarrow> is_word_char c" for c
    using valid_key_chars [OF assms] .
  then show "\<not> js_ws (hd k)" "hd k \<noteq> CHR ''#''" using ne word_char_not [of "hd k"] by auto
  show "CHR ''='' \<notin> set k" "newline \<notin> set k" "creturn \<notin> set k" using w word_char_not by blast+
  show "trim k = k" using w word_char_not by (intro trim_no_ws) blast
qed

lemma hd_last_split_lines:
  assumes "v = [] \<or> creturn \<notin> set v" "q \<noteq> newline" "q \<noteq> creturn"
  shows "hd (split_lines (v @ [q])) = (if tl (split_lines v) = [] then v @ [q] else hd (split_lines v))"
proof (cases "newline \<in> set v")
  case False
  with assms show ?thesis by (simp add: split_lines_no_newline)
next
  case True
  then obtain a b where v: "v = a @ newline # b" and a: "newline \<notin> set a"
    by (metis split_list_first)
  have "a = [] \<or> last a \<noteq> creturn" using assms v by (cases a rule: rev_cases) auto
  with v a show ?thesis by (simp add: split_lines_append)
qed

lemma hd_split_lines_tail:
  assumes "tail_lines t ls" "creturn \<notin> set v" "q \<noteq> newline" "q \<noteq> creturn"
  shows "hd (split_lines (v @ q # t)) = hd (split_lines (v @ [q]))"
  using assms(2)
proof (induction v)
  case Nil
  then show ?case using split_lines_quote_tail [OF assms(1,3,4)] assms by simp
next
  case (Cons c v)
  then show ?case
    using assms(3,4) by (cases "c = newline"; cases v) (auto simp: split_lines_Cons_newline split_lines_Cons)
qed

text \<open>The physical first line of a rendered entry survives the line-level \<open>trim\<close>.\<close>

lemma first_line_trim:
  assumes "valid_key k" "q = squote \<or> q = dquote" "creturn \<notin> set v" "first_line_kept v" "tail_lines t ls"
  shows "trim (k @ CHR ''='' # q # hd (split_lines (v @ q # t))) = k @ CHR ''='' # q # hd (split_lines (v @ q # t))"
    (is "trim ?l = ?l")
proof (rule trim_id, intro disjI2 conjI)
  have q: "q \<noteq> newline" "q \<noteq> creturn" "\<not> js_ws q" using assms(2) by (auto simp: js_ws_def)
  show "\<not> js_ws (hd ?l)" using valid_key_facts [OF assms(1)] by simp
  have "hd (split_lines (v @ q # t)) = (if tl (split_lines v) = [] then v @ [q] else hd (split_lines v))"
    using hd_split_lines_tail [OF assms(5,3) q(1,2)] hd_last_split_lines [of v q] assms(3) q by simp
  then show "\<not> js_ws (last ?l)"
    using assms(4) q by (auto simp: first_line_kept_def)
qed

lemma parse_line_render:
  assumes "renderable q e" "q = squote \<or> q = dquote" "tail_lines t ls"
  shows "\<exists>j. parse_line i (hd (split_lines (render_entry q e @ t))) (tl (split_lines (render_entry q e @ t)))
    = (Entry (entry_key e) (entry_value e), j, ls)"
proof -
  let ?k = "entry_key e" and ?v = "entry_value e"
  let ?L = "split_lines (?v @ q # t)"
  let ?raw = "?k @ CHR ''='' # q # hd ?L"
  from assms(1) have k: "valid_key ?k" and v: "q \<notin> set ?v" "backslash \<notin> set ?v" "creturn \<notin> set ?v"
    "first_line_kept ?v" by (auto simp: renderable_def)
  note kf = valid_key_facts [OF k]
  have pre: "newline \<notin> set p \<Longrightarrow> creturn \<notin> set p \<Longrightarrow>
      split_lines (p @ s) = (p @ hd (split_lines s)) # tl (split_lines s)" for p s
    by (induction p) (auto simp: split_lines_Cons)
  have q: "q \<noteq> newline" "q \<noteq> creturn" "\<not> js_ws q" using assms(2) by (auto simp: js_ws_def)
  have sl: "split_lines (render_entry q e @ t) = ?raw # tl ?L"
    using pre [of "?k @ [CHR ''='', q]" "?v @ q # t"] kf q by (auto simp: render_entry_def)
  have tr: "trim ?raw = ?raw" using k assms(2,3) v by (intro first_line_trim) auto
  have tr2: "trim (q # hd ?L) = q # hd ?L"
    using trim_last [of ?raw] tr q by (intro trim_id) auto
  have ns: "\<not> startsWith ?raw ''#''" using kf by (cases ?k) (auto simp: startsWith_def)
  have io: "indexOf (CHR ''='') ?raw = Some (length ?k)"
    using kf(4) by (rule indexOf_append)
  obtain n where g: "gather q (hd ?L) (tl ?L) = (?v @ [q], n, ls)"
    using gather_value [OF assms(3,2), of ?v "[]"] v by auto
  have c: "closingIndex (?v @ [q]) q = Some (length ?v)"
    using v assms(2) by (intro closingIndex_append) auto
  have "parse_line i ?raw (tl ?L) = (Entry ?k ?v, i + n + 1, ls)"
    using tr tr2 ns io g c k assms(2) kf v strip_export_key [OF k] unescapeDouble_id
    by (auto simp: parse_line_def Let_def)
  with sl show ?thesis by auto
qed

lemma parse_loop_render:
  assumes "q = squote \<or> q = dquote" "list_all (renderable q) es" "es \<noteq> []"
  shows "parse_loop i (split_lines (render q es)) = \<lparr>entries = es, skipped = []\<rparr>"
  using assms(2,3)
proof (induction es arbitrary: i)
  case (Cons e es)
  define t where "t = (if es = [] then [] else newline # render q es)"
  define ls where "ls = (if es = [] then [] else split_lines (render q es))"
  have tl: "tail_lines t ls" by (auto simp: t_def ls_def intro: tail_lines.intros)
  have r: "render q (e # es) = render_entry q e @ t"
    by (cases es) (auto simp: render_def t_def)
  obtain j where "parse_line i (hd (split_lines (render q (e # es)))) (tl (split_lines (render q (e # es))))
    = (Entry (entry_key e) (entry_value e), j, ls)"
    using parse_line_render [OF _ assms(1) tl, of e i] Cons.prems r by auto
  moreover obtain h T where "split_lines (render q (e # es)) = h # T"
    by (cases "split_lines (render q (e # es))") auto
  moreover have "parse_loop j ls = \<lparr>entries = es, skipped = []\<rparr>"
    using Cons by (cases "es = []") (auto simp: ls_def)
  ultimately show ?case by (simp add: add_entry_def)
qed simp

lemma parseDotenv_render:
  assumes "q = squote \<or> q = dquote" "list_all (renderable q) es"
  shows "parseDotenv (render q es) = \<lparr>entries = es, skipped = []\<rparr>"
proof (cases "es = []")
  case True
  then show ?thesis by (simp add: parseDotenv_def render_def parse_line_def)
next
  case False
  with assms show ?thesis by (simp add: parseDotenv_def parse_loop_render)
qed

definition parse_clean :: "string \<Rightarrow> ParsedEntry list option" where
  "parse_clean s = (let r = parseDotenv s in if skipped r = [] then Some (entries r) else None)"

interpretation dotenv_single: codec "render squote" parse_clean "list_all (renderable squote)"
  by unfold_locales (simp add: parse_clean_def parseDotenv_render)

interpretation dotenv_double: codec "render dquote" parse_clean "list_all (renderable dquote)"
  by unfold_locales (simp add: parse_clean_def parseDotenv_render)


section \<open>Lines outside the values\<close>

text \<open>The line index only shows up in the skipped reports, so a parse that starts later is shifted.\<close>

definition shift_skipped :: "nat \<Rightarrow> ParseResult \<Rightarrow> ParseResult" where
  "shift_skipped d r = r\<lparr>skipped := map (\<lambda>s. s\<lparr>skip_line := skip_line s + d\<rparr>) (skipped r)\<rparr>"

fun shift_outcome :: "nat \<Rightarrow> outcome \<Rightarrow> outcome" where
  "shift_outcome d (SkippedLine n t) = SkippedLine (n + d) t"
| "shift_outcome d oc = oc"

lemma parse_line_shift:
  "parse_line (i + d) raw ls =
     (case parse_line i raw ls of (oc, j, rest) \<Rightarrow> (shift_outcome d oc, j + d, rest))"
  by (auto simp: parse_line_def Let_def split: option.splits prod.splits)

lemma parse_loop_shift: "parse_loop (i + d) ls = shift_skipped d (parse_loop i ls)"
proof (induction i ls rule: parse_loop.induct)
  case (1 i)
  then show ?case by (simp add: shift_skipped_def)
next
  case (2 i raw ls)
  obtain oc j rest where p: "parse_line i raw ls = (oc, j, rest)"
    by (cases "parse_line i raw ls") auto
  with 2 show ?case
    by (cases oc) (auto simp: parse_line_shift shift_skipped_def add_entry_def add_skipped_def)
qed

lemma indexOf_trim_strip:
  assumes "CHR ''='' \<notin> set s"
  shows "indexOf (CHR ''='') (strip_export (trim s)) = None"
proof -
  have "set (strip_export (trim s)) \<subseteq> set (trim s)"
    by (auto simp: strip_export_def Let_def dest!: set_dropWhileD in_set_dropD)
  with trim_subset assms show ?thesis by (auto simp: indexOf_None)
qed

lemma split_lines_subset: "l \<in> set (split_lines s) \<Longrightarrow> set l \<subseteq> set s"
proof (induction s arbitrary: l rule: split_lines.induct)
  case (3 c d ds)
  have hd: "c \<noteq> newline \<Longrightarrow> \<not> (c = creturn \<and> d = newline) \<Longrightarrow> set (hd (split_lines (d # ds))) \<subseteq> set (d # ds)"
    using "3.IH"(3) hd_tl_split_lines(1) by blast
  have tl: "c \<noteq> newline \<Longrightarrow> \<not> (c = creturn \<and> d = newline) \<Longrightarrow> m \<in> set (tl (split_lines (d # ds))) \<Longrightarrow> set m \<subseteq> set (d # ds)" for m
    using "3.IH"(3) hd_tl_split_lines(2) by blast
  show ?case
  proof (cases "c = newline \<or> c = creturn \<and> d = newline")
    case True
    with "3.prems" "3.IH"(1,2) show ?thesis by (auto split: if_splits)
  next
    case False
    then have "l = c # hd (split_lines (d # ds)) \<or> l \<in> set (tl (split_lines (d # ds)))"
      using "3.prems" by auto
    then show ?thesis
    proof
      assume "l = c # hd (split_lines (d # ds))"
      then show ?thesis using hd False by auto
    next
      assume "l \<in> set (tl (split_lines (d # ds)))"
      then show ?thesis using tl False by fastforce
    qed
  qed
qed (auto split: if_splits)

lemma parse_loop_no_equals:
  "(\<And>l. l \<in> set ls \<Longrightarrow> CHR ''='' \<notin> set l) \<Longrightarrow> entries (parse_loop i ls) = []"
proof (induction i ls rule: parse_loop.induct)
  case (2 i raw ls)
  have "indexOf (CHR ''='') (strip_export (trim raw)) = None"
    using 2(4) by (intro indexOf_trim_strip) auto
  then have "\<exists>oc. parse_line i raw ls = (oc, i + 1, ls) \<and> (\<forall>k v. oc \<noteq> Entry k v)"
    by (auto simp: parse_line_def Let_def)
  then obtain oc where oc: "parse_line i raw ls = (oc, i + 1, ls)" "\<forall>k v. oc \<noteq> Entry k v" by blast
  then show ?case using 2 by (cases oc) auto
qed simp

lemma gather_unclosed:
  assumes "q \<notin> set b" "\<And>l. l \<in> set ls \<Longrightarrow> q \<notin> set l" "q \<noteq> newline"
  shows "\<exists>b'. gather q b ls = (b', length ls, []) \<and> q \<notin> set b'"
  using assms by (induction q b ls rule: gather.induct) (auto simp: closingIndex_None split: prod.splits)

lemma parse_unclosed:
  assumes "valid_key k" "q = squote \<or> q = dquote" "q \<notin> set s" "creturn \<notin> set s"
  shows "parseDotenv (k @ CHR ''='' # q # s) =
    \<lparr>entries = [], skipped = [\<lparr>skip_line = length (split_lines s),
        skip_text = truncate_text (k @ [CHR ''='', ellipsis])\<rparr>]\<rparr>"
proof -
  note kf = valid_key_facts [OF assms(1)]
  let ?L = "split_lines s"
  let ?raw = "k @ CHR ''='' # q # hd ?L"
  have q: "q \<noteq> newline" "q \<noteq> creturn" "\<not> js_ws q" using assms(2) by (auto simp: js_ws_def)
  have pre: "newline \<notin> set p \<Longrightarrow> creturn \<notin> set p \<Longrightarrow>
      split_lines (p @ s) = (p @ hd (split_lines s)) # tl (split_lines s)" for p
    by (induction p) (auto simp: split_lines_Cons)
  have sl: "split_lines (k @ CHR ''='' # q # s) = ?raw # tl ?L"
    using pre [of "k @ [CHR ''='', q]"] kf q by simp
  have te: "\<not> js_ws (last p) \<Longrightarrow> p \<noteq> [] \<Longrightarrow> trimEnd (p @ x) = p @ trimEnd x" for p x
    using dropWhile_rev_id [of p js_ws]
    by (cases "dropWhile js_ws (rev x) = []") (auto simp: trimEnd_def dropWhile_append dropWhile_append3)
  have "trim ?raw = (k @ [CHR ''='', q]) @ trimEnd (hd ?L)"
    using kf q te [of "k @ [CHR ''='', q]" "hd ?L"] by (auto simp: trim_def trimStart_id)
  then have tr: "trim ?raw = k @ CHR ''='' # q # trimEnd (hd ?L)" by simp
  have te2: "trimEnd (q # x) = q # trimEnd x" for x
    using te [of "[q]" x] q by simp
  have tr2: "trim (q # trimEnd (hd ?L)) = q # trimEnd (hd ?L)"
    using q trim_trim [of "q # hd ?L"] by (simp add: trim_def trimStart_id te2)
  have nq: "l \<in> set ?L \<Longrightarrow> q \<notin> set l" for l
    using split_lines_subset [of l s] assms(3) by auto
  have "q \<notin> set (trimEnd (hd ?L))"
    using nq [OF hd_tl_split_lines(1)] trimEnd_prefix set_mono_prefix by blast
  then obtain b where g: "gather q (trimEnd (hd ?L)) (tl ?L) = (b, length (tl ?L), [])" "q \<notin> set b"
    using gather_unclosed [of q "trimEnd (hd ?L)" "tl ?L"] nq hd_tl_split_lines(2) q(1) by blast
  have ns: "\<not> startsWith (k @ x) ''#''" for x
    using kf by (cases k) (auto simp: startsWith_def)
  have io: "indexOf (CHR ''='') (k @ CHR ''='' # x) = Some (length k)" for x
    using kf(4) by (rule indexOf_append)
  have len: "length (tl ?L) + 1 = length ?L" by (cases ?L) auto
  have "parse_line 0 ?raw (tl ?L) =
    (SkippedLine (length ?L) (truncate_text (k @ [CHR ''='', ellipsis])), length ?L, [])"
    using assms(1,2) g closingIndex_None [OF g(2)] tr tr2 ns io kf strip_export_key [OF assms(1)] len
    by (auto simp: parse_line_def Let_def)
  then show ?thesis by (simp add: parseDotenv_def sl add_skipped_def)
qed

section \<open>Properties\<close>

text \<open>C14: Writing entries as quoted assignments, one per line, and parsing the text gives exactly those
  entries back and skips nothing.  Values may span several lines.  They may not contain the
  quote, a backslash or a carriage return, and the first line of a multi-line value may not end in
  white space.\<close>

theorem parse_render_roundtrip:
  assumes "q = squote \<or> q = dquote" "list_all (renderable q) es"
  shows "parseDotenv (render q es) = \<lparr>entries = es, skipped = []\<rparr>"
  using assms by (rule parseDotenv_render)

lemmas dotenv_eval = renderable_def first_line_kept_def is_upper_def is_lower_def is_digit_def
  is_word_char_def less_eq_char_def js_ws_def

theorem parse_render_roundtrip_witness:
  "parseDotenv (render dquote [\<lparr>entry_key = ''PEM'', entry_value = ''a b'' @ newline # ''c=''\<rparr>,
      \<lparr>entry_key = ''B_2'', entry_value = []\<rparr>])
    = \<lparr>entries = [\<lparr>entry_key = ''PEM'', entry_value = ''a b'' @ newline # ''c=''\<rparr>,
      \<lparr>entry_key = ''B_2'', entry_value = []\<rparr>], skipped = []\<rparr>"
  by (rule parse_render_roundtrip) (simp_all add: dotenv_eval)

text \<open>Whatever text is pasted, every reported key matches the key pattern the API accepts, every
  skipped report names a line of the text (counted from one) and carries at most 25 characters of it,
  and there are never more reports than lines.\<close>

theorem parse_reports_wellformed:
  "list_all (\<lambda>e. valid_key (entry_key e)) (entries (parseDotenv s)) \<and>
   list_all (\<lambda>k. 1 \<le> skip_line k \<and> skip_line k \<le> length (split_lines s) \<and> length (skip_text k) \<le> 25)
     (skipped (parseDotenv s)) \<and>
   length (entries (parseDotenv s)) + length (skipped (parseDotenv s)) \<le> length (split_lines s)"
  using parse_loop_ok [of 0 "split_lines s"]
  by (auto simp: result_ok_def parseDotenv_def list_all_iff Suc_le_eq)

text \<open>A comment line contributes nothing: the rest of the text parses to the same entries, and the
  skipped reports only move down by one line.\<close>

theorem comment_line_ignored:
  assumes "newline \<notin> set c" "last (CHR ''#'' # c) \<noteq> creturn"
  shows "parseDotenv (CHR ''#'' # c @ newline # s) = shift_skipped 1 (parseDotenv s)"
proof -
  have "trimStart (CHR ''#'' # c) = CHR ''#'' # c" by (simp add: trimStart_def js_ws_def)
  moreover have "\<exists>d. trimEnd (CHR ''#'' # c) = CHR ''#'' # d"
  proof -
    have "trimEnd (CHR ''#'' # c) \<noteq> []" by (auto simp: trimEnd_def js_ws_def)
    with trimEnd_prefix [of "CHR ''#'' # c"] show ?thesis by (cases "trimEnd (CHR ''#'' # c)") auto
  qed
  ultimately obtain d where "trim (CHR ''#'' # c) = CHR ''#'' # d" by (auto simp: trim_def)
  then have pl: "parse_line 0 (CHR ''#'' # c) ls = (Ignored, 1, ls)" for ls
    by (simp add: parse_line_def startsWith_def)
  have "split_lines ((CHR ''#'' # c) @ newline # s) = (CHR ''#'' # c) # split_lines s"
    using assms by (intro split_lines_append) auto
  then show ?thesis
    using pl parse_loop_shift [of 0 1 "split_lines s"] by (simp add: parseDotenv_def)
qed

theorem comment_line_ignored_witness:
  "parseDotenv (''# x=1'' @ newline # ''A=2'') = shift_skipped 1 (parseDotenv ''A=2'')"
  using comment_line_ignored [of "'' x=1''" "''A=2''"] by simp

text \<open>An opening quote that is never closed swallows the whole rest of the text: no entry comes out
  of it, and the single report carries the number of the last line of the text, not of the line
  where the value began.\<close>

theorem unclosed_quote_swallows_rest:
  assumes "valid_key k" "q = squote \<or> q = dquote" "q \<notin> set s" "creturn \<notin> set s"
  shows "entries (parseDotenv (k @ CHR ''='' # q # s)) = [] \<and>
    map skip_line (skipped (parseDotenv (k @ CHR ''='' # q # s))) = [length (split_lines s)]"
  using parse_unclosed [OF assms] by simp

theorem unclosed_quote_swallows_rest_witness:
  "entries (parseDotenv (''A'' @ CHR ''='' # dquote # (''x'' @ newline # ''B=2''))) = [] \<and>
    map skip_line (skipped (parseDotenv (''A'' @ CHR ''='' # dquote # (''x'' @ newline # ''B=2'')))) = [2]"
  using unclosed_quote_swallows_rest [of "''A''" dquote "''x'' @ newline # ''B=2''"]
  by (simp add: dotenv_eval)

text \<open>The escape passes run newline first and backslash last, so an escaped backslash in front of the
  letter n does not come back as a backslash and an n: the backslash stays and the n becomes a line
  break.\<close>

theorem escaped_backslash_before_n:
  "unescapeDouble [backslash, backslash, CHR ''n''] = [backslash, newline]"
  by (simp add: unescapeDouble_def)

text \<open>A value that begins with a hash after the equals sign is kept, because the white space that
  would mark the comment has been trimmed already, and a quoted value whose first line ends in white
  space loses that white space to the line-level trim.\<close>

theorem trimmed_before_reading:
  "parseDotenv ''KEY= # note'' = \<lparr>entries = [\<lparr>entry_key = ''KEY'', entry_value = ''# note''\<rparr>], skipped = []\<rparr> \<and>
   parseDotenv (''K='' @ [dquote] @ ''a '' @ [newline] @ ''b'' @ [dquote])
     = \<lparr>entries = [\<lparr>entry_key = ''K'', entry_value = ''a'' @ newline # ''b''\<rparr>], skipped = []\<rparr>"
  by code_simp

text \<open>Text without an equals sign is never taken for a file, while any non-empty list of quoted
  assignments is.\<close>

theorem looks_like_dotenv_sound:
  "(CHR ''='' \<notin> set s \<longrightarrow> \<not> looksLikeDotenv s) \<and>
   (list_all (renderable dquote) es \<and> es \<noteq> [] \<longrightarrow> looksLikeDotenv (render dquote es))"
proof (intro conjI impI)
  assume "CHR ''='' \<notin> set s"
  then have "entries (parseDotenv s) = []"
    using split_lines_subset unfolding parseDotenv_def by (intro parse_loop_no_equals) blast
  then show "\<not> looksLikeDotenv s" by (simp add: looksLikeDotenv_def)
next
  assume "list_all (renderable dquote) es \<and> es \<noteq> []"
  then show "looksLikeDotenv (render dquote es)"
    by (simp add: looksLikeDotenv_def parseDotenv_render)
qed

theorem looks_like_dotenv_sound_witness:
  "\<not> looksLikeDotenv ''hunter2'' \<and>
   looksLikeDotenv (render dquote [\<lparr>entry_key = ''A'', entry_value = ''x''\<rparr>])"
  using looks_like_dotenv_sound [of "''hunter2''" "[\<lparr>entry_key = ''A'', entry_value = ''x''\<rparr>]"]
  by (simp add: dotenv_eval)

end
