(* ===== verification/Json.thy ===== *)
theory Json imports Prelude begin

text \<open>
  The values the application exchanges as JSON, and the JavaScript operations it applies to them:
  property access, truthiness, nullish coalescing, and conversion to a string in a template literal.
  \<open>undefined\<close> is \<open>None\<close> wherever a JavaScript expression may produce it, so an expression has type
  \<open>json option\<close>.  Numbers are integers: the only numbers the sources compute with are counts, status
  codes, version ordinals and timestamps.
\<close>

datatype json =
    JNull
  | JBool bool
  | JNum int
  | JStr string
  | JArr "json list"
  | JObj "(string \<times> json) list"

type_synonym jsval = "json option"

fun typeof_object :: "json \<Rightarrow> bool" where
  "typeof_object JNull = True"
| "typeof_object (JArr xs) = True"
| "typeof_object (JObj fs) = True"
| "typeof_object _ = False"

text \<open>Truthiness of an expression: \<open>undefined\<close>, \<open>null\<close>, \<open>false\<close>, 0 and the empty string are falsy.\<close>

fun truthy :: "jsval \<Rightarrow> bool" where
  "truthy None = False"
| "truthy (Some JNull) = False"
| "truthy (Some (JBool b)) = b"
| "truthy (Some (JNum n)) = (n \<noteq> 0)"
| "truthy (Some (JStr s)) = (s \<noteq> [])"
| "truthy (Some (JArr xs)) = True"
| "truthy (Some (JObj fs)) = True"

definition nullish :: "jsval \<Rightarrow> bool" where
  "nullish v = (v = None \<or> v = Some JNull)"

text \<open>\<open>a ?? b\<close>\<close>

definition coalesce :: "jsval \<Rightarrow> jsval \<Rightarrow> jsval" where
  "coalesce a b = (if nullish a then b else a)"

text \<open>An own property of an object; every other value the sources index has no such property.\<close>

fun field :: "json \<Rightarrow> string \<Rightarrow> jsval" where
  "field (JObj fs) k = map_of fs k"
| "field _ k = None"

text \<open>\<open>v?.k\<close>\<close>

definition optfield :: "jsval \<Rightarrow> string \<Rightarrow> jsval" where
  "optfield v k = (case v of None \<Rightarrow> None | Some j \<Rightarrow> field j k)"

text \<open>String conversion, as template literals and the \<open>Error\<close> constructor apply it.\<close>

fun json_string :: "json \<Rightarrow> string" where
  "json_string JNull = ''null''"
| "json_string (JBool b) = (if b then ''true'' else ''false'')"
| "json_string (JNum n) = show_int n"
| "json_string (JStr s) = s"
| "json_string (JArr xs) = join '','' (map (\<lambda>x. if x = JNull then [] else json_string x) xs)"
| "json_string (JObj fs) = ''[object Object]''"

definition js_string :: "jsval \<Rightarrow> string" where
  "js_string v = (case v of None \<Rightarrow> ''undefined'' | Some j \<Rightarrow> json_string j)"

text \<open>
  An object literal as JSON sends it: a property whose value is \<open>undefined\<close> is left out.
\<close>

definition obj :: "(string \<times> jsval) list \<Rightarrow> json" where
  "obj fs = JObj (List.map_filter (\<lambda>(k, v). map_option (\<lambda>j. (k, j)) v) fs)"

lemma truthy_Some_JStr [simp]: "truthy (Some (JStr s)) \<longleftrightarrow> s \<noteq> []"
  by simp

lemma nullish_simps [simp]:
  "nullish None" "nullish (Some JNull)" "\<not> nullish (Some (JBool b))" "\<not> nullish (Some (JNum n))"
  "\<not> nullish (Some (JStr s))" "\<not> nullish (Some (JArr xs))" "\<not> nullish (Some (JObj fs))"
  by (simp_all add: nullish_def)

lemma coalesce_simps [simp]:
  "coalesce None b = b" "coalesce (Some JNull) b = b"
  "\<not> nullish a \<Longrightarrow> coalesce a b = a"
  by (simp_all add: coalesce_def)

lemma truthy_not_nullish: "truthy v \<Longrightarrow> \<not> nullish v"
  by (cases v) (auto simp: nullish_def)

lemma optfield_simps [simp]:
  "optfield None k = None" "optfield (Some j) k = field j k"
  by (simp_all add: optfield_def)

lemma js_string_simps [simp]:
  "js_string None = ''undefined''" "js_string (Some j) = json_string j"
  by (simp_all add: js_string_def)

lemma obj_Nil [simp]: "obj [] = JObj []"
  by (simp add: obj_def map_filter_simps)

lemma obj_Cons [simp]:
  "obj ((k, None) # fs) = obj fs"
  "obj ((k, Some j) # fs) = (case obj fs of JObj gs \<Rightarrow> JObj ((k, j) # gs))"
  by (simp_all add: obj_def map_filter_simps)

text \<open>Every property of an object literal is one of those written in it.\<close>

lemma field_obj:
  "distinct (map fst fs) \<Longrightarrow> field (obj fs) k = (case map_of fs k of None \<Rightarrow> None | Some v \<Rightarrow> v)"
proof (induction fs)
  case (Cons f fs)
  obtain k' v where f: "f = (k', v)" by (cases f)
  obtain gs where gs: "obj fs = JObj gs" by (auto simp: obj_def)
  have fresh: "map_of fs k' = None" using Cons.prems f by (simp add: map_of_eq_None_iff)
  with Cons f gs show ?case by (cases v) auto
qed (simp add: obj_def map_filter_simps)

end
