(* ===== verification/Errors.thy ===== *)
theory Errors imports Json begin

text \<open>
  The exceptions of the server code as values.  \<open>CoreApiError\<close> carries status, code, message and
  details (web/lib/core-api.ts), \<open>NotAuthenticatedError\<close> is its subclass with fixed contents,
  \<open>CsrfError\<close> and \<open>ConnectionError\<close> are the two other classes of the application, and the last three
  are the errors the JavaScript runtime or a plain \<open>throw new Error\<close> raise.
\<close>

datatype exn =
    CoreApiError nat json string jsval
  | NotAuthenticatedError
  | CsrfError string
  | ConnectionError string
  | URIError
  | TypeError
  | PlainError string

definition notAuthenticatedMessage :: string where
  "notAuthenticatedMessage = ''Your session has ended. Sign in again.''"

text \<open>\<open>error.message\<close>; the runtime's own texts are those of V8.\<close>

fun exn_message :: "exn \<Rightarrow> string" where
  "exn_message (CoreApiError s c m d) = m"
| "exn_message NotAuthenticatedError = notAuthenticatedMessage"
| "exn_message (CsrfError m) = m"
| "exn_message (ConnectionError m) = m"
| "exn_message URIError = ''URI malformed''"
| "exn_message TypeError = ''Cannot read properties of undefined''"
| "exn_message (PlainError m) = m"

section \<open>Sequencing fallible computations\<close>

definition then_ok :: "'e + 'a \<Rightarrow> ('a \<Rightarrow> 'e + 'b) \<Rightarrow> 'e + 'b" where
  "then_ok r f = (case r of Inl e \<Rightarrow> Inl e | Inr a \<Rightarrow> f a)"

lemma then_ok_simps [simp]:
  "then_ok (Inl e) f = Inl e" "then_ok (Inr a) f = f a"
  by (simp_all add: then_ok_def)

lemma then_ok_Inr: "then_ok r f = Inr b \<longleftrightarrow> (\<exists>a. r = Inr a \<and> f a = Inr b)"
  by (cases r) auto

lemma then_ok_Inl: "then_ok r f = Inl e \<longleftrightarrow> r = Inl e \<or> (\<exists>a. r = Inr a \<and> f a = Inl e)"
  by (cases r) auto

text \<open>\<open>Array.prototype.map\<close> with a callback that may throw: the first exception wins.\<close>

fun map_ok :: "('a \<Rightarrow> 'e + 'b) \<Rightarrow> 'a list \<Rightarrow> 'e + 'b list" where
  "map_ok f [] = Inr []"
| "map_ok f (x # xs) = then_ok (f x) (\<lambda>y. then_ok (map_ok f xs) (\<lambda>ys. Inr (y # ys)))"

lemma map_ok_Inr: "map_ok f xs = Inr ys \<longleftrightarrow> list_all2 (\<lambda>x y. f x = Inr y) xs ys"
  by (induction xs arbitrary: ys) (auto simp: then_ok_Inr list_all2_Cons1)

end
