(* ===== verification/Connection.thy ===== *)
theory Connection imports Errors begin

text \<open>
  The connection URI (web/lib/connection.ts): one string that carries the core API's address, the
  service credential, the posture and the browser origin.  The platform's URL parser and
  percent-decoder are arguments; a parsed URL is the record of the components the source reads.
\<close>

section \<open>Model\<close>

record url =
  u_protocol :: string
  u_username :: string
  u_password :: string
  u_hostname :: string
  u_port :: string
  u_pathname :: string
  u_params :: "(string \<times> string) list"
  u_search :: string
  u_hash :: string
  u_origin :: string
  u_host :: string

datatype Transport = Https | Http
datatype Posture = Development | Production

record connection =
  coreApiUrl :: string
  serviceToken :: string
  posture :: Posture
  transport :: Transport
  appOrigin :: string
  isProduction :: bool
  redacted :: string

definition connection_error :: "string \<Rightarrow> exn" where
  "connection_error m = ConnectionError (m @ [newline, newline] @
     ''WARDER_URL should look like:'' @ [newline] @
     ''  warder+insecure://<service-token>@127.0.0.1:8080/development'' @ [newline] @
     ''  warder://<service-token>@warder-api.internal:8443/production?origin=https://vault.example.com'' @
     [newline, newline] @ ''Generate one with:  go run ./cmd/warder-api init'')"

definition MIN_TOKEN_LENGTH :: nat where "MIN_TOKEN_LENGTH = 32"

fun transport_name :: "Transport \<Rightarrow> string" where
  "transport_name Https = ''https''"
| "transport_name Http = ''http''"

fun posture_name :: "Posture \<Rightarrow> string" where
  "posture_name Development = ''development''"
| "posture_name Production = ''production''"

text \<open>\<open>searchParams.get(name)\<close>: the first value under the name.\<close>

definition search_get :: "url \<Rightarrow> string \<Rightarrow> string option" where
  "search_get u n = map_of (u_params u) n"

text \<open>\<open>pathname.replace(/^\/+|\/+$/g, "")\<close>\<close>

definition strip_slashes :: "string \<Rightarrow> string" where
  "strip_slashes p = rev (dropWhile (\<lambda>c. c = CHR ''/'') (rev (dropWhile (\<lambda>c. c = CHR ''/'') p)))"

definition parse_scheme :: "url \<Rightarrow> exn + Transport" where
  "parse_scheme u =
     (if u_protocol u = ''warder:'' then Inr Https
      else if u_protocol u = ''warder+insecure:'' then Inr Http
      else Inl (connection_error (''WARDER_URL uses an unrecognized scheme '' @ [dquote] @
        replace_first (CHR '':'') [] (u_protocol u) @ [dquote] @
        ''. Use '' @ [dquote] @ ''warder'' @ [dquote] @ '' for TLS, or '' @ [dquote] @ ''warder+insecure'' @ [dquote] @
        '' for local development over plain HTTP.'')))"

definition parse_token :: "(string \<Rightarrow> string option) \<Rightarrow> url \<Rightarrow> exn + string" where
  "parse_token decode u =
     (if u_password u \<noteq> [] then
        Inl (connection_error (''WARDER_URL should carry the service token as the whole userinfo component, '' @
          ''with no colon: warder://<token>@host:port/environment''))
      else case decode (u_username u) of
        None \<Rightarrow> Inl URIError
      | Some token \<Rightarrow>
          if token = [] then
            Inl (connection_error (''WARDER_URL has no service token before the '' @ [squote, CHR ''@'', squote] @ ''.'' @
              [newline, newline] @ ''If you did set one, check what it contains: a '' @
              [squote, CHR ''/'', squote] @ '', '' @ [squote, CHR ''@'', squote] @ '', '' @
              [squote, CHR '':'', squote] @ '' or '' @ [squote, CHR ''?'', squote] @ '' ends the'' @ [newline] @
              ''authority early, so the token never reaches this parser. Base64 output is the'' @ [newline] @
              ''usual cause: its alphabet includes '' @ [squote, CHR ''/'', squote] @ ''.'' @ [newline, newline] @
              ''Generate one with only URL-safe characters:'' @ [newline, newline] @ ''  openssl rand -hex 32''))
          else if length token < MIN_TOKEN_LENGTH then
            Inl (connection_error (''The service token in WARDER_URL must be at least '' @
              show_nat MIN_TOKEN_LENGTH @ '' characters. '' @
              ''It is the only thing standing between a network-adjacent caller and the core API.''))
          else Inr token)"

definition parse_posture :: "url \<Rightarrow> exn + Posture" where
  "parse_posture u =
     (let p = strip_slashes (u_pathname u) in
      if p = ''development'' then Inr Development
      else if p = ''production'' then Inr Production
      else if p = [] then
        Inl (connection_error ''WARDER_URL is missing the environment path. End it with /development or /production.'')
      else Inl (connection_error (''WARDER_URL has an unrecognized environment '' @ [dquote] @ p @ [dquote] @
        ''. Use /development or /production.'')))"

definition resolveAppOrigin :: "(string \<Rightarrow> url option) \<Rightarrow> url \<Rightarrow> Posture \<Rightarrow> exn + string" where
  "resolveAppOrigin new_url u po =
     (case search_get u ''origin'' of
        Some (d # ds) \<Rightarrow>
          (case new_url (d # ds) of
             None \<Rightarrow> Inl (connection_error (''The origin parameter in WARDER_URL is not a valid URL: '' @ (d # ds)))
           | Some parsed \<Rightarrow>
               if u_protocol parsed \<noteq> ''https:'' \<and> po = Production then
                 Inl (connection_error (''The origin parameter must use https in production. Cookies are marked Secure and '' @
                   ''would not be sent over plain HTTP.''))
               else Inr (u_origin parsed))
      | _ \<Rightarrow>
          if po = Production then
            Inl (connection_error (''WARDER_URL must declare the browser origin in production, so that cross-site requests '' @
              ''can be refused: ?origin=https://vault.example.com''))
          else Inr ''http://localhost:3000'')"

definition parseConnection ::
    "(string \<Rightarrow> url option) \<Rightarrow> (string \<Rightarrow> string option) \<Rightarrow> string option \<Rightarrow> exn + connection" where
  "parseConnection new_url decode raw =
     (case raw of
        None \<Rightarrow> Inl (connection_error ''WARDER_URL is not set.'')
      | Some r \<Rightarrow>
     if r = [] \<or> trim r = [] then Inl (connection_error ''WARDER_URL is not set.'')
     else case new_url (trim r) of
        None \<Rightarrow> Inl (connection_error ''WARDER_URL is not a valid URI.'')
      | Some u \<Rightarrow>
     then_ok (parse_scheme u) (\<lambda>tr.
     then_ok (parse_token decode u) (\<lambda>token.
     if u_hostname u = [] then Inl (connection_error ''WARDER_URL is missing the core API host.'')
     else then_ok (parse_posture u) (\<lambda>po.
     if po = Production \<and> tr = Http then
       Inl (connection_error (''WARDER_URL uses warder+insecure (plain HTTP) with /production. '' @
         ''The service token and every session would travel unencrypted. Use warder:// for TLS.''))
     else
       let port = (if u_port u \<noteq> [] then '':'' @ u_port u else []) in
       then_ok (resolveAppOrigin new_url u po) (\<lambda>origin.
       Inr \<lparr>coreApiUrl = transport_name tr @ ''://'' @ u_hostname u @ port,
            serviceToken = token, posture = po, transport = tr, appOrigin = origin,
            isProduction = (po = Production),
            redacted = u_protocol u @ ''//[redacted]@'' @ u_hostname u @ port @ ''/'' @ posture_name po\<rparr>)))))"

section \<open>Lemmas\<close>

lemma parse_scheme_Inr:
  "parse_scheme u = Inr tr \<longleftrightarrow> (u_protocol u = ''warder:'' \<and> tr = Https \<or> u_protocol u = ''warder+insecure:'' \<and> tr = Http)"
  by (auto simp: parse_scheme_def)

lemma parse_token_Inr:
  "parse_token decode u = Inr t \<longleftrightarrow> u_password u = [] \<and> decode (u_username u) = Some t \<and> 32 \<le> length t"
  by (auto simp: parse_token_def MIN_TOKEN_LENGTH_def split: option.splits)

lemma parse_posture_Inr:
  "parse_posture u = Inr po \<longleftrightarrow> strip_slashes (u_pathname u) = posture_name po"
  by (cases po) (auto simp: parse_posture_def Let_def)

lemma resolveAppOrigin_production:
  "resolveAppOrigin nu u Production = Inr og \<longleftrightarrow>
     (\<exists>d p. search_get u ''origin'' = Some d \<and> d \<noteq> [] \<and> nu d = Some p \<and> u_protocol p = ''https:'' \<and> og = u_origin p)"
  by (auto simp: resolveAppOrigin_def split: option.splits list.splits if_splits)

lemma parseConnection_Inr:
  "parseConnection nu de raw = Inr c \<longleftrightarrow>
     (\<exists>r u token tr po og. raw = Some r \<and> trim r \<noteq> [] \<and> nu (trim r) = Some u \<and>
        parse_scheme u = Inr tr \<and> parse_token de u = Inr token \<and> u_hostname u \<noteq> [] \<and>
        parse_posture u = Inr po \<and> \<not> (po = Production \<and> tr = Http) \<and> resolveAppOrigin nu u po = Inr og \<and>
        c = \<lparr>coreApiUrl = transport_name tr @ ''://'' @ u_hostname u @ (if u_port u \<noteq> [] then '':'' @ u_port u else []),
             serviceToken = token, posture = po, transport = tr, appOrigin = og, isProduction = (po = Production),
             redacted = u_protocol u @ ''//[redacted]@'' @ u_hostname u @
               (if u_port u \<noteq> [] then '':'' @ u_port u else []) @ ''/'' @ posture_name po\<rparr>)"
  by (auto simp: parseConnection_def then_ok_Inr Let_def split: option.splits if_splits)

section \<open>Properties\<close>

text \<open>C13: A connection that parses carries a service token of at least 32 characters, and in production
  it reaches the core API over https only and its browser origin comes from a declared https URL.\<close>

theorem production_is_encrypted:
  assumes "parseConnection nu de raw = Inr c"
  shows "32 \<le> length (serviceToken c) \<and> (isProduction c \<longleftrightarrow> posture c = Production) \<and>
    (posture c = Production \<longrightarrow> transport c = Https \<and> startsWith (coreApiUrl c) ''https://'' \<and>
      (\<exists>d p. nu d = Some p \<and> u_protocol p = ''https:'' \<and> appOrigin c = u_origin p))"
proof -
  from assms [unfolded parseConnection_Inr] obtain u token tr po og where
    t: "parse_token de u = Inr token" and ng: "\<not> (po = Production \<and> tr = Http)"
    and og: "resolveAppOrigin nu u po = Inr og"
    and ceq: "c = \<lparr>coreApiUrl = transport_name tr @ ''://'' @ u_hostname u @ (if u_port u \<noteq> [] then '':'' @ u_port u else []),
             serviceToken = token, posture = po, transport = tr, appOrigin = og, isProduction = (po = Production),
             redacted = u_protocol u @ ''//[redacted]@'' @ u_hostname u @
               (if u_port u \<noteq> [] then '':'' @ u_port u else []) @ ''/'' @ posture_name po\<rparr>"
    by blast
  have c: "serviceToken c = token" "posture c = po" "transport c = tr" "appOrigin c = og"
      "isProduction c = (po = Production)" "\<exists>h. coreApiUrl c = transport_name tr @ ''://'' @ h"
    by (simp_all add: ceq)
  have "tr = Https" if "po = Production" using ng that by (cases tr) auto
  moreover have "startsWith (coreApiUrl c) ''https://''" if "tr = Https"
    using c(6) that by (auto simp: startsWith_def)
  moreover have "\<exists>d p. nu d = Some p \<and> u_protocol p = ''https:'' \<and> og = u_origin p" if "po = Production"
    using og that by (auto simp: resolveAppOrigin_production)
  moreover have "32 \<le> length token" using t by (simp add: parse_token_Inr)
  ultimately show ?thesis using c by auto
qed

text \<open>A small platform for closed examples: two URLs it can parse, and decoding that changes nothing.\<close>

definition demo_token :: string where
  "demo_token = ''0123456789abcdef0123456789abcdef''"

definition demo_url :: url where
  "demo_url = \<lparr>u_protocol = ''warder:'', u_username = demo_token, u_password = [], u_hostname = ''api.internal'',
     u_port = ''8443'', u_pathname = ''/production'', u_params = [(''origin'', ''https://v.example'')],
     u_search = ''?origin=https://v.example'', u_hash = [], u_origin = ''null'', u_host = ''api.internal:8443''\<rparr>"

definition demo_origin_url :: url where
  "demo_origin_url = \<lparr>u_protocol = ''https:'', u_username = [], u_password = [], u_hostname = ''v.example'',
     u_port = [], u_pathname = ''/'', u_params = [], u_search = [], u_hash = [],
     u_origin = ''https://v.example'', u_host = ''v.example''\<rparr>"

definition demo_new_url :: "string \<Rightarrow> url option" where
  "demo_new_url s = (if s = ''https://v.example'' then Some demo_origin_url
     else if startsWith s ''warder://'' then Some demo_url else None)"

definition demo_raw :: string where
  "demo_raw = ''warder://0123456789abcdef0123456789abcdef@api.internal:8443/production?origin=https://v.example''"

definition demo_connection :: connection where
  "demo_connection = \<lparr>coreApiUrl = ''https://api.internal:8443'', serviceToken = demo_token, posture = Production,
     transport = Https, appOrigin = ''https://v.example'', isProduction = True,
     redacted = ''warder://[redacted]@api.internal:8443/production''\<rparr>"

lemma demo_parse: "parseConnection demo_new_url Some (Some demo_raw) = Inr demo_connection"
  by code_simp

theorem production_is_encrypted_witness:
  "32 \<le> length (serviceToken demo_connection) \<and> transport demo_connection = Https \<and>
   startsWith (coreApiUrl demo_connection) ''https://''"
proof -
  have "posture demo_connection = Production" by (simp add: demo_connection_def)
  then show ?thesis using production_is_encrypted [OF demo_parse] by blast
qed

text \<open>The service token influences nothing but the field that holds it: replacing the userinfo of the
  URI by another token of sufficient length changes neither the address, the origin, the printable
  description, nor which check fails.\<close>

theorem token_only_in_its_field:
  assumes "nu (trim r) = Some u" "nu (trim r') = Some (u\<lparr>u_username := x\<rparr>)" "trim r \<noteq> []" "trim r' \<noteq> []"
    and "de (u_username u) = Some t" "de x = Some t'" "32 \<le> length t" "32 \<le> length t'"
  shows "parseConnection nu de (Some r') =
    map_sum id (\<lambda>c. c\<lparr>serviceToken := t'\<rparr>) (parseConnection nu de (Some r))"
proof -
  have s: "parse_scheme (u\<lparr>u_username := x\<rparr>) = parse_scheme u"
    "parse_posture (u\<lparr>u_username := x\<rparr>) = parse_posture u"
    "resolveAppOrigin nu (u\<lparr>u_username := x\<rparr>) po = resolveAppOrigin nu u po" for po
    by (simp_all add: parse_scheme_def parse_posture_def resolveAppOrigin_def search_get_def)
  have p: "u_password u \<noteq> [] \<Longrightarrow> parse_token de (u\<lparr>u_username := x\<rparr>) = parse_token de u"
    "u_password u = [] \<Longrightarrow> parse_token de (u\<lparr>u_username := x\<rparr>) = Inr t'"
    "u_password u = [] \<Longrightarrow> parse_token de u = Inr t"
    using assms by (auto simp: parse_token_Inr) (auto simp: parse_token_def)
  have r: "r \<noteq> []" "r' \<noteq> []" using assms(3,4) by auto
  show ?thesis
  proof (cases "u_password u = []")
    case True
    with assms r s p show ?thesis
      by (auto simp: parseConnection_def then_ok_def Let_def split: sum.splits)
  next
    case False
    then have "\<exists>e. parse_token de u = Inl e" by (simp add: parse_token_def)
    with False assms r s p show ?thesis
      by (auto simp: parseConnection_def then_ok_def Let_def split: sum.splits)
  qed
qed

theorem token_only_in_its_field_witness:
  "parseConnection (\<lambda>s. if s = ''b'' then Some (demo_url\<lparr>u_username := rev demo_token\<rparr>)
       else if s = ''a'' then Some demo_url else demo_new_url s) Some (Some ''b'') =
    Inr (demo_connection\<lparr>serviceToken := rev demo_token\<rparr>)"
proof -
  let ?nu = "\<lambda>s. if s = ''b'' then Some (demo_url\<lparr>u_username := rev demo_token\<rparr>)
       else if s = ''a'' then Some demo_url else demo_new_url s"
  have t: "trim ''a'' = ''a''" "trim ''b'' = ''b''" by code_simp+
  have "parseConnection ?nu Some (Some ''a'') = Inr demo_connection" by code_simp
  then show ?thesis
    using token_only_in_its_field [of ?nu "''a''" demo_url "''b''" "rev demo_token" Some demo_token "rev demo_token"] t
    by (simp add: demo_url_def demo_token_def)
qed

text \<open>The printable description of a connection is the scheme, a fixed placeholder for the credential,
  the host, the port and the posture, so it is determined by the components other than the userinfo.\<close>

theorem redacted_shape:
  assumes "parseConnection nu de (Some r) = Inr c" "nu (trim r) = Some u"
  shows "redacted c = u_protocol u @ ''//[redacted]@'' @ u_hostname u @
      (if u_port u \<noteq> [] then '':'' @ u_port u else []) @ ''/'' @ posture_name (posture c) \<and>
    coreApiUrl c = transport_name (transport c) @ ''://'' @ u_hostname u @
      (if u_port u \<noteq> [] then '':'' @ u_port u else [])"
  using assms unfolding parseConnection_Inr by auto

theorem redacted_shape_witness:
  "redacted demo_connection = ''warder://[redacted]@api.internal:8443/production''"
proof -
  have "demo_new_url (trim demo_raw) = Some demo_url" by code_simp
  from redacted_shape [OF demo_parse this] show ?thesis
    by (simp add: demo_url_def demo_connection_def)
qed

end
