(* ===== verification/Server.thy ===== *)
theory Server imports Connection "HOL-Library.Word" begin

text \<open>
  The server process of the web application as explicit state: what a request handler can read
  (\<open>server\<close>), what it can change (\<open>world\<close>), and the actions built from them.  The platform (URL
  parser, percent-decoder, date parser, clock, random source, incoming headers) and the core API
  behind \<open>fetch\<close> are fields of \<open>server\<close>; the core API's answer may depend on how many requests were
  sent before, so it is not assumed to be a function of the request alone.
\<close>

section \<open>State\<close>

record core_request =
  cr_url :: string
  cr_method :: string
  cr_headers :: "string \<rightharpoonup> string"
  cr_body :: jsval

text \<open>A network failure with its cause, or a status, a location header and the body \<open>response.json()\<close> yields.\<close>

datatype fetch_result = NetworkFailure string | CoreResponse nat "string option" "json option"

record server =
  sv_warder_url :: "string option"
  sv_runtime_url :: "string option"
  sv_new_url :: "string \<Rightarrow> url option"
  sv_decode :: "string \<Rightarrow> string option"
  sv_date :: "jsval \<Rightarrow> int option"
  sv_now :: int
  sv_random :: "nat \<Rightarrow> nat \<Rightarrow> 8 word list"
  sv_in_headers :: "(string \<rightharpoonup> string) option"
  sv_fetch :: "nat \<Rightarrow> core_request \<Rightarrow> fetch_result"

text \<open>The options of \<open>store.set\<close>; a \<open>maxAge\<close> of \<open>None\<close> is NaN.\<close>

record cookie_attrs =
  httpOnly :: bool
  secure :: bool
  sameSite :: string
  cookie_path :: string
  maxAge :: "int option"

datatype cookie = Received string | Assigned jsval cookie_attrs | Cleared

datatype log_entry = LogText "string list" | LogError string exn

record world =
  w_cached :: "connection option"
  w_jar :: "string \<rightharpoonup> cookie"
  w_sent :: "core_request list"
  w_draws :: nat
  w_log :: "log_entry list"

section \<open>Actions\<close>

type_synonym 'a bff = "server \<Rightarrow> world \<Rightarrow> (exn + 'a) \<times> world"

definition ret :: "'a \<Rightarrow> 'a bff" where
  "ret a = (\<lambda>sv w. (Inr a, w))"

definition throw :: "exn \<Rightarrow> 'a bff" where
  "throw e = (\<lambda>sv w. (Inl e, w))"

definition seq :: "'a bff \<Rightarrow> ('a \<Rightarrow> 'b bff) \<Rightarrow> 'b bff" where
  "seq m f = (\<lambda>sv w. case m sv w of (Inl e, w') \<Rightarrow> (Inl e, w') | (Inr a, w') \<Rightarrow> f a sv w')"

definition try_catch :: "'a bff \<Rightarrow> (exn \<Rightarrow> 'a bff) \<Rightarrow> 'a bff" where
  "try_catch m h = (\<lambda>sv w. case m sv w of (Inl e, w') \<Rightarrow> h e sv w' | (Inr a, w') \<Rightarrow> (Inr a, w'))"

definition lift_ok :: "exn + 'a \<Rightarrow> 'a bff" where
  "lift_ok r = (\<lambda>sv w. (r, w))"

definition asks :: "(server \<Rightarrow> 'a) \<Rightarrow> 'a bff" where
  "asks f = (\<lambda>sv w. (Inr (f sv), w))"

definition log_error :: "log_entry \<Rightarrow> unit bff" where
  "log_error l = (\<lambda>sv w. (Inr (), w\<lparr>w_log := w_log w @ [l]\<rparr>))"

text \<open>\<open>v.k\<close>, which throws on \<open>undefined\<close> and \<open>null\<close>.\<close>

definition getprop :: "jsval \<Rightarrow> string \<Rightarrow> jsval bff" where
  "getprop v k = (if nullish v then throw TypeError else ret (optfield v k))"

lemma action_simps [bff_simps]:
  "ret a sv w = (Inr a, w)"
  "throw e sv w = (Inl e, w)"
  "asks f sv w = (Inr (f sv), w)"
  "lift_ok r sv w = (r, w)"
  "log_error l sv w = (Inr (), w\<lparr>w_log := w_log w @ [l]\<rparr>)"
  by (simp_all add: ret_def throw_def asks_def lift_ok_def log_error_def)

lemma getprop_eval [bff_simps]:
  "getprop v k sv w = (if nullish v then (Inl TypeError, w) else (Inr (optfield v k), w))"
  by (simp add: getprop_def action_simps)

lemma seq_eval:
  "seq m f sv w = (case m sv w of (Inl e, w') \<Rightarrow> (Inl e, w') | (Inr a, w') \<Rightarrow> f a sv w')"
  by (simp add: seq_def)

lemma try_catch_eval:
  "try_catch m h sv w = (case m sv w of (Inl e, w') \<Rightarrow> h e sv w' | (Inr a, w') \<Rightarrow> (Inr a, w'))"
  by (simp add: try_catch_def)

lemma seq_Inl [simp]: "m sv w = (Inl e, w') \<Longrightarrow> seq m f sv w = (Inl e, w')"
  by (simp add: seq_def)

lemma seq_Inr [simp]: "m sv w = (Inr a, w') \<Longrightarrow> seq m f sv w = f a sv w'"
  by (simp add: seq_def)

lemma seq_Inr_iff: "seq m f sv w = (Inr b, w'') \<longleftrightarrow> (\<exists>a w'. m sv w = (Inr a, w') \<and> f a sv w' = (Inr b, w''))"
  by (auto simp: seq_def split: prod.splits sum.splits)

lemma try_catch_Inl [simp]: "m sv w = (Inl e, w') \<Longrightarrow> try_catch m h sv w = h e sv w'"
  by (simp add: try_catch_def)

lemma try_catch_Inr [simp]: "m sv w = (Inr a, w') \<Longrightarrow> try_catch m h sv w = (Inr a, w')"
  by (simp add: try_catch_def)

section \<open>What an action does to the state, compositionally\<close>

text \<open>
  \<open>keeps R m\<close>: every run of \<open>m\<close> leads to a state related to the one it started in.  For a preorder the
  combinators preserve it, so a handler is checked piece by piece.
\<close>

definition keeps :: "(world \<Rightarrow> world \<Rightarrow> bool) \<Rightarrow> 'a bff \<Rightarrow> bool" where
  "keeps R m = (\<forall>sv w. R w (snd (m sv w)))"

lemma keepsD: "keeps R m \<Longrightarrow> m sv w = (r, w') \<Longrightarrow> R w w'"
  unfolding keeps_def by (metis snd_conv)

locale world_preorder =
  fixes R :: "world \<Rightarrow> world \<Rightarrow> bool"
  assumes R_refl: "R w w" and R_trans: "R u v \<Longrightarrow> R v w \<Longrightarrow> R u w"
begin

lemma keeps_pure: "keeps R (ret a)" "keeps R (throw e)" "keeps R (asks f)" "keeps R (lift_ok r)" "keeps R (getprop v k)"
  by (auto simp: keeps_def bff_simps R_refl split: if_splits)

lemma keeps_seq: "keeps R m \<Longrightarrow> (\<And>a. keeps R (f a)) \<Longrightarrow> keeps R (seq m f)"
  unfolding keeps_def seq_def by (auto split: prod.splits sum.splits) (metis R_trans snd_conv)+

lemma keeps_try: "keeps R m \<Longrightarrow> (\<And>e. keeps R (h e)) \<Longrightarrow> keeps R (try_catch m h)"
  unfolding keeps_def try_catch_def by (auto split: prod.splits sum.splits) (metis R_trans snd_conv)+

lemma keeps_if: "keeps R m \<Longrightarrow> keeps R n \<Longrightarrow> keeps R (if b then m else n)"
  by simp

lemma keeps_option: "keeps R m \<Longrightarrow> (\<And>x. keeps R (f x)) \<Longrightarrow> keeps R (case v of None \<Rightarrow> m | Some x \<Rightarrow> f x)"
  by (cases v) auto

lemmas keeps_rules = keeps_pure keeps_seq keeps_try keeps_if keeps_option

end

text \<open>Three relations: no request was sent, the cookie jar is as it was, and the trace only grew.\<close>

definition same_sent :: "world \<Rightarrow> world \<Rightarrow> bool" where
  "same_sent w w' = (w_sent w' = w_sent w)"

definition same_jar :: "world \<Rightarrow> world \<Rightarrow> bool" where
  "same_jar w w' = (w_jar w' = w_jar w)"

definition sent_grows :: "world \<Rightarrow> world \<Rightarrow> bool" where
  "sent_grows w w' = prefix (w_sent w) (w_sent w')"

interpretation sent: world_preorder same_sent
  by unfold_locales (auto simp: same_sent_def)

interpretation jar: world_preorder same_jar
  by unfold_locales (auto simp: same_jar_def)

interpretation grow: world_preorder sent_grows
  by unfold_locales (auto simp: sent_grows_def)

lemma keeps_log [frame_simps]:
  "keeps same_sent (log_error l)" "keeps same_jar (log_error l)"
  by (simp_all add: keeps_def same_sent_def same_jar_def bff_simps)

lemma keeps_sent_grows: "keeps same_sent m \<Longrightarrow> keeps sent_grows m"
  by (simp add: keeps_def same_sent_def sent_grows_def)

end
