(* ===== verification/Env.thy ===== *)
theory Env imports Server begin

text \<open>
  Server configuration (web/lib/env.ts): the connection parsed once per process and remembered only
  when it parsed, and the runtime address advertised to the command line client.
\<close>

section \<open>Model\<close>

text \<open>\<open>connection()\<close>\<close>

definition connection_of :: "connection bff" where
  "connection_of = (\<lambda>sv w.
     case w_cached w of
       Some c \<Rightarrow> (Inr c, w)
     | None \<Rightarrow>
         (case parseConnection (sv_new_url sv) (sv_decode sv) (sv_warder_url sv) of
            Inl e \<Rightarrow> (Inl e, w)
          | Inr c \<Rightarrow> (Inr c, w\<lparr>w_cached := Some c\<rparr>)))"

definition configurationProblem :: "string option bff" where
  "configurationProblem =
     try_catch (seq connection_of (\<lambda>_. ret None)) (\<lambda>e. ret (Some (exn_message e)))"

definition publicOrigin :: "string bff" where
  "publicOrigin =
     try_catch (seq connection_of (\<lambda>c. ret (appOrigin c))) (\<lambda>_. ret ''http://localhost:3000'')"

text \<open>The serialization of a URL record with a host; credentials come before the host.\<close>

definition url_toString :: "url \<Rightarrow> string" where
  "url_toString u = u_protocol u @ ''//'' @
     (if u_username u = [] \<and> u_password u = [] then []
      else u_username u @ (if u_password u = [] then [] else '':'' @ u_password u) @ ''@'') @
     u_host u @ u_pathname u @ u_search u @ u_hash u"

text \<open>\<open>s.replace(/\/$/, "")\<close>\<close>

definition drop_final_slash :: "string \<Rightarrow> string" where
  "drop_final_slash s = (if s \<noteq> [] \<and> last s = CHR ''/'' then butlast s else s)"

definition cliRuntimeUrl :: "server \<Rightarrow> string option" where
  "cliRuntimeUrl sv =
     (case map_option trim (sv_runtime_url sv) of
        None \<Rightarrow> None
      | Some raw \<Rightarrow>
          if raw = [] then None
          else case sv_new_url sv raw of
            None \<Rightarrow> None
          | Some parsed \<Rightarrow>
              if u_protocol parsed \<noteq> ''https:'' \<and> u_protocol parsed \<noteq> ''http:'' then None
              else Some (drop_final_slash (url_toString (parsed\<lparr>u_username := [], u_password := []\<rparr>))))"

section \<open>Lemmas\<close>

lemma connection_of_frame [frame_simps]:
  "keeps same_sent connection_of" "keeps same_jar connection_of"
  by (auto simp: keeps_def same_sent_def same_jar_def connection_of_def split: option.splits sum.splits)

text \<open>The outcome of \<open>connection()\<close> and the state after it, from what is remembered and the environment.\<close>

definition conn_result :: "server \<Rightarrow> world \<Rightarrow> exn + connection" where
  "conn_result sv w = (case w_cached w of Some c \<Rightarrow> Inr c
     | None \<Rightarrow> parseConnection (sv_new_url sv) (sv_decode sv) (sv_warder_url sv))"

definition conn_world :: "server \<Rightarrow> world \<Rightarrow> world" where
  "conn_world sv w = (case conn_result sv w of Inl _ \<Rightarrow> w | Inr c \<Rightarrow> w\<lparr>w_cached := Some c\<rparr>)"

lemma connection_of_eval [bff_simps]: "connection_of sv w = (conn_result sv w, conn_world sv w)"
  by (auto simp: connection_of_def conn_result_def conn_world_def split: option.splits sum.splits)

lemma conn_world_sel [simp]:
  "w_jar (conn_world sv w) = w_jar w" "w_sent (conn_world sv w) = w_sent w"
  "w_log (conn_world sv w) = w_log w" "w_draws (conn_world sv w) = w_draws w"
  by (auto simp: conn_world_def split: sum.splits)

lemma conn_result_stable [simp]: "conn_result sv (conn_world sv w) = conn_result sv w"
  by (auto simp: conn_world_def conn_result_def split: sum.splits option.splits)

lemma conn_world_idem [simp]: "conn_world sv (conn_world sv w) = conn_world sv w"
  by (auto simp: conn_world_def conn_result_def split: sum.splits option.splits)

text \<open>Only the remembered connection matters to later calls.\<close>

lemma conn_result_cong: "w_cached w = w_cached w' \<Longrightarrow> conn_result sv w = conn_result sv w'"
  by (simp add: conn_result_def)

lemma conn_world_cached: "conn_result sv w = Inr c \<Longrightarrow> w_cached (conn_world sv w) = Some c"
  by (simp add: conn_world_def)

end
