(* ===== verification/Session.thy ===== *)
theory Session imports Env begin

text \<open>
  The browser session (web/lib/session.ts): the session and CSRF cookies, their attributes, and the
  token the double-submit check compares.
\<close>

section \<open>The cookie store\<close>

definition cookie_get :: "(string \<rightharpoonup> cookie) \<Rightarrow> string \<Rightarrow> jsval" where
  "cookie_get j n = (case j n of
     Some (Received s) \<Rightarrow> Some (JStr s)
   | Some (Assigned v a) \<Rightarrow> v
   | Some Cleared \<Rightarrow> None
   | None \<Rightarrow> None)"

definition cookie_set :: "string \<Rightarrow> jsval \<Rightarrow> cookie_attrs \<Rightarrow> (string \<rightharpoonup> cookie) \<Rightarrow> (string \<rightharpoonup> cookie)" where
  "cookie_set n v a j = j(n \<mapsto> Assigned v a)"

definition cookie_delete :: "string \<Rightarrow> (string \<rightharpoonup> cookie) \<Rightarrow> (string \<rightharpoonup> cookie)" where
  "cookie_delete n j = j(n \<mapsto> Cleared)"

text \<open>What the session code relies on: a cookie set is the cookie read, a cookie deleted is gone.\<close>

locale cookie_store =
  fixes get :: "'j \<Rightarrow> 'n \<Rightarrow> 'v option"
    and put :: "'n \<Rightarrow> 'v option \<Rightarrow> 'a \<Rightarrow> 'j \<Rightarrow> 'j"
    and del :: "'n \<Rightarrow> 'j \<Rightarrow> 'j"
  assumes get_put: "get (put n v a j) m = (if m = n then v else get j m)"
    and get_del: "get (del n j) m = (if m = n then None else get j m)"
begin

lemma get_put_put: "m \<noteq> n \<Longrightarrow> get (put m u b (put n v a j)) n = v"
  by (simp add: get_put)

lemma get_del_del: "get (del m (del n j)) n = None" "get (del m (del n j)) m = None"
  by (simp_all add: get_del)

lemma put_last_wins: "get (put n v a (put n u b j)) = get (put n v a j)"
  by (rule ext) (simp add: get_put)

end

interpretation cookies: cookie_store cookie_get cookie_set cookie_delete
  by unfold_locales (auto simp: cookie_get_def cookie_set_def cookie_delete_def)

section \<open>Model\<close>

definition SESSION_COOKIE :: string where "SESSION_COOKIE = ''warder_session''"
definition CSRF_COOKIE :: string where "CSRF_COOKIE = ''warder_csrf''"
definition CSRF_HEADER :: string where "CSRF_HEADER = ''x-csrf-token''"

definition secureCookies :: "bool bff" where
  "secureCookies = try_catch (seq connection_of (\<lambda>c. ret (isProduction c))) (\<lambda>_. ret True)"

text \<open>\<open>store.get(name)?.value ?? null\<close>\<close>

definition cookie_value :: "string \<Rightarrow> jsval bff" where
  "cookie_value n = (\<lambda>sv w. (Inr (coalesce (cookie_get (w_jar w) n) (Some JNull)), w))"

definition getSessionToken :: "jsval bff" where
  "getSessionToken = cookie_value SESSION_COOKIE"

definition getCsrfToken :: "jsval bff" where
  "getCsrfToken = cookie_value CSRF_COOKIE"

definition set_cookie :: "string \<Rightarrow> jsval \<Rightarrow> cookie_attrs \<Rightarrow> unit bff" where
  "set_cookie n v a = (\<lambda>sv w. (Inr (), w\<lparr>w_jar := cookie_set n v a (w_jar w)\<rparr>))"

definition delete_cookie :: "string \<Rightarrow> unit bff" where
  "delete_cookie n = (\<lambda>sv w. (Inr (), w\<lparr>w_jar := cookie_delete n (w_jar w)\<rparr>))"

text \<open>\<open>crypto.getRandomValues(new Uint8Array(n))\<close>: every draw is a new one.\<close>

definition random_bytes :: "nat \<Rightarrow> 8 word list bff" where
  "random_bytes n = (\<lambda>sv w. (Inr (sv_random sv (w_draws w) n), w\<lparr>w_draws := Suc (w_draws w)\<rparr>))"

definition hex_digit :: "nat \<Rightarrow> char" where
  "hex_digit d = (if d < 10 then char_of (48 + d) else char_of (87 + d))"

text \<open>\<open>b.toString(16).padStart(2, "0")\<close>\<close>

definition hex_byte :: "8 word \<Rightarrow> string" where
  "hex_byte b = (let s = (if unat b < 16 then [hex_digit (unat b)]
       else [hex_digit (unat b div 16), hex_digit (unat b mod 16)])
     in replicate (2 - length s) (CHR ''0'') @ s)"

definition hex_bytes :: "8 word list \<Rightarrow> string" where
  "hex_bytes bs = concat (map hex_byte bs)"

definition generateCsrfToken :: "string bff" where
  "generateCsrfToken = seq (random_bytes 32) (\<lambda>bytes. ret (hex_bytes bytes))"

text \<open>\<open>Math.max(0, Math.floor((expiresAt.getTime() - Date.now()) / 1000))\<close>\<close>

definition session_max_age :: "int option \<Rightarrow> int \<Rightarrow> int option" where
  "session_max_age expires now = map_option (\<lambda>e. max 0 ((e - now) div 1000)) expires"

definition startSession :: "jsval \<Rightarrow> int option \<Rightarrow> string bff" where
  "startSession token expiresAt =
     seq secureCookies (\<lambda>sec.
     seq (asks (\<lambda>sv. session_max_age expiresAt (sv_now sv))) (\<lambda>age.
     seq (set_cookie SESSION_COOKIE token
            \<lparr>httpOnly = True, secure = sec, sameSite = ''strict'', cookie_path = ''/'', maxAge = age\<rparr>) (\<lambda>_.
     seq generateCsrfToken (\<lambda>csrfToken.
     seq (set_cookie CSRF_COOKIE (Some (JStr csrfToken))
            \<lparr>httpOnly = False, secure = sec, sameSite = ''strict'', cookie_path = ''/'', maxAge = age\<rparr>) (\<lambda>_.
     ret csrfToken)))))"

definition endSession :: "unit bff" where
  "endSession = seq (delete_cookie SESSION_COOKIE) (\<lambda>_. delete_cookie CSRF_COOKIE)"

section \<open>Lemmas\<close>

lemma cookie_names_distinct [simp]: "SESSION_COOKIE \<noteq> CSRF_COOKIE" "CSRF_COOKIE \<noteq> SESSION_COOKIE"
  by (simp_all add: SESSION_COOKIE_def CSRF_COOKIE_def)

lemma session_frame [frame_simps]:
  "keeps same_sent (cookie_value n)" "keeps same_jar (cookie_value n)"
  "keeps same_sent getSessionToken" "keeps same_jar getSessionToken"
  "keeps same_sent getCsrfToken" "keeps same_jar getCsrfToken"
  "keeps same_sent (set_cookie n v a)" "keeps same_sent (delete_cookie n)" "keeps same_sent (random_bytes k)"
  by (auto simp: keeps_def same_sent_def same_jar_def cookie_value_def getSessionToken_def getCsrfToken_def
      set_cookie_def delete_cookie_def random_bytes_def)

lemma secureCookies_eval [bff_simps]:
  "secureCookies sv w = (Inr (case conn_result sv w of Inl _ \<Rightarrow> True | Inr c \<Rightarrow> isProduction c), conn_world sv w)"
  by (simp add: secureCookies_def try_catch_eval seq_eval bff_simps split: sum.splits)

lemma startSession_sent [frame_simps]: "keeps same_sent (startSession t e)"
  unfolding startSession_def generateCsrfToken_def secureCookies_def
  by (intro sent.keeps_rules session_frame connection_of_frame)

lemma endSession_sent [frame_simps]: "keeps same_sent endSession"
  unfolding endSession_def by (intro sent.keeps_rules session_frame)

text \<open>What a started session leaves behind.\<close>

definition session_attrs :: "bool \<Rightarrow> server \<Rightarrow> world \<Rightarrow> int option \<Rightarrow> cookie_attrs" where
  "session_attrs http_only sv w e = \<lparr>httpOnly = http_only,
     secure = (case conn_result sv w of Inl _ \<Rightarrow> True | Inr c \<Rightarrow> isProduction c),
     sameSite = ''strict'', cookie_path = ''/'', maxAge = session_max_age e (sv_now sv)\<rparr>"

definition fresh_csrf :: "server \<Rightarrow> world \<Rightarrow> string" where
  "fresh_csrf sv w = hex_bytes (sv_random sv (w_draws w) 32)"

definition started :: "jsval \<Rightarrow> int option \<Rightarrow> server \<Rightarrow> world \<Rightarrow> world" where
  "started t e sv w = (conn_world sv w)\<lparr>
     w_jar := cookie_set CSRF_COOKIE (Some (JStr (fresh_csrf sv w))) (session_attrs False sv w e)
       (cookie_set SESSION_COOKIE t (session_attrs True sv w e) (w_jar w)),
     w_draws := Suc (w_draws w)\<rparr>"

lemma startSession_eval [bff_simps]: "startSession t e sv w = (Inr (fresh_csrf sv w), started t e sv w)"
  by (simp add: startSession_def seq_eval bff_simps set_cookie_def generateCsrfToken_def random_bytes_def
      started_def session_attrs_def fresh_csrf_def)

lemma started_sel [simp]:
  "w_sent (started t e sv w) = w_sent w" "w_log (started t e sv w) = w_log w"
  "w_draws (started t e sv w) = Suc (w_draws w)"
  "w_jar (started t e sv w) = cookie_set CSRF_COOKIE (Some (JStr (fresh_csrf sv w))) (session_attrs False sv w e)
       (cookie_set SESSION_COOKIE t (session_attrs True sv w e) (w_jar w))"
  by (simp_all add: started_def)

lemma endSession_eval [bff_simps]:
  "endSession sv w = (Inr (), w\<lparr>w_jar := cookie_delete CSRF_COOKIE (cookie_delete SESSION_COOKIE (w_jar w))\<rparr>)"
  by (simp add: endSession_def seq_eval delete_cookie_def)

lemma hex_digit_hex: "d < 16 \<Longrightarrow> is_hex_digit (hex_digit d) \<and> \<not> is_upper (hex_digit d)"
  by (auto simp: hex_digit_def is_hex_digit_def is_digit_def is_upper_def less_eq_char_def)

lemma unat_byte: "unat (b :: 8 word) < 256"
  using unsigned_less [of b, where ?'a = nat] by simp

lemma unat_byte_nibbles: "unat (b :: 8 word) div 16 < 16" "unat (b :: 8 word) mod 16 < 16"
  using unat_byte [of b] by auto

lemma hex_digit_0: "hex_digit 0 = CHR ''0''"
  by code_simp

lemma hex_byte_eq: "hex_byte b = [hex_digit (unat b div 16), hex_digit (unat b mod 16)]"
  by (simp add: hex_byte_def hex_digit_0)

lemma hex_digit_inj: "d < 16 \<Longrightarrow> e < 16 \<Longrightarrow> hex_digit d = hex_digit e \<Longrightarrow> d = e"
  unfolding hex_digit_def
  by (auto split: if_splits dest!: arg_cong [of _ _ "of_char :: char \<Rightarrow> nat"] simp: of_char_of)

lemma hex_byte_inj: "hex_byte a = hex_byte b \<longleftrightarrow> a = b"
proof
  assume "hex_byte a = hex_byte b"
  then have "unat a div 16 = unat b div 16" "unat a mod 16 = unat b mod 16"
    using unat_byte_nibbles [of a] unat_byte_nibbles [of b] by (auto simp: hex_byte_eq intro!: hex_digit_inj)
  then have "unat a = unat b" by (metis div_mult_mod_eq)
  then show "a = b" by (rule unsigned_word_eqI)
qed simp

lemma length_hex_byte [simp]: "length (hex_byte b) = 2"
  by (simp add: hex_byte_eq)

lemma hex_bytes_simps [simp]:
  "hex_bytes [] = []" "hex_bytes (b # bs) = hex_byte b @ hex_bytes bs"
  by (simp_all add: hex_bytes_def)

lemma hex_bytes_length: "length (hex_bytes bs) = 2 * length bs"
  by (induction bs) auto

lemma hex_bytes_hex: "c \<in> set (hex_bytes bs) \<Longrightarrow> is_hex_digit c \<and> \<not> is_upper c"
  by (induction bs) (auto simp: hex_byte_eq hex_digit_hex unat_byte_nibbles)

lemma hex_bytes_inj: "hex_bytes as = hex_bytes bs \<longleftrightarrow> as = bs"
proof (induction as arbitrary: bs)
  case Nil
  then show ?case by (cases bs) (auto simp: hex_byte_eq)
next
  case (Cons a as)
  show ?case
  proof (cases bs)
    case Nil
    then show ?thesis by (simp add: hex_byte_eq)
  next
    case (Cons b bs')
    have "hex_bytes (a # as) = hex_bytes bs \<longleftrightarrow> hex_byte a = hex_byte b \<and> hex_bytes as = hex_bytes bs'"
      unfolding Cons hex_bytes_simps by (rule append_eq_append_conv) simp
    with Cons.IH Cons show ?thesis by (simp add: hex_byte_inj)
  qed
qed

section \<open>Properties\<close>

text \<open>Starting a session never fails, sends nothing to the core API, and leaves two cookies with the
  same expiry, path, Secure flag and SameSite=strict: the session credential marked HttpOnly, and a
  readable CSRF token that is the value returned.  The Secure flag is on in production and whenever
  the configuration cannot be read.\<close>

theorem startSession_cookies:
  "\<exists>w' a b csrf. startSession t e sv w = (Inr csrf, w') \<and> w_sent w' = w_sent w \<and>
     w_jar w' = (w_jar w)(SESSION_COOKIE \<mapsto> Assigned t a, CSRF_COOKIE \<mapsto> Assigned (Some (JStr csrf)) b) \<and>
     httpOnly a \<and> \<not> httpOnly b \<and> sameSite a = ''strict'' \<and> b = a\<lparr>httpOnly := False\<rparr> \<and>
     (secure a \<longleftrightarrow> (case conn_result sv w of Inl _ \<Rightarrow> True | Inr c \<Rightarrow> isProduction c)) \<and>
     maxAge a = map_option (\<lambda>x. max 0 ((x - sv_now sv) div 1000)) e"
  by (intro exI [of _ "started t e sv w"] exI [of _ "session_attrs True sv w e"]
      exI [of _ "session_attrs False sv w e"] exI [of _ "fresh_csrf sv w"])
    (simp add: bff_simps cookie_set_def session_attrs_def session_max_age_def)

text \<open>Over a random source that returns as many bytes as asked for, a CSRF token is 64 lowercase
  hexadecimal digits, and two draws of different bytes give different tokens.\<close>

theorem csrf_token_shape:
  assumes "\<And>i n. length (sv_random sv i n) = n"
  shows "length (fresh_csrf sv w) = 64 \<and> list_all (\<lambda>c. is_hex_digit c \<and> \<not> is_upper c) (fresh_csrf sv w) \<and>
    (fresh_csrf sv w = fresh_csrf sv' w' \<longleftrightarrow> sv_random sv (w_draws w) 32 = sv_random sv' (w_draws w') 32)"
  using assms hex_bytes_hex by (auto simp: fresh_csrf_def hex_bytes_length list_all_iff hex_bytes_inj)

definition demo_server :: server where
  "demo_server = \<lparr>sv_warder_url = Some demo_raw, sv_runtime_url = None, sv_new_url = demo_new_url, sv_decode = Some,
     sv_date = (\<lambda>v. if v = Some (JStr ''later'') then Some 3600000 else None), sv_now = 0,
     sv_random = (\<lambda>i n. replicate n (of_nat (171 + i))),
     sv_in_headers = Some [''x-forwarded-for'' \<mapsto> ''203.0.113.9, 10.0.0.1''],
     sv_fetch = (\<lambda>_ _. NetworkFailure ''refused'')\<rparr>"

definition demo_world :: world where
  "demo_world = \<lparr>w_cached = None, w_jar = [SESSION_COOKIE \<mapsto> Received ''s3ss'', CSRF_COOKIE \<mapsto> Received ''c5rf''],
     w_sent = [], w_draws = 0, w_log = []\<rparr>"

theorem csrf_token_shape_witness:
  "length (fresh_csrf demo_server demo_world) = 64"
  using csrf_token_shape [of demo_server demo_world demo_server demo_world]
  by (simp add: demo_server_def)

text \<open>Ending a session leaves no session credential and no CSRF token readable, whatever cookies the
  request came with.\<close>

theorem endSession_clears:
  "\<exists>w'. endSession sv w = (Inr (), w') \<and> getSessionToken sv w' = (Inr (Some JNull), w') \<and>
     getCsrfToken sv w' = (Inr (Some JNull), w') \<and> w_sent w' = w_sent w"
  by (simp add: bff_simps getSessionToken_def getCsrfToken_def cookie_value_def cookies.get_del_del)

end
