(* ===== verification/Csrf.thy ===== *)
theory Csrf imports Session begin

unbundle bit_operations_syntax

text \<open>
  Cross-site request forgery protection (web/lib/csrf.ts): the origin check, which works before a
  session exists, and the double-submit token check on top of it.
\<close>

section \<open>Model\<close>

text \<open>
  An incoming request: header names in lower case, the body as \<open>request.json()\<close> yields it (\<open>None\<close> when
  it rejects), and the parameters of the request URL.
\<close>

record request =
  rq_method :: string
  rq_headers :: "string \<rightharpoonup> string"
  rq_body :: "json option"
  rq_params :: "(string \<times> string) list"

definition SAFE_METHODS :: "string list" where
  "SAFE_METHODS = [''GET'', ''HEAD'', ''OPTIONS'']"

definition safe_method :: "request \<Rightarrow> bool" where
  "safe_method rq = (toUpperCase (rq_method rq) \<in> set SAFE_METHODS)"

text \<open>A header that is absent or empty is falsy.\<close>

definition header :: "request \<Rightarrow> string \<Rightarrow> string option" where
  "header rq n = (case rq_headers rq n of Some (c # cs) \<Rightarrow> Some (c # cs) | _ \<Rightarrow> None)"

definition originMatches :: "string \<Rightarrow> request \<Rightarrow> bool bff" where
  "originMatches origin rq =
     seq connection_of (\<lambda>c.
     if origin = appOrigin c then ret True
     else if isProduction c then ret False
     else case header rq ''host'' of
       None \<Rightarrow> ret False
     | Some host \<Rightarrow>
         seq (asks (\<lambda>sv. sv_new_url sv origin)) (\<lambda>u.
         ret (case u of None \<Rightarrow> False | Some parsed \<Rightarrow> u_host parsed = host)))"

definition assertSameOrigin :: "request \<Rightarrow> unit bff" where
  "assertSameOrigin rq =
     (if safe_method rq then ret ()
      else case header rq ''origin'' of
        None \<Rightarrow> throw (CsrfError ''This request is missing its origin.'')
      | Some origin \<Rightarrow>
          seq (originMatches origin rq) (\<lambda>ok.
          if ok then ret () else throw (CsrfError ''This request came from an unexpected origin.'')))"

text \<open>
  The comparison loop: \<open>difference |= a.charCodeAt(i) ^ b.charCodeAt(i)\<close> over 32-bit integers, for every
  index below the length.
\<close>

definition charCode :: "char \<Rightarrow> 32 word" where
  "charCode c = of_nat (of_char c)"

function compare_from :: "string \<Rightarrow> string \<Rightarrow> nat \<Rightarrow> 32 word \<Rightarrow> 32 word" where
  "compare_from a b i difference =
     (if i < length a then compare_from a b (i + 1) (difference OR (charCode (a ! i) XOR charCode (b ! i)))
      else difference)"
  by pat_completeness auto
termination
  by (relation "measure (\<lambda>(a, b, i, d). length a - i)") auto

declare compare_from.simps [simp del]

definition timingSafeEqual :: "string \<Rightarrow> string \<Rightarrow> bool" where
  "timingSafeEqual a b = (if length a \<noteq> length b then False else compare_from a b 0 0 = 0)"

definition assertCsrf :: "request \<Rightarrow> unit bff" where
  "assertCsrf rq =
     (if safe_method rq then ret ()
      else
        seq (assertSameOrigin rq) (\<lambda>_.
        seq getCsrfToken (\<lambda>expected.
        case header rq CSRF_HEADER of
          None \<Rightarrow> throw (CsrfError ''This request is missing its security token.'')
        | Some presented \<Rightarrow>
            if \<not> truthy expected then throw (CsrfError ''This request is missing its security token.'')
            else if \<not> timingSafeEqual (js_string expected) presented then
              throw (CsrfError ''This request carried an invalid security token.'')
            else ret ())))"

section \<open>Lemmas\<close>

lemma charCode_inj: "charCode c = charCode d \<longleftrightarrow> c = d"
proof
  assume eq: "charCode c = charCode d"
  have u: "unat (charCode x) = of_char x" for x
  proof -
    have "of_char x < (4294967296 :: nat)"
      by (rule less_trans [OF nat_of_char_less_256]) simp
    then show ?thesis unfolding charCode_def by (simp add: unat_of_nat)
  qed
  have "(of_char c :: nat) = of_char d"
    using eq u by metis
  then show "c = d" by (rule injD [OF inj_of_char])
qed simp

lemma word_or_eq_0: "(x :: 32 word) OR y = 0 \<longleftrightarrow> x = 0 \<and> y = 0"
  by (auto simp: bit_eq_iff bit_or_iff)

lemma word_xor_eq_0: "(x :: 32 word) XOR y = 0 \<longleftrightarrow> x = y"
  by (auto simp: bit_eq_iff bit_xor_iff)

lemma compare_from_0:
  "compare_from a b i d = 0 \<longleftrightarrow> d = 0 \<and> (\<forall>j. i \<le> j \<and> j < length a \<longrightarrow> a ! j = b ! j)"
proof (induction a b i d rule: compare_from.induct)
  case (1 a b i d)
  show ?case
  proof (cases "i < length a")
    case True
    have "compare_from a b i d = 0 \<longleftrightarrow> (d = 0 \<and> a ! i = b ! i) \<and> (\<forall>j. i + 1 \<le> j \<and> j < length a \<longrightarrow> a ! j = b ! j)"
      using 1 True by (subst compare_from.simps) (simp add: word_or_eq_0 word_xor_eq_0 charCode_inj)
    also have "\<dots> \<longleftrightarrow> d = 0 \<and> (\<forall>j. i \<le> j \<and> j < length a \<longrightarrow> a ! j = b ! j)"
      using True by (metis Suc_eq_plus1 Suc_leI Suc_leD le_neq_implies_less le_refl)
    finally show ?thesis .
  next
    case False
    then show ?thesis by (subst compare_from.simps) auto
  qed
qed

lemma timingSafeEqual_iff [simp]: "timingSafeEqual a b \<longleftrightarrow> a = b"
  by (auto simp: timingSafeEqual_def compare_from_0 intro: nth_equalityI)

lemma guard_frame [frame_simps]:
  "keeps same_sent (assertSameOrigin rq)" "keeps same_jar (assertSameOrigin rq)"
  "keeps same_sent (assertCsrf rq)" "keeps same_jar (assertCsrf rq)"
proof -
  have o: "keeps same_sent (originMatches og rq)" "keeps same_jar (originMatches og rq)" for og
    unfolding originMatches_def
    by (intro sent.keeps_rules jar.keeps_rules connection_of_frame)+
  show s: "keeps same_sent (assertSameOrigin rq)" "keeps same_jar (assertSameOrigin rq)"
    unfolding assertSameOrigin_def
    by (intro sent.keeps_rules jar.keeps_rules o)+
  show "keeps same_sent (assertCsrf rq)" "keeps same_jar (assertCsrf rq)"
    unfolding assertCsrf_def
    by (intro sent.keeps_rules jar.keeps_rules s session_frame)+
qed

text \<open>What the two guards accept.\<close>

definition origin_ok :: "server \<Rightarrow> connection \<Rightarrow> request \<Rightarrow> bool" where
  "origin_ok sv c rq = (\<exists>og. header rq ''origin'' = Some og \<and>
     (og = appOrigin c \<or>
      \<not> isProduction c \<and> (\<exists>h p. header rq ''host'' = Some h \<and> sv_new_url sv og = Some p \<and> u_host p = h)))"

lemma originMatches_eval [bff_simps]:
  "originMatches og rq sv w = (case conn_result sv w of Inl e \<Rightarrow> Inl e | Inr c \<Rightarrow>
     Inr (og = appOrigin c \<or> \<not> isProduction c \<and>
       (\<exists>h p. header rq ''host'' = Some h \<and> sv_new_url sv og = Some p \<and> u_host p = h)), conn_world sv w)"
  by (auto simp: originMatches_def seq_eval bff_simps split: sum.splits option.splits)

lemma assertSameOrigin_ok:
  "assertSameOrigin rq sv w = (Inr (), w') \<longleftrightarrow>
     (if safe_method rq then w' = w
      else \<exists>c. conn_result sv w = Inr c \<and> origin_ok sv c rq \<and> w' = conn_world sv w)"
  by (auto simp: assertSameOrigin_def seq_eval bff_simps origin_ok_def split: sum.splits option.splits)

lemma assertSameOrigin_world:
  "snd (assertSameOrigin rq sv w) = (if safe_method rq \<or> header rq ''origin'' = None then w else conn_world sv w)"
  by (auto simp: assertSameOrigin_def seq_eval bff_simps split: sum.splits option.splits)

lemma assertCsrf_ok:
  "assertCsrf rq sv w = (Inr (), w') \<longleftrightarrow>
     (if safe_method rq then w' = w
      else \<exists>c t. conn_result sv w = Inr c \<and> origin_ok sv c rq \<and> header rq CSRF_HEADER = Some t \<and>
        truthy (cookie_get (w_jar w) CSRF_COOKIE) \<and> js_string (cookie_get (w_jar w) CSRF_COOKIE) = t \<and>
        w' = conn_world sv w)"
proof (cases "safe_method rq")
  case True
  then show ?thesis by (auto simp: assertCsrf_def bff_simps)
next
  case False
  have c: "coalesce v (Some JNull) = v \<or> nullish v \<and> \<not> truthy (coalesce v (Some JNull))" for v
    by (auto simp: coalesce_def)
  have t: "truthy (coalesce v (Some JNull)) \<longleftrightarrow> truthy v" for v
    using truthy_not_nullish by (auto simp: coalesce_def)
  have s: "truthy v \<Longrightarrow> js_string (coalesce v (Some JNull)) = js_string v" for v
    using truthy_not_nullish by (auto simp: coalesce_def)
  show ?thesis
  proof (cases "assertSameOrigin rq sv w")
    case (Pair r v)
    show ?thesis
    proof (cases r)
      case (Inl e)
      then have "\<not> (\<exists>c. conn_result sv w = Inr c \<and> origin_ok sv c rq)"
        using assertSameOrigin_ok [of rq sv w "conn_world sv w"] Pair False by auto
      with Inl Pair False show ?thesis by (auto simp: assertCsrf_def)
    next
      case (Inr u)
      then have "assertSameOrigin rq sv w = (Inr (), v)" using Pair by simp
      with False have h: "\<exists>c. conn_result sv w = Inr c \<and> origin_ok sv c rq" and v: "v = conn_world sv w"
        unfolding assertSameOrigin_ok by auto
      show ?thesis
        using False h t s Inr Pair
        by (auto simp: assertCsrf_def seq_eval v getCsrfToken_def cookie_value_def bff_simps split: option.splits)
    qed
  qed
qed

section \<open>Properties\<close>

text \<open>The constant-time comparison decides string equality: accumulating the exclusive or of the code
  units over all positions is zero exactly when the two strings are the same.\<close>

theorem timing_safe_equal_is_equality: "timingSafeEqual a b \<longleftrightarrow> a = b"
  by (rule timingSafeEqual_iff)

text \<open>C6: A state-changing request passes the CSRF guard exactly when the configuration is valid, its
  origin is the declared one (or, in development, names the host the request arrived at), and its
  token header equals a non-empty CSRF cookie.  A request with a safe method always passes.\<close>

theorem csrf_guard_accepts_iff:
  "(\<exists>w'. assertCsrf rq sv w = (Inr (), w')) \<longleftrightarrow>
     safe_method rq \<or>
     (\<exists>c t. conn_result sv w = Inr c \<and> origin_ok sv c rq \<and> header rq CSRF_HEADER = Some t \<and>
        truthy (cookie_get (w_jar w) CSRF_COOKIE) \<and> js_string (cookie_get (w_jar w) CSRF_COOKIE) = t)"
  by (auto simp: assertCsrf_ok)

text \<open>In production a state-changing request that announces any origin but the declared one, or none,
  is refused by both guards whatever its cookies and other headers say, and nothing has been sent to
  the core API and no cookie changed when it is.\<close>

theorem foreign_origin_refused:
  assumes "conn_result sv w = Inr c" "isProduction c" "\<not> safe_method rq" "header rq ''origin'' \<noteq> Some (appOrigin c)"
  shows "\<exists>m w'. assertSameOrigin rq sv w = (Inl (CsrfError m), w') \<and> assertCsrf rq sv w = (Inl (CsrfError m), w') \<and>
    w_sent w' = w_sent w \<and> w_jar w' = w_jar w"
  using assms by (auto simp: assertCsrf_def assertSameOrigin_def seq_eval bff_simps split: option.splits)

definition evil_request :: request where
  "evil_request = \<lparr>rq_method = ''post'', rq_headers = [''origin'' \<mapsto> ''https://evil.example'', ''host'' \<mapsto> ''evil.example''],
     rq_body = Some (JObj []), rq_params = []\<rparr>"

theorem foreign_origin_refused_witness:
  "\<exists>m w'. assertCsrf evil_request demo_server demo_world = (Inl (CsrfError m), w') \<and> w_sent w' = []"
proof -
  have c: "conn_result demo_server demo_world = Inr demo_connection"
    using demo_parse by (simp add: conn_result_def demo_server_def demo_world_def)
  have m: "\<not> safe_method evil_request" by code_simp
  have o: "header evil_request ''origin'' \<noteq> Some (appOrigin demo_connection)" by code_simp
  show ?thesis
    using foreign_origin_refused [OF c _ m o] by (auto simp: demo_connection_def demo_world_def)
qed

end
