(* ===== verification/CoreApi.thy ===== *)
theory CoreApi imports Csrf begin

text \<open>
  The one way out of the web application (web/lib/core-api.ts): building the request to the core API
  and translating its answer.
\<close>

section \<open>Model\<close>

text \<open>\<open>headers()\<close> throws outside a request; an empty or blank address is no address.\<close>

definition nonempty :: "string \<Rightarrow> string option" where
  "nonempty s = (if s = [] then None else Some s)"

definition callerAddress :: "(string \<rightharpoonup> string) option \<Rightarrow> string option" where
  "callerAddress incoming = (case incoming of
     None \<Rightarrow> None
   | Some h \<Rightarrow>
       (case Option.bind (map_option trim (h ''x-real-ip'')) nonempty of
          Some real \<Rightarrow> Some real
        | None \<Rightarrow>
            Option.bind (h ''x-forwarded-for'') (\<lambda>forwarded. nonempty (trim (hd (split_on (CHR '','') forwarded))))))"

record call_options =
  co_method :: "string option"
  co_body :: jsval
  co_anonymous :: bool
  co_session_token :: "string option"
  co_optional_session :: bool

definition no_options :: call_options where
  "no_options = \<lparr>co_method = None, co_body = None, co_anonymous = False, co_session_token = None,
     co_optional_session = False\<rparr>"

text \<open>One call of \<open>fetch\<close>: the request joins the trace whether or not it is answered.\<close>

definition core_fetch :: "core_request \<Rightarrow> fetch_result bff" where
  "core_fetch rq = (\<lambda>sv w. (Inr (sv_fetch sv (length (w_sent w)) rq), w\<lparr>w_sent := w_sent w @ [rq]\<rparr>))"

definition upstream_unavailable :: exn where
  "upstream_unavailable =
     CoreApiError 502 (JStr ''upstream_unavailable'') ''The service is temporarily unavailable.'' None"

definition own_token :: "call_options \<Rightarrow> jsval bff" where
  "own_token opts = (case co_session_token opts of Some t \<Rightarrow> ret (Some (JStr t)) | None \<Rightarrow> getSessionToken)"

definition bearer :: "jsval \<Rightarrow> string" where
  "bearer token = ''Bearer '' @ js_string token"

text \<open>The \<open>Authorization\<close> header, or the refusal to call without a session.\<close>

definition authorize :: "call_options \<Rightarrow> (string \<rightharpoonup> string) \<Rightarrow> (string \<rightharpoonup> string) bff" where
  "authorize opts h =
     (if co_optional_session opts then
        seq (own_token opts) (\<lambda>token.
        if truthy token then ret (h(''Authorization'' \<mapsto> bearer token)) else ret h)
      else if \<not> co_anonymous opts then
        seq (own_token opts) (\<lambda>token.
        if \<not> truthy token then throw NotAuthenticatedError
        else ret (h(''Authorization'' \<mapsto> bearer token)))
      else ret h)"

definition base_headers :: "string \<Rightarrow> (string \<rightharpoonup> string)" where
  "base_headers token = [''Accept'' \<mapsto> ''application/json'', ''X-Service-Token'' \<mapsto> token]"

definition with_address :: "string option \<Rightarrow> (string \<rightharpoonup> string) \<Rightarrow> (string \<rightharpoonup> string)" where
  "with_address clientIP h = (case clientIP of None \<Rightarrow> h | Some ip \<Rightarrow> h(''X-Forwarded-For'' \<mapsto> ip))"

definition with_body :: "jsval \<Rightarrow> (string \<rightharpoonup> string) \<Rightarrow> (string \<rightharpoonup> string)" where
  "with_body b h = (if b = None then h else h(''Content-Type'' \<mapsto> ''application/json''))"

text \<open>What an answer that is not \<open>ok\<close> becomes.\<close>

definition misconfigured_log :: log_entry where
  "misconfigured_log = LogText [''The core API rejected this application's service credential. '' @
     ''The token in WARDER_URL must match WARDER_SERVICE_TOKEN on the core API. '' @
     ''Regenerate both with: go run ./cmd/warder-api init'']"

definition refused :: "bool \<Rightarrow> nat \<Rightarrow> jsval \<Rightarrow> jsval bff" where
  "refused anonymous status error =
     (if optfield error ''code'' = Some (JStr ''service_unauthorized'') then
        seq (log_error misconfigured_log) (\<lambda>_.
        throw (CoreApiError 503 (JStr ''misconfigured'')
          ''This dashboard is not configured correctly for its backend. Check the server logs.'' None))
      else if status = 401 then
        (if anonymous then
           throw (CoreApiError 401 (JStr ''invalid_credentials'') ''That email and password do not match an account.'' None)
         else throw NotAuthenticatedError)
      else throw (CoreApiError status
        (the (coalesce (optfield error ''code'') (Some (JStr ''request_failed''))))
        (js_string (coalesce (optfield error ''message'') (Some (JStr ''The request could not be completed.''))))
        (optfield error ''details'')))"

text \<open>
  The part of \<open>callCoreApi\<close> after \<open>fetch\<close>.  \<open>fetch\<close> itself throws on a network failure; a body that is
  not JSON reads as \<open>null\<close>.
\<close>

definition answer :: "string \<Rightarrow> string \<Rightarrow> bool \<Rightarrow> fetch_result \<Rightarrow> jsval bff" where
  "answer coreUrl path anonymous r = (case r of
     NetworkFailure cause \<Rightarrow>
       seq (log_error (LogText [''Could not reach the core API at '' @ coreUrl @ path @ '':'', cause])) (\<lambda>_.
       throw upstream_unavailable)
   | CoreResponse status location body \<Rightarrow>
       if 300 \<le> status \<and> status < 400 then
         seq (log_error (LogText [''The core API at '' @ coreUrl @ '' answered '' @ path @ '' with a '' @
               show_nat status @ '' redirect to '' @
               (case location of Some l \<Rightarrow> l | None \<Rightarrow> ''an unknown location'') @
               ''. Check the scheme and host in WARDER_URL.''])) (\<lambda>_.
         throw upstream_unavailable)
       else if status = 204 then ret None
       else
         let payload = (case body of Some j \<Rightarrow> j | None \<Rightarrow> JNull) in
         if \<not> (200 \<le> status \<and> status < 300) then
           refused anonymous status (optfield (Some payload) ''error'')
         else ret (Some payload))"

definition relative_path :: "string \<Rightarrow> bool" where
  "relative_path path = (startsWith path ''/'' \<and> \<not> startsWith path ''//'')"

definition callCoreApi :: "string \<Rightarrow> call_options \<Rightarrow> jsval bff" where
  "callCoreApi path opts =
     (if \<not> relative_path path then
        throw (PlainError (''Refusing to call a non-relative core API path: '' @ path))
      else
        seq connection_of (\<lambda>c.
        seq (authorize opts (base_headers (serviceToken c))) (\<lambda>h.
        seq (asks (\<lambda>sv. callerAddress (sv_in_headers sv))) (\<lambda>clientIP.
        seq (core_fetch \<lparr>cr_url = coreApiUrl c @ path,
               cr_method = (case co_method opts of Some m \<Rightarrow> m | None \<Rightarrow> ''GET''),
               cr_headers = with_body (co_body opts) (with_address clientIP h),
               cr_body = co_body opts\<rparr>) (\<lambda>r.
        answer (coreApiUrl c) path (co_anonymous opts) r)))))"

section \<open>Lemmas\<close>

text \<open>The credential a call carries, as a function of its options and the cookie jar.\<close>

definition call_token :: "call_options \<Rightarrow> (string \<rightharpoonup> cookie) \<Rightarrow> jsval" where
  "call_token opts jar = (case co_session_token opts of Some t \<Rightarrow> Some (JStr t)
     | None \<Rightarrow> coalesce (cookie_get jar SESSION_COOKIE) (Some JNull))"

definition authorization :: "call_options \<Rightarrow> (string \<rightharpoonup> cookie) \<Rightarrow> exn + string option" where
  "authorization opts jar =
     (if truthy (call_token opts jar) \<and> (co_optional_session opts \<or> \<not> co_anonymous opts)
      then Inr (Some (bearer (call_token opts jar)))
      else if co_optional_session opts \<or> co_anonymous opts then Inr None
      else Inl NotAuthenticatedError)"

definition with_authorization :: "string option \<Rightarrow> (string \<rightharpoonup> string) \<Rightarrow> (string \<rightharpoonup> string)" where
  "with_authorization a h = (case a of None \<Rightarrow> h | Some v \<Rightarrow> h(''Authorization'' \<mapsto> v))"

lemma own_token_eval: "own_token opts sv w = (Inr (call_token opts (w_jar w)), w)"
  by (simp add: own_token_def call_token_def getSessionToken_def cookie_value_def bff_simps split: option.splits)

lemma authorize_eval [bff_simps]:
  "authorize opts h sv w =
     (case authorization opts (w_jar w) of Inl e \<Rightarrow> Inl e | Inr a \<Rightarrow> Inr (with_authorization a h), w)"
  by (simp add: authorize_def authorization_def with_authorization_def seq_eval own_token_eval bff_simps)

text \<open>The single request a call sends.\<close>

definition upstream :: "connection \<Rightarrow> string \<Rightarrow> call_options \<Rightarrow> string option \<Rightarrow> string option \<Rightarrow> core_request" where
  "upstream c path opts auth ip = \<lparr>cr_url = coreApiUrl c @ path,
     cr_method = (case co_method opts of Some m \<Rightarrow> m | None \<Rightarrow> ''GET''),
     cr_headers = with_body (co_body opts) (with_address ip (with_authorization auth (base_headers (serviceToken c)))),
     cr_body = co_body opts\<rparr>"

text \<open>The translation of an answer, split into its value and what it logs.\<close>

definition is_misconfigured :: "jsval \<Rightarrow> bool" where
  "is_misconfigured error = (optfield error ''code'' = Some (JStr ''service_unauthorized''))"

definition answer_log :: "string \<Rightarrow> string \<Rightarrow> fetch_result \<Rightarrow> log_entry list" where
  "answer_log coreUrl path r = w_log (snd (answer coreUrl path True r undefined
     \<lparr>w_cached = None, w_jar = Map.empty, w_sent = [], w_draws = 0, w_log = []\<rparr>))"

definition answer_result :: "bool \<Rightarrow> fetch_result \<Rightarrow> exn + jsval" where
  "answer_result anonymous r = fst (answer [] [] anonymous r undefined undefined)"

lemma refused_eval:
  "refused anonymous status error sv w =
     (fst (refused anonymous status error undefined undefined),
      if is_misconfigured error then w\<lparr>w_log := w_log w @ [misconfigured_log]\<rparr> else w)"
  by (auto simp: refused_def is_misconfigured_def seq_eval bff_simps)

lemma answer_eval [bff_simps]:
  "answer coreUrl path anonymous r sv w =
     (answer_result anonymous r, w\<lparr>w_log := w_log w @ answer_log coreUrl path r\<rparr>)"
proof (cases r)
  case (NetworkFailure cause)
  then show ?thesis by (simp add: answer_def answer_result_def answer_log_def seq_eval bff_simps)
next
  case (CoreResponse status location body)
  have w: "w\<lparr>w_log := w_log w\<rparr> = w" by simp
  show ?thesis
    by (simp add: CoreResponse answer_def answer_result_def answer_log_def seq_eval bff_simps w
        refused_eval [of _ _ _ sv w] refused_eval [of _ _ _ undefined "\<lparr>w_cached = None, w_jar = Map.empty, w_sent = [], w_draws = 0, w_log = []\<rparr>"]
        Let_def)
qed

lemma callCoreApi_eval:
  "callCoreApi path opts sv w =
     (if \<not> relative_path path then
        (Inl (PlainError (''Refusing to call a non-relative core API path: '' @ path)), w)
      else case conn_result sv w of
        Inl e \<Rightarrow> (Inl e, conn_world sv w)
      | Inr c \<Rightarrow>
          (case authorization opts (w_jar w) of
             Inl e \<Rightarrow> (Inl e, conn_world sv w)
           | Inr a \<Rightarrow>
               let rq = upstream c path opts a (callerAddress (sv_in_headers sv));
                   r = sv_fetch sv (length (w_sent w)) rq
               in (answer_result (co_anonymous opts) r, (conn_world sv w)\<lparr>w_sent := w_sent w @ [rq],
                     w_log := w_log w @ answer_log (coreApiUrl c) path r\<rparr>)))"
  by (auto simp: callCoreApi_def seq_eval bff_simps core_fetch_def upstream_def Let_def split: sum.splits)

text \<open>What a call does to the state, whatever its outcome.\<close>

lemma callCoreApi_frame [frame_simps]:
  "keeps same_jar (callCoreApi path opts)" "keeps sent_grows (callCoreApi path opts)"
  by (auto simp: keeps_def same_jar_def sent_grows_def callCoreApi_eval Let_def split: sum.splits)

lemma upstream_headers:
  "cr_headers (upstream c path opts a ip) ''X-Service-Token'' = Some (serviceToken c)"
  "cr_headers (upstream c path opts a ip) ''Authorization'' = a"
  "cr_headers (upstream c path opts a ip) ''X-Forwarded-For'' = ip"
  by (auto simp: upstream_def with_body_def with_address_def with_authorization_def base_headers_def split: option.splits)

lemma upstream_sel [simp]:
  "cr_url (upstream c path opts a ip) = coreApiUrl c @ path"
  "cr_body (upstream c path opts a ip) = co_body opts"
  "cr_method (upstream c path opts a ip) = (case co_method opts of Some m \<Rightarrow> m | None \<Rightarrow> ''GET'')"
  by (simp_all add: upstream_def)

lemma upstream_other_token:
  "upstream (c\<lparr>serviceToken := t\<rparr>) path opts a ip =
     (upstream c path opts a ip)\<lparr>cr_headers := (cr_headers (upstream c path opts a ip))(''X-Service-Token'' \<mapsto> t)\<rparr>"
proof -
  have "with_body b (with_address ip (with_authorization a (base_headers t))) =
      (with_body b (with_address ip (with_authorization a (base_headers u))))(''X-Service-Token'' \<mapsto> t)" for b u
    by (rule ext)
      (auto simp: with_body_def with_address_def with_authorization_def base_headers_def split: option.splits)
  then show ?thesis by (simp add: upstream_def)
qed

text \<open>An exception that reports an answer of the core API, with a status a browser may be sent.\<close>

definition api_failure :: "exn \<Rightarrow> bool" where
  "api_failure e = (case e of NotAuthenticatedError \<Rightarrow> True | CoreApiError s c m d \<Rightarrow> 400 \<le> s \<and> s \<le> 599 | _ \<Rightarrow> False)"

definition http_status :: "fetch_result \<Rightarrow> bool" where
  "http_status r = (case r of NetworkFailure _ \<Rightarrow> True | CoreResponse st _ _ \<Rightarrow> 200 \<le> st \<and> st \<le> 599)"

lemma answer_result_failure: "answer_result an r = Inl e \<Longrightarrow> http_status r \<Longrightarrow> api_failure e"
  by (auto simp: answer_result_def answer_def refused_def seq_eval bff_simps upstream_unavailable_def
      api_failure_def http_status_def Let_def split: fetch_result.splits if_splits)

lemma answer_result_ok:
  "answer_result an (CoreResponse st loc body) = Inr v \<longleftrightarrow>
     200 \<le> st \<and> st < 300 \<and> v = (if st = 204 then None else Some (case body of Some j \<Rightarrow> j | None \<Rightarrow> JNull))"
  by (auto simp: answer_result_def answer_def refused_def seq_eval bff_simps Let_def split: if_splits)

lemma answer_result_network: "answer_result an (NetworkFailure m) \<noteq> Inr v"
  by (auto simp: answer_result_def answer_def seq_eval bff_simps)

section \<open>Properties\<close>

text \<open>C4: A call sends at most one request and touches no cookie.  A request that is sent goes to the
  configured core API followed by the very path the caller named, a path that begins with one slash
  and not two; it carries the service token, and it carries a user credential exactly when the options
  allow one and there is one.\<close>

theorem core_call_sends:
  assumes "callCoreApi path opts sv w = (r, w')"
  shows "w_jar w' = w_jar w \<and>
    (w_sent w' = w_sent w \<and> (\<exists>e. r = Inl e) \<or>
     (\<exists>c rq. conn_result sv w = Inr c \<and> relative_path path \<and> w_sent w' = w_sent w @ [rq] \<and>
        cr_url rq = coreApiUrl c @ path \<and> cr_body rq = co_body opts \<and>
        cr_headers rq ''X-Service-Token'' = Some (serviceToken c) \<and>
        cr_headers rq ''Authorization'' =
          (if truthy (call_token opts (w_jar w)) \<and> (co_optional_session opts \<or> \<not> co_anonymous opts)
           then Some (bearer (call_token opts (w_jar w))) else None)))"
  using assms
  by (auto simp: callCoreApi_eval Let_def upstream_headers authorization_def split: sum.splits if_splits)

lemma demo_conn: "conn_result demo_server demo_world = Inr demo_connection"
  using demo_parse by (simp add: conn_result_def demo_server_def demo_world_def)

lemma demo_path: "relative_path ''/projects''"
  by code_simp

theorem core_call_sends_witness:
  "\<exists>x. w_sent (snd (callCoreApi ''/projects'' no_options demo_server demo_world)) = [x] \<and>
     cr_url x = ''https://api.internal:8443/projects'' \<and> cr_headers x ''X-Service-Token'' = Some demo_token \<and>
     cr_headers x ''Authorization'' = Some ''Bearer s3ss''"
proof -
  have t: "call_token no_options (w_jar demo_world) = Some (JStr ''s3ss'')"
    by (simp add: call_token_def no_options_def demo_world_def cookie_get_def)
  then have "authorization no_options (w_jar demo_world) = Inr (Some (bearer (Some (JStr ''s3ss''))))"
    by (simp add: authorization_def no_options_def)
  moreover have o: "\<not> co_anonymous no_options" "w_sent demo_world = []" by (simp_all add: no_options_def demo_world_def)
  moreover have f: "coreApiUrl demo_connection = ''https://api.internal:8443''" "serviceToken demo_connection = demo_token"
    by (simp_all add: demo_connection_def)
  ultimately have "w_sent (snd (callCoreApi ''/projects'' no_options demo_server demo_world)) \<noteq> w_sent demo_world"
    by (simp add: callCoreApi_eval demo_path demo_conn Let_def)
  then show ?thesis
    using core_call_sends [OF prod.collapse [symmetric], of "''/projects''" no_options demo_server demo_world] demo_conn
    by (auto simp: t o demo_conn f bearer_def)
qed

text \<open>A call that needs a session and has none is refused as not authenticated, and nothing leaves the
  process.\<close>

theorem core_call_needs_session:
  assumes "relative_path path" "conn_result sv w = Inr c" "\<not> co_anonymous opts" "\<not> co_optional_session opts"
    and "\<not> truthy (call_token opts (w_jar w))"
  shows "\<exists>w'. callCoreApi path opts sv w = (Inl NotAuthenticatedError, w') \<and> w_sent w' = w_sent w \<and> w_log w' = w_log w"
  using assms by (simp add: callCoreApi_eval authorization_def)

theorem core_call_needs_session_witness:
  "\<exists>w'. callCoreApi ''/projects'' no_options demo_server (demo_world\<lparr>w_jar := Map.empty\<rparr>) = (Inl NotAuthenticatedError, w')"
proof -
  have "conn_result demo_server (demo_world\<lparr>w_jar := Map.empty\<rparr>) = Inr demo_connection"
    using demo_conn by (simp add: conn_result_def)
  then show ?thesis
    using core_call_needs_session [of "''/projects''" demo_server "demo_world\<lparr>w_jar := Map.empty\<rparr>" demo_connection no_options]
    by (auto simp: demo_path no_options_def call_token_def cookie_get_def)
qed

text \<open>C5: The answer decides the outcome.  A 2xx answer yields its JSON body (\<open>undefined\<close> for 204, \<open>null\<close>
  when the body is not JSON); a network failure and a redirect become a 502 and a log entry; an answer
  that blames the service credential becomes a 503; a 401 becomes ``not authenticated'', or
  ``invalid credentials'' for an anonymous call; any other answer keeps its status.  So a call that
  fails for a reason of the core API always fails with a status from 400 to 599.\<close>

theorem core_call_outcome:
  assumes "relative_path path" "conn_result sv w = Inr c" "authorization opts (w_jar w) = Inr a"
    and "sv_fetch sv (length (w_sent w)) (upstream c path opts a (callerAddress (sv_in_headers sv))) = fr"
    and "http_status fr"
  shows "\<exists>r w'. callCoreApi path opts sv w = (r, w') \<and>
    (case fr of
       NetworkFailure m \<Rightarrow> r = Inl upstream_unavailable \<and> length (w_log w') = Suc (length (w_log w))
     | CoreResponse st loc body \<Rightarrow>
         let error = optfield (Some (case body of Some j \<Rightarrow> j | None \<Rightarrow> JNull)) ''error'' in
         (if st = 204 then r = Inr None
          else if st < 300 then r = Inr (Some (case body of Some j \<Rightarrow> j | None \<Rightarrow> JNull))
          else if st < 400 then r = Inl upstream_unavailable \<and> length (w_log w') = Suc (length (w_log w))
          else if is_misconfigured error then
            (\<exists>m. r = Inl (CoreApiError 503 (JStr ''misconfigured'') m None)) \<and> length (w_log w') = Suc (length (w_log w))
          else if st = 401 then
            (if co_anonymous opts then \<exists>m. r = Inl (CoreApiError 401 (JStr ''invalid_credentials'') m None)
             else r = Inl NotAuthenticatedError) \<and> w_log w' = w_log w
          else (\<exists>k m. r = Inl (CoreApiError st k m (optfield error ''details''))) \<and> w_log w' = w_log w)) \<and>
    (\<forall>e. r = Inl e \<longrightarrow> api_failure e)"
proof -
  have f: "\<forall>e. answer_result (co_anonymous opts) fr = Inl e \<longrightarrow> api_failure e"
    using answer_result_failure assms(5) by blast
  show ?thesis
  proof (cases fr)
    case (NetworkFailure m)
    then show ?thesis
      using assms f by (simp add: callCoreApi_eval Let_def answer_result_def answer_log_def answer_def seq_eval bff_simps)
  next
    case (CoreResponse st loc body)
    then show ?thesis
      using assms f
      by (auto simp add: callCoreApi_eval Let_def answer_result_def answer_log_def answer_def seq_eval bff_simps
          refused_def is_misconfigured_def http_status_def)
  qed
qed

theorem core_call_outcome_witness:
  "\<exists>w'. callCoreApi ''/projects'' no_options demo_server demo_world = (Inl upstream_unavailable, w')"
proof -
  have a: "authorization no_options (w_jar demo_world) = Inr (Some (bearer (Some (JStr ''s3ss''))))"
    by (simp add: authorization_def call_token_def no_options_def demo_world_def cookie_get_def)
  have f: "sv_fetch demo_server n rq = NetworkFailure ''refused''" for n rq
    by (simp add: demo_server_def)
  show ?thesis
    using core_call_outcome [OF demo_path demo_conn a f] by (auto simp: http_status_def)
qed

text \<open>The service credential is confined to the request header.  If the core API answers the same
  whatever service token it is shown, then the result of a call, everything it logs and the cookie jar
  are the same for any two service tokens.\<close>

theorem service_token_confined:
  assumes "w_cached w = Some c"
    and "\<And>n rq t. sv_fetch sv n (rq\<lparr>cr_headers := (cr_headers rq)(''X-Service-Token'' \<mapsto> t)\<rparr>) = sv_fetch sv n rq"
    and "callCoreApi path opts sv w = (r, v)"
    and "callCoreApi path opts sv (w\<lparr>w_cached := Some (c\<lparr>serviceToken := t\<rparr>)\<rparr>) = (r', v')"
  shows "r' = r \<and> w_log v' = w_log v \<and> w_jar v' = w_jar v \<and> map cr_url (w_sent v') = map cr_url (w_sent v)"
  using assms(1,3,4)
  by (auto simp: callCoreApi_eval conn_result_def Let_def upstream_other_token assms(2) split: if_splits sum.splits)

theorem service_token_confined_witness:
  "fst (callCoreApi ''/projects'' no_options demo_server (demo_world\<lparr>w_cached := Some (demo_connection\<lparr>serviceToken := ''other''\<rparr>)\<rparr>))
   = fst (callCoreApi ''/projects'' no_options demo_server (demo_world\<lparr>w_cached := Some demo_connection\<rparr>))"
proof -
  let ?w = "demo_world\<lparr>w_cached := Some demo_connection\<rparr>"
  let ?w' = "?w\<lparr>w_cached := Some (demo_connection\<lparr>serviceToken := ''other''\<rparr>)\<rparr>"
  obtain r v r' v' where e: "callCoreApi ''/projects'' no_options demo_server ?w = (r, v)"
      "callCoreApi ''/projects'' no_options demo_server ?w' = (r', v')"
    by (metis prod.collapse)
  have "r' = r"
    using service_token_confined [OF _ _ e] by (simp add: demo_server_def)
  with e show ?thesis by simp
qed

end
