(* ===== verification/RouteHelpers.thy ===== *)
theory RouteHelpers imports CoreApi begin

text \<open>
  The shared shape of the routes (web/lib/route-helpers.ts): the two wrappers, the translation of
  exceptions into responses, and the readers that validate what a request carries.
\<close>

section \<open>Model\<close>

record response =
  rs_status :: nat
  rs_body :: json
  rs_headers :: "string \<rightharpoonup> string"

definition jsonResponse :: "json \<Rightarrow> nat \<Rightarrow> response" where
  "jsonResponse body status =
     \<lparr>rs_status = status, rs_body = body, rs_headers = [''Cache-Control'' \<mapsto> ''no-store, must-revalidate'']\<rparr>"

definition error_body :: "jsval \<Rightarrow> string \<Rightarrow> jsval \<Rightarrow> json" where
  "error_body code message details =
     obj [(''error'', Some (obj [(''code'', code), (''message'', Some (JStr message)), (''details'', details)]))]"

definition errorResponse :: "exn \<Rightarrow> response bff" where
  "errorResponse error = (case error of
     NotAuthenticatedError \<Rightarrow> ret (jsonResponse (error_body (Some (JStr ''unauthorized'')) (exn_message error) None) 401)
   | CsrfError m \<Rightarrow> ret (jsonResponse (error_body (Some (JStr ''csrf_failed'')) m None) 403)
   | CoreApiError status code m details \<Rightarrow> ret (jsonResponse (error_body (Some code) m details) status)
   | _ \<Rightarrow> seq (log_error (LogError ''Unhandled BFF error:'' error)) (\<lambda>_.
       ret (jsonResponse (error_body (Some (JStr ''internal_error'')) ''Something went wrong. Try again.'' None) 500)))"

definition ok_body :: json where
  "ok_body = obj [(''ok'', Some (JBool True))]"

text \<open>\<open>result ?? { ok: true }\<close>\<close>

definition or_ok :: "jsval \<Rightarrow> json" where
  "or_ok result = (case coalesce result (Some ok_body) of Some j \<Rightarrow> j | None \<Rightarrow> JNull)"

definition handleRoute :: "request \<Rightarrow> jsval bff \<Rightarrow> response bff" where
  "handleRoute rq handler =
     try_catch
       (seq (assertCsrf rq) (\<lambda>_.
        seq handler (\<lambda>result.
        ret (jsonResponse (or_ok result) 200))))
       errorResponse"

definition handlePreAuthRoute :: "jsval bff \<Rightarrow> response bff" where
  "handlePreAuthRoute handler =
     try_catch (seq handler (\<lambda>result. ret (jsonResponse (or_ok result) 200))) errorResponse"

fun is_array :: "json \<Rightarrow> bool" where
  "is_array (JArr xs) = True"
| "is_array _ = False"

definition bad_request :: exn where
  "bad_request = CoreApiError 400 (JStr ''bad_request'') ''The request could not be read.'' None"

definition invalid_request :: "string \<Rightarrow> exn" where
  "invalid_request m = CoreApiError 400 (JStr ''invalid_request'') m None"

definition not_found :: exn where
  "not_found = CoreApiError 404 (JStr ''not_found'') ''The resource was not found.'' None"

definition readJson :: "request \<Rightarrow> json bff" where
  "readJson rq =
     try_catch
       (case rq_body rq of
          None \<Rightarrow> throw (PlainError ''Unexpected token in JSON'')
        | Some parsed \<Rightarrow>
            if \<not> typeof_object parsed \<or> parsed = JNull \<or> is_array parsed then throw (PlainError ''not an object'')
            else ret parsed)
       (\<lambda>_. throw bad_request)"

definition requireString :: "json \<Rightarrow> string \<Rightarrow> nat \<Rightarrow> exn + string" where
  "requireString body name maxLength = (case field body name of
     Some (JStr v) \<Rightarrow>
       if trim v = [] then Inl (invalid_request (name @ '' is required.''))
       else if maxLength < length (trim v) then Inl (invalid_request (name @ '' is too long.''))
       else Inr (trim v)
   | _ \<Rightarrow> Inl (invalid_request (name @ '' is required.'')))"

definition optionalString :: "json \<Rightarrow> string \<Rightarrow> nat \<Rightarrow> exn + string" where
  "optionalString body name maxLength =
     (let v = field body name in
      if nullish v \<or> v = Some (JStr []) then Inr []
      else case v of
        Some (JStr s) \<Rightarrow>
          if maxLength < length (trim s) then Inl (invalid_request (name @ '' is too long.'')) else Inr (trim s)
      | _ \<Rightarrow> Inl (invalid_request (name @ '' is not valid.'')))"

text \<open>The default bound of the two string readers.\<close>

definition default_max :: nat where "default_max = 512"

fun as_string :: "json \<Rightarrow> string option" where
  "as_string (JStr s) = Some s"
| "as_string _ = None"

definition stringList :: "json \<Rightarrow> string \<Rightarrow> nat \<Rightarrow> exn + string list" where
  "stringList body name maxItems = (case field body name of
     None \<Rightarrow> Inr []
   | Some JNull \<Rightarrow> Inr []
   | Some (JArr xs) \<Rightarrow>
       if list_ex (\<lambda>x. as_string x = None) xs then Inl (invalid_request (name @ '' is not valid.''))
       else if maxItems < length xs then Inl (invalid_request (name @ '' has too many entries.''))
       else Inr (map (\<lambda>x. the (as_string x)) xs)
   | _ \<Rightarrow> Inl (invalid_request (name @ '' is not valid.'')))"

text \<open>\<open>UUID_PATTERN\<close>: runs of hexadecimal digits of the given lengths, separated by hyphens.\<close>

fun hex_groups :: "nat list \<Rightarrow> string \<Rightarrow> bool" where
  "hex_groups [] s = (s = [])"
| "hex_groups [n] s = (length s = n \<and> list_all is_hex_digit s)"
| "hex_groups (n # m # ns) s =
     (n \<le> length s \<and> list_all is_hex_digit (take n s) \<and>
      (case drop n s of [] \<Rightarrow> False | c # rest \<Rightarrow> c = CHR ''-'' \<and> hex_groups (m # ns) rest))"

definition UUID_PATTERN :: "string \<Rightarrow> bool" where
  "UUID_PATTERN s = hex_groups [8, 4, 4, 4, 12] s"

definition requireId :: "string \<Rightarrow> exn + string" where
  "requireId v = (if \<not> UUID_PATTERN v then Inl not_found else Inr v)"

section \<open>Lemmas\<close>

subsection \<open>The readers\<close>

lemma requireString_Inr:
  "requireString body name n = Inr s \<longleftrightarrow>
     (\<exists>v. field body name = Some (JStr v) \<and> s = trim v \<and> s \<noteq> [] \<and> length s \<le> n)"
  by (auto simp: requireString_def split: option.splits json.splits)

lemma optionalString_Inr:
  "optionalString body name n = Inr s \<longleftrightarrow>
     (s = [] \<and> nullish (field body name) \<or> (\<exists>v. field body name = Some (JStr v) \<and> s = trim v \<and> length s \<le> n))"
  by (auto simp: optionalString_def Let_def nullish_def split: option.splits json.splits)

lemma as_string_JStr [simp]: "as_string (JStr s) = Some s"
  by simp

lemma all_strings: "\<not> list_ex (\<lambda>x. as_string x = None) xs \<longleftrightarrow> (\<exists>ys. xs = map JStr ys)"
proof
  assume "\<not> list_ex (\<lambda>x. as_string x = None) xs"
  then show "\<exists>ys. xs = map JStr ys"
  proof (induction xs)
    case (Cons x xs)
    then obtain ys where "xs = map JStr ys" by auto
    moreover obtain y where "x = JStr y" using Cons.prems by (cases x) auto
    ultimately have "x # xs = map JStr (y # ys)" by simp
    then show ?case by (rule exI)
  qed simp
qed (auto simp: list_ex_iff)

lemma stringList_Inr:
  "stringList body name n = Inr ss \<longleftrightarrow>
     (ss = [] \<and> nullish (field body name) \<or> field body name = Some (JArr (map JStr ss)) \<and> length ss \<le> n)"
proof (cases "\<exists>xs. field body name = Some (JArr xs)")
  case True
  then obtain xs where f: "field body name = Some (JArr xs)" by blast
  have m: "map (\<lambda>x. the (as_string x)) (map JStr ys) = ys" for ys by (simp add: comp_def)
  have i: "map JStr ys = map JStr zs \<longleftrightarrow> ys = zs" for ys zs by (rule inj_map_eq_map) (simp add: inj_def)
  show ?thesis
  proof (cases "\<exists>ys. xs = map JStr ys")
    case True
    then obtain ys where ys: "xs = map JStr ys" by blast
    then have "\<not> list_ex (\<lambda>x. as_string x = None) xs" using all_strings by blast
    then show ?thesis by (auto simp: stringList_def f ys m i comp_def)
  next
    case False
    then have "list_ex (\<lambda>x. as_string x = None) xs" using all_strings by blast
    then show ?thesis using False by (auto simp: stringList_def f)
  qed
next
  case False
  then show ?thesis by (auto simp: stringList_def nullish_def split: option.splits json.splits)
qed

definition reader_failure :: "exn \<Rightarrow> bool" where
  "reader_failure e = (e = not_found \<or> e = bad_request \<or> (\<exists>m. e = invalid_request m))"

lemma reader_failures:
  "requireString body name n = Inl e \<Longrightarrow> reader_failure e"
  "optionalString body name n = Inl e \<Longrightarrow> reader_failure e"
  "stringList body name n = Inl e \<Longrightarrow> reader_failure e"
  "requireId s = Inl e \<Longrightarrow> reader_failure e"
  by (auto simp: requireString_def optionalString_def stringList_def requireId_def reader_failure_def Let_def
      split: option.splits json.splits if_splits)

lemma readJson_eval [bff_simps]:
  "readJson rq sv w = (case rq_body rq of Some (JObj fs) \<Rightarrow> Inr (JObj fs) | _ \<Rightarrow> Inl bad_request, w)"
  by (auto simp: readJson_def try_catch_eval bff_simps split: option.splits json.splits)

lemma hex_groups_step:
  assumes "hex_groups (n # m # ns) s"
  obtains p rest where "s = p @ CHR ''-'' # rest" "length p = n" "list_all is_hex_digit p" "hex_groups (m # ns) rest"
proof (cases "drop n s")
  case Nil
  with assms show ?thesis by simp
next
  case (Cons c rest)
  with assms have h: "n \<le> length s" "list_all is_hex_digit (take n s)" "c = CHR ''-''" "hex_groups (m # ns) rest"
    by simp_all
  have "s = take n s @ CHR ''-'' # rest"
    using Cons h(3) by (metis append_take_drop_id)
  with h show ?thesis by (intro that [of "take n s" rest]) auto
qed

declare hex_groups.simps(3) [simp del]

lemma hex_groups_chars:
  "hex_groups ns s \<Longrightarrow> c \<in> set s \<Longrightarrow> is_hex_digit c \<or> c = CHR ''-''"
proof (induction ns arbitrary: s rule: induct_list012)
  case (3 n m ns)
  from "3.prems"(1) obtain p rest
    where "s = p @ CHR ''-'' # rest" "list_all is_hex_digit p" "hex_groups (m # ns) rest"
    by (rule hex_groups_step)
  with "3.prems"(2) "3.IH"(2) show ?case by (auto simp: list_all_iff)
qed (auto simp: list_all_iff)

lemma hex_groups_length:
  "hex_groups (n # ns) s \<Longrightarrow> length s = n + sum_list ns + length ns"
proof (induction ns arbitrary: n s)
  case (Cons m ns)
  from Cons.prems obtain p rest
    where "s = p @ CHR ''-'' # rest" "length p = n" "hex_groups (m # ns) rest"
    by (rule hex_groups_step)
  with Cons.IH [of m rest] show ?case by simp
qed simp

lemma requireId_Inr: "requireId v = Inr s \<longleftrightarrow> s = v \<and> UUID_PATTERN v"
  by (auto simp: requireId_def)

lemma uuid_chars: "UUID_PATTERN s \<Longrightarrow> c \<in> set s \<Longrightarrow> is_hex_digit c \<or> c = CHR ''-''"
  by (metis UUID_PATTERN_def hex_groups_chars)

lemma uuid_length: "UUID_PATTERN s \<Longrightarrow> length s = 36"
  by (drule hex_groups_length [of 8 "[4, 4, 4, 12]" s, folded UUID_PATTERN_def]) simp

lemma uuid_no_slash: "UUID_PATTERN s \<Longrightarrow> CHR ''/'' \<notin> set s"
  using uuid_chars by (force simp: is_hex_digit_def is_digit_def less_eq_char_def)
subsection \<open>The wrappers\<close>

text \<open>Exceptions with a status a response may have.\<close>

definition proper_exn :: "exn \<Rightarrow> bool" where
  "proper_exn e = (case e of CoreApiError s c m d \<Rightarrow> 400 \<le> s \<and> s \<le> 599 | _ \<Rightarrow> True)"

definition sound_upstream :: "server \<Rightarrow> bool" where
  "sound_upstream sv = (\<forall>n rq. http_status (sv_fetch sv n rq))"

definition proper :: "'a bff \<Rightarrow> bool" where
  "proper m = (\<forall>sv w e. sound_upstream sv \<longrightarrow> fst (m sv w) = Inl e \<longrightarrow> proper_exn e)"

lemma properD: "proper m \<Longrightarrow> sound_upstream sv \<Longrightarrow> m sv w = (Inl e, w') \<Longrightarrow> proper_exn e"
  unfolding proper_def by (metis fst_conv)

lemma proper_pure:
  "proper (ret a)" "proper_exn e \<Longrightarrow> proper (throw e)" "proper (asks f)" "proper (getprop v k)" "proper (log_error l)"
  "(\<And>e. r = Inl e \<Longrightarrow> proper_exn e) \<Longrightarrow> proper (lift_ok r)"
  by (auto simp: proper_def bff_simps proper_exn_def)

lemma proper_seq: "proper m \<Longrightarrow> (\<And>a. proper (f a)) \<Longrightarrow> proper (seq m f)"
  unfolding proper_def seq_def by (auto split: prod.splits sum.splits) (metis fst_conv)+

lemma proper_try: "(\<And>e. proper (h e)) \<Longrightarrow> proper (try_catch m h)"
  unfolding proper_def try_catch_def by (auto split: prod.splits sum.splits)

lemma proper_if: "proper m \<Longrightarrow> proper n \<Longrightarrow> proper (if b then m else n)"
  by simp

lemma proper_option: "proper m \<Longrightarrow> (\<And>x. proper (f x)) \<Longrightarrow> proper (case v of None \<Rightarrow> m | Some x \<Rightarrow> f x)"
  by (cases v) auto

lemma reader_failure_proper: "reader_failure e \<Longrightarrow> proper_exn e"
  by (auto simp: reader_failure_def proper_exn_def not_found_def bad_request_def invalid_request_def)

lemma proper_readers:
  "proper (lift_ok (requireString body name n))" "proper (lift_ok (optionalString body name n))"
  "proper (lift_ok (stringList body name n))" "proper (lift_ok (requireId s))" "proper (readJson rq)"
  "proper (throw (invalid_request m))"
  by (auto intro!: proper_pure reader_failure_proper intro: reader_failures simp: reader_failure_def)
    (auto simp: proper_def bff_simps bad_request_def proper_exn_def split: option.splits json.splits)

definition config_exn :: "exn \<Rightarrow> bool" where
  "config_exn e = (e = URIError \<or> (\<exists>m. e = ConnectionError m))"

lemma parse_step_failures:
  "config_exn (connection_error m)"
  "parse_scheme u = Inl e \<Longrightarrow> config_exn e"
  "parse_token dec u = Inl e \<Longrightarrow> config_exn e"
  "parse_posture u = Inl e \<Longrightarrow> config_exn e"
  "resolveAppOrigin nu u po = Inl e \<Longrightarrow> config_exn e"
  by (auto simp: parse_scheme_def parse_token_def parse_posture_def resolveAppOrigin_def config_exn_def
      connection_error_def Let_def split: option.splits list.splits if_splits)

lemma parseConnection_failure: "parseConnection nu dec raw = Inl e \<Longrightarrow> config_exn e"
  unfolding parseConnection_def
  by (auto simp: then_ok_Inl Let_def parse_step_failures split: option.splits if_splits)

lemma conn_result_failure: "conn_result sv w = Inl e \<Longrightarrow> proper_exn e"
  using parseConnection_failure by (fastforce simp: conn_result_def proper_exn_def config_exn_def split: option.splits)

lemma proper_callCoreApi: "proper (callCoreApi path opts)"
  unfolding proper_def
proof (intro allI impI)
  fix sv w e
  assume s: "sound_upstream sv" and f: "fst (callCoreApi path opts sv w) = Inl e"
  have a: "authorization opts (w_jar w) = Inl e \<Longrightarrow> proper_exn e"
    by (auto simp: authorization_def proper_exn_def split: if_splits)
  have u: "answer_result (co_anonymous opts) r = Inl e \<Longrightarrow> http_status r \<Longrightarrow> proper_exn e" for r
    using answer_result_failure [of "co_anonymous opts" r e] by (auto simp: api_failure_def proper_exn_def split: exn.splits)
  show "proper_exn e"
    using f s a u conn_result_failure [of sv w e]
    by (auto simp: callCoreApi_eval Let_def sound_upstream_def proper_exn_def split: if_splits sum.splits)
qed

lemma proper_state:
  "proper (startSession t e)" "proper endSession" "proper connection_of" "proper getSessionToken"
  by (auto simp: proper_def bff_simps getSessionToken_def cookie_value_def conn_result_failure)

lemmas proper_rules = proper_pure(1,3-5) proper_seq proper_try proper_if proper_option proper_readers
  proper_callCoreApi proper_state

definition no_store :: "response \<Rightarrow> bool" where
  "no_store rs = (rs_headers rs ''Cache-Control'' = Some ''no-store, must-revalidate'')"

definition proper_status :: "response \<Rightarrow> bool" where
  "proper_status rs = (rs_status rs = 200 \<or> 400 \<le> rs_status rs \<and> rs_status rs \<le> 599)"

text \<open>The response an exception becomes.\<close>

definition error_response :: "exn \<Rightarrow> response" where
  "error_response e = (case e of
     NotAuthenticatedError \<Rightarrow> jsonResponse (error_body (Some (JStr ''unauthorized'')) (exn_message e) None) 401
   | CsrfError m \<Rightarrow> jsonResponse (error_body (Some (JStr ''csrf_failed'')) m None) 403
   | CoreApiError status code m details \<Rightarrow> jsonResponse (error_body (Some code) m details) status
   | _ \<Rightarrow> jsonResponse (error_body (Some (JStr ''internal_error'')) ''Something went wrong. Try again.'' None) 500)"

lemma errorResponse_eval [bff_simps]:
  "errorResponse e sv w = (Inr (error_response e),
     case e of NotAuthenticatedError \<Rightarrow> w | CsrfError m \<Rightarrow> w | CoreApiError s c m d \<Rightarrow> w
     | _ \<Rightarrow> w\<lparr>w_log := w_log w @ [LogError ''Unhandled BFF error:'' e]\<rparr>)"
  by (cases e) (simp_all add: errorResponse_def error_response_def seq_eval bff_simps)

lemma errorResponse_frame [simp]:
  "w_sent (snd (errorResponse e sv w)) = w_sent w" "w_jar (snd (errorResponse e sv w)) = w_jar w"
  by (cases e; simp add: bff_simps)+

lemma error_response_facts [simp]:
  "no_store (error_response e)" "proper_exn e \<Longrightarrow> proper_status (error_response e)"
  "no_store (jsonResponse b s)" "proper_status (jsonResponse b 200)"
  by (cases e; auto simp: error_response_def no_store_def proper_status_def jsonResponse_def proper_exn_def)+

subsection \<open>The contract of a route\<close>

text \<open>
  A wrapper runs a guard, then the handler, and turns every outcome into a response.  Both ways the
  application builds a route satisfy it: \<open>handleRoute\<close> with the CSRF guard, and \<open>handlePreAuthRoute\<close>
  around a handler that begins with the origin check.
\<close>

locale route_wrapper =
  fixes wrap :: "request \<Rightarrow> jsval bff \<Rightarrow> response bff"
    and guard :: "request \<Rightarrow> unit bff"
  assumes wrap_refused: "guard rq sv w = (Inl e, v) \<Longrightarrow> wrap rq h sv w = errorResponse e sv v"
    and wrap_failed: "guard rq sv w = (Inr u, v) \<Longrightarrow> h sv v = (Inl e, v') \<Longrightarrow> wrap rq h sv w = errorResponse e sv v'"
    and wrap_done: "guard rq sv w = (Inr u, v) \<Longrightarrow> h sv v = (Inr x, v') \<Longrightarrow>
      wrap rq h sv w = (Inr (jsonResponse (or_ok x) 200), v')"
    and guard_silent: "keeps same_sent (guard rq)" "keeps same_jar (guard rq)" "proper (guard rq)"
begin

lemma wrap_cases:
  obtains (refused) e v where "guard rq sv w = (Inl e, v)" "wrap rq h sv w = errorResponse e sv v"
  | (failed) v e v' where "guard rq sv w = (Inr (), v)" "h sv v = (Inl e, v')" "wrap rq h sv w = errorResponse e sv v'"
  | (answered) v x v' where "guard rq sv w = (Inr (), v)" "h sv v = (Inr x, v')"
      "wrap rq h sv w = (Inr (jsonResponse (or_ok x) 200), v')"
proof (cases "guard rq sv w")
  case (Pair g v)
  show ?thesis
  proof (cases g)
    case (Inl e)
    then show ?thesis using Pair wrap_refused refused by blast
  next
    case (Inr u)
    then show ?thesis
      using Pair wrap_failed [of rq sv w u v h] wrap_done [of rq sv w u v h] failed answered
      by (cases "h sv v"; cases "fst (h sv v)") auto
  qed
qed

lemma always_responds: "\<exists>rs w'. wrap rq h sv w = (Inr rs, w') \<and> no_store rs"
  by (cases rule: wrap_cases [of rq sv w h]) (simp_all add: bff_simps)

lemma status_proper:
  assumes "proper h" "sound_upstream sv" "wrap rq h sv w = (Inr rs, w')"
  shows "proper_status rs"
proof (cases rule: wrap_cases [of rq sv w h])
  case refused
  with assms properD [OF guard_silent(3) assms(2)] show ?thesis by (auto simp: bff_simps)
next
  case failed
  with assms properD [OF assms(1,2)] show ?thesis by (auto simp: bff_simps)
next
  case answered
  with assms show ?thesis by auto
qed

lemma refused_is_silent:
  assumes "guard rq sv w = (Inl e, v)"
  shows "\<exists>w'. wrap rq h sv w = (Inr (error_response e), w') \<and> w_sent w' = w_sent w \<and> w_jar w' = w_jar w"
proof -
  have v: "w_sent v = w_sent w" "w_jar v = w_jar w"
    using assms guard_silent keepsD by (fastforce simp: same_sent_def same_jar_def)+
  have e: "wrap rq h sv w = errorResponse e sv v" using assms by (rule wrap_refused)
  show ?thesis
    using v errorResponse_frame [of e sv v] unfolding e by (cases e) (auto simp: bff_simps)
qed

lemma sends_only_after_guard:
  assumes "w_sent (snd (wrap rq h sv w)) \<noteq> w_sent w"
  shows "\<exists>v. guard rq sv w = (Inr (), v)"
  using assms refused_is_silent [of rq sv w _ _ h]
  by (cases "guard rq sv w"; cases "fst (guard rq sv w)") auto

lemma keeps_wrap:
  assumes "world_preorder R" "keeps R h" "keeps R (guard rq)" "\<And>e. keeps R (errorResponse e)"
  shows "keeps R (wrap rq h)"
  unfolding keeps_def
proof (intro allI)
  fix sv w
  note trans = world_preorder.R_trans [OF assms(1)]
  show "R w (snd (wrap rq h sv w))"
  proof (cases rule: wrap_cases [of rq sv w h])
    case (refused e v)
    then show ?thesis using keepsD [OF assms(3)] assms(4) trans unfolding keeps_def by metis
  next
    case (failed v e v')
    then show ?thesis using keepsD [OF assms(3)] keepsD [OF assms(2)] assms(4) trans unfolding keeps_def by metis
  next
    case (answered v x v')
    then show ?thesis using keepsD [OF assms(3)] keepsD [OF assms(2)] trans by (metis snd_conv)
  qed
qed

end

lemma proper_guards: "proper (assertSameOrigin rq)" "proper (assertCsrf rq)"
proof -
  have e: "proper_exn (CsrfError m)" for m by (simp add: proper_exn_def)
  have o: "proper (originMatches og rq)" for og
    unfolding originMatches_def by (intro proper_rules)
  show s: "proper (assertSameOrigin rq)"
    unfolding assertSameOrigin_def by (intro proper_rules proper_pure(2) e o)
  show "proper (assertCsrf rq)"
    unfolding assertCsrf_def getCsrfToken_def
    by (intro proper_rules proper_pure(2) e s) (simp add: proper_def cookie_value_def)
qed

text \<open>The two ways a route is built.\<close>

abbreviation origin_route :: "request \<Rightarrow> jsval bff \<Rightarrow> response bff" where
  "origin_route rq h \<equiv> handlePreAuthRoute (seq (assertSameOrigin rq) (\<lambda>_. h))"

interpretation session_route: route_wrapper handleRoute assertCsrf
  by unfold_locales (auto simp: handleRoute_def try_catch_eval seq_eval bff_simps frame_simps proper_guards)

interpretation pre_session_route: route_wrapper origin_route assertSameOrigin
  by unfold_locales (auto simp: handlePreAuthRoute_def try_catch_eval seq_eval bff_simps frame_simps proper_guards)

section \<open>Properties\<close>

text \<open>An identifier from the URL is accepted only as 36 hexadecimal digits and hyphens, unchanged, so
  wherever it is put between two slashes of a core API path it is exactly one segment of that path: it
  cannot add, remove or climb over segments.\<close>

theorem identifier_is_one_segment:
  assumes "requireId v = Inr s"
  shows "s = v \<and> length s = 36 \<and> list_all (\<lambda>c. is_hex_digit c \<or> c = CHR ''-'') s \<and>
    split_on (CHR ''/'') (pre @ ''/'' @ s @ ''/'' @ post) = split_on (CHR ''/'') pre @ [s] @ split_on (CHR ''/'') post"
proof -
  have u: "s = v" "UUID_PATTERN s" using assms by (auto simp: requireId_Inr)
  have "split_on (CHR ''/'') (pre @ ''/'' @ s @ ''/'' @ post) =
      split_on (CHR ''/'') pre @ split_on (CHR ''/'') s @ split_on (CHR ''/'') post"
    by (simp add: split_on_append)
  with u uuid_length uuid_chars uuid_no_slash show ?thesis by (simp add: split_on_none list_all_iff)
qed

definition demo_id :: string where "demo_id = ''0f8fad5b-d9cb-469f-a165-70867728950E''"

lemma demo_id_ok: "requireId demo_id = Inr demo_id" by code_simp

theorem identifier_is_one_segment_witness:
  "length demo_id = 36 \<and> split_on (CHR ''/'') (''/secrets'' @ ''/'' @ demo_id @ ''/'' @ ''reveal'') = [[], ''secrets'', demo_id, ''reveal'']"
  using identifier_is_one_segment [OF demo_id_ok, of "''/secrets''" "''reveal''"] by auto

text \<open>C34: The two string readers.  A required field is accepted exactly when it is a string whose trimmed
  text is not empty and not longer than the bound; an optional one also when it is absent, null or
  blank, which reads as the empty text.  What either returns is trimmed and within the bound, and
  every refusal is a 400.\<close>

theorem string_readers:
  "(requireString body name n = Inr s \<longleftrightarrow>
      (\<exists>v. field body name = Some (JStr v) \<and> s = trim v \<and> s \<noteq> [] \<and> length s \<le> n)) \<and>
   (optionalString body name n = Inr s \<longleftrightarrow>
      s = [] \<and> nullish (field body name) \<or> (\<exists>v. field body name = Some (JStr v) \<and> s = trim v \<and> length s \<le> n)) \<and>
   (\<forall>e. e \<in> {requireString body name n, optionalString body name n} - range Inr \<longrightarrow> (\<exists>m. e = Inl (invalid_request m)))"
proof -
  have "requireString body name n = Inl e \<Longrightarrow> \<exists>m. e = invalid_request m" for e
    by (auto simp: requireString_def split: option.splits json.splits if_splits)
  moreover have "optionalString body name n = Inl e \<Longrightarrow> \<exists>m. e = invalid_request m" for e
    by (auto simp: optionalString_def Let_def split: option.splits json.splits if_splits)
  ultimately have "\<forall>e. e \<in> {requireString body name n, optionalString body name n} - range Inr \<longrightarrow> (\<exists>m. e = Inl (invalid_request m))"
    by (metis DiffE insertE rangeI singletonD sum.exhaust_sel)
  then show ?thesis by (simp only: requireString_Inr optionalString_Inr simp_thms)
qed

theorem string_readers_witness:
  "requireString (JObj [(''name'', JStr '' a '')]) ''name'' 128 = Inr ''a''"
proof -
  have t: "trim '' a '' = ''a''" by code_simp
  show ?thesis
    using string_readers [of "JObj [(''name'', JStr '' a '')]" "''name''" 128 "''a''"] t by simp
qed

end
