(* ===== verification/AuthRoutes.thy ===== *)
theory AuthRoutes imports RouteHelpers begin

text \<open>
  The routes that sign in and out and manage the caller's own credentials (web/app/api/auth).  Each
  is the wrapper applied to a handler; a handler reads the request, calls the core API once, and
  shapes what comes back.
\<close>

section \<open>Model\<close>

definition get_options :: call_options where
  "get_options = no_options"

definition post_options :: "jsval \<Rightarrow> call_options" where
  "post_options body = no_options\<lparr>co_method := Some ''POST'', co_body := body\<rparr>"

definition delete_options :: call_options where
  "delete_options = no_options\<lparr>co_method := Some ''DELETE''\<rparr>"

definition anonymous_post :: "jsval \<Rightarrow> call_options" where
  "anonymous_post body = (post_options body)\<lparr>co_anonymous := True\<rparr>"

definition optional_session_post :: "jsval \<Rightarrow> call_options" where
  "optional_session_post body = (post_options body)\<lparr>co_optional_session := True\<rparr>"

text \<open>\<open>new Date(v)\<close>: a time, or an invalid date.\<close>

definition new_date :: "jsval \<Rightarrow> int option bff" where
  "new_date v = asks (\<lambda>sv. sv_date sv v)"

subsection \<open>Sign-in, sign-up, sign-out\<close>

definition login_POST :: "request \<Rightarrow> response bff" where
  "login_POST rq = handlePreAuthRoute (
     seq (assertSameOrigin rq) (\<lambda>_.
     seq (readJson rq) (\<lambda>body.
     seq (lift_ok (requireString body ''email'' 320)) (\<lambda>email.
     seq (lift_ok (requireString body ''password'' 256)) (\<lambda>password.
     seq (callCoreApi ''/auth/login'' (anonymous_post (Some (obj [
            (''email'', Some (JStr email)), (''password'', Some (JStr password)),
            (''kind'', Some (JStr ''browser''))])))) (\<lambda>result.
     seq (getprop result ''mfaRequired'') (\<lambda>mfa.
     if truthy mfa then
       ret (Some (obj [(''mfaRequired'', Some (JBool True)),
         (''pendingToken'', optfield result ''pendingToken''),
         (''expiresAt'', optfield result ''expiresAt'')]))
     else
       seq (new_date (optfield result ''expiresAt'')) (\<lambda>expiresAt.
       seq (startSession (optfield result ''sessionToken'') expiresAt) (\<lambda>csrfToken.
       seq (getprop (optfield result ''user'') ''email'') (\<lambda>email.
       seq (getprop (optfield result ''user'') ''name'') (\<lambda>name.
       seq (getprop (optfield result ''user'') ''organization'') (\<lambda>organization.
       seq (getprop (optfield result ''user'') ''role'') (\<lambda>role.
       ret (Some (obj [
         (''user'', Some (obj [(''email'', email), (''name'', name), (''organization'', organization), (''role'', role)])),
         (''csrfToken'', Some (JStr csrfToken))])))))))))))))))"

definition signup_POST :: "request \<Rightarrow> response bff" where
  "signup_POST rq = handlePreAuthRoute (
     seq (assertSameOrigin rq) (\<lambda>_.
     seq (readJson rq) (\<lambda>body.
     seq (lift_ok (requireString body ''name'' 128)) (\<lambda>name.
     seq (lift_ok (requireString body ''email'' 320)) (\<lambda>email.
     seq (lift_ok (requireString body ''password'' 256)) (\<lambda>password.
     seq (callCoreApi ''/auth/signup'' (anonymous_post (Some (obj [
            (''name'', Some (JStr name)), (''email'', Some (JStr email)), (''password'', Some (JStr password))])))) (\<lambda>session.
     seq (getprop session ''sessionToken'') (\<lambda>sessionToken.
     seq (new_date (optfield session ''expiresAt'')) (\<lambda>expiresAt.
     seq (startSession sessionToken expiresAt) (\<lambda>csrfToken.
     ret (Some (obj [(''user'', optfield session ''user''), (''csrfToken'', Some (JStr csrfToken)),
       (''recoveryCodes'', coalesce (optfield session ''recoveryCodes'') (Some (JArr [])))]))))))))))))"

definition logout_POST :: "request \<Rightarrow> response bff" where
  "logout_POST rq = handleRoute rq (
     seq (try_catch (seq (callCoreApi ''/auth/logout'' (post_options None)) (\<lambda>_. ret ())) (\<lambda>_. ret ())) (\<lambda>_.
     seq endSession (\<lambda>_.
     ret (Some (obj [(''ok'', Some (JBool True))])))))"

text \<open>The public header's question who is signed in; it uses no wrapper.\<close>

definition no_user :: response where
  "no_user = jsonResponse (obj [(''user'', Some JNull)]) 200"

definition session_GET :: "response bff" where
  "session_GET =
     seq getSessionToken (\<lambda>token.
     if \<not> truthy token then ret no_user
     else try_catch
       (seq (callCoreApi ''/auth/session'' get_options) (\<lambda>user.
        seq (getprop user ''name'') (\<lambda>name.
        seq (getprop user ''email'') (\<lambda>email.
        seq (getprop user ''organization'') (\<lambda>organization.
        ret (jsonResponse (obj [(''user'', Some (obj [(''name'', name), (''email'', email),
          (''organization'', organization)]))]) 200))))))
       (\<lambda>error. case error of NotAuthenticatedError \<Rightarrow> ret no_user | _ \<Rightarrow> ret no_user))"

subsection \<open>Invitations and passwords\<close>

definition accept_invitation_POST :: "request \<Rightarrow> response bff" where
  "accept_invitation_POST rq = handlePreAuthRoute (
     seq (assertSameOrigin rq) (\<lambda>_.
     seq (readJson rq) (\<lambda>body.
     seq (lift_ok (requireString body ''token'' 128)) (\<lambda>token.
     seq (lift_ok (optionalString body ''name'' 128)) (\<lambda>name.
     seq (lift_ok (optionalString body ''password'' 256)) (\<lambda>password.
     callCoreApi ''/auth/accept-invitation'' (optional_session_post (Some (obj [
       (''token'', Some (JStr token)), (''name'', Some (JStr name)), (''password'', Some (JStr password))])))))))))"

definition invitation_inspect_POST :: "request \<Rightarrow> response bff" where
  "invitation_inspect_POST rq = handlePreAuthRoute (
     seq (assertSameOrigin rq) (\<lambda>_.
     seq (readJson rq) (\<lambda>body.
     seq (lift_ok (requireString body ''token'' 128)) (\<lambda>token.
     callCoreApi ''/auth/invitations/inspect'' (optional_session_post (Some (obj [(''token'', Some (JStr token))])))))))"

definition password_POST :: "request \<Rightarrow> response bff" where
  "password_POST rq = handleRoute rq (
     seq (readJson rq) (\<lambda>body.
     callCoreApi ''/auth/password'' (post_options (Some body))))"

definition password_recover_POST :: "request \<Rightarrow> response bff" where
  "password_recover_POST rq = handlePreAuthRoute (
     seq (assertSameOrigin rq) (\<lambda>_.
     seq (readJson rq) (\<lambda>body.
     callCoreApi ''/auth/password/recover'' (anonymous_post (Some body)))))"

definition password_reset_POST :: "request \<Rightarrow> response bff" where
  "password_reset_POST rq = handlePreAuthRoute (
     seq (assertSameOrigin rq) (\<lambda>_.
     seq (readJson rq) (\<lambda>body.
     callCoreApi ''/auth/password/reset'' (anonymous_post (Some body)))))"

definition recovery_codes_GET :: "request \<Rightarrow> response bff" where
  "recovery_codes_GET rq = handleRoute rq (callCoreApi ''/auth/recovery-codes'' get_options)"

definition recovery_codes_POST :: "request \<Rightarrow> response bff" where
  "recovery_codes_POST rq = handleRoute rq (callCoreApi ''/auth/recovery-codes'' (post_options None))"

subsection \<open>Passkeys\<close>

definition passkeys_GET :: "request \<Rightarrow> response bff" where
  "passkeys_GET rq = handleRoute rq (callCoreApi ''/auth/passkeys'' get_options)"

definition passkey_DELETE :: "request \<Rightarrow> string \<Rightarrow> response bff" where
  "passkey_DELETE rq passkeyId = handleRoute rq (
     seq (lift_ok (requireId passkeyId)) (\<lambda>i.
     callCoreApi (''/auth/passkeys/'' @ i) delete_options))"

definition register_begin_POST :: "request \<Rightarrow> response bff" where
  "register_begin_POST rq = handleRoute rq (callCoreApi ''/auth/passkeys/register/begin'' (post_options (Some (obj []))))"

definition register_finish_POST :: "request \<Rightarrow> response bff" where
  "register_finish_POST rq = handleRoute rq (
     seq (readJson rq) (\<lambda>body.
     callCoreApi ''/auth/passkeys/register/finish'' (post_options (Some body))))"

definition signin_begin_POST :: "request \<Rightarrow> response bff" where
  "signin_begin_POST rq = handlePreAuthRoute (
     seq (assertSameOrigin rq) (\<lambda>_.
     callCoreApi ''/auth/passkeys/signin/begin'' (anonymous_post (Some (obj [])))))"

definition assert_begin_POST :: "request \<Rightarrow> response bff" where
  "assert_begin_POST rq = handlePreAuthRoute (
     seq (assertSameOrigin rq) (\<lambda>_.
     seq (readJson rq) (\<lambda>body.
     callCoreApi ''/auth/passkeys/assert/begin'' (anonymous_post (Some body)))))"

text \<open>Three routes finish a sign-in alike; each is its own file in the source.\<close>

definition signin_finish_POST :: "request \<Rightarrow> response bff" where
  "signin_finish_POST rq = handlePreAuthRoute (
     seq (assertSameOrigin rq) (\<lambda>_.
     seq (readJson rq) (\<lambda>body.
     seq (callCoreApi ''/auth/passkeys/signin/finish'' (anonymous_post (Some body))) (\<lambda>result.
     seq (getprop result ''sessionToken'') (\<lambda>sessionToken.
     seq (new_date (optfield result ''expiresAt'')) (\<lambda>expiresAt.
     seq (startSession sessionToken expiresAt) (\<lambda>csrfToken.
     ret (Some (obj [(''user'', optfield result ''user''), (''csrfToken'', Some (JStr csrfToken))])))))))))"

definition assert_finish_POST :: "request \<Rightarrow> response bff" where
  "assert_finish_POST rq = handlePreAuthRoute (
     seq (assertSameOrigin rq) (\<lambda>_.
     seq (readJson rq) (\<lambda>body.
     seq (callCoreApi ''/auth/passkeys/assert/finish'' (anonymous_post (Some body))) (\<lambda>result.
     seq (getprop result ''sessionToken'') (\<lambda>sessionToken.
     seq (new_date (optfield result ''expiresAt'')) (\<lambda>expiresAt.
     seq (startSession sessionToken expiresAt) (\<lambda>csrfToken.
     ret (Some (obj [(''user'', optfield result ''user''), (''csrfToken'', Some (JStr csrfToken))])))))))))"

definition assert_recovery_POST :: "request \<Rightarrow> response bff" where
  "assert_recovery_POST rq = handlePreAuthRoute (
     seq (assertSameOrigin rq) (\<lambda>_.
     seq (readJson rq) (\<lambda>body.
     seq (callCoreApi ''/auth/passkeys/assert/recovery'' (anonymous_post (Some body))) (\<lambda>result.
     seq (getprop result ''sessionToken'') (\<lambda>sessionToken.
     seq (new_date (optfield result ''expiresAt'')) (\<lambda>expiresAt.
     seq (startSession sessionToken expiresAt) (\<lambda>csrfToken.
     ret (Some (obj [(''user'', optfield result ''user''), (''csrfToken'', Some (JStr csrfToken))])))))))))"

section \<open>Where the session credential goes\<close>

text \<open>
  \<open>with_token t\<close> is the same core API issuing the session credential \<open>t\<close>: every top-level field
  \<open>sessionToken\<close> of an answer carries \<open>t\<close> instead.  An action that behaves alike under both does not
  disclose the credential.
\<close>

fun set_token :: "json \<Rightarrow> json \<Rightarrow> json" where
  "set_token t (JObj fs) = JObj (map (\<lambda>(k, v). (k, if k = ''sessionToken'' then t else v)) fs)"
| "set_token t j = j"

fun answer_token :: "json \<Rightarrow> fetch_result \<Rightarrow> fetch_result" where
  "answer_token t (NetworkFailure m) = NetworkFailure m"
| "answer_token t (CoreResponse st loc body) = CoreResponse st loc (map_option (set_token t) body)"

definition with_token :: "json \<Rightarrow> server \<Rightarrow> server" where
  "with_token t sv = sv\<lparr>sv_fetch := (\<lambda>n rq. answer_token t (sv_fetch sv n rq))\<rparr>"

lemma field_set_token [simp]:
  "field (set_token t j) k = (if k = ''sessionToken'' then map_option (\<lambda>_. t) (field j k) else field j k)"
proof (cases j)
  case (JObj fs)
  have "map_of (map (\<lambda>(k, v). (k, if k = ''sessionToken'' then t else v)) fs) k =
      (if k = ''sessionToken'' then map_option (\<lambda>_. t) (map_of fs k) else map_of fs k)"
    by (induction fs) auto
  with JObj show ?thesis by simp
qed auto

lemma optfield_set_token [simp]:
  "optfield (map_option (set_token t) v) k =
     (if k = ''sessionToken'' then map_option (\<lambda>_. t) (optfield v k) else optfield v k)"
  by (cases v) auto

lemma set_token_JNull [simp]: "set_token t j = JNull \<longleftrightarrow> j = JNull"
  by (cases j) auto

lemma nullish_set_token [simp]: "nullish (map_option (set_token t) v) = nullish v"
  by (cases v) (auto simp: nullish_def)

lemma with_token_sel [simp]:
  "sv_warder_url (with_token t sv) = sv_warder_url sv" "sv_new_url (with_token t sv) = sv_new_url sv"
  "sv_decode (with_token t sv) = sv_decode sv" "sv_date (with_token t sv) = sv_date sv"
  "sv_now (with_token t sv) = sv_now sv" "sv_random (with_token t sv) = sv_random sv"
  "sv_in_headers (with_token t sv) = sv_in_headers sv"
  "sv_fetch (with_token t sv) n rq = answer_token t (sv_fetch sv n rq)"
  by (simp_all add: with_token_def)

lemma conn_with_token [simp]:
  "conn_result (with_token t sv) w = conn_result sv w" "conn_world (with_token t sv) w = conn_world sv w"
  by (auto simp: conn_result_def conn_world_def split: option.splits)

lemma guard_with_token [simp]:
  "assertSameOrigin rq (with_token t sv) w = assertSameOrigin rq sv w"
  "assertCsrf rq (with_token t sv) w = assertCsrf rq sv w"
proof -
  have o: "originMatches og rq (with_token t sv) w = originMatches og rq sv w" for og w
    by (auto simp: originMatches_eval split: sum.splits)
  show s: "assertSameOrigin rq (with_token t sv) w = assertSameOrigin rq sv w" for w
    by (simp add: assertSameOrigin_def seq_eval o ret_def throw_def split: option.splits prod.splits sum.splits)
  show "assertCsrf rq (with_token t sv) w = assertCsrf rq sv w"
    by (simp add: assertCsrf_def seq_eval s ret_def throw_def getCsrfToken_def cookie_value_def split: option.splits prod.splits sum.splits)
qed

lemma answer_result_token:
  "answer_result an (answer_token t r) = map_sum id (map_option (set_token t)) (answer_result an r)"
proof (cases r)
  case (CoreResponse st loc body)
  have "optfield (Some (case map_option (set_token t) body of None \<Rightarrow> JNull | Some j \<Rightarrow> j)) ''error'' =
      optfield (Some (case body of None \<Rightarrow> JNull | Some j \<Rightarrow> j)) ''error''"
    by (cases body) auto
  moreover have "(case map_option (set_token t) body of None \<Rightarrow> JNull | Some j \<Rightarrow> j) =
      set_token t (case body of None \<Rightarrow> JNull | Some j \<Rightarrow> j)"
    by (cases body) auto
  ultimately show ?thesis
    by (auto simp: CoreResponse answer_result_def answer_def refused_def seq_eval bff_simps Let_def)
qed (simp add: answer_result_def answer_def seq_eval bff_simps)

lemma answer_log_token: "answer_log u p (answer_token t r) = answer_log u p r"
proof (cases r)
  case (CoreResponse st loc body)
  have "optfield (Some (case map_option (set_token t) body of None \<Rightarrow> JNull | Some j \<Rightarrow> j)) ''error'' =
      optfield (Some (case body of None \<Rightarrow> JNull | Some j \<Rightarrow> j)) ''error''"
    by (cases body) auto
  then show ?thesis
    by (auto simp: CoreResponse answer_log_def answer_def refused_def seq_eval bff_simps Let_def)
qed simp

lemma call_with_token:
  "callCoreApi path opts (with_token t sv) w =
     (map_sum id (map_option (set_token t)) (fst (callCoreApi path opts sv w)), snd (callCoreApi path opts sv w))"
  by (auto simp: callCoreApi_eval Let_def answer_result_token answer_log_token split: sum.splits)

text \<open>
  \<open>agrees t m n\<close>: \<open>n\<close>, run while the core API issues \<open>t\<close>, returns what \<open>m\<close> returns.  \<open>same_result\<close> is the
  same from any two states, for the actions after the cookies are written.
\<close>

definition agrees :: "json \<Rightarrow> 'a bff \<Rightarrow> 'a bff \<Rightarrow> bool" where
  "agrees t m n = (\<forall>sv w. fst (n (with_token t sv) w) = fst (m sv w))"

definition same_result :: "'a bff \<Rightarrow> bool" where
  "same_result m = (\<forall>sv w sv' w'. fst (m sv w) = fst (m sv' w'))"

definition blind :: "json \<Rightarrow> 'a bff \<Rightarrow> bool" where
  "blind t m = (\<forall>sv w. m (with_token t sv) w = m sv w)"

lemma same_result_rules:
  "same_result (ret a)" "same_result (throw e)" "same_result (getprop v k)"
  "same_result m \<Longrightarrow> (\<And>a. same_result (f a)) \<Longrightarrow> same_result (seq m f)"
  unfolding same_result_def
  by (auto simp: bff_simps seq_eval split: prod.splits sum.splits) (metis fst_conv sum.inject sum.distinct(1))+

lemma blind_rules:
  "blind t (ret a)" "blind t (throw e)" "blind t (getprop v k)" "blind t (lift_ok r)" "blind t (readJson rq)"
  "blind t (new_date v)" "blind t (assertSameOrigin rq)" "blind t (assertCsrf rq)"
  by (simp_all add: blind_def bff_simps new_date_def)

lemma agrees_ret: "agrees t (ret a) (ret a)"
  by (simp add: agrees_def bff_simps)

lemma agrees_blind: "blind t m \<Longrightarrow> (\<And>a. agrees t (f a) (g a)) \<Longrightarrow> agrees t (seq m f) (seq m g)"
  unfolding agrees_def blind_def by (auto simp: seq_eval split: prod.splits sum.splits)

lemma agrees_call:
  "(\<And>v. agrees t (f v) (g (map_option (set_token t) v))) \<Longrightarrow>
     agrees t (seq (callCoreApi path opts) f) (seq (callCoreApi path opts) g)"
  unfolding agrees_def by (auto simp: seq_eval call_with_token split: prod.splits sum.splits)

lemma agrees_token:
  "(\<And>v. agrees t (f v) (g (map_option (\<lambda>_. t) v))) \<Longrightarrow>
     agrees t (seq (getprop v ''sessionToken'') f) (seq (getprop (map_option (set_token t) v) ''sessionToken'') g)"
  unfolding agrees_def by (auto simp: seq_eval bff_simps)

lemma agrees_start:
  "(\<And>c. same_result (f c)) \<Longrightarrow> agrees t (seq (startSession x e) f) (seq (startSession y e) f)"
  unfolding agrees_def by (simp add: seq_eval bff_simps fresh_csrf_def) (simp add: same_result_def)

lemma getprop_set_token [simp]:
  "k \<noteq> ''sessionToken'' \<Longrightarrow> getprop (map_option (set_token t) v) k = getprop v k"
  by (simp add: getprop_def)

text \<open>The result of a wrapped handler, without the state.\<close>

lemma handlePreAuthRoute_fst:
  "fst (handlePreAuthRoute h sv w) = (case fst (h sv w) of Inl e \<Rightarrow> Inr (error_response e)
     | Inr x \<Rightarrow> Inr (jsonResponse (or_ok x) 200))"
  by (auto simp: handlePreAuthRoute_def try_catch_eval seq_eval bff_simps split: prod.splits sum.splits)

lemma handleRoute_fst:
  "fst (handleRoute rq h sv w) = (case fst (assertCsrf rq sv w) of Inl e \<Rightarrow> Inr (error_response e)
     | Inr u \<Rightarrow> (case fst (h sv (snd (assertCsrf rq sv w))) of Inl e \<Rightarrow> Inr (error_response e)
         | Inr x \<Rightarrow> Inr (jsonResponse (or_ok x) 200)))"
  by (auto simp: handleRoute_def try_catch_eval seq_eval bff_simps split: prod.splits sum.splits)

lemma agrees_pre_session: "agrees t h h' \<Longrightarrow> agrees t (handlePreAuthRoute h) (handlePreAuthRoute h')"
  unfolding agrees_def by (simp add: handlePreAuthRoute_fst)

lemma agrees_session: "agrees t h h' \<Longrightarrow> agrees t (handleRoute rq h) (handleRoute rq h')"
  unfolding agrees_def by (simp add: handleRoute_fst split: sum.splits)

lemmas agrees_intros = agrees_pre_session agrees_session agrees_ret agrees_call agrees_token agrees_start
  agrees_blind blind_rules same_result_rules

lemma sign_in_agrees:
  "agrees t (login_POST rq) (login_POST rq)"
  "agrees t (signup_POST rq) (signup_POST rq)"
  "agrees t (signin_finish_POST rq) (signin_finish_POST rq)"
  "agrees t (assert_finish_POST rq) (assert_finish_POST rq)"
  "agrees t (assert_recovery_POST rq) (assert_recovery_POST rq)"
  unfolding login_POST_def signup_POST_def signin_finish_POST_def assert_finish_POST_def assert_recovery_POST_def
  by (auto intro!: agrees_intros)

section \<open>Properties\<close>

text \<open>C2: No sign-in route discloses the session credential to the page: whatever credential the core API
  issues in its answer, the response (status, headers and body) of password sign-in, sign-up, the two
  passkey sign-ins and the recovery-code sign-in is the same.\<close>

theorem sign_in_never_discloses_session_token:
  "fst (login_POST rq (with_token t sv) w) = fst (login_POST rq sv w) \<and>
   fst (signup_POST rq (with_token t sv) w) = fst (signup_POST rq sv w) \<and>
   fst (signin_finish_POST rq (with_token t sv) w) = fst (signin_finish_POST rq sv w) \<and>
   fst (assert_finish_POST rq (with_token t sv) w) = fst (assert_finish_POST rq sv w) \<and>
   fst (assert_recovery_POST rq (with_token t sv) w) = fst (assert_recovery_POST rq sv w)"
  using sign_in_agrees [of t rq] by (auto simp: agrees_def)

definition login_call :: "json \<Rightarrow> exn + call_options" where
  "login_call body =
     then_ok (requireString body ''email'' 320) (\<lambda>email.
     then_ok (requireString body ''password'' 256) (\<lambda>password.
     Inr (anonymous_post (Some (obj [(''email'', Some (JStr email)), (''password'', Some (JStr password)),
       (''kind'', Some (JStr ''browser''))])))))"

text \<open>When the core API accepts a password but the account has a passkey, no session begins: the
  response carries the pending token, its expiry and nothing else, no cookie changes, and no CSRF
  token is drawn.\<close>

theorem login_pending_starts_no_session:
  assumes "assertSameOrigin rq sv w = (Inr (), v)" "rq_body rq = Some body" "login_call body = Inr opts"
    and "callCoreApi ''/auth/login'' opts sv v = (Inr (Some result), u)" "truthy (field result ''mfaRequired'')"
  shows "login_POST rq sv w = (Inr (jsonResponse (obj [(''mfaRequired'', Some (JBool True)),
      (''pendingToken'', field result ''pendingToken''), (''expiresAt'', field result ''expiresAt'')]) 200), u) \<and>
    w_jar u = w_jar w"
proof -
  obtain email password where o: "requireString body ''email'' 320 = Inr email" "requireString body ''password'' 256 = Inr password"
      "opts = anonymous_post (Some (obj [(''email'', Some (JStr email)), (''password'', Some (JStr password)),
       (''kind'', Some (JStr ''browser''))]))"
    using assms(3) by (auto simp: login_call_def then_ok_Inr)
  obtain fs where b: "body = JObj fs"
    using o(1) by (cases body) (auto simp: requireString_Inr)
  have r: "\<not> nullish (Some result)" using assms(5) by (cases result) auto
  have j: "w_jar u = w_jar w"
    using keepsD [OF guard_frame(2) assms(1)] keepsD [OF callCoreApi_frame(1) assms(4)] by (simp add: same_jar_def)
  obtain gs where g: "obj [(''mfaRequired'', Some (JBool True)), (''pendingToken'', field result ''pendingToken''),
      (''expiresAt'', field result ''expiresAt'')] = JObj gs"
    unfolding obj_def by blast
  show ?thesis
    using assms o b r j g
    by (simp add: login_POST_def handlePreAuthRoute_def try_catch_eval seq_eval bff_simps or_ok_def del: obj_Cons)
qed

text \<open>C22: Sign-out always signs out.  Once the CSRF guard lets the request through, the response is a 200
  and neither the session credential nor the CSRF token is readable afterwards, even when the core API
  refuses, is unreachable, or there was no session to end.\<close>

theorem logout_always_clears:
  assumes "assertCsrf rq sv w = (Inr (), v)"
  shows "\<exists>w'. logout_POST rq sv w = (Inr (jsonResponse ok_body 200), w') \<and>
    cookie_get (w_jar w') SESSION_COOKIE = None \<and> cookie_get (w_jar w') CSRF_COOKIE = None"
proof -
  obtain r u where c: "callCoreApi ''/auth/logout'' (post_options None) sv v = (r, u)" by (metis prod.collapse)
  show ?thesis
    using assms c
    by (cases r) (auto simp: logout_POST_def handleRoute_def try_catch_eval seq_eval bff_simps or_ok_def ok_body_def cookies.get_del)
qed

definition demo_post :: "json \<Rightarrow> request" where
  "demo_post body = \<lparr>rq_method = ''POST'',
     rq_headers = [''origin'' \<mapsto> appOrigin demo_connection, CSRF_HEADER \<mapsto> ''c5rf''],
     rq_body = Some body, rq_params = []\<rparr>"

definition demo_answers :: "fetch_result \<Rightarrow> server" where
  "demo_answers r = demo_server\<lparr>sv_fetch := (\<lambda>_ _. r)\<rparr>"

lemma demo_answers_conn: "conn_result (demo_answers r) demo_world = Inr demo_connection"
  using demo_conn by (simp add: demo_answers_def conn_result_def demo_world_def)

lemma demo_post_guards:
  "assertSameOrigin (demo_post body) (demo_answers r) demo_world = (Inr (), conn_world (demo_answers r) demo_world)"
  "assertCsrf (demo_post body) (demo_answers r) demo_world = (Inr (), conn_world (demo_answers r) demo_world)"
proof -
  have m: "\<not> safe_method (demo_post body)" by (simp add: safe_method_def demo_post_def) code_simp
  have h: "header (demo_post body) ''origin'' = Some (appOrigin demo_connection)"
    "header (demo_post body) CSRF_HEADER = Some ''c5rf''"
    by (simp_all add: header_def demo_post_def CSRF_HEADER_def demo_connection_def)
  have k: "cookie_get (w_jar demo_world) CSRF_COOKIE = Some (JStr ''c5rf'')"
    by (simp add: demo_world_def cookie_get_def)
  show "assertSameOrigin (demo_post body) (demo_answers r) demo_world = (Inr (), conn_world (demo_answers r) demo_world)"
    using m h by (simp add: assertSameOrigin_ok demo_answers_conn origin_ok_def)
  show "assertCsrf (demo_post body) (demo_answers r) demo_world = (Inr (), conn_world (demo_answers r) demo_world)"
    using m h k by (simp add: assertCsrf_ok demo_answers_conn origin_ok_def)
qed

theorem logout_always_clears_witness:
  "\<exists>w'. logout_POST (demo_post (JObj [])) (demo_answers (NetworkFailure ''refused'')) demo_world =
      (Inr (jsonResponse ok_body 200), w') \<and> cookie_get (w_jar w') SESSION_COOKIE = None"
  using logout_always_clears [OF demo_post_guards(2)] by blast

definition demo_credentials :: json where
  "demo_credentials = JObj [(''email'', JStr ''a@b.c''), (''password'', JStr ''hunter2'')]"

theorem login_pending_starts_no_session_witness:
  "\<exists>u. login_POST (demo_post demo_credentials)
      (demo_answers (CoreResponse 200 None (Some (JObj [(''mfaRequired'', JBool True), (''pendingToken'', JStr ''p3nd'')])))) demo_world =
      (Inr (jsonResponse (JObj [(''mfaRequired'', JBool True), (''pendingToken'', JStr ''p3nd'')]) 200), u)"
proof -
  let ?r = "JObj [(''mfaRequired'', JBool True), (''pendingToken'', JStr ''p3nd'')]"
  let ?sv = "demo_answers (CoreResponse 200 None (Some ?r))"
  obtain opts where o: "login_call demo_credentials = Inr opts" "co_anonymous opts" "\<not> co_optional_session opts"
  proof -
    have "trim ''a@b.c'' = ''a@b.c''" "trim ''hunter2'' = ''hunter2''" by code_simp+
    then show ?thesis
      by (intro that [of "anonymous_post (Some (obj [(''email'', Some (JStr ''a@b.c'')), (''password'', Some (JStr ''hunter2'')),
        (''kind'', Some (JStr ''browser''))]))"])
        (simp_all add: login_call_def demo_credentials_def requireString_def anonymous_post_def post_options_def no_options_def)
  qed
  obtain u where c: "callCoreApi ''/auth/login'' opts ?sv (conn_world ?sv demo_world) = (Inr (Some ?r), u)"
  proof -
    have p: "relative_path ''/auth/login''" by code_simp
    have a: "answer_result True (CoreResponse 200 None (Some ?r)) = Inr (Some ?r)" by (simp add: answer_result_ok)
    show ?thesis
      by (rule that) (simp add: callCoreApi_eval p o demo_answers_conn authorization_def Let_def a, simp add: demo_answers_def a)
  qed
  show ?thesis
    using login_pending_starts_no_session [OF demo_post_guards(1) _ o(1) c] by (auto simp: demo_post_def)
qed

end
