(* ===== verification/Traces.thy ===== *)
theory Traces imports RouteHelpers begin

text \<open>
  What an action sends: \<open>sends P\<close> relates two states when everything sent in between satisfies \<open>P\<close>.  It
  is a preorder, so the rules of \<open>world_preorder\<close> apply to it for every \<open>P\<close>, and the readers add what
  they checked to the assumptions of what follows.
\<close>

definition sends :: "(core_request \<Rightarrow> bool) \<Rightarrow> world \<Rightarrow> world \<Rightarrow> bool" where
  "sends P w w' = (\<exists>rs. w_sent w' = w_sent w @ rs \<and> list_all P rs)"

interpretation sending: world_preorder "sends P" for P
proof unfold_locales
  show "sends P w w" for w by (simp add: sends_def)
  show "sends P u v \<Longrightarrow> sends P v w \<Longrightarrow> sends P u w" for u v w
    by (auto simp: sends_def)
qed

lemma sends_silent: "keeps same_sent m \<Longrightarrow> keeps (sends P) m"
  by (simp add: keeps_def same_sent_def sends_def)

lemma sends_weaken: "(\<And>r. P r \<Longrightarrow> Q r) \<Longrightarrow> sends P w w' \<Longrightarrow> sends Q w w'"
  by (auto simp: sends_def list_all_iff)

lemma sends_lift:
  "(\<And>a. r = Inr a \<Longrightarrow> keeps (sends P) (f a)) \<Longrightarrow> keeps (sends P) (seq (lift_ok r) f)"
  by (cases r) (simp_all add: keeps_def seq_eval bff_simps sends_def)

lemma sends_read:
  "(\<And>fs. rq_body rq = Some (JObj fs) \<Longrightarrow> keeps (sends P) (f (JObj fs))) \<Longrightarrow> keeps (sends P) (seq (readJson rq) f)"
  by (auto simp: keeps_def seq_eval bff_simps sends_def split: option.splits json.splits)

lemma sends_call:
  "(\<And>c a ip. P (upstream c path opts a ip)) \<Longrightarrow> keeps (sends P) (callCoreApi path opts)"
  by (auto simp: keeps_def sends_def callCoreApi_eval Let_def split: sum.splits)

lemma sends_if:
  "(b \<Longrightarrow> keeps (sends P) m) \<Longrightarrow> (\<not> b \<Longrightarrow> keeps (sends P) n) \<Longrightarrow> keeps (sends P) (if b then m else n)"
  by simp

lemma sends_seq_if:
  "(b \<Longrightarrow> keeps (sends P) (seq m f)) \<Longrightarrow> (\<not> b \<Longrightarrow> keeps (sends P) (seq n f)) \<Longrightarrow>
     keeps (sends P) (seq (if b then m else n) f)"
  by simp

lemma sends_seq_ret: "keeps (sends P) (f a) \<Longrightarrow> keeps (sends P) (seq (ret a) f)"
  by (simp add: keeps_def seq_eval bff_simps)

text \<open>The address of a request: the configured core API followed by a path.\<close>

definition core_path :: "core_request \<Rightarrow> string \<Rightarrow> bool" where
  "core_path x path = (\<exists>c :: connection. cr_url x = coreApiUrl c @ path)"

lemma core_path_upstream [simp]: "core_path (upstream c path opts a ip) path"
  by (auto simp: core_path_def)

lemma sends_errorResponse: "keeps (sends P) (errorResponse e)"
  by (simp add: keeps_def sends_def)

lemma sends_handleRoute: "keeps (sends P) h \<Longrightarrow> keeps (sends P) (handleRoute rq h)"
  by (rule session_route.keeps_wrap [OF sending.world_preorder_axioms])
    (simp_all add: sends_silent frame_simps sends_errorResponse)

lemma sends_handlePreAuthRoute: "keeps (sends P) h \<Longrightarrow> keeps (sends P) (handlePreAuthRoute h)"
  unfolding handlePreAuthRoute_def
  by (intro sending.keeps_try sending.keeps_seq sending.keeps_pure sends_errorResponse)

lemma sends_state:
  "keeps (sends P) (startSession t e)" "keeps (sends P) endSession" "keeps (sends P) connection_of"
  "keeps (sends P) getSessionToken" "keeps (sends P) (assertSameOrigin rq)"
  by (simp_all add: sends_silent frame_simps)

lemmas sends_rules = sends_handleRoute sends_handlePreAuthRoute sends_lift sends_read sends_state
  sends_seq_if sends_seq_ret sends_if sending.keeps_pure sending.keeps_seq sending.keeps_try sending.keeps_option

text \<open>Everything a handler sends, from its frame.\<close>

lemma sendsD:
  assumes "keeps (sends P) m" "m sv w = (r, w')" "x \<in> set (drop (length (w_sent w)) (w_sent w'))"
  shows "P x"
  using keepsD [OF assms(1,2)] assms(3) by (auto simp: sends_def list_all_iff)

section \<open>What a request of a page causes\<close>

text \<open>The requests an action added to the trace.\<close>

definition new_requests :: "world \<Rightarrow> world \<Rightarrow> core_request list" where
  "new_requests w w' = drop (length (w_sent w)) (w_sent w')"

text \<open>A request that is let through: the CSRF guard accepts it, the configuration can be read and its
  browser has a session cookie.\<close>

definition let_through :: "request \<Rightarrow> server \<Rightarrow> world \<Rightarrow> connection \<Rightarrow> bool" where
  "let_through rq sv w c = ((\<exists>v. assertCsrf rq sv w = (Inr (), v)) \<and> conn_result sv w = Inr c \<and>
     truthy (cookie_get (w_jar w) SESSION_COOKIE))"

lemma assertCsrf_world: "assertCsrf rq sv w = (Inr (), v) \<Longrightarrow> v = w \<or> v = conn_world sv w"
  by (auto simp: assertCsrf_ok split: if_splits)

text \<open>A handler that comes down to one call sends exactly that call for a request that is let through.\<close>

lemma let_through_call:
  assumes "let_through rq sv w c" "\<And>v. h sv v = callCoreApi path opts sv v" "relative_path path"
    and "co_session_token opts = None" "\<not> co_anonymous opts"
  shows "\<exists>x. new_requests w (snd (handleRoute rq h sv w)) = [x] \<and> cr_url x = coreApiUrl c @ path \<and>
    cr_body x = co_body opts"
proof -
  obtain v where v: "assertCsrf rq sv w = (Inr (), v)" using assms(1) by (auto simp: let_through_def)
  have w: "w_sent v = w_sent w" "w_jar v = w_jar w" "conn_result sv v = Inr c"
    using assertCsrf_world [OF v] assms(1) by (auto simp: let_through_def)
  have "truthy (call_token opts (w_jar w))"
    using assms(1,4) truthy_not_nullish by (auto simp: let_through_def call_token_def)
  then have "\<exists>a. authorization opts (w_jar w) = Inr (Some a)" using assms(5) by (simp add: authorization_def)
  then obtain a where a: "authorization opts (w_jar w) = Inr (Some a)" by blast
  have "w_sent (snd (handleRoute rq h sv w)) = w_sent (snd (h sv v))"
    using v by (auto simp: handleRoute_def try_catch_eval seq_eval bff_simps split: prod.splits sum.splits exn.splits)
  also have "\<dots> = w_sent w @ [upstream c path opts (Some a) (callerAddress (sv_in_headers sv))]"
    using w a assms(3) by (simp add: assms(2) callCoreApi_eval Let_def)
  finally show ?thesis by (simp add: new_requests_def)
qed

text \<open>What a body says under a name: text that has to be there, text that may be missing, and a list of
  texts that may be missing, each within its bound and without the white space around it.\<close>

definition required_text :: "json \<Rightarrow> string \<Rightarrow> nat \<Rightarrow> string \<Rightarrow> bool" where
  "required_text body k n s = (\<exists>v. field body k = Some (JStr v) \<and> s = trim v \<and> s \<noteq> [] \<and> length s \<le> n)"

definition optional_text :: "json \<Rightarrow> string \<Rightarrow> nat \<Rightarrow> string \<Rightarrow> bool" where
  "optional_text body k n s =
     ((field body k = None \<or> field body k = Some JNull) \<and> s = [] \<or>
      (\<exists>v. field body k = Some (JStr v) \<and> s = trim v \<and> length s \<le> n))"

definition optional_texts :: "json \<Rightarrow> string \<Rightarrow> nat \<Rightarrow> string list \<Rightarrow> bool" where
  "optional_texts body k n ss =
     ((field body k = None \<or> field body k = Some JNull) \<and> ss = [] \<or>
      field body k = Some (JArr (map JStr ss)) \<and> length ss \<le> n)"

lemma reads_text:
  "requireString body k n = Inr s \<longleftrightarrow> required_text body k n s"
  "optionalString body k n = Inr s \<longleftrightarrow> optional_text body k n s"
  "stringList body k n = Inr ss \<longleftrightarrow> optional_texts body k n ss"
  by (auto simp: requireString_Inr required_text_def optionalString_Inr optional_text_def stringList_Inr optional_texts_def nullish_def)

lemma text_reads:
  "required_text body k n s \<Longrightarrow> requireString body k n = Inr s"
  "optional_text body k n s \<Longrightarrow> optionalString body k n = Inr s"
  "optional_texts body k n ss \<Longrightarrow> stringList body k n = Inr ss"
  by (simp_all add: reads_text)

lemma read_object: "field body k = Some v \<Longrightarrow> rq_body rq = Some body \<Longrightarrow> readJson rq sv w = (Inr body, w)"
  by (cases body) (auto simp: bff_simps)

end
