(* ===== verification/ResourceRoutes.thy ===== *)
theory ResourceRoutes imports AuthRoutes Traces Codec begin

text \<open>
  The routes that act on an existing session (web/app/api: organizations, members, identities, projects,
  environments, secrets, tokens, audit) and the unauthenticated discovery document
  (web/app/.well-known/warder).
\<close>

section \<open>Organizations and members\<close>

text \<open>
  The block both routes below share: \<open>if (result.sessionToken && result.expiresAt)\<close> start the session
  the core API minted.
\<close>

definition restart_session :: "jsval \<Rightarrow> jsval \<Rightarrow> unit bff" where
  "restart_session token expires =
     (if truthy token \<and> truthy expires then
        seq (new_date expires) (\<lambda>expiresAt.
        seq (startSession token expiresAt) (\<lambda>_. ret ()))
      else ret ())"

definition organizations_POST :: "request \<Rightarrow> response bff" where
  "organizations_POST rq = handleRoute rq (
     seq (readJson rq) (\<lambda>body.
     seq (lift_ok (requireString body ''organizationName'' 128)) (\<lambda>organizationName.
     seq (lift_ok (requireString body ''slug'' 64)) (\<lambda>slug.
     seq (callCoreApi ''/organizations'' (post_options (Some (obj [
            (''organizationName'', Some (JStr organizationName)), (''slug'', Some (JStr slug))])))) (\<lambda>result.
     seq (getprop result ''sessionToken'') (\<lambda>sessionToken.
     seq (restart_session sessionToken (optfield result ''expiresAt'')) (\<lambda>_.
     ret (Some (obj [(''organizationId'', optfield result ''organizationId''),
       (''organization'', optfield result ''organization''), (''slug'', optfield result ''slug'')])))))))))"

definition organizations_GET :: "request \<Rightarrow> response bff" where
  "organizations_GET rq = handleRoute rq (callCoreApi ''/auth/organizations'' get_options)"

definition switch_POST :: "request \<Rightarrow> response bff" where
  "switch_POST rq = handleRoute rq (
     seq (readJson rq) (\<lambda>body.
     seq (lift_ok (requireString body ''organization'' 128)) (\<lambda>organization.
     seq (callCoreApi ''/auth/organizations/switch'' (post_options (Some (obj [
            (''organization'', Some (JStr organization))])))) (\<lambda>result.
     seq (getprop result ''sessionToken'') (\<lambda>sessionToken.
     seq (restart_session sessionToken (optfield result ''expiresAt'')) (\<lambda>_.
     ret (Some (obj [(''organization'', optfield result ''organization''), (''slug'', optfield result ''slug''),
       (''unchanged'', coalesce (optfield result ''unchanged'') (Some (JBool False)))]))))))))"

definition ROLES :: "string list" where
  "ROLES = [''OWNER'', ''ADMIN'', ''DEVELOPER'', ''VIEWER'']"

definition invitations_GET :: "request \<Rightarrow> response bff" where
  "invitations_GET rq = handleRoute rq (callCoreApi ''/members/invitations'' get_options)"

definition invitations_POST :: "request \<Rightarrow> response bff" where
  "invitations_POST rq = handleRoute rq (
     seq (readJson rq) (\<lambda>body.
     seq (lift_ok (requireString body ''role'' 32)) (\<lambda>role.
     if role \<notin> set ROLES then throw (invalid_request ''Choose a valid role.'')
     else
       seq (lift_ok (requireString body ''name'' 128)) (\<lambda>name.
       seq (lift_ok (requireString body ''email'' 320)) (\<lambda>email.
       seq (lift_ok (optionalString body ''expiresAt'' 64)) (\<lambda>expiresAt.
       seq (callCoreApi ''/members/invitations'' (post_options (Some (obj [
              (''name'', Some (JStr name)), (''email'', Some (JStr email)), (''role'', Some (JStr role)),
              (''expiresAt'', Some (JStr expiresAt))])))) (\<lambda>created.
       seq (getprop created ''invitationId'') (\<lambda>invitationId.
       seq connection_of (\<lambda>c.
       ret (Some (obj [(''invitationId'', invitationId), (''email'', optfield created ''email''),
         (''role'', optfield created ''role''), (''expiresAt'', optfield created ''expiresAt''),
         (''inviteUrl'', Some (JStr (appOrigin c @ ''/invite#'' @ js_string (optfield created ''token''))))])))))))))))"

definition invitation_DELETE :: "request \<Rightarrow> string \<Rightarrow> response bff" where
  "invitation_DELETE rq invitationId = handleRoute rq (
     seq (lift_ok (requireId invitationId)) (\<lambda>i.
     callCoreApi (''/members/invitations/'' @ i) delete_options))"

definition member_DELETE :: "request \<Rightarrow> string \<Rightarrow> response bff" where
  "member_DELETE rq membershipId = handleRoute rq (
     seq (lift_ok (requireId membershipId)) (\<lambda>i.
     callCoreApi (''/members/'' @ i) delete_options))"

definition member_recovery_POST :: "request \<Rightarrow> string \<Rightarrow> response bff" where
  "member_recovery_POST rq membershipId = handleRoute rq (
     seq (lift_ok (requireId membershipId)) (\<lambda>i.
     callCoreApi (''/members/'' @ i @ ''/recovery'') (post_options (Some (obj [])))))"

section \<open>Machine identities\<close>

definition ACTOR_TYPES :: "string list" where
  "ACTOR_TYPES = [''SERVICE'', ''AI_AGENT'', ''CI'', ''WORKLOAD'']"

definition identities_GET :: "request \<Rightarrow> response bff" where
  "identities_GET rq = handleRoute rq (callCoreApi ''/identities'' get_options)"

definition identities_POST :: "request \<Rightarrow> response bff" where
  "identities_POST rq = handleRoute rq (
     seq (readJson rq) (\<lambda>body.
     seq (lift_ok (requireString body ''actorType'' 32)) (\<lambda>actorType.
     if actorType \<notin> set ACTOR_TYPES then throw (invalid_request ''Choose a valid identity type.'')
     else
       seq (lift_ok (requireString body ''name'' 128)) (\<lambda>name.
       seq (lift_ok (optionalString body ''expiresAt'' 64)) (\<lambda>expiresAt.
       callCoreApi ''/identities'' (post_options (Some (obj [
         (''name'', Some (JStr name)), (''actorType'', Some (JStr actorType)), (''expiresAt'', Some (JStr expiresAt))]))))))))"

definition identity_disable_POST :: "request \<Rightarrow> string \<Rightarrow> response bff" where
  "identity_disable_POST rq identityId = handleRoute rq (
     seq (lift_ok (requireId identityId)) (\<lambda>i.
     callCoreApi (''/identities/'' @ i @ ''/disable'') (post_options None)))"

section \<open>Projects, environments, access and tokens\<close>

definition projects_GET :: "request \<Rightarrow> response bff" where
  "projects_GET rq = handleRoute rq (callCoreApi ''/projects'' get_options)"

definition projects_POST :: "request \<Rightarrow> response bff" where
  "projects_POST rq = handleRoute rq (
     seq (readJson rq) (\<lambda>body.
     seq (lift_ok (requireString body ''name'' 128)) (\<lambda>name.
     seq (lift_ok (requireString body ''slug'' 64)) (\<lambda>slug.
     callCoreApi ''/projects'' (post_options (Some (obj [(''name'', Some (JStr name)), (''slug'', Some (JStr slug))])))))))"

definition environments_GET :: "request \<Rightarrow> string \<Rightarrow> response bff" where
  "environments_GET rq projectId = handleRoute rq (
     seq (lift_ok (requireId projectId)) (\<lambda>i.
     callCoreApi (''/projects/'' @ i @ ''/environments'') get_options))"

definition environments_POST :: "request \<Rightarrow> string \<Rightarrow> response bff" where
  "environments_POST rq projectId = handleRoute rq (
     seq (readJson rq) (\<lambda>body.
     seq (lift_ok (requireId projectId)) (\<lambda>i.
     seq (lift_ok (requireString body ''name'' 128)) (\<lambda>name.
     seq (lift_ok (requireString body ''slug'' 64)) (\<lambda>slug.
     callCoreApi (''/projects/'' @ i @ ''/environments'')
       (post_options (Some (obj [(''name'', Some (JStr name)), (''slug'', Some (JStr slug))]))))))))"

definition access_GET :: "request \<Rightarrow> string \<Rightarrow> response bff" where
  "access_GET rq projectId = handleRoute rq (
     seq (lift_ok (requireId projectId)) (\<lambda>i.
     callCoreApi (''/projects/'' @ i @ ''/access'') get_options))"

definition access_POST :: "request \<Rightarrow> string \<Rightarrow> response bff" where
  "access_POST rq projectId = handleRoute rq (
     seq (readJson rq) (\<lambda>body.
     seq (lift_ok (requireString body ''subjectType'' 16)) (\<lambda>subjectType.
     if subjectType \<noteq> ''USER'' \<and> subjectType \<noteq> ''MACHINE'' then
       throw (invalid_request ''Choose a person or a machine identity.'')
     else
       let allEnvironments = (field body ''allEnvironments'' = Some (JBool True)) in
       seq (lift_ok (requireId projectId)) (\<lambda>i.
       seq (lift_ok (requireString body ''subjectId'' 64)) (\<lambda>subjectId.
       seq (if allEnvironments then ret [] else lift_ok (requireString body ''environmentId'' 64)) (\<lambda>environmentId.
       seq (lift_ok (optionalString body ''secretId'' 64)) (\<lambda>secretId.
       seq (lift_ok (stringList body ''capabilities'' 16)) (\<lambda>capabilities.
       seq (lift_ok (optionalString body ''expiresAt'' 64)) (\<lambda>expiresAt.
       seq (lift_ok (optionalString body ''reason'' default_max)) (\<lambda>reason.
       callCoreApi (''/projects/'' @ i @ ''/access'') (post_options (Some (obj [
         (''subjectType'', Some (JStr subjectType)), (''subjectId'', Some (JStr subjectId)),
         (''environmentId'', Some (JStr environmentId)), (''secretId'', Some (JStr secretId)),
         (''allEnvironments'', Some (JBool allEnvironments)), (''capabilities'', Some (JArr (map JStr capabilities))),
         (''expiresAt'', Some (JStr expiresAt)), (''reason'', Some (JStr reason))]))))))))))))) "

definition grant_DELETE :: "request \<Rightarrow> string \<Rightarrow> string \<Rightarrow> response bff" where
  "grant_DELETE rq projectId grantId = handleRoute rq (
     seq (lift_ok (requireId projectId)) (\<lambda>p.
     seq (lift_ok (requireId grantId)) (\<lambda>g.
     callCoreApi (''/projects/'' @ p @ ''/access/'' @ g) delete_options)))"

definition tokens_GET :: "request \<Rightarrow> string \<Rightarrow> response bff" where
  "tokens_GET rq projectId = handleRoute rq (
     seq (lift_ok (requireId projectId)) (\<lambda>i.
     callCoreApi (''/projects/'' @ i @ ''/tokens'') get_options))"

definition tokens_POST :: "request \<Rightarrow> string \<Rightarrow> response bff" where
  "tokens_POST rq projectId = handleRoute rq (
     seq (readJson rq) (\<lambda>body.
     seq (lift_ok (requireId projectId)) (\<lambda>i.
     seq (lift_ok (requireString body ''identityId'' 64)) (\<lambda>identityId.
     seq (lift_ok (requireString body ''name'' 128)) (\<lambda>name.
     seq (lift_ok (requireString body ''environmentId'' 64)) (\<lambda>environmentId.
     seq (lift_ok (stringList body ''capabilities'' 16)) (\<lambda>capabilities.
     seq (lift_ok (stringList body ''secretKeys'' 128)) (\<lambda>secretKeys.
     seq (lift_ok (optionalString body ''expiresAt'' 64)) (\<lambda>expiresAt.
     callCoreApi (''/projects/'' @ i @ ''/tokens'') (post_options (Some (obj [
       (''identityId'', Some (JStr identityId)), (''name'', Some (JStr name)),
       (''environmentId'', Some (JStr environmentId)), (''capabilities'', Some (JArr (map JStr capabilities))),
       (''secretKeys'', Some (JArr (map JStr secretKeys))), (''expiresAt'', Some (JStr expiresAt))]))))))))))))"

definition token_revoke_POST :: "request \<Rightarrow> string \<Rightarrow> response bff" where
  "token_revoke_POST rq tokenId = handleRoute rq (
     seq (lift_ok (requireId tokenId)) (\<lambda>i.
     callCoreApi (''/tokens/'' @ i @ ''/revoke'') (post_options None)))"

section \<open>Secrets\<close>

definition secrets_GET :: "request \<Rightarrow> string \<Rightarrow> response bff" where
  "secrets_GET rq environmentId = handleRoute rq (
     seq (lift_ok (requireId environmentId)) (\<lambda>i.
     callCoreApi (''/environments/'' @ i @ ''/secrets'') get_options))"

definition max_value :: nat where "max_value = 524288"

definition secrets_POST :: "request \<Rightarrow> string \<Rightarrow> response bff" where
  "secrets_POST rq environmentId = handleRoute rq (
     seq (readJson rq) (\<lambda>body.
     seq (lift_ok (requireId environmentId)) (\<lambda>i.
     seq (lift_ok (requireString body ''key'' 128)) (\<lambda>key.
     seq (lift_ok (requireString body ''value'' max_value)) (\<lambda>val.
     seq (lift_ok (optionalString body ''description'' default_max)) (\<lambda>description.
     seq (lift_ok (optionalString body ''expiresAt'' 64)) (\<lambda>expiresAt.
     callCoreApi (''/environments/'' @ i @ ''/secrets'') (post_options (Some (obj [
       (''key'', Some (JStr key)), (''value'', Some (JStr val)), (''description'', Some (JStr description)),
       (''expiresAt'', Some (JStr expiresAt))]))))))))))"

definition MAX_SECRETS :: nat where "MAX_SECRETS = 100"

text \<open>The callback of \<open>entries.map\<close>.\<close>

definition batch_entry :: "json \<Rightarrow> exn + json" where
  "batch_entry entry =
     (if \<not> typeof_object entry \<or> entry = JNull then Inl (invalid_request ''Each secret needs a key and a value.'')
      else
        then_ok (requireString entry ''key'' 128) (\<lambda>key.
        then_ok (requireString entry ''value'' 65536) (\<lambda>val.
        then_ok (optionalString entry ''description'' 512) (\<lambda>description.
        Inr (obj [(''key'', Some (JStr key)), (''value'', Some (JStr val)), (''description'', Some (JStr description))])))))"

definition batch_POST :: "request \<Rightarrow> string \<Rightarrow> response bff" where
  "batch_POST rq environmentId = handleRoute rq (
     seq (readJson rq) (\<lambda>body.
     case field body ''secrets'' of
       Some (JArr entries) \<Rightarrow>
         if entries = [] then throw (invalid_request ''Add at least one secret.'')
         else if MAX_SECRETS < length entries then
           throw (invalid_request (''Import at most '' @ show_nat MAX_SECRETS @ '' secrets at a time.''))
         else
           seq (lift_ok (map_ok batch_entry entries)) (\<lambda>secrets.
           seq (lift_ok (requireId environmentId)) (\<lambda>i.
           seq (lift_ok (optionalString body ''expiresAt'' 64)) (\<lambda>expiresAt.
           callCoreApi (''/environments/'' @ i @ ''/secrets/batch'') (post_options (Some (obj [
             (''secrets'', Some (JArr secrets)), (''expiresAt'', Some (JStr expiresAt))]))))))
     | _ \<Rightarrow> throw (invalid_request ''Add at least one secret.'')))"

definition reveal_POST :: "request \<Rightarrow> string \<Rightarrow> response bff" where
  "reveal_POST rq secretId = handleRoute rq (
     seq (lift_ok (requireId secretId)) (\<lambda>i.
     callCoreApi (''/secrets/'' @ i @ ''/reveal'') (post_options None)))"

definition rotate_POST :: "request \<Rightarrow> string \<Rightarrow> response bff" where
  "rotate_POST rq secretId = handleRoute rq (
     seq (readJson rq) (\<lambda>body.
     seq (lift_ok (requireId secretId)) (\<lambda>i.
     seq (lift_ok (requireString body ''value'' max_value)) (\<lambda>val.
     seq (lift_ok (optionalString body ''expiresAt'' 64)) (\<lambda>expiresAt.
     callCoreApi (''/secrets/'' @ i @ ''/rotate'') (post_options (Some (obj [
       (''value'', Some (JStr val)), (''expiresAt'', Some (JStr expiresAt))]))))))))"

definition versions_GET :: "request \<Rightarrow> string \<Rightarrow> response bff" where
  "versions_GET rq secretId = handleRoute rq (
     seq (lift_ok (requireId secretId)) (\<lambda>i.
     callCoreApi (''/secrets/'' @ i @ ''/versions'') get_options))"

text \<open>
  Choosing the version whose expiry changes.  A record that is \<open>null\<close> stops the filter with a
  \<open>TypeError\<close>; the ordinal of a record is the number the core API declares it to be (anything else
  reads as 0 here, where JavaScript would compare it as NaN).
\<close>

definition version_number :: "json \<Rightarrow> int" where
  "version_number v = (case field v ''version'' of Some (JNum n) \<Rightarrow> n | _ \<Rightarrow> 0)"

definition is_live :: "json \<Rightarrow> bool" where
  "is_live v = (field v ''status'' = Some (JStr ''ACTIVE'') \<and> \<not> truthy (field v ''revokedAt''))"

text \<open>\<open>(versions ?? []).filter(...).sort((a, b) => b.version - a.version)[0]\<close>; sort is stable.\<close>

definition current_version :: "jsval \<Rightarrow> exn + jsval" where
  "current_version versions = (case coalesce versions (Some (JArr [])) of
     Some (JArr vs) \<Rightarrow>
       if JNull \<in> set vs then Inl TypeError
       else (case sort_key (\<lambda>v. - version_number v) (filter is_live vs) of
           [] \<Rightarrow> Inr None
         | v # _ \<Rightarrow> Inr (Some v))
   | _ \<Rightarrow> Inl TypeError)"

definition expiry_POST :: "request \<Rightarrow> string \<Rightarrow> response bff" where
  "expiry_POST rq secretId = handleRoute rq (
     seq (readJson rq) (\<lambda>body.
     seq (lift_ok (requireId secretId)) (\<lambda>i.
     seq (callCoreApi (''/secrets/'' @ i @ ''/versions'') get_options) (\<lambda>answer.
     seq (getprop answer ''versions'') (\<lambda>versions.
     seq (lift_ok (current_version versions)) (\<lambda>current.
     if \<not> truthy current then throw (PlainError ''This secret has no active version to change.'')
     else
       seq (lift_ok (optionalString body ''expiresAt'' 64)) (\<lambda>expiresAt.
       callCoreApi (''/secrets/'' @ i @ ''/expiry'') (post_options (Some (obj [
         (''versionId'', optfield current ''id''), (''expiresAt'', Some (JStr expiresAt))]))))))))))"

section \<open>The audit trail\<close>

text \<open>
  \<open>URLSearchParams\<close>: the first value of a name, and the form-urlencoded serialization of UTF-8.
\<close>

definition param_get :: "(string \<times> string) list \<Rightarrow> string \<Rightarrow> string option" where
  "param_get ps name = map_of ps name"

definition utf8_bytes :: "char \<Rightarrow> nat list" where
  "utf8_bytes c = (let n = of_char c in if n < 128 then [n] else [192 + n div 64, 128 + n mod 64])"

definition upper_hex :: "nat \<Rightarrow> char" where
  "upper_hex d = (if d < 10 then char_of (48 + d) else char_of (55 + d))"

definition form_safe :: "char \<Rightarrow> bool" where
  "form_safe c = (is_word_char c \<or> c = CHR ''*'' \<or> c = CHR ''-'' \<or> c = CHR ''.'')"

definition percent :: "nat \<Rightarrow> string" where
  "percent b = [CHR ''%'', upper_hex (b div 16), upper_hex (b mod 16)]"

definition form_char :: "char \<Rightarrow> string" where
  "form_char c = (if form_safe c then [c] else if c = CHR '' '' then ''+'' else concat (map percent (utf8_bytes c)))"

definition form_encode :: "string \<Rightarrow> string" where
  "form_encode s = concat (map form_char s)"

definition params_toString :: "(string \<times> string) list \<Rightarrow> string" where
  "params_toString ps = join ''&'' (map (\<lambda>(k, v). form_encode k @ ''='' @ form_encode v) ps)"

text \<open>The loop over the allowlist; the names are distinct, so \<open>set\<close> appends.\<close>

definition forwarded_params :: "string list \<Rightarrow> (string \<times> string) list \<Rightarrow> (string \<times> string) list" where
  "forwarded_params names incoming = List.map_filter (\<lambda>name. case param_get incoming name of
       None \<Rightarrow> None
     | Some v \<Rightarrow> if v \<noteq> [] \<and> length v \<le> 64 then Some (name, v) else None) names"

definition with_query :: "string \<Rightarrow> string" where
  "with_query q = (if q \<noteq> [] then ''?'' @ q else [])"

definition audit_names :: "string list" where
  "audit_names = [''eventType'', ''outcome'', ''limit'']"

definition project_audit_names :: "string list" where
  "project_audit_names = [''eventType'', ''outcome'', ''environmentId'', ''secretId'', ''limit'']"

definition audit_GET :: "request \<Rightarrow> response bff" where
  "audit_GET rq = (let query = params_toString (forwarded_params audit_names (rq_params rq)) in
     handleRoute rq (callCoreApi (''/audit'' @ with_query query) get_options))"

definition project_audit_GET :: "request \<Rightarrow> string \<Rightarrow> response bff" where
  "project_audit_GET rq projectId =
     (let query = params_toString (forwarded_params project_audit_names (rq_params rq)) in
      handleRoute rq (
        seq (lift_ok (requireId projectId)) (\<lambda>i.
        callCoreApi (''/projects/'' @ i @ ''/audit'' @ with_query query) get_options)))"

section \<open>Discovery\<close>

definition well_known_GET :: "server \<Rightarrow> response" where
  "well_known_GET sv = (case cliRuntimeUrl sv of
     Some (c # cs) \<Rightarrow> \<lparr>rs_status = 200, rs_body = obj [(''runtimeUrl'', Some (JStr (c # cs)))],
         rs_headers = [''Cache-Control'' \<mapsto> ''public, max-age=300'']\<rparr>
   | _ \<Rightarrow> \<lparr>rs_status = 404, rs_body = obj [(''error'', Some (JStr ''runtime_url_not_configured''))],
         rs_headers = [''Cache-Control'' \<mapsto> ''no-store'']\<rparr>)"

section \<open>Lemmas\<close>

subsection \<open>Choosing a version\<close>

lemma sort_key_hd:
  assumes "sort_key f xs = y # ys"
  shows "y \<in> set xs \<and> (\<forall>x \<in> set xs. f y \<le> f x)"
proof -
  have s: "sorted (map f (y # ys))" using sorted_sort_key [of f xs] assms by simp
  have e: "set (y # ys) = set xs" using assms by (metis set_sort)
  with s show ?thesis by auto
qed

lemma current_version_Inr:
  assumes "current_version (Some (JArr vs)) = Inr (Some v)"
  shows "v \<in> set vs \<and> is_live v \<and> (\<forall>u \<in> set vs. is_live u \<longrightarrow> version_number u \<le> version_number v)"
proof -
  obtain ys where s: "sort_key (\<lambda>v. - version_number v) (filter is_live vs) = v # ys"
    using assms by (auto simp: current_version_def split: if_splits list.splits)
  show ?thesis using sort_key_hd [OF s] by auto
qed

lemma current_version_none:
  "current_version (Some (JArr vs)) = Inr None \<longleftrightarrow> JNull \<notin> set vs \<and> (\<forall>v \<in> set vs. \<not> is_live v)"
proof -
  have "sort_key (\<lambda>v. - version_number v) (filter is_live vs) = [] \<longleftrightarrow> (\<forall>v \<in> set vs. \<not> is_live v)"
    by (metis filter_False filter_empty_conv set_empty set_sort sort_key_simps(1))
  then show ?thesis
    by (auto simp: current_version_def split: list.splits)
qed

lemma is_live_truthy: "is_live v \<Longrightarrow> truthy (Some v)"
  by (cases v) (auto simp: is_live_def)

subsection \<open>The form encoding and its inverse\<close>

definition hex_value :: "char \<Rightarrow> nat" where
  "hex_value c = (if is_digit c then of_char c - 48 else of_char c - 55)"

fun form_bytes :: "string \<Rightarrow> nat list" where
  "form_bytes [] = []"
| "form_bytes (c # cs) =
     (if c = CHR ''+'' then 32 # form_bytes cs
      else if c = CHR ''%'' then
        (case cs of a # b # rest \<Rightarrow> (16 * hex_value a + hex_value b) # form_bytes rest | _ \<Rightarrow> of_char c # form_bytes cs)
      else of_char c # form_bytes cs)"

fun utf8_decode :: "nat list \<Rightarrow> string option" where
  "utf8_decode [] = Some []"
| "utf8_decode (b # bs) =
     (if b < 128 then map_option (\<lambda>s. char_of b # s) (utf8_decode bs)
      else case bs of [] \<Rightarrow> None | d # ds \<Rightarrow> map_option (\<lambda>s. char_of ((b - 192) * 64 + (d - 128)) # s) (utf8_decode ds))"

definition form_decode :: "string \<Rightarrow> string option" where
  "form_decode s = utf8_decode (form_bytes s)"

lemma hex_value_upper: "d < 16 \<Longrightarrow> hex_value (upper_hex d) = d"
  by (auto simp: hex_value_def upper_hex_def is_digit_def less_eq_char_def of_char_of)

lemma form_bytes_percent: "b < 256 \<Longrightarrow> form_bytes (percent b @ s) = b # form_bytes s"
  by (simp add: percent_def hex_value_upper)

lemma form_safe_not: "form_safe c \<Longrightarrow> c \<noteq> CHR ''+'' \<and> c \<noteq> CHR ''%'' \<and> c \<noteq> CHR ''&'' \<and> c \<noteq> CHR ''='' \<and> c \<noteq> CHR ''#'' \<and> c \<noteq> CHR ''?'' \<and> c \<noteq> CHR ''/''"
  by (auto simp: form_safe_def is_word_char_def is_upper_def is_lower_def is_digit_def less_eq_char_def)

lemma form_safe_ascii: "form_safe c \<Longrightarrow> of_char c < (128 :: nat)"
  by (auto simp: form_safe_def is_word_char_def is_upper_def is_lower_def is_digit_def less_eq_char_def)

lemma form_bytes_char: "form_bytes (form_char c @ s) = utf8_bytes c @ form_bytes s"
proof -
  have n: "of_char c < (256 :: nat)" by simp
  have lo: "of_char c \<ge> (128 :: nat) \<Longrightarrow> 192 + of_char c div 64 < (256 :: nat)" using n by linarith
  have sp: "c = CHR '' '' \<Longrightarrow> utf8_bytes c = [32]" by (simp add: utf8_bytes_def)
  show ?thesis
    using n lo sp form_safe_not [of c] form_safe_ascii [of c]
    by (auto simp: form_char_def utf8_bytes_def form_bytes_percent Let_def)
qed

lemma form_bytes_encode: "form_bytes (form_encode s) = concat (map utf8_bytes s)"
proof (induction s)
  case (Cons c s)
  have "form_encode (c # s) = form_char c @ form_encode s" by (simp add: form_encode_def)
  with Cons show ?case by (simp add: form_bytes_char)
qed (simp add: form_encode_def)

lemma utf8_decode_bytes: "utf8_decode (utf8_bytes c @ bs) = map_option (\<lambda>s. c # s) (utf8_decode bs)"
proof (cases "of_char c < (128 :: nat)")
  case True
  then show ?thesis by (simp add: utf8_bytes_def)
next
  case False
  have "(192 + of_char c div 64 - 192) * 64 + (128 + of_char c mod 64 - 128) = (of_char c :: nat)" by simp
  with False show ?thesis by (simp add: utf8_bytes_def Let_def)
qed

lemma form_decode_encode: "form_decode (form_encode s) = Some s"
proof -
  have "utf8_decode (concat (map utf8_bytes s)) = Some s"
    by (induction s) (simp_all add: utf8_decode_bytes)
  then show ?thesis by (simp add: form_decode_def form_bytes_encode)
qed

interpretation form: codec form_encode form_decode "\<lambda>_. True"
  by unfold_locales (rule form_decode_encode)

lemma upper_hex_word: "d < 16 \<Longrightarrow> form_safe (upper_hex d)"
  by (auto simp: upper_hex_def form_safe_def is_word_char_def is_digit_def is_upper_def less_eq_char_def of_char_of)

lemma form_encode_chars:
  "c \<in> set (form_encode s) \<Longrightarrow> form_safe c \<or> c = CHR ''+'' \<or> c = CHR ''%''"
proof -
  have "c \<in> set (form_char d) \<Longrightarrow> form_safe c \<or> c = CHR ''+'' \<or> c = CHR ''%''" for d
  proof -
    have n: "of_char d < (256 :: nat)" by simp
    then have "of_char d div 64 < (4 :: nat)" by (rule less_mult_imp_div_less [of _ 4 64, simplified])
    then have "(192 + of_char d div 64) div 16 < (16 :: nat)" by linarith
    moreover have "(128 + of_char d mod 64) div 16 < (16 :: nat)" by linarith
    ultimately have b: "b \<in> set (utf8_bytes d) \<Longrightarrow> b div 16 < 16 \<and> b mod 16 < 16" for b
      using n by (auto simp: utf8_bytes_def Let_def split: if_splits)
    show "c \<in> set (form_char d) \<Longrightarrow> ?thesis"
      using b by (auto simp: form_char_def percent_def upper_hex_word split: if_splits)
  qed
  then show "c \<in> set (form_encode s) \<Longrightarrow> ?thesis" by (auto simp: form_encode_def)
qed

text \<open>Reading a query string back, pair by pair.\<close>

definition query_pair :: "string \<Rightarrow> (string \<times> string) option" where
  "query_pair part = (case split_on (CHR ''='') part of
     [k, v] \<Rightarrow> (case form_decode k of None \<Rightarrow> None | Some a \<Rightarrow> map_option (Pair a) (form_decode v))
   | _ \<Rightarrow> None)"

definition query_pairs :: "string \<Rightarrow> (string \<times> string) option list" where
  "query_pairs q = map query_pair (split_on (CHR ''&'') q)"

lemma form_encode_absent:
  "CHR ''&'' \<notin> set (form_encode s)" "CHR ''='' \<notin> set (form_encode s)" "CHR ''#'' \<notin> set (form_encode s)"
  using form_encode_chars [of "CHR ''&''" s] form_encode_chars [of "CHR ''=''" s] form_encode_chars [of "CHR ''#''" s]
    form_safe_not [of "CHR ''&''"] form_safe_not [of "CHR ''=''"] form_safe_not [of "CHR ''#''"]
  by auto

lemma query_pair_encode: "query_pair (form_encode k @ CHR ''='' # form_encode v) = Some (k, v)"
proof -
  have "split_on (CHR ''='') (form_encode k @ CHR ''='' # form_encode v) = [form_encode k, form_encode v]"
    by (simp only: split_on_append split_on_none form_encode_absent(2) not_False_eq_True append.simps)
  then show ?thesis by (simp add: query_pair_def form.dec_enc)
qed

lemma query_pairs_toString: "ps \<noteq> [] \<Longrightarrow> query_pairs (params_toString ps) = map Some ps"
proof -
  assume "ps \<noteq> []"
  then have "split_on (CHR ''&'') (params_toString ps) = map (\<lambda>(k, v). form_encode k @ ''='' @ form_encode v) ps"
    unfolding params_toString_def by (intro split_on_join) (auto simp: form_encode_absent)
  then show ?thesis by (auto simp: query_pairs_def query_pair_encode)
qed

lemma params_toString_empty: "params_toString ps = [] \<longleftrightarrow> ps = []"
  by (cases ps rule: list.exhaust; cases "tl ps") (auto simp: params_toString_def)

lemma forwarded_params_sound:
  "(k, v) \<in> set (forwarded_params names ps) \<Longrightarrow> k \<in> set names \<and> param_get ps k = Some v \<and> v \<noteq> [] \<and> length v \<le> 64"
  by (auto simp: forwarded_params_def map_filter_def split: option.splits if_splits)

section \<open>Properties\<close>

text \<open>The grant a body asks for: everything the core API is told is read off the body.\<close>

definition narrow_grant :: "json \<Rightarrow> json \<Rightarrow> bool" where
  "narrow_grant asked granted = (\<exists>ty i eid sid whole caps t why.
     granted = JObj [(''subjectType'', JStr ty), (''subjectId'', JStr i), (''environmentId'', JStr eid),
       (''secretId'', JStr sid), (''allEnvironments'', JBool whole), (''capabilities'', JArr (map JStr caps)),
       (''expiresAt'', JStr t), (''reason'', JStr why)] \<and>
     required_text asked ''subjectType'' 16 ty \<and> (ty = ''USER'' \<or> ty = ''MACHINE'') \<and>
     required_text asked ''subjectId'' 64 i \<and>
     (whole \<longleftrightarrow> field asked ''allEnvironments'' = Some (JBool True)) \<and>
     (if whole then eid = [] else required_text asked ''environmentId'' 64 eid) \<and>
     optional_text asked ''secretId'' 64 sid \<and> optional_texts asked ''capabilities'' 16 caps \<and>
     optional_text asked ''expiresAt'' 64 t \<and> optional_text asked ''reason'' 512 why)"

lemma narrow_grantI:
  assumes "requireString asked ''subjectType'' 16 = Inr ty" "\<not> (ty \<noteq> ''USER'' \<and> ty \<noteq> ''MACHINE'')"
    and "requireString asked ''subjectId'' 64 = Inr i"
    and "if field asked ''allEnvironments'' = Some (JBool True) then eid = [] else requireString asked ''environmentId'' 64 = Inr eid"
    and "optionalString asked ''secretId'' 64 = Inr sid" "stringList asked ''capabilities'' 16 = Inr caps"
    and "optionalString asked ''expiresAt'' 64 = Inr t" "optionalString asked ''reason'' default_max = Inr why"
  shows "narrow_grant asked (obj [(''subjectType'', Some (JStr ty)), (''subjectId'', Some (JStr i)),
     (''environmentId'', Some (JStr eid)), (''secretId'', Some (JStr sid)),
     (''allEnvironments'', Some (JBool (field asked ''allEnvironments'' = Some (JBool True)))),
     (''capabilities'', Some (JArr (map JStr caps))), (''expiresAt'', Some (JStr t)), (''reason'', Some (JStr why))])"
  using assms unfolding reads_text default_max_def
  by (auto simp: narrow_grant_def split: if_splits)

lemma forwarded_call:
  assumes "rq_body rq = Some body" "requireId p = Inr i" "F body b"
  shows "\<exists>req fwd. rq_body rq = Some req \<and> cr_body (upstream c (pre @ i @ post) (post_options (Some b)) a ip) = Some fwd \<and>
     core_path (upstream c (pre @ i @ post) (post_options (Some b)) a ip) (pre @ p @ post) \<and> UUID_PATTERN p \<and> F req fwd"
  using assms by (auto simp: requireId_Inr post_options_def)

lemma access_POST_sends:
  "keeps (sends (\<lambda>x. \<exists>asked granted. rq_body rq = Some asked \<and> cr_body x = Some granted \<and>
     core_path x (''/projects/'' @ p @ ''/access'') \<and> UUID_PATTERN p \<and> narrow_grant asked granted)) (access_POST rq p)"
  unfolding access_POST_def Let_def
  by (intro sends_rules sends_call;
    rule forwarded_call, assumption, assumption, rule narrow_grantI, assumption, assumption, assumption,
    simp only: simp_thms if_True if_False, assumption, assumption, assumption, assumption)

lemma let_through_post:
  assumes "let_through rq sv w c" "\<And>v. h sv v = callCoreApi path (post_options (Some b)) sv v" "relative_path path"
  shows "\<exists>x. new_requests w (snd (handleRoute rq h sv w)) = [x] \<and> cr_url x = coreApiUrl c @ path \<and> cr_body x = Some b"
  using let_through_call [OF assms(1), of h path "post_options (Some b)"] assms(2,3)
  by (simp add: post_options_def no_options_def)

lemma project_path: "relative_path (''/projects/'' @ x)" "relative_path (''/environments/'' @ x)" "relative_path (''/secrets/'' @ x)"
  by (simp_all add: relative_path_def startsWith_def)

lemma read_through: "seq (lift_ok (Inr a)) f = f a" "seq (ret a) f = f a" "lift_ok (Inr a) = ret a"
  by (rule ext, rule ext, simp add: seq_eval bff_simps)+

lemma access_POST_goes_through:
  assumes "let_through rq sv w c" "UUID_PATTERN p" "rq_body rq = Some asked" "narrow_grant asked granted"
  shows "\<exists>x. new_requests w (snd (access_POST rq p sv w)) = [x] \<and> cr_url x = coreApiUrl c @ ''/projects/'' @ p @ ''/access'' \<and>
    cr_body x = Some granted"
proof -
  obtain ty i eid sid caps t why where g: "granted = obj [(''subjectType'', Some (JStr ty)), (''subjectId'', Some (JStr i)),
       (''environmentId'', Some (JStr eid)), (''secretId'', Some (JStr sid)),
       (''allEnvironments'', Some (JBool (field asked ''allEnvironments'' = Some (JBool True)))),
       (''capabilities'', Some (JArr (map JStr caps))), (''expiresAt'', Some (JStr t)), (''reason'', Some (JStr why))]"
      "required_text asked ''subjectType'' 16 ty" "ty = ''USER'' \<or> ty = ''MACHINE''" "required_text asked ''subjectId'' 64 i"
      "if field asked ''allEnvironments'' = Some (JBool True) then eid = [] else required_text asked ''environmentId'' 64 eid"
      "optional_text asked ''secretId'' 64 sid" "optional_texts asked ''capabilities'' 16 caps"
      "optional_text asked ''expiresAt'' 64 t" "optional_text asked ''reason'' default_max why"
    using assms(4) unfolding narrow_grant_def default_max_def by (auto split: if_splits)
  obtain v where "field asked ''subjectType'' = Some v" using g(2) by (auto simp: required_text_def)
  note r = read_object [OF this assms(3)]
  have p: "requireId p = Inr p" using assms(2) by (simp add: requireId_Inr)
  have t: "\<not> (ty \<noteq> ''USER'' \<and> ty \<noteq> ''MACHINE'')" using g(3) by blast
  note reads = text_reads(1) [OF g(2)] text_reads(1) [OF g(4)] text_reads(2) [OF g(6)] text_reads(3) [OF g(7)]
    text_reads(2) [OF g(8)] text_reads(2) [OF g(9)]
  have e: "(if field asked ''allEnvironments'' = Some (JBool True) then ret [] else lift_ok (requireString asked ''environmentId'' 64)) = ret eid"
    using g(5) text_reads(1) [of asked "''environmentId''" 64 eid] by (auto simp: read_through(3) split: if_splits)
  show ?thesis
    unfolding access_POST_def g(1)
    by (rule let_through_post [OF assms(1) _ project_path(1)])
      (simp add: seq_eval [of "readJson rq"] r p t e Let_def read_through reads del: obj_Cons)
qed

text \<open>C9: A grant is what was asked.  Whatever the body of a grant request is, every request it causes upstream goes to
  that project's access list and carries exactly these fields, each read off the body: a person or a machine, by its
  id; all environments only when the body's \<open>allEnvironments\<close> is literally \<open>true\<close>, and otherwise the one
  environment named; the secret named, if one is; the capabilities listed, at most 16; the expiry and the
  reason given.  So a grant for one secret or until a date never becomes one for a whole environment or for ever.  And for
  a request that is let through, whose body can be read that way, exactly that one request is sent.\<close>

theorem grant_is_narrow:
  assumes "access_POST rq p sv w = (r, w')"
  shows "(\<forall>x \<in> set (new_requests w w'). \<exists>asked granted. rq_body rq = Some asked \<and> cr_body x = Some granted \<and>
      core_path x (''/projects/'' @ p @ ''/access'') \<and> UUID_PATTERN p \<and> narrow_grant asked granted) \<and>
    (\<forall>c asked granted. let_through rq sv w c \<and> UUID_PATTERN p \<and> rq_body rq = Some asked \<and> narrow_grant asked granted \<longrightarrow>
      (\<exists>x. new_requests w w' = [x] \<and> cr_url x = coreApiUrl c @ ''/projects/'' @ p @ ''/access'' \<and> cr_body x = Some granted))"
  using sendsD [OF access_POST_sends assms(1)] access_POST_goes_through assms(1) by (fastforce simp: new_requests_def)

text \<open>The token a body asks for.\<close>

definition narrow_token :: "json \<Rightarrow> json \<Rightarrow> bool" where
  "narrow_token asked made = (\<exists>i n eid caps keys t.
     made = JObj [(''identityId'', JStr i), (''name'', JStr n), (''environmentId'', JStr eid),
       (''capabilities'', JArr (map JStr caps)), (''secretKeys'', JArr (map JStr keys)), (''expiresAt'', JStr t)] \<and>
     required_text asked ''identityId'' 64 i \<and> required_text asked ''name'' 128 n \<and> required_text asked ''environmentId'' 64 eid \<and>
     optional_texts asked ''capabilities'' 16 caps \<and> optional_texts asked ''secretKeys'' 128 keys \<and>
     optional_text asked ''expiresAt'' 64 t)"

lemma narrow_tokenI:
  assumes "requireString asked ''identityId'' 64 = Inr i" "requireString asked ''name'' 128 = Inr n"
    and "requireString asked ''environmentId'' 64 = Inr eid" "stringList asked ''capabilities'' 16 = Inr caps"
    and "stringList asked ''secretKeys'' 128 = Inr keys" "optionalString asked ''expiresAt'' 64 = Inr t"
  shows "narrow_token asked (obj [(''identityId'', Some (JStr i)), (''name'', Some (JStr n)), (''environmentId'', Some (JStr eid)),
     (''capabilities'', Some (JArr (map JStr caps))), (''secretKeys'', Some (JArr (map JStr keys))), (''expiresAt'', Some (JStr t))])"
  using assms unfolding reads_text by (auto simp: narrow_token_def)

lemma tokens_POST_sends:
  "keeps (sends (\<lambda>x. \<exists>asked made. rq_body rq = Some asked \<and> cr_body x = Some made \<and>
     core_path x (''/projects/'' @ p @ ''/tokens'') \<and> UUID_PATTERN p \<and> narrow_token asked made)) (tokens_POST rq p)"
  unfolding tokens_POST_def
  by (intro sends_rules sends_call;
    rule forwarded_call, assumption, assumption, rule narrow_tokenI, assumption, assumption, assumption, assumption, assumption, assumption)

lemma tokens_POST_goes_through:
  assumes "let_through rq sv w c" "UUID_PATTERN p" "rq_body rq = Some asked" "narrow_token asked made"
  shows "\<exists>x. new_requests w (snd (tokens_POST rq p sv w)) = [x] \<and> cr_url x = coreApiUrl c @ ''/projects/'' @ p @ ''/tokens'' \<and>
    cr_body x = Some made"
proof -
  obtain i n eid caps keys t where g: "made = obj [(''identityId'', Some (JStr i)), (''name'', Some (JStr n)), (''environmentId'', Some (JStr eid)),
       (''capabilities'', Some (JArr (map JStr caps))), (''secretKeys'', Some (JArr (map JStr keys))), (''expiresAt'', Some (JStr t))]"
      "required_text asked ''identityId'' 64 i" "required_text asked ''name'' 128 n" "required_text asked ''environmentId'' 64 eid"
      "optional_texts asked ''capabilities'' 16 caps" "optional_texts asked ''secretKeys'' 128 keys" "optional_text asked ''expiresAt'' 64 t"
    using assms(4) unfolding narrow_token_def by auto
  obtain v where "field asked ''name'' = Some v" using g(3) by (auto simp: required_text_def)
  note r = read_object [OF this assms(3)]
  have p: "requireId p = Inr p" using assms(2) by (simp add: requireId_Inr)
  note reads = text_reads(1) [OF g(2)] text_reads(1) [OF g(3)] text_reads(1) [OF g(4)] text_reads(3) [OF g(5)] text_reads(3) [OF g(6)]
    text_reads(2) [OF g(7)]
  show ?thesis
    unfolding tokens_POST_def g(1)
    by (rule let_through_post [OF assms(1) _ project_path(1)])
      (simp add: seq_eval [of "readJson rq"] r p read_through reads del: obj_Cons)
qed

lemma batch_entry_Inr:
  assumes "batch_entry e = Inr s"
  shows "\<exists>k v d. s = JObj [(''key'', JStr k), (''value'', JStr v), (''description'', JStr d)] \<and>
    k \<noteq> [] \<and> length k \<le> 128 \<and> v \<noteq> [] \<and> length v \<le> 65536 \<and> length d \<le> 512"
  using assms by (auto simp: batch_entry_def then_ok_Inr requireString_Inr optionalString_Inr split: if_splits)

definition batch_body :: "json \<Rightarrow> json \<Rightarrow> bool" where
  "batch_body asked sent = (\<exists>entries secrets e. field asked ''secrets'' = Some (JArr entries) \<and>
     sent = JObj [(''secrets'', JArr secrets), (''expiresAt'', JStr e)] \<and>
     length secrets = length entries \<and> 1 \<le> length secrets \<and> length secrets \<le> 100 \<and>
     (\<forall>s \<in> set secrets. \<exists>k v d. s = JObj [(''key'', JStr k), (''value'', JStr v), (''description'', JStr d)] \<and>
        k \<noteq> [] \<and> length k \<le> 128 \<and> v \<noteq> [] \<and> length v \<le> 65536 \<and> length d \<le> 512))"

lemma map_ok_batch:
  assumes "map_ok batch_entry es = Inr ss"
  shows "length ss = length es \<and> (\<forall>s \<in> set ss. \<exists>k v d. s = JObj [(''key'', JStr k), (''value'', JStr v), (''description'', JStr d)] \<and>
    k \<noteq> [] \<and> length k \<le> 128 \<and> v \<noteq> [] \<and> length v \<le> 65536 \<and> length d \<le> 512)"
proof -
  have "list_all2 (\<lambda>x y. batch_entry x = Inr y) es ss" using assms by (simp add: map_ok_Inr)
  then show ?thesis
  proof (induction rule: list_all2_induct)
    case (Cons x xs y ys)
    with batch_entry_Inr [of x y] show ?case by auto
  qed simp
qed

lemma sends_array:
  assumes "\<And>es. v = Some (JArr es) \<Longrightarrow> keeps (sends P) (f es)"
  shows "keeps (sends P) (case v of Some (JArr es) \<Rightarrow> f es | _ \<Rightarrow> throw e)"
  using assms by (auto split: option.splits json.splits intro: sending.keeps_pure)

lemma batch_POST_sends:
  "keeps (sends (\<lambda>x. \<exists>asked sent. rq_body rq = Some asked \<and> cr_body x = Some sent \<and>
     core_path x (''/environments/'' @ p @ ''/secrets/batch'') \<and> UUID_PATTERN p \<and> batch_body asked sent)) (batch_POST rq p)"
  unfolding batch_POST_def
  by (intro sends_rules sends_array sends_call)
    (auto simp: requireId_Inr post_options_def batch_body_def MAX_SECRETS_def Suc_le_eq dest!: map_ok_batch)

text \<open>C11: A batch is all or nothing and bounded.  A batch request causes an upstream request only with
  between 1 and 100 secrets, one for every entry of the body, each with a non-empty key of at most 128
  and a non-empty value of at most 65536 code units; if any entry is not valid, nothing is sent.\<close>

theorem batch_is_bounded:
  assumes "batch_POST rq p sv w = (r, w')" "x \<in> set (new_requests w w')"
  shows "\<exists>asked sent. rq_body rq = Some asked \<and> cr_body x = Some sent \<and>
    core_path x (''/environments/'' @ p @ ''/secrets/batch'') \<and> UUID_PATTERN p \<and> batch_body asked sent"
  using sendsD [OF batch_POST_sends assms(1)] assms(2) by (simp add: new_requests_def)

lemma batch_POST_goes_through:
  assumes "let_through rq sv w c" "UUID_PATTERN p" "rq_body rq = Some body"
    and "field body ''secrets'' = Some (JArr entries)" "entries \<noteq> []" "length entries \<le> MAX_SECRETS"
    and "map_ok batch_entry entries = Inr secrets" "optional_text body ''expiresAt'' 64 t"
  shows "\<exists>x. new_requests w (snd (batch_POST rq p sv w)) = [x] \<and>
    cr_url x = coreApiUrl c @ ''/environments/'' @ p @ ''/secrets/batch'' \<and>
    cr_body x = Some (obj [(''secrets'', Some (JArr secrets)), (''expiresAt'', Some (JStr t))])"
proof -
  have p: "requireId p = Inr p" using assms(2) by (simp add: requireId_Inr)
  show ?thesis
    unfolding batch_POST_def
    by (rule let_through_post [OF assms(1) _ project_path(2)])
      (use assms(5,6) in \<open>simp add: seq_eval [of "readJson rq"] read_object [OF assms(4,3)] assms(4,7) text_reads(2) [OF assms(8)] p read_through del: obj_Cons\<close>)
qed

lemma batch_POST_refuses:
  assumes "assertCsrf rq sv w = (Inr (), v)" "rq_body rq = Some body" "field body ''secrets'' = Some (JArr entries)"
    and "entries = [] \<or> MAX_SECRETS < length entries \<or> map_ok batch_entry entries = Inl (invalid_request m)"
  shows "new_requests w (snd (batch_POST rq p sv w)) = [] \<and>
    (\<exists>n. fst (batch_POST rq p sv w) = Inr (error_response (invalid_request n)))"
proof -
  have v: "w_sent v = w_sent w" using assertCsrf_world [OF assms(1)] by auto
  have "\<exists>n. batch_POST rq p sv w = errorResponse (invalid_request n) sv v"
    using assms(4) unfolding batch_POST_def handleRoute_def
    by (auto simp: try_catch_eval seq_eval bff_simps assms(1) read_object [OF assms(3,2)] assms(3) MAX_SECRETS_def simp del: readJson_eval)
  then obtain n where n: "batch_POST rq p sv w = errorResponse (invalid_request n) sv v" by blast
  have "fst (errorResponse e sv v) = Inr (error_response e)" for e by (simp add: bff_simps)
  then show ?thesis unfolding n using v by (auto simp: new_requests_def)
qed

lemma project_audit_sends:
  "keeps (sends (\<lambda>x. cr_body x = None \<and> cr_method x = ''GET'' \<and> UUID_PATTERN p \<and>
     core_path x (''/projects/'' @ p @ ''/audit'' @ with_query (params_toString (forwarded_params project_audit_names (rq_params rq))))))
   (project_audit_GET rq p)"
  unfolding project_audit_GET_def Let_def
  by (intro sends_rules sends_call) (auto simp: requireId_Inr get_options_def no_options_def)

text \<open>C10: The audit query is rebuilt, not forwarded.  The request an audit read sends has no body and goes to
  the project's audit path, either bare or followed by one query string; that string reads back, pair
  by pair, as allowlisted names with values of 1 to 64 code units, each the value the caller gave for that
  very name.  Nothing the caller puts in a value can add a parameter, end the query or change the
  path.\<close>

theorem audit_query_is_allowlisted:
  assumes "project_audit_GET rq p sv w = (r, w')" "x \<in> set (new_requests w w')"
  shows "cr_body x = None \<and> UUID_PATTERN p \<and>
    (core_path x (''/projects/'' @ p @ ''/audit'') \<or>
     (\<exists>q ps. core_path x (''/projects/'' @ p @ ''/audit?'' @ q) \<and> CHR ''#'' \<notin> set q \<and> query_pairs q = map Some ps \<and>
        (\<forall>(k, v) \<in> set ps. k \<in> set project_audit_names \<and> param_get (rq_params rq) k = Some v \<and> v \<noteq> [] \<and> length v \<le> 64)))"
proof -
  let ?ps = "forwarded_params project_audit_names (rq_params rq)"
  have x: "cr_body x = None" "UUID_PATTERN p" "core_path x (''/projects/'' @ p @ ''/audit'' @ with_query (params_toString ?ps))"
    using sendsD [OF project_audit_sends assms(1)] assms(2) by (simp_all add: new_requests_def)
  show ?thesis
  proof (cases "?ps = []")
    case True
    with x show ?thesis by (simp add: with_query_def params_toString_empty)
  next
    case False
    have "c \<in> set (join s xs) \<Longrightarrow> c \<in> set s \<or> (\<exists>x \<in> set xs. c \<in> set x)" for c s xs
      by (induction s xs rule: join.induct) auto
    then have "CHR ''#'' \<notin> set (params_toString ?ps)"
      unfolding params_toString_def using form_encode_absent(3) by fastforce
    moreover have "query_pairs (params_toString ?ps) = map Some ?ps"
      using False by (rule query_pairs_toString)
    moreover have "\<forall>(k, v) \<in> set ?ps. k \<in> set project_audit_names \<and> param_get (rq_params rq) k = Some v \<and> v \<noteq> [] \<and> length v \<le> 64"
      using forwarded_params_sound by fast
    ultimately show ?thesis
      using x False by (auto simp: with_query_def params_toString_empty intro!: exI [of _ "params_toString ?ps"] exI [of _ ?ps])
  qed
qed

text \<open>What the expiry route does once it has the list of versions.\<close>

definition expiry_tail :: "json \<Rightarrow> string \<Rightarrow> jsval \<Rightarrow> jsval bff" where
  "expiry_tail body i versions =
     seq (lift_ok (current_version versions)) (\<lambda>current.
     if \<not> truthy current then throw (PlainError ''This secret has no active version to change.'')
     else
       seq (lift_ok (optionalString body ''expiresAt'' 64)) (\<lambda>expiresAt.
       callCoreApi (''/secrets/'' @ i @ ''/expiry'') (post_options (Some (obj [
         (''versionId'', optfield current ''id''), (''expiresAt'', Some (JStr expiresAt))])))))"

text \<open>A version a caller can still be given: active and never revoked.\<close>

definition usable :: "json \<Rightarrow> bool" where
  "usable v = (field v ''status'' = Some (JStr ''ACTIVE'') \<and>
     field v ''revokedAt'' \<in> {None, Some JNull, Some (JStr []), Some (JBool False), Some (JNum 0)})"

text \<open>The request that sets the expiry the body gives at the usable version with the highest ordinal.\<close>

definition expiry_request :: "string \<Rightarrow> json \<Rightarrow> json list \<Rightarrow> core_request \<Rightarrow> bool" where
  "expiry_request p body vs x = (\<exists>cur n t. cur \<in> set vs \<and> usable cur \<and> field cur ''version'' = Some (JNum n) \<and>
     (\<forall>y \<in> set vs. \<forall>m. usable y \<and> field y ''version'' = Some (JNum m) \<longrightarrow> m \<le> n) \<and>
     optional_text body ''expiresAt'' 64 t \<and> core_path x (''/secrets/'' @ p @ ''/expiry'') \<and>
     cr_body x = Some (obj [(''versionId'', field cur ''id''), (''expiresAt'', Some (JStr t))]))"

text \<open>The ordinals of the usable versions are numbers, as the core API declares them.\<close>

definition numbered :: "json list \<Rightarrow> bool" where
  "numbered vs = (\<forall>y \<in> set vs. usable y \<longrightarrow> (\<exists>n. field y ''version'' = Some (JNum n)))"

lemma is_live_usable: "is_live v \<longleftrightarrow> usable v"
proof -
  have "truthy x \<longleftrightarrow> x \<notin> {None, Some JNull, Some (JStr []), Some (JBool False), Some (JNum 0)}" for x
    by (cases x rule: truthy.cases) auto
  then show ?thesis by (simp add: is_live_def usable_def)
qed

lemma current_version_usable:
  assumes "current_version (Some (JArr vs)) = Inr (Some v)" "numbered vs"
  shows "v \<in> set vs \<and> usable v \<and> (\<exists>n. field v ''version'' = Some (JNum n) \<and>
    (\<forall>y \<in> set vs. \<forall>m. usable y \<and> field y ''version'' = Some (JNum m) \<longrightarrow> m \<le> n))"
proof -
  have v: "v \<in> set vs" "usable v" "\<And>u. u \<in> set vs \<Longrightarrow> usable u \<Longrightarrow> version_number u \<le> version_number v"
    using current_version_Inr [OF assms(1)] by (auto simp: is_live_usable)
  obtain n where n: "field v ''version'' = Some (JNum n)" using v(1,2) assms(2) by (auto simp: numbered_def)
  have "m \<le> n" if "y \<in> set vs" "usable y" "field y ''version'' = Some (JNum m)" for y m
    using v(3) [OF that(1,2)] n that(3) by (simp add: version_number_def)
  with v n show ?thesis by blast
qed

lemma expiry_tail_sends:
  assumes "numbered vs"
  shows "keeps (sends (expiry_request p body vs)) (expiry_tail body p (Some (JArr vs)))"
  unfolding expiry_tail_def
proof (intro sends_rules sends_call)
  fix current :: jsval and e :: string and c :: connection and a ip :: "string option"
  assume cur: "current_version (Some (JArr vs)) = Inr current" and t: "\<not> \<not> truthy current"
    and e: "optionalString body ''expiresAt'' 64 = Inr e"
  then obtain v where v: "current = Some v" by (cases current) auto
  obtain n where n: "v \<in> set vs" "usable v" "field v ''version'' = Some (JNum n)"
      "\<forall>y \<in> set vs. \<forall>m. usable y \<and> field y ''version'' = Some (JNum m) \<longrightarrow> m \<le> n"
    using current_version_usable [of vs v] cur assms unfolding v by blast
  show "expiry_request p body vs (upstream c (''/secrets/'' @ p @ ''/expiry'')
      (post_options (Some (obj [(''versionId'', optfield current ''id''), (''expiresAt'', Some (JStr e))]))) a ip)"
    unfolding expiry_request_def v
    by (intro exI [of _ v] exI [of _ n] exI [of _ e])
      (use n e in \<open>simp add: post_options_def reads_text(2) del: obj_Cons\<close>)
qed

lemma expiry_tail_goes_through:
  assumes "JNull \<notin> set vs" "y \<in> set vs" "usable y" "optional_text body ''expiresAt'' 64 t"
    and "conn_result sv u = Inr c" "truthy (cookie_get (w_jar u) SESSION_COOKIE)"
  shows "\<exists>x. new_requests u (snd (expiry_tail body p (Some (JArr vs)) sv u)) = [x]"
proof -
  have "current_version (Some (JArr vs)) \<noteq> Inr None" using assms(1-3) by (auto simp: current_version_none is_live_usable)
  moreover have "current_version (Some (JArr vs)) \<noteq> Inl e" for e using assms(1) by (auto simp: current_version_def split: list.splits)
  ultimately obtain v where v: "current_version (Some (JArr vs)) = Inr (Some v)"
    by (cases "current_version (Some (JArr vs))") auto
  then have t: "truthy (Some v)" using current_version_Inr is_live_truthy by blast
  have "truthy (call_token (post_options b) (w_jar u))" for b
    using assms(6) truthy_not_nullish by (auto simp: call_token_def post_options_def no_options_def)
  then have "authorization (post_options b) (w_jar u) = Inr (Some (bearer (call_token (post_options b) (w_jar u))))" for b
    by (simp add: authorization_def post_options_def no_options_def)
  then show ?thesis
    using t assms(5) project_path(3) text_reads(2) [OF assms(4)]
    by (simp add: expiry_tail_def v read_through callCoreApi_eval new_requests_def Let_def)
qed

lemma expiry_POST_split:
  assumes "assertCsrf rq sv w = (Inr (), v)" "rq_body rq = Some (JObj fs)" "UUID_PATTERN p"
    and "callCoreApi (''/secrets/'' @ p @ ''/versions'') get_options sv v = (Inr (Some a), u)" "a \<noteq> JNull"
  shows "expiry_POST rq p sv w = (case expiry_tail (JObj fs) p (field a ''versions'') sv u of
     (Inl e, u') \<Rightarrow> errorResponse e sv u' | (Inr x, u') \<Rightarrow> (Inr (jsonResponse (or_ok x) 200), u'))"
  using assms
  unfolding expiry_POST_def handleRoute_def expiry_tail_def [symmetric]
  by (simp add: try_catch_eval seq_eval bff_simps requireId_def nullish_def split: prod.splits sum.splits)

text \<open>C12: Changing an expiry retargets exactly one version.  Once the core API has listed a secret's versions, with numbers for
  ordinals, every request that follows names the version of that list which is active and not revoked
  and has the highest ordinal of those, with the date the body gives; when some version is active and not revoked and the date can
  be read, exactly one such request follows; and when none is, nothing more is sent and the response is the generic server error.\<close>

theorem expiry_targets_highest_live_version:
  assumes "assertCsrf rq sv w = (Inr (), v)" "rq_body rq = Some (JObj fs)" "UUID_PATTERN p"
    and "callCoreApi (''/secrets/'' @ p @ ''/versions'') get_options sv v = (Inr (Some a), u)"
    and "field a ''versions'' = Some (JArr vs)" "numbered vs" "expiry_POST rq p sv w = (r, w')"
  shows "(\<forall>x \<in> set (new_requests u w'). expiry_request p (JObj fs) vs x) \<and>
    (JNull \<notin> set vs \<and> (\<exists>y \<in> set vs. usable y) \<and> (\<exists>t. optional_text (JObj fs) ''expiresAt'' 64 t) \<longrightarrow>
       (\<exists>x. new_requests u w' = [x])) \<and>
    (JNull \<notin> set vs \<and> (\<forall>y \<in> set vs. \<not> usable y) \<longrightarrow>
       new_requests u w' = [] \<and> (\<exists>m. r = Inr (error_response (PlainError m))))"
proof -
  have "a \<noteq> JNull" using assms(5) by auto
  then have e: "expiry_POST rq p sv w = (case expiry_tail (JObj fs) p (Some (JArr vs)) sv u of
     (Inl e, u') \<Rightarrow> errorResponse e sv u' | (Inr x, u') \<Rightarrow> (Inr (jsonResponse (or_ok x) 200), u'))"
    using expiry_POST_split [OF assms(1-4)] assms(5) by simp
  obtain q t where q: "expiry_tail (JObj fs) p (Some (JArr vs)) sv u = (q, t)" by (metis prod.collapse)
  have "w_sent w' = w_sent t"
  proof (cases q)
    case (Inl x)
    then have "errorResponse x sv t = (r, w')" using assms(7) e q by simp
    then show ?thesis using errorResponse_frame(1) [of x sv t] by simp
  next
    case (Inr x)
    then show ?thesis using assms(7) e q by simp
  qed
  then have s: "new_requests u w' = new_requests u t" by (simp add: new_requests_def)
  obtain c where c: "conn_result sv v = Inr c" "truthy (cookie_get (w_jar v) SESSION_COOKIE)" "w_jar u = w_jar v" "conn_result sv u = Inr c"
  proof -
    obtain c where "conn_result sv v = Inr c" using assms(4) project_path(3) by (auto simp: callCoreApi_eval split: sum.splits)
    moreover from this have "w_jar u = w_jar v" "conn_result sv u = Inr c" "truthy (cookie_get (w_jar v) SESSION_COOKIE)"
      using assms(4) project_path(3) truthy_not_nullish
      by (auto simp: callCoreApi_eval Let_def authorization_def call_token_def get_options_def no_options_def coalesce_def
          conn_result_def conn_world_def split: sum.splits if_splits option.splits)
    ultimately show ?thesis using that by blast
  qed
  have "\<forall>x \<in> set (new_requests u t). expiry_request p (JObj fs) vs x"
    using sendsD [OF expiry_tail_sends [OF assms(6)] q] by (auto simp: new_requests_def)
  moreover have "\<exists>x. new_requests u t = [x]"
    if "JNull \<notin> set vs \<and> (\<exists>y \<in> set vs. usable y) \<and> (\<exists>d. optional_text (JObj fs) ''expiresAt'' 64 d)"
    using that expiry_tail_goes_through [of vs _ "JObj fs" _ sv u c p] c q by (metis snd_conv)
  moreover have "new_requests u t = [] \<and> (\<exists>m. r = Inr (error_response (PlainError m)))"
    if n: "JNull \<notin> set vs \<and> (\<forall>y \<in> set vs. \<not> usable y)"
  proof -
    have "current_version (Some (JArr vs)) = Inr None" using n by (simp add: current_version_none is_live_usable)
    then have "expiry_tail (JObj fs) p (Some (JArr vs)) sv u =
        (Inl (PlainError ''This secret has no active version to change.''), u)"
      by (simp add: expiry_tail_def seq_eval bff_simps)
    with e assms(7) q show ?thesis by (auto simp: bff_simps new_requests_def)
  qed
  ultimately show ?thesis unfolding s by blast
qed

lemma restart_session_fst: "fst (restart_session x d sv w) = Inr ()"
  by (simp add: restart_session_def seq_eval bff_simps new_date_def)

lemma agrees_restart: "agrees t (seq (restart_session x d) (\<lambda>_. ret y)) (seq (restart_session x' d') (\<lambda>_. ret y))"
  unfolding agrees_def using restart_session_fst
  by (auto simp: seq_eval bff_simps split: prod.splits sum.splits) (metis fst_conv sum.distinct(1))+

text \<open>Moving between organizations and founding one keep the session credential from the page as sign-in
  does: whatever credential the core API issues, the response is the same.\<close>

theorem switch_never_discloses_session_token:
  "fst (switch_POST rq (with_token t sv) w) = fst (switch_POST rq sv w) \<and>
   fst (organizations_POST rq (with_token t sv) w) = fst (organizations_POST rq sv w)"
proof -
  have "agrees t (switch_POST rq) (switch_POST rq)" "agrees t (organizations_POST rq) (organizations_POST rq)"
    unfolding switch_POST_def organizations_POST_def
    by (intro agrees_session agrees_blind [OF blind_rules(5)] agrees_blind [OF blind_rules(4)] agrees_call agrees_token;
        simp add: agrees_restart)+
  then show ?thesis by (simp add: agrees_def)
qed

section \<open>Closed examples\<close>

definition demo_grant :: json where
  "demo_grant = JObj [(''subjectType'', JStr ''USER''), (''subjectId'', JStr ''u1''), (''environmentId'', JStr ''e1''),
     (''secretId'', JStr ''s1''), (''allEnvironments'', JStr ''yes''), (''capabilities'', JArr [JStr ''READ_SECRET'']),
     (''expiresAt'', JStr ''2031'')]"

definition demo_granted :: json where
  "demo_granted = JObj [(''subjectType'', JStr ''USER''), (''subjectId'', JStr ''u1''), (''environmentId'', JStr ''e1''),
     (''secretId'', JStr ''s1''), (''allEnvironments'', JBool False), (''capabilities'', JArr [JStr ''READ_SECRET'']),
     (''expiresAt'', JStr ''2031''), (''reason'', JStr [])]"

definition demo_down :: server where
  "demo_down = demo_answers (NetworkFailure ''refused'')"

lemma handleRoute_sent:
  "assertCsrf rq sv w = (Inr u, v) \<Longrightarrow> w_sent (snd (handleRoute rq h sv w)) = w_sent (snd (h sv v))"
  by (auto simp: handleRoute_def try_catch_eval seq_eval bff_simps split: prod.splits sum.splits exn.splits)

lemma demo_call_sent:
  assumes "relative_path path" "w_cached w = Some demo_connection \<or> w = demo_world" "w_jar w = w_jar demo_world"
    and "co_session_token opts = None" "\<not> co_anonymous opts"
  shows "w_sent (snd (callCoreApi path opts (demo_answers r) w)) \<noteq> w_sent w"
proof -
  have c: "conn_result (demo_answers r) w = Inr demo_connection"
    using assms(2) demo_answers_conn by (auto simp: conn_result_def)
  have "truthy (call_token opts (w_jar demo_world))"
    using assms(4) by (simp add: call_token_def demo_world_def cookie_get_def)
  then show ?thesis
    by (simp add: callCoreApi_eval assms c authorization_def Let_def)
qed

lemma demo_let_through: "let_through (demo_post b) (demo_answers r) demo_world demo_connection"
  using demo_post_guards(2) [of b r] demo_answers_conn
  by (auto simp: let_through_def demo_world_def cookie_get_def)

lemma demo_granted_narrow: "narrow_grant demo_grant demo_granted"
proof -
  have t: "trim ''USER'' = ''USER''" "trim ''u1'' = ''u1''" "trim ''e1'' = ''e1''" "trim ''s1'' = ''s1''" "trim ''2031'' = ''2031''"
    by code_simp+
  show ?thesis
    unfolding narrow_grant_def demo_granted_def demo_grant_def
    by (rule exI [of _ "''USER''"], rule exI [of _ "''u1''"], rule exI [of _ "''e1''"], rule exI [of _ "''s1''"], rule exI [of _ False],
        rule exI [of _ "[''READ_SECRET'']"], rule exI [of _ "''2031''"], rule exI [of _ "[]"])
      (simp add: required_text_def optional_text_def optional_texts_def t)
qed

lemma demo_id_pattern: "UUID_PATTERN demo_id"
  using demo_id_ok by (simp add: requireId_Inr)

theorem grant_is_narrow_witness:
  "\<exists>x. new_requests demo_world (snd (access_POST (demo_post demo_grant) demo_id demo_down demo_world)) = [x] \<and>
     cr_body x = Some demo_granted"
proof -
  have "rq_body (demo_post demo_grant) = Some demo_grant" by (simp add: demo_post_def)
  with grant_is_narrow [where rq = "demo_post demo_grant" and p = demo_id and sv = demo_down and w = demo_world, OF prod.collapse [symmetric]]
    demo_granted_narrow demo_id_pattern demo_let_through [of demo_grant "NetworkFailure ''refused''", folded demo_down_def]
  show ?thesis by blast
qed

definition demo_batch :: json where
  "demo_batch = JObj [(''secrets'', JArr [JObj [(''key'', JStr ''API_KEY''), (''value'', JStr ''v'')]])]"

lemma demo_batch_entries:
  "batch_entry (JObj [(''key'', JStr ''API_KEY''), (''value'', JStr ''v'')]) =
     Inr (JObj [(''key'', JStr ''API_KEY''), (''value'', JStr ''v''), (''description'', JStr [])])"
proof -
  have "trim ''API_KEY'' = ''API_KEY''" "trim ''v'' = ''v''" by code_simp+
  then show ?thesis
    by (simp add: batch_entry_def requireString_def optionalString_def)
qed

lemma demo_batch_sent:
  "new_requests demo_world (snd (batch_POST (demo_post demo_batch) demo_id demo_down demo_world)) \<noteq> []"
proof -
  have p: "relative_path (''/environments/'' @ x)" for x by (simp add: relative_path_def startsWith_def)
  have w: "w_sent demo_world = []" by (simp add: demo_world_def)
  have b: "rq_body (demo_post demo_batch) = Some demo_batch" by (simp add: demo_post_def)
  have e: "optionalString demo_batch ''expiresAt'' 64 = Inr []" by code_simp
  have s: "field demo_batch ''secrets'' = Some (JArr [JObj [(''key'', JStr ''API_KEY''), (''value'', JStr ''v'')]])"
    by (simp add: demo_batch_def)
  have j: "readJson (demo_post demo_batch) sv w = (Inr demo_batch, w)" for sv w
    by (simp add: readJson_eval demo_post_def) (simp add: demo_batch_def)
  let ?w = "conn_world demo_down demo_world"
  have "w_sent (snd (batch_POST (demo_post demo_batch) demo_id demo_down demo_world)) = 
      w_sent (snd (callCoreApi (''/environments/'' @ demo_id @ ''/secrets/batch'') (post_options (Some (obj [
             (''secrets'', Some (JArr [JObj [(''key'', JStr ''API_KEY''), (''value'', JStr ''v''), (''description'', JStr [])]])),
             (''expiresAt'', Some (JStr []))]))) demo_down ?w))"
    unfolding batch_POST_def demo_down_def
    by (subst handleRoute_sent [OF demo_post_guards(2)])
      (simp add: seq_eval bff_simps j s e demo_batch_entries demo_id_ok MAX_SECRETS_def del: readJson_eval)
  moreover have "w_sent (snd (callCoreApi (''/environments/'' @ x) (post_options v) demo_down ?w)) \<noteq> w_sent ?w" for x v
    unfolding demo_down_def
    by (rule demo_call_sent [OF p]) (simp_all add: conn_world_cached demo_answers_conn post_options_def no_options_def)
  ultimately show ?thesis by (simp add: new_requests_def w)
qed

theorem batch_is_bounded_witness:
  "\<exists>x sent. x \<in> set (new_requests demo_world (snd (batch_POST (demo_post demo_batch) demo_id demo_down demo_world))) \<and>
     cr_body x = Some sent \<and> batch_body demo_batch sent"
proof -
  obtain x where x: "x \<in> set (new_requests demo_world (snd (batch_POST (demo_post demo_batch) demo_id demo_down demo_world)))"
    using demo_batch_sent by (metis list.set_intros(1) neq_Nil_conv)
  have "rq_body (demo_post demo_batch) = Some demo_batch" by (simp add: demo_post_def)
  with batch_is_bounded [OF prod.collapse [symmetric] x] x show ?thesis by auto
qed

definition demo_audit :: request where
  "demo_audit = \<lparr>rq_method = ''GET'', rq_headers = Map.empty, rq_body = None,
     rq_params = [(''limit'', ''5&secretId=x#''), (''admin'', ''1'')]\<rparr>"

lemma demo_audit_sent:
  "new_requests demo_world (snd (project_audit_GET demo_audit demo_id demo_down demo_world)) \<noteq> []"
proof -
  let ?q = "with_query (params_toString (forwarded_params project_audit_names (rq_params demo_audit)))"
  have "safe_method demo_audit" by (simp add: safe_method_def demo_audit_def) code_simp
  then have g: "assertCsrf demo_audit demo_down demo_world = (Inr (), demo_world)" by (simp add: assertCsrf_ok)
  have p: "relative_path (''/projects/'' @ x)" for x by (simp add: relative_path_def startsWith_def)
  have w: "w_sent demo_world = []" by (simp add: demo_world_def)
  have "w_sent (snd (project_audit_GET demo_audit demo_id demo_down demo_world)) =
      w_sent (snd (callCoreApi (''/projects/'' @ demo_id @ ''/audit'' @ ?q) get_options demo_down demo_world))"
    unfolding project_audit_GET_def Let_def
    by (subst handleRoute_sent [OF g]) (simp add: seq_eval bff_simps demo_id_ok)
  moreover have "w_sent (snd (callCoreApi (''/projects/'' @ x) get_options demo_down demo_world)) \<noteq> w_sent demo_world" for x
    unfolding demo_down_def by (rule demo_call_sent [OF p]) (simp_all add: get_options_def no_options_def)
  ultimately show ?thesis by (simp add: new_requests_def w)
qed

theorem audit_query_is_allowlisted_witness:
  "\<exists>x. x \<in> set (new_requests demo_world (snd (project_audit_GET demo_audit demo_id demo_down demo_world))) \<and>
     cr_body x = None \<and> UUID_PATTERN demo_id"
proof -
  obtain x where x: "x \<in> set (new_requests demo_world (snd (project_audit_GET demo_audit demo_id demo_down demo_world)))"
    using demo_audit_sent by (metis list.set_intros(1) neq_Nil_conv)
  with audit_query_is_allowlisted [OF prod.collapse [symmetric] x] show ?thesis by auto
qed

text \<open>A secret with three versions, of which the second is the current one.\<close>

definition demo_versions :: "json list" where
  "demo_versions = [JObj [(''id'', JStr ''v1''), (''version'', JNum 1), (''status'', JStr ''ACTIVE''), (''revokedAt'', JNull)],
     JObj [(''id'', JStr ''v2''), (''version'', JNum 2), (''status'', JStr ''ACTIVE''), (''revokedAt'', JNull)],
     JObj [(''id'', JStr ''v3''), (''version'', JNum 3), (''status'', JStr ''ACTIVE''), (''revokedAt'', JStr ''now'')]]"

definition demo_secret :: server where
  "demo_secret = demo_answers (CoreResponse 200 None (Some (JObj [(''versions'', JArr demo_versions)])))"

definition demo_listed :: world where
  "demo_listed = snd (callCoreApi (''/secrets/'' @ demo_id @ ''/versions'') get_options demo_secret (conn_world demo_secret demo_world))"

lemma demo_current:
  assumes "expiry_request p (JObj []) demo_versions x"
  shows "cr_body x = Some (JObj [(''versionId'', JStr ''v2''), (''expiresAt'', JStr [])])"
proof -
  obtain cur n t where r: "cur \<in> set demo_versions" "usable cur" "field cur ''version'' = Some (JNum n)"
      "\<forall>y \<in> set demo_versions. \<forall>m. usable y \<and> field y ''version'' = Some (JNum m) \<longrightarrow> m \<le> n"
      "optional_text (JObj []) ''expiresAt'' 64 t"
      "cr_body x = Some (obj [(''versionId'', field cur ''id''), (''expiresAt'', Some (JStr t))])"
    using assms unfolding expiry_request_def by blast
  have "2 \<le> n" using r(4) by (simp add: demo_versions_def usable_def)
  then have "field cur ''id'' = Some (JStr ''v2'')" using r(1-3) by (auto simp: demo_versions_def usable_def)
  moreover have "t = []" using r(5) by (simp add: optional_text_def)
  ultimately show ?thesis using r(6) by simp
qed

theorem expiry_targets_highest_live_version_witness:
  "\<exists>x. new_requests demo_listed (snd (expiry_POST (demo_post (JObj [])) demo_id demo_secret demo_world)) = [x] \<and>
     cr_body x = Some (JObj [(''versionId'', JStr ''v2''), (''expiresAt'', JStr [])])"
proof -
  let ?a = "JObj [(''versions'', JArr demo_versions)]"
  have g: "assertCsrf (demo_post (JObj [])) demo_secret demo_world = (Inr (), conn_world demo_secret demo_world)"
    unfolding demo_secret_def by (rule demo_post_guards)
  have b: "rq_body (demo_post (JObj [])) = Some (JObj [])" by (simp add: demo_post_def)
  have t: "truthy (call_token get_options (w_jar demo_world))"
    by (simp add: call_token_def get_options_def no_options_def demo_world_def cookie_get_def)
  have f: "fst (callCoreApi (''/secrets/'' @ demo_id @ ''/versions'') get_options demo_secret
      (conn_world demo_secret demo_world)) = Inr (Some ?a)"
    using project_path(3) [of "demo_id @ ''/versions''"] t demo_answers_conn
    by (simp add: callCoreApi_eval demo_secret_def authorization_def get_options_def no_options_def Let_def)
      (simp add: demo_answers_def answer_result_ok)
  have c: "callCoreApi (''/secrets/'' @ demo_id @ ''/versions'') get_options demo_secret
      (conn_world demo_secret demo_world) = (Inr (Some ?a), demo_listed)"
    using f unfolding demo_listed_def by (metis prod.collapse)
  have n: "numbered demo_versions" "JNull \<notin> set demo_versions" "\<exists>y \<in> set demo_versions. usable y"
      "optional_text (JObj []) ''expiresAt'' 64 []"
    by (auto simp: numbered_def demo_versions_def usable_def optional_text_def)
  note use = expiry_targets_highest_live_version [OF g b demo_id_pattern c _ n(1) prod.collapse [symmetric], simplified]
  then obtain x where x: "new_requests demo_listed (snd (expiry_POST (demo_post (JObj [])) demo_id demo_secret demo_world)) = [x]"
    using n by blast
  then have "expiry_request demo_id (JObj []) demo_versions x" using use by simp
  with x demo_current show ?thesis by blast
qed

end
