(* ===== verification/Routes.thy ===== *)
theory Routes imports ResourceRoutes begin

text \<open>
  All routes of the application in one table: the method a route is exported under, the route file, and
  its handler as a function of the request and the URL parameters.  The properties here hold for every
  entry.
\<close>

section \<open>Model\<close>

type_synonym handler = "request \<Rightarrow> (string \<Rightarrow> string) \<Rightarrow> response bff"

type_synonym route = "string \<times> string \<times> handler"

text \<open>The routes that act on an existing session, behind the CSRF guard.\<close>

definition session_routes :: "route list" where
  "session_routes =
    [(''POST'', ''auth/logout'', \<lambda>rq p. logout_POST rq),
     (''GET'', ''auth/recovery-codes'', \<lambda>rq p. recovery_codes_GET rq),
     (''POST'', ''auth/recovery-codes'', \<lambda>rq p. recovery_codes_POST rq),
     (''POST'', ''auth/password'', \<lambda>rq p. password_POST rq),
     (''GET'', ''auth/passkeys'', \<lambda>rq p. passkeys_GET rq),
     (''DELETE'', ''auth/passkeys/[passkeyId]'', \<lambda>rq p. passkey_DELETE rq (p ''passkeyId'')),
     (''POST'', ''auth/passkeys/register/begin'', \<lambda>rq p. register_begin_POST rq),
     (''POST'', ''auth/passkeys/register/finish'', \<lambda>rq p. register_finish_POST rq),
     (''POST'', ''organizations'', \<lambda>rq p. organizations_POST rq),
     (''GET'', ''organizations'', \<lambda>rq p. organizations_GET rq),
     (''POST'', ''organizations/switch'', \<lambda>rq p. switch_POST rq),
     (''GET'', ''members/invitations'', \<lambda>rq p. invitations_GET rq),
     (''POST'', ''members/invitations'', \<lambda>rq p. invitations_POST rq),
     (''DELETE'', ''members/invitations/[invitationId]'', \<lambda>rq p. invitation_DELETE rq (p ''invitationId'')),
     (''DELETE'', ''members/[membershipId]'', \<lambda>rq p. member_DELETE rq (p ''membershipId'')),
     (''POST'', ''members/[membershipId]/recovery'', \<lambda>rq p. member_recovery_POST rq (p ''membershipId'')),
     (''GET'', ''identities'', \<lambda>rq p. identities_GET rq),
     (''POST'', ''identities'', \<lambda>rq p. identities_POST rq),
     (''POST'', ''identities/[identityId]/disable'', \<lambda>rq p. identity_disable_POST rq (p ''identityId'')),
     (''GET'', ''projects'', \<lambda>rq p. projects_GET rq),
     (''POST'', ''projects'', \<lambda>rq p. projects_POST rq),
     (''GET'', ''projects/[projectId]/environments'', \<lambda>rq p. environments_GET rq (p ''projectId'')),
     (''POST'', ''projects/[projectId]/environments'', \<lambda>rq p. environments_POST rq (p ''projectId'')),
     (''GET'', ''projects/[projectId]/access'', \<lambda>rq p. access_GET rq (p ''projectId'')),
     (''POST'', ''projects/[projectId]/access'', \<lambda>rq p. access_POST rq (p ''projectId'')),
     (''DELETE'', ''projects/[projectId]/access/[grantId]'', \<lambda>rq p. grant_DELETE rq (p ''projectId'') (p ''grantId'')),
     (''GET'', ''projects/[projectId]/tokens'', \<lambda>rq p. tokens_GET rq (p ''projectId'')),
     (''POST'', ''projects/[projectId]/tokens'', \<lambda>rq p. tokens_POST rq (p ''projectId'')),
     (''GET'', ''projects/[projectId]/audit'', \<lambda>rq p. project_audit_GET rq (p ''projectId'')),
     (''POST'', ''tokens/[tokenId]/revoke'', \<lambda>rq p. token_revoke_POST rq (p ''tokenId'')),
     (''GET'', ''environments/[environmentId]/secrets'', \<lambda>rq p. secrets_GET rq (p ''environmentId'')),
     (''POST'', ''environments/[environmentId]/secrets'', \<lambda>rq p. secrets_POST rq (p ''environmentId'')),
     (''POST'', ''environments/[environmentId]/secrets/batch'', \<lambda>rq p. batch_POST rq (p ''environmentId'')),
     (''POST'', ''secrets/[secretId]/reveal'', \<lambda>rq p. reveal_POST rq (p ''secretId'')),
     (''POST'', ''secrets/[secretId]/rotate'', \<lambda>rq p. rotate_POST rq (p ''secretId'')),
     (''GET'', ''secrets/[secretId]/versions'', \<lambda>rq p. versions_GET rq (p ''secretId'')),
     (''POST'', ''secrets/[secretId]/expiry'', \<lambda>rq p. expiry_POST rq (p ''secretId'')),
     (''GET'', ''audit'', \<lambda>rq p. audit_GET rq)]"

text \<open>The routes that may run before a session exists, behind the origin check.\<close>

definition pre_session_routes :: "route list" where
  "pre_session_routes =
    [(''POST'', ''auth/login'', \<lambda>rq p. login_POST rq),
     (''POST'', ''auth/signup'', \<lambda>rq p. signup_POST rq),
     (''POST'', ''auth/accept-invitation'', \<lambda>rq p. accept_invitation_POST rq),
     (''POST'', ''auth/invitations/inspect'', \<lambda>rq p. invitation_inspect_POST rq),
     (''POST'', ''auth/password/recover'', \<lambda>rq p. password_recover_POST rq),
     (''POST'', ''auth/password/reset'', \<lambda>rq p. password_reset_POST rq),
     (''POST'', ''auth/passkeys/signin/begin'', \<lambda>rq p. signin_begin_POST rq),
     (''POST'', ''auth/passkeys/signin/finish'', \<lambda>rq p. signin_finish_POST rq),
     (''POST'', ''auth/passkeys/assert/begin'', \<lambda>rq p. assert_begin_POST rq),
     (''POST'', ''auth/passkeys/assert/finish'', \<lambda>rq p. assert_finish_POST rq),
     (''POST'', ''auth/passkeys/assert/recovery'', \<lambda>rq p. assert_recovery_POST rq)]"

text \<open>The two routes that need neither: who is signed in, and the discovery document, which is not under
  app/api and is a function of the configuration alone.\<close>

definition open_routes :: "route list" where
  "open_routes = [(''GET'', ''auth/session'', \<lambda>rq p. session_GET),
     (''GET'', ''../.well-known/warder'', \<lambda>rq p sv w. (Inr (well_known_GET sv), w))]"

definition api_routes :: "route list" where
  "api_routes = session_routes @ pre_session_routes @ open_routes"

section \<open>The shape of the table\<close>

definition session_form :: "handler \<Rightarrow> bool" where
  "session_form h = (\<exists>g. \<forall>rq p. h rq p = handleRoute rq (g rq p) \<and> proper (g rq p))"

definition pre_session_form :: "handler \<Rightarrow> bool" where
  "pre_session_form h = (\<exists>g. \<forall>rq p. h rq p = origin_route rq (g rq p) \<and> proper (g rq p))"

lemma session_formI:
  "(\<And>rq p. h rq p = handleRoute rq (g rq p)) \<Longrightarrow> (\<And>rq p. proper (g rq p)) \<Longrightarrow> session_form h"
  unfolding session_form_def by blast

lemma pre_session_formI:
  "(\<And>rq p. h rq p = origin_route rq (g rq p)) \<Longrightarrow> (\<And>rq p. proper (g rq p)) \<Longrightarrow> pre_session_form h"
  unfolding pre_session_form_def by blast

lemmas session_route_defs =
  logout_POST_def recovery_codes_GET_def recovery_codes_POST_def password_POST_def passkeys_GET_def passkey_DELETE_def
  register_begin_POST_def register_finish_POST_def organizations_POST_def organizations_GET_def switch_POST_def
  invitations_GET_def invitations_POST_def invitation_DELETE_def member_DELETE_def member_recovery_POST_def
  identities_GET_def identities_POST_def identity_disable_POST_def projects_GET_def projects_POST_def
  environments_GET_def environments_POST_def access_GET_def access_POST_def grant_DELETE_def tokens_GET_def
  tokens_POST_def project_audit_GET_def token_revoke_POST_def secrets_GET_def secrets_POST_def batch_POST_def
  reveal_POST_def rotate_POST_def versions_GET_def expiry_POST_def audit_GET_def

lemmas pre_session_route_defs =
  login_POST_def signup_POST_def accept_invitation_POST_def invitation_inspect_POST_def password_recover_POST_def
  password_reset_POST_def signin_begin_POST_def signin_finish_POST_def assert_begin_POST_def assert_finish_POST_def
  assert_recovery_POST_def

lemma proper_date: "proper (new_date v)"
  by (simp add: proper_def new_date_def bff_simps)

lemma proper_restart: "proper (restart_session t e)"
  unfolding restart_session_def by (intro proper_rules proper_date)

lemma proper_current: "proper (lift_ok (current_version v))"
  by (auto simp: proper_def bff_simps current_version_def proper_exn_def split: option.splits json.splits if_splits list.splits)

lemma proper_plain: "proper (throw (PlainError m))"
  by (simp add: proper_def bff_simps proper_exn_def)

lemma proper_batch: "proper (lift_ok (map_ok batch_entry es))"
proof -
  have i: "reader_failure (invalid_request m)" for m by (auto simp: reader_failure_def)
  have b: "batch_entry x = Inl e \<Longrightarrow> reader_failure e" for x e
    by (auto simp: batch_entry_def then_ok_Inl i dest: reader_failures split: if_splits)
  have "map_ok batch_entry es = Inl e \<Longrightarrow> reader_failure e" for e
    by (induction es) (auto simp: then_ok_Inl b)
  then show ?thesis by (intro proper_pure reader_failure_proper)
qed

lemma proper_array:
  "(\<And>es. proper (f es)) \<Longrightarrow> proper (case v of Some (JArr es) \<Rightarrow> f es | _ \<Rightarrow> throw (invalid_request m))"
  using proper_readers(6) by (auto split: option.splits json.splits)

lemma list_all_nil: "list_all P []"
  by simp

lemma session_routes_form: "list_all (\<lambda>(m, f, h). session_form h) session_routes"
  unfolding session_routes_def list.pred_inject(2) case_prod_conv
  by (intro conjI list_all_nil;
      (rule session_formI, rule session_route_defs [unfolded Let_def],
       intro proper_array proper_date proper_restart proper_current proper_plain proper_batch proper_rules))

lemma pre_session_routes_form: "list_all (\<lambda>(m, f, h). pre_session_form h) pre_session_routes"
  unfolding pre_session_routes_def list.pred_inject(2) case_prod_conv
  by (intro conjI list_all_nil;
      (rule pre_session_formI, rule pre_session_route_defs, intro proper_date proper_rules))

lemma session_route_form: "(m, f, h) \<in> set session_routes \<Longrightarrow> session_form h"
  using session_routes_form by (auto simp: list_all_iff)

lemma pre_session_route_form: "(m, f, h) \<in> set pre_session_routes \<Longrightarrow> pre_session_form h"
  using pre_session_routes_form by (auto simp: list_all_iff)

lemma session_GET_responds:
  "\<exists>rs w'. session_GET sv w = (Inr rs, w') \<and> no_store rs \<and> rs_status rs = 200"
proof -
  have n: "no_store no_user" "rs_status no_user = 200" "rs_status (jsonResponse b 200) = 200" for b
    by (simp_all add: no_user_def no_store_def jsonResponse_def)
  show ?thesis
    by (auto simp: session_GET_def seq_eval try_catch_eval bff_simps getSessionToken_def cookie_value_def n
        split: prod.splits sum.splits exn.splits)
qed

section \<open>Properties\<close>

text \<open>C3: Every route of the application answers every request: no exception escapes; over a core API whose statuses are those
  \<open>fetch\<close> can report, its status is 200 or an error from 400 to 599; and the response is never to be stored, with one exception:
  the discovery document of a deployment whose runtime address is configured, which says that address and nothing else and may be
  kept for five minutes.\<close>

theorem every_route_answers:
  assumes "(m, f, h) \<in> set api_routes" "sound_upstream sv"
  shows "\<exists>rs w'. h rq p sv w = (Inr rs, w') \<and> proper_status rs \<and>
    (no_store rs \<or>
     f = ''../.well-known/warder'' \<and> rs_status rs = 404 \<and> rs_headers rs ''Cache-Control'' = Some ''no-store'' \<or>
     f = ''../.well-known/warder'' \<and> (\<exists>u. u \<noteq> [] \<and> cliRuntimeUrl sv = Some u \<and>
       rs = \<lparr>rs_status = 200, rs_body = JObj [(''runtimeUrl'', JStr u)], rs_headers = [''Cache-Control'' \<mapsto> ''public, max-age=300'']\<rparr>))"
proof -
  consider "(m, f, h) \<in> set session_routes" | "(m, f, h) \<in> set pre_session_routes" | "h = (\<lambda>rq p. session_GET)"
    | "f = ''../.well-known/warder''" "h = (\<lambda>rq p sv w. (Inr (well_known_GET sv), w))"
    using assms(1) by (auto simp: api_routes_def open_routes_def)
  then show ?thesis
  proof cases
    case 1
    then obtain g where g: "h rq p = handleRoute rq (g rq p)" "proper (g rq p)"
      using session_route_form unfolding session_form_def by metis
    with session_route.always_responds session_route.status_proper [OF g(2) assms(2)] show ?thesis by metis
  next
    case 2
    then obtain g where g: "h rq p = origin_route rq (g rq p)" "proper (g rq p)"
      using pre_session_route_form unfolding pre_session_form_def by metis
    with pre_session_route.always_responds pre_session_route.status_proper [OF g(2) assms(2)] show ?thesis by metis
  next
    case 3
    then show ?thesis using session_GET_responds by (fastforce simp: proper_status_def)
  next
    case 4
    then show ?thesis
      by (cases "cliRuntimeUrl sv"; cases "the (cliRuntimeUrl sv)") (simp_all add: well_known_GET_def proper_status_def)
  qed
qed

theorem every_route_answers_witness:
  "\<exists>rs w'. reveal_POST (demo_post (JObj [])) demo_id demo_down demo_world = (Inr rs, w') \<and> no_store rs \<and> proper_status rs"
proof -
  have "(''POST'', ''secrets/[secretId]/reveal'', \<lambda>rq p. reveal_POST rq (p ''secretId'')) \<in> set api_routes"
    by (simp add: api_routes_def session_routes_def)
  moreover have "sound_upstream demo_down"
    by (simp add: sound_upstream_def demo_down_def demo_answers_def http_status_def)
  ultimately show ?thesis
    using every_route_answers [of "''POST''" "''secrets/[secretId]/reveal''" "\<lambda>rq p. reveal_POST rq (p ''secretId'')"
        demo_down "demo_post (JObj [])" "\<lambda>_. demo_id" demo_world] by auto
qed

text \<open>C1: No route that changes anything runs for a forged request.  When a route exported under POST or
  DELETE is called from an origin the configuration does not accept, or (for the routes that act on a
  session) without the CSRF token, then nothing is sent to the core API, no cookie changes, and the
  response is an error with status 403 or, if the configuration cannot be read, 500.\<close>

theorem forged_requests_change_nothing:
  assumes "(m, f, h) \<in> set session_routes \<and> (\<nexists>v. assertCsrf rq sv w = (Inr (), v)) \<or>
      (m, f, h) \<in> set pre_session_routes \<and> (\<nexists>v. assertSameOrigin rq sv w = (Inr (), v))"
  shows "\<exists>rs w'. h rq p sv w = (Inr rs, w') \<and> w_sent w' = w_sent w \<and> w_jar w' = w_jar w \<and>
    (rs_status rs = 403 \<or> rs_status rs = 500 \<and> (\<exists>e. conn_result sv w = Inl e))"
proof -
  have st: "rs_status (error_response e) = 403 \<or> rs_status (error_response e) = 500 \<and> (\<exists>e. conn_result sv w = Inl e)"
    if "(\<exists>m. e = CsrfError m) \<or> conn_result sv w = Inl e" for e
    using that parseConnection_failure
    by (cases e) (auto simp: error_response_def jsonResponse_def conn_result_def config_exn_def split: option.splits)
  have so: "assertSameOrigin rq sv w = (Inl e, v) \<Longrightarrow> (\<exists>m. e = CsrfError m) \<or> conn_result sv w = Inl e" for e v
    by (auto simp: assertSameOrigin_def seq_eval bff_simps split: if_splits option.splits sum.splits)
  have cs: "assertCsrf rq sv w = (Inl e, v) \<Longrightarrow> (\<exists>m. e = CsrfError m) \<or> conn_result sv w = Inl e" for e v
    using so by (auto simp: assertCsrf_def seq_eval bff_simps getCsrfToken_def cookie_value_def split: if_splits option.splits sum.splits prod.splits)
  have refuse: "\<exists>e v. g = (Inl e, v)" if "\<nexists>v. g = (Inr (), v)" for g :: "(exn + unit) \<times> world"
    using that by (cases g; cases "fst g") auto
  from assms show ?thesis
  proof
    assume a: "(m, f, h) \<in> set session_routes \<and> (\<nexists>v. assertCsrf rq sv w = (Inr (), v))"
    then obtain g where g: "h rq p = handleRoute rq (g rq p)"
      using session_route_form unfolding session_form_def by metis
    obtain e v where e: "assertCsrf rq sv w = (Inl e, v)" using refuse a by blast
    show ?thesis using session_route.refused_is_silent [OF e] st [OF cs [OF e]] g by metis
  next
    assume a: "(m, f, h) \<in> set pre_session_routes \<and> (\<nexists>v. assertSameOrigin rq sv w = (Inr (), v))"
    then obtain g where g: "h rq p = origin_route rq (g rq p)"
      using pre_session_route_form unfolding pre_session_form_def by metis
    obtain e v where e: "assertSameOrigin rq sv w = (Inl e, v)" using refuse a by blast
    show ?thesis using pre_session_route.refused_is_silent [OF e] st [OF so [OF e]] g by metis
  qed
qed

theorem forged_requests_change_nothing_witness:
  "\<exists>rs w'. reveal_POST evil_request demo_id demo_server demo_world = (Inr rs, w') \<and> w_sent w' = [] \<and> rs_status rs = 403"
proof -
  have m: "(''POST'', ''secrets/[secretId]/reveal'', \<lambda>rq p. reveal_POST rq (p ''secretId'')) \<in> set session_routes"
    by (simp add: session_routes_def)
  have w: "w_sent demo_world = []" by (simp add: demo_world_def)
  have s: "\<not> safe_method evil_request" by code_simp
  have o: "header evil_request ''origin'' \<noteq> Some (appOrigin demo_connection)" by code_simp
  have n: "\<nexists>v. assertCsrf evil_request demo_server demo_world = (Inr (), v)"
    using s o by (auto simp: assertCsrf_ok demo_conn origin_ok_def demo_connection_def)
  show ?thesis
    using forged_requests_change_nothing [of "''POST''" "''secrets/[secretId]/reveal''" "\<lambda>rq p. reveal_POST rq (p ''secretId'')"
        evil_request demo_server demo_world "\<lambda>_. demo_id"] m n w
    by (auto simp: demo_conn)
qed

lemma get_routes_send:
  "list_all (\<lambda>(m, f, h). m = ''GET'' \<longrightarrow> (\<forall>rq p. keeps (sends (\<lambda>x. cr_method x = ''GET'' \<and> cr_body x = None)) (h rq p))) session_routes"
proof -
  have c: "keeps (sends (\<lambda>x. cr_method x = ''GET'' \<and> cr_body x = None)) (callCoreApi path get_options)" for path
    by (rule sends_call) (simp add: get_options_def no_options_def)
  show ?thesis
    unfolding session_routes_def list.pred_inject(2) case_prod_conv
    by (intro conjI list_all_nil; simp add: session_route_defs Let_def sends_handleRoute sends_lift c)
qed

text \<open>Reading routes only read: whatever a request carries, a route exported under GET sends the core API
  nothing but GET requests without a body.\<close>

theorem get_routes_only_read:
  assumes "(''GET'', f, h) \<in> set session_routes" "h rq p sv w = (r, w')" "x \<in> set (new_requests w w')"
  shows "cr_method x = ''GET'' \<and> cr_body x = None"
proof -
  have "keeps (sends (\<lambda>x. cr_method x = ''GET'' \<and> cr_body x = None)) (h rq p)"
    using get_routes_send assms(1) by (fastforce simp: list_all_iff)
  from sendsD [OF this assms(2)] assms(3) show ?thesis by (simp add: new_requests_def)
qed

theorem get_routes_only_read_witness:
  "\<exists>x. x \<in> set (new_requests demo_world (snd (project_audit_GET demo_audit demo_id demo_down demo_world))) \<and> cr_method x = ''GET''"
proof -
  obtain x where x: "x \<in> set (new_requests demo_world (snd (project_audit_GET demo_audit demo_id demo_down demo_world)))"
    using demo_audit_sent by (metis list.set_intros(1) neq_Nil_conv)
  have "(''GET'', ''projects/[projectId]/audit'', \<lambda>rq p. project_audit_GET rq (p ''projectId'')) \<in> set session_routes"
    by (simp add: session_routes_def)
  from get_routes_only_read [where rq = demo_audit and p = "\<lambda>_. demo_id" and sv = demo_down and w = demo_world and x = x,
      OF this prod.collapse [symmetric]] x
  show ?thesis by auto
qed

end
