(* ===== verification/Base64.thy ===== *)
theory Base64 imports Codec "HOL-Library.Word" begin

text \<open>
  The platform's \<open>btoa\<close> and \<open>atob\<close> (forgiving base64 decoding), on strings of code units below 256.
\<close>

section \<open>Model\<close>

definition b64_char :: "nat \<Rightarrow> char" where
  "b64_char n = (if n < 26 then char_of (65 + n) else if n < 52 then char_of (71 + n)
     else if n < 62 then char_of (n - 4) else if n = 62 then CHR ''+'' else CHR ''/'')"

definition b64_value :: "char \<Rightarrow> nat option" where
  "b64_value c = (if is_upper c then Some (of_char c - 65) else if is_lower c then Some (of_char c - 71)
     else if is_digit c then Some (of_char c + 4) else if c = CHR ''+'' then Some 62
     else if c = CHR ''/'' then Some 63 else None)"

text \<open>Octets to groups of six bits and back; bits left over at the end are dropped.\<close>

fun sextets :: "nat list \<Rightarrow> nat list" where
  "sextets [] = []"
| "sextets [a] = [a div 4, a mod 4 * 16]"
| "sextets [a, b] = [a div 4, a mod 4 * 16 + b div 16, b mod 16 * 4]"
| "sextets (a # b # c # r) = a div 4 # (a mod 4 * 16 + b div 16) # (b mod 16 * 4 + c div 64) # c mod 64 # sextets r"

fun octets :: "nat list \<Rightarrow> nat list" where
  "octets (a # b # c # d # r) = (a * 4 + b div 16) # (b mod 16 * 16 + c div 4) # (c mod 4 * 64 + d) # octets r"
| "octets [a, b, c] = [a * 4 + b div 16, b mod 16 * 16 + c div 4]"
| "octets [a, b] = [a * 4 + b div 16]"
| "octets _ = []"

definition btoa :: "string \<Rightarrow> string" where
  "btoa s = (let v = sextets (map of_char s) in
     map b64_char v @ replicate ((4 - length v mod 4) mod 4) (CHR ''=''))"

definition ascii_ws :: "char \<Rightarrow> bool" where
  "ascii_ws c = (c \<in> {CHR 0x09, CHR 0x0A, CHR 0x0C, CHR 0x0D, CHR 0x20})"

definition drop_last_eq :: "string \<Rightarrow> string" where
  "drop_last_eq s = (if s \<noteq> [] \<and> last s = CHR ''='' then butlast s else s)"

definition atob :: "string \<Rightarrow> string option" where
  "atob s = (let t = filter (\<lambda>c. \<not> ascii_ws c) s;
       u = (if length t mod 4 = 0 then drop_last_eq (drop_last_eq t) else t)
     in if length u mod 4 = 1 \<or> list_ex (\<lambda>c. b64_value c = None) u then None
        else Some (map char_of (octets (map (\<lambda>c. the (b64_value c)) u))))"

section \<open>Lemmas\<close>

lemma octets_sextets: "(\<And>b. b \<in> set bs \<Longrightarrow> b < 256) \<Longrightarrow> octets (sextets bs) = bs"
proof (induction bs rule: sextets.induct)
  case (4 a b c r)
  have "a < 256" "b < 256" "c < 256" using "4.prems" by auto
  moreover have "octets (sextets r) = r" using 4 by auto
  moreover have "c div 64 < 4" "b div 16 < 16" using calculation by auto
  ultimately show ?case by (simp add: div_mult2_eq)
next
  case (3 a b)
  then have "a < 256" "b < 256" by auto
  then have "b div 16 < 16" by auto
  then show ?case by simp
qed auto

lemma sextets_bound: "(\<And>b. b \<in> set bs \<Longrightarrow> b < 256) \<Longrightarrow> v \<in> set (sextets bs) \<Longrightarrow> v < 64"
proof (induction bs rule: sextets.induct)
  case (2 a)
  then show ?case by auto
next
  case (3 a b)
  then have "a < 256" "b < 256" by auto
  then have "a div 4 < 64" "b div 16 < 16" "a mod 4 < 4" by auto
  with 3 show ?case by auto
next
  case (4 a b c r)
  then have "a < 256" "b < 256" "c < 256" by auto
  then have "a div 4 < 64" "b div 16 < 16" "c div 64 < 4" by auto
  with 4 show ?case by auto
qed simp

lemma sextets_length: "length (sextets bs) mod 4 \<noteq> 1"
  by (induction bs rule: sextets.induct) auto

lemma sextets_length_exact: "length (sextets bs) = (4 * length bs + 2) div 3"
proof (induction bs rule: sextets.induct)
  case (4 a b c r)
  have "length (sextets (a # b # c # r)) = 4 + length (sextets r)" by simp
  moreover have "(4 * (n + 3) + 2) div 3 = 4 + (4 * n + 2) div 3" for n :: nat by presburger
  moreover have "length (a # b # c # r) = length r + 3" by simp
  ultimately show ?case using 4 by (simp only:)
qed auto

lemma b64_value_char:
  assumes "n < 64"
  shows "b64_value (b64_char n) = Some n"
proof -
  have "list_all (\<lambda>n. b64_value (b64_char n) = Some n) [0..<64]" by code_simp
  with assms show ?thesis by (simp add: list_all_iff)
qed

lemma b64_char_plain:
  assumes "n < 64"
  shows "\<not> ascii_ws (b64_char n) \<and> b64_char n \<noteq> CHR ''='' \<and> b64_char n \<noteq> CHR ''-'' \<and> b64_char n \<noteq> CHR ''_''"
proof -
  have "list_all (\<lambda>n. \<not> ascii_ws (b64_char n) \<and> b64_char n \<noteq> CHR ''='' \<and> b64_char n \<noteq> CHR ''-'' \<and> b64_char n \<noteq> CHR ''_'') [0..<64]"
    by code_simp
  with assms show ?thesis by (simp add: list_all_iff)
qed

lemma of_char_list_bound: "b \<in> set (map of_char (s :: string)) \<Longrightarrow> b < (256 :: nat)"
  by auto

lemma map_char_of: "map char_of (map of_char s :: nat list) = s"
  by (simp add: comp_def)

text \<open>Decoding unpadded text padded back to a multiple of four.\<close>

lemma drop_last_eq_snoc: "drop_last_eq (s @ [CHR ''='']) = s"
  by (simp add: drop_last_eq_def)

lemma drop_last_eq_plain: "CHR ''='' \<notin> set s \<Longrightarrow> drop_last_eq s = s"
  by (cases s rule: rev_cases) (auto simp: drop_last_eq_def)

lemma atob_padded:
  assumes v: "\<And>n. n \<in> set v \<Longrightarrow> n < 64" and l: "length v mod 4 \<noteq> 1"
  shows "atob (map b64_char v @ replicate ((4 - length v mod 4) mod 4) (CHR ''='')) = Some (map char_of (octets v))"
proof -
  let ?p = "(4 - length v mod 4) mod 4"
  let ?t = "map b64_char v @ replicate ?p (CHR ''='')"
  have ws: "\<not> ascii_ws (CHR ''='')" by (simp add: ascii_ws_def)
  have t: "filter (\<lambda>c. \<not> ascii_ws c) ?t = ?t"
    using v b64_char_plain ws by (auto simp: filter_id_conv)
  have m4: "length ?t mod 4 = 0"
  proof -
    have "length v mod 4 < 4" by simp
    then consider "length v mod 4 = 0" | "length v mod 4 = 2" | "length v mod 4 = 3" using l by linarith
    then show ?thesis by cases (simp_all, presburger+)
  qed
  have e: "CHR ''='' \<notin> set (map b64_char v)" using v b64_char_plain by fastforce
  have p: "?p = 0 \<or> ?p = 1 \<or> ?p = 2"
  proof -
    have "length v mod 4 < 4" by simp
    then consider "length v mod 4 = 0" | "length v mod 4 = 2" | "length v mod 4 = 3" using l by linarith
    then show ?thesis by cases simp_all
  qed
  have u: "drop_last_eq (drop_last_eq ?t) = map b64_char v"
    using p
  proof (elim disjE)
    assume "?p = 0" then show ?thesis by (simp add: drop_last_eq_plain e del: set_map)
  next
    assume "?p = 1"
    then have "?t = map b64_char v @ [CHR ''='']" by simp
    then show ?thesis by (simp only: drop_last_eq_snoc drop_last_eq_plain [OF e])
  next
    assume "?p = 2"
    then have "?t = (map b64_char v @ [CHR ''='']) @ [CHR ''='']" by (simp add: numeral_2_eq_2)
    then show ?thesis by (simp only: drop_last_eq_snoc)
  qed
  have n: "\<not> list_ex (\<lambda>c. b64_value c = None) (map b64_char v)"
    using v b64_value_char by (fastforce simp: list_ex_iff)
  have w: "map (\<lambda>c. the (b64_value c)) (map b64_char v) = v"
    using v b64_value_char by (induction v) auto
  show ?thesis
    unfolding atob_def Let_def t u using m4 l n w by (simp del: map_map)
qed

text \<open>The browser's own pair is a codec.\<close>

lemma atob_btoa: "atob (btoa s) = Some s"
proof -
  have "atob (btoa s) = Some (map char_of (octets (sextets (map of_char s))))"
    unfolding btoa_def Let_def
    by (intro atob_padded sextets_length) (rule sextets_bound [OF of_char_list_bound])
  also have "octets (sextets (map of_char s)) = (map of_char s :: nat list)"
    by (rule octets_sextets [OF of_char_list_bound])
  finally show ?thesis by (simp only: map_char_of)
qed

interpretation base64: codec btoa atob "\<lambda>_. True"
  by unfold_locales (rule atob_btoa)

end
