(* ===== verification/Webauthn.thy ===== *)
theory Webauthn imports Base64 Errors begin

text \<open>
  The browser half of a passkey ceremony (web/lib/webauthn.ts): base64url strings on the wire, byte
  buffers at the authenticator.  \<open>navigator.credentials\<close> is a parameter.
\<close>

section \<open>Model\<close>

type_synonym bytes = "8 word list"

text \<open>What a browser API may throw.\<close>

datatype thrown = DOMException string string | ErrorValue string | OtherThrown

definition passkeysSupported :: "bool \<Rightarrow> string \<Rightarrow> bool" where
  "passkeysSupported window_defined typeof_credential = (window_defined \<and> typeof_credential = ''function'')"

definition replace_char :: "char \<Rightarrow> char \<Rightarrow> string \<Rightarrow> string" where
  "replace_char a b s = map (\<lambda>c. if c = a then b else c) s"

text \<open>\<open>padEnd(Math.ceil(length / 4) * 4, "=")\<close>\<close>

definition pad_to_four :: "string \<Rightarrow> string" where
  "pad_to_four s = s @ replicate ((length s + 3) div 4 * 4 - length s) (CHR ''='')"

definition fromBase64Url :: "string \<Rightarrow> thrown + bytes" where
  "fromBase64Url v =
     (let padded = replace_char (CHR ''_'') (CHR ''/'') (replace_char (CHR ''-'') (CHR ''+'') v) in
      case atob (pad_to_four padded) of
        None \<Rightarrow> Inl (DOMException ''InvalidCharacterError'' ''The string to be decoded is not correctly encoded.'')
      | Some binary \<Rightarrow> Inr (map (\<lambda>c. of_nat (of_char c)) binary))"

definition toBase64Url :: "bytes \<Rightarrow> string" where
  "toBase64Url buffer =
     rev (dropWhile (\<lambda>c. c = CHR ''='') (rev (replace_char (CHR ''/'') (CHR ''_'')
       (replace_char (CHR ''+'') (CHR ''-'') (btoa (map (\<lambda>b. char_of (unat b)) buffer))))))"

record wire_credential =
  wc_id :: string
  wc_type :: string
  wc_transports :: "string list option"

text \<open>\<open>options.publicKey\<close>; the fields that pass through untouched are \<open>pk_rest\<close>.\<close>

record creation_options =
  pk_rest :: "(string \<times> json) list"
  pk_challenge :: string
  pk_user_id :: string
  pk_user_name :: string
  pk_user_display :: string
  pk_exclude :: "wire_credential list option"

record request_options =
  rk_rest :: "(string \<times> json) list"
  rk_challenge :: string
  rk_allow :: "wire_credential list option"

record native_credential =
  nc_id :: bytes
  nc_type :: string
  nc_transports :: "string list option"

record creation_request =
  cq_rest :: "(string \<times> json) list"
  cq_challenge :: bytes
  cq_user_id :: bytes
  cq_user_name :: string
  cq_user_display :: string
  cq_exclude :: "native_credential list"

record assertion_request =
  aq_rest :: "(string \<times> json) list"
  aq_challenge :: bytes
  aq_allow :: "native_credential list"

record attestation =
  at_id :: string
  at_rawId :: bytes
  at_type :: string
  at_clientDataJSON :: bytes
  at_attestationObject :: bytes
  at_transports :: "string list option"

record assertion =
  as_id :: string
  as_rawId :: bytes
  as_type :: string
  as_clientDataJSON :: bytes
  as_authenticatorData :: bytes
  as_signature :: bytes
  as_userHandle :: "bytes option"

definition native :: "wire_credential \<Rightarrow> thrown + native_credential" where
  "native c = then_ok (fromBase64Url (wc_id c)) (\<lambda>i.
     Inr \<lparr>nc_id = i, nc_type = ''public-key'', nc_transports = wc_transports c\<rparr>)"

definition creation_request_of :: "creation_options \<Rightarrow> thrown + creation_request" where
  "creation_request_of k =
     then_ok (fromBase64Url (pk_challenge k)) (\<lambda>challenge.
     then_ok (fromBase64Url (pk_user_id k)) (\<lambda>user.
     then_ok (map_ok native (case pk_exclude k of None \<Rightarrow> [] | Some cs \<Rightarrow> cs)) (\<lambda>exclude.
     Inr \<lparr>cq_rest = pk_rest k, cq_challenge = challenge, cq_user_id = user, cq_user_name = pk_user_name k,
       cq_user_display = pk_user_display k, cq_exclude = exclude\<rparr>)))"

definition buffer_field :: "bytes \<Rightarrow> jsval" where
  "buffer_field b = Some (JStr (toBase64Url b))"

definition attestation_json :: "attestation \<Rightarrow> json" where
  "attestation_json a = obj [(''id'', Some (JStr (at_id a))), (''rawId'', buffer_field (at_rawId a)),
     (''type'', Some (JStr (at_type a))),
     (''response'', Some (obj [(''clientDataJSON'', buffer_field (at_clientDataJSON a)),
        (''attestationObject'', buffer_field (at_attestationObject a))])),
     (''transports'', Some (JArr (map JStr (case at_transports a of None \<Rightarrow> [] | Some ts \<Rightarrow> ts))))]"

definition createCredential ::
    "(creation_request \<Rightarrow> thrown + attestation option) \<Rightarrow> creation_options \<Rightarrow> thrown + json" where
  "createCredential navigator_create k =
     then_ok (creation_request_of k) (\<lambda>q.
     then_ok (navigator_create q) (\<lambda>credential.
     case credential of
       None \<Rightarrow> Inl (ErrorValue ''No passkey was created.'')
     | Some a \<Rightarrow> Inr (attestation_json a)))"

definition assertion_request_of :: "request_options \<Rightarrow> thrown + assertion_request" where
  "assertion_request_of k =
     then_ok (fromBase64Url (rk_challenge k)) (\<lambda>challenge.
     then_ok (map_ok native (case rk_allow k of None \<Rightarrow> [] | Some cs \<Rightarrow> cs)) (\<lambda>allow.
     Inr \<lparr>aq_rest = rk_rest k, aq_challenge = challenge, aq_allow = allow\<rparr>))"

definition assertion_json :: "assertion \<Rightarrow> json" where
  "assertion_json a = obj [(''id'', Some (JStr (as_id a))), (''rawId'', buffer_field (as_rawId a)),
     (''type'', Some (JStr (as_type a))),
     (''response'', Some (obj [(''clientDataJSON'', buffer_field (as_clientDataJSON a)),
        (''authenticatorData'', buffer_field (as_authenticatorData a)),
        (''signature'', buffer_field (as_signature a)),
        (''userHandle'', case as_userHandle a of None \<Rightarrow> Some JNull | Some h \<Rightarrow> buffer_field h)]))]"

definition getCredential ::
    "(assertion_request \<Rightarrow> thrown + assertion option) \<Rightarrow> request_options \<Rightarrow> thrown + json" where
  "getCredential navigator_get k =
     then_ok (assertion_request_of k) (\<lambda>q.
     then_ok (navigator_get q) (\<lambda>credential.
     case credential of
       None \<Rightarrow> Inl (ErrorValue ''No passkey was used.'')
     | Some a \<Rightarrow> Inr (assertion_json a)))"

definition describePasskeyError :: "thrown \<Rightarrow> string" where
  "describePasskeyError e = (case e of
     DOMException name m \<Rightarrow>
       if name = ''NotAllowedError'' then ''No passkey was used. The prompt was dismissed or timed out.''
       else if name = ''InvalidStateError'' then ''That passkey is already registered on this account.''
       else if name = ''SecurityError'' then ''This page's address does not match where the passkey was registered.''
       else if name = ''AbortError'' then ''The passkey prompt was cancelled.''
       else m
   | ErrorValue m \<Rightarrow> m
   | OtherThrown \<Rightarrow> ''That passkey did not work.'')"

section \<open>Lemmas\<close>

definition url_char :: "char \<Rightarrow> char" where
  "url_char c = (if c = CHR ''+'' then CHR ''-'' else if c = CHR ''/'' then CHR ''_'' else c)"

lemma to_url_chars: "replace_char (CHR ''/'') (CHR ''_'') (replace_char (CHR ''+'') (CHR ''-'') s) = map url_char s"
  by (simp add: replace_char_def url_char_def)

lemma from_url_chars:
  "(\<And>c. c \<in> set s \<Longrightarrow> c \<noteq> CHR ''-'' \<and> c \<noteq> CHR ''_'') \<Longrightarrow>
     replace_char (CHR ''_'') (CHR ''/'') (replace_char (CHR ''-'') (CHR ''+'') (map url_char s)) = s"
  by (induction s) (auto simp: replace_char_def url_char_def)

lemma strip_padding:
  assumes "c \<notin> set s"
  shows "rev (dropWhile (\<lambda>d. d = c) (rev (s @ replicate n c))) = s"
proof -
  have "dropWhile (\<lambda>d. d = c) (replicate n c @ t) = dropWhile (\<lambda>d. d = c) t" for t
    by (induction n) auto
  moreover have "dropWhile (\<lambda>d. d = c) (rev s) = rev s"
    using assms by (cases s rule: rev_cases) auto
  ultimately show ?thesis by simp
qed

text \<open>The text form of a buffer: alphabet characters only.\<close>

lemma text_plain:
  assumes "c \<in> set (map b64_char (sextets (map unat (bs :: 8 word list))))"
  shows "c \<noteq> CHR ''='' \<and> c \<noteq> CHR ''-'' \<and> c \<noteq> CHR ''_''"
proof -
  have u: "b \<in> set (map unat bs) \<Longrightarrow> b < 256" for b
    using unsigned_less [where ?'a = nat and ?'b = 8] by auto
  obtain n where n: "c = b64_char n" "n \<in> set (sextets (map unat bs))" using assms by auto
  then have "n < 64" using sextets_bound u by blast
  with n(1) b64_char_plain show ?thesis by simp
qed

lemma toBase64Url_eq:
  "toBase64Url bs = map url_char (map b64_char (sextets (map unat bs)))"
proof -
  let ?v = "sextets (map unat bs)"
  have b: "map of_char (map (\<lambda>b. char_of (unat b)) bs :: string) = (map unat bs :: nat list)"
  proof -
    have "unat (b :: 8 word) < 256" for b using unsigned_less [of b, where ?'a = nat] by simp
    then show ?thesis by (simp add: of_char_of)
  qed
  have e: "CHR ''='' \<notin> set (map url_char (map b64_char ?v))"
  proof
    assume "CHR ''='' \<in> set (map url_char (map b64_char ?v))"
    then obtain c where "c \<in> set (map b64_char ?v)" "CHR ''='' = url_char c" by (metis imageE set_map)
    with text_plain [of c bs] show False by (auto simp: url_char_def split: if_splits)
  qed
  have r: "map url_char (replicate n (CHR ''='')) = replicate n (CHR ''='')" for n
    by (simp add: url_char_def)
  show ?thesis
    unfolding toBase64Url_def to_url_chars btoa_def b Let_def
    by (simp only: map_append r) (rule strip_padding [OF e])
qed

lemma pad_length: "(m + 3) div 4 * 4 - m = (4 - m mod 4) mod (4 :: nat)"
proof -
  obtain q r where m: "m = r + 4 * q" "r < 4" by (metis mod_less_divisor mod_mult_div_eq zero_less_numeral)
  then have "r = 0 \<or> r = 1 \<or> r = 2 \<or> r = 3" by linarith
  then show ?thesis
  proof (elim disjE)
    assume "r = 1"
    then have "(m + 3) div 4 = q + 1" "m mod 4 = 1" using m(1) by presburger+
    then show ?thesis using m \<open>r = 1\<close> by simp
  next
    assume "r = 2"
    then have "(m + 3) div 4 = q + 1" "m mod 4 = 2" using m(1) by presburger+
    then show ?thesis using m \<open>r = 2\<close> by simp
  next
    assume "r = 3"
    then have "(m + 3) div 4 = q + 1" "m mod 4 = 3" using m(1) by presburger+
    then show ?thesis using m \<open>r = 3\<close> by simp
  qed (use m in simp)
qed

lemma fromBase64Url_to: "fromBase64Url (toBase64Url bs) = Inr bs"
proof -
  let ?v = "sextets (map unat bs)"
  have u: "b \<in> set (map unat bs) \<Longrightarrow> b < 256" for b
    using unsigned_less [where ?'a = nat and ?'b = 8] by auto
  have l: "n \<in> set ?v \<Longrightarrow> n < 64" for n using sextets_bound u by blast
  have p: "replace_char (CHR ''_'') (CHR ''/'') (replace_char (CHR ''-'') (CHR ''+'') (toBase64Url bs)) = map b64_char ?v"
    unfolding toBase64Url_eq using text_plain by (intro from_url_chars) blast
  have n: "(length ?v + 3) div 4 * 4 - length ?v = (4 - length ?v mod 4) mod 4"
    by (rule pad_length)
  have a: "atob (pad_to_four (map b64_char ?v)) = Some (map char_of (octets ?v))"
    unfolding pad_to_four_def length_map n using l sextets_length by (intro atob_padded) auto
  have o: "octets ?v = map unat bs" using octets_sextets u by blast
  have "map (\<lambda>c. of_nat (of_char c)) (map char_of (map unat bs) :: string) = bs"
  proof -
    have "of_nat (of_char (char_of (unat b) :: char)) = b" for b :: "8 word"
      using unsigned_less [of b, where ?'a = nat] by (simp add: of_char_of)
    then show ?thesis by (simp add: comp_def)
  qed
  then show ?thesis unfolding fromBase64Url_def p Let_def a o by simp
qed

interpretation base64url: codec toBase64Url "\<lambda>s. case fromBase64Url s of Inl _ \<Rightarrow> None | Inr b \<Rightarrow> Some b" "\<lambda>_. True"
  by unfold_locales (simp add: fromBase64Url_to)

section \<open>Properties\<close>

text \<open>C21: The wire form of a buffer is exact: every byte sequence reads back unchanged, distinct buffers have
  distinct texts, and the text consists of letters, digits, hyphens and underscores only, without
  padding, four characters for every three bytes.\<close>

theorem base64url_roundtrip:
  "fromBase64Url (toBase64Url bs) = Inr bs \<and> (toBase64Url bs = toBase64Url cs \<longleftrightarrow> bs = cs) \<and>
   list_all (\<lambda>c. c \<noteq> CHR ''+'' \<and> c \<noteq> CHR ''/'' \<and> c \<noteq> CHR ''='') (toBase64Url bs) \<and>
   length (toBase64Url bs) = (4 * length bs + 2) div 3"
proof -
  have "list_all (\<lambda>c. c \<noteq> CHR ''+'' \<and> c \<noteq> CHR ''/'' \<and> c \<noteq> CHR ''='') (map url_char (map b64_char (sextets (map unat bs))))"
    unfolding list_all_iff
  proof
    fix c assume "c \<in> set (map url_char (map b64_char (sextets (map unat bs))))"
    then obtain d where "d \<in> set (map b64_char (sextets (map unat bs)))" "c = url_char d" by (metis imageE set_map)
    with text_plain [of d bs] show "c \<noteq> CHR ''+'' \<and> c \<noteq> CHR ''/'' \<and> c \<noteq> CHR ''=''"
      by (auto simp: url_char_def split: if_splits)
  qed
  moreover have "length (toBase64Url bs) = (4 * length bs + 2) div 3"
    by (simp only: toBase64Url_eq length_map sextets_length_exact)
  ultimately show ?thesis
    using fromBase64Url_to base64url.enc_eq_iff [of bs cs] by (simp only: toBase64Url_eq [symmetric])
qed

text \<open>A property of an object that is the text form of a buffer.\<close>

definition holds_buffer :: "jsval \<Rightarrow> string \<Rightarrow> bytes \<Rightarrow> bool" where
  "holds_buffer v k b = (\<exists>s. optfield v k = Some (JStr s) \<and> fromBase64Url s = Inr b)"

lemma native_list:
  "map_ok native cs = Inr ns \<Longrightarrow> list_all2 (\<lambda>c n. fromBase64Url (wc_id c) = Inr (nc_id n) \<and> nc_transports n = wc_transports c) cs ns"
  by (auto simp: map_ok_Inr native_def then_ok_Inr elim!: list_all2_mono)

text \<open>C20: Registering a passkey loses nothing in either direction.  When it succeeds, the authenticator was
  given the very bytes the server encoded as challenge, user handle and excluded credentials, and the
  server can decode from the reply the very bytes the authenticator returned; if the options do not
  decode, the authenticator is not asked at all.\<close>

theorem registration_is_faithful:
  "(\<forall>j. createCredential nav k = Inr j \<longrightarrow>
     (\<exists>q a. nav q = Inr (Some a) \<and> fromBase64Url (pk_challenge k) = Inr (cq_challenge q) \<and>
        fromBase64Url (pk_user_id k) = Inr (cq_user_id q) \<and> cq_rest q = pk_rest k \<and>
        list_all2 (\<lambda>c n. fromBase64Url (wc_id c) = Inr (nc_id n) \<and> nc_transports n = wc_transports c)
          (case pk_exclude k of None \<Rightarrow> [] | Some cs \<Rightarrow> cs) (cq_exclude q) \<and>
        holds_buffer (Some j) ''rawId'' (at_rawId a) \<and>
        holds_buffer (field j ''response'') ''clientDataJSON'' (at_clientDataJSON a) \<and>
        holds_buffer (field j ''response'') ''attestationObject'' (at_attestationObject a))) \<and>
   (\<forall>e nav'. creation_request_of k = Inl e \<longrightarrow> createCredential nav' k = Inl e)"
proof -
  have "\<exists>q a. nav q = Inr (Some a) \<and> creation_request_of k = Inr q \<and> j = attestation_json a"
    if "createCredential nav k = Inr j" for j
    using that by (auto simp: createCredential_def then_ok_Inr split: option.splits)
  then show ?thesis
    using native_list
    by (fastforce simp: createCredential_def creation_request_of_def then_ok_Inr attestation_json_def buffer_field_def
        holds_buffer_def fromBase64Url_to)
qed

text \<open>Answering a challenge loses nothing either: the authenticator signs the challenge the server encoded,
  over the credentials it named, and the reply decodes to the authenticator's client data,
  authenticator data, signature and, when there is one, user handle.\<close>

theorem assertion_is_faithful:
  "\<forall>j. getCredential nav k = Inr j \<longrightarrow>
     (\<exists>q a. nav q = Inr (Some a) \<and> fromBase64Url (rk_challenge k) = Inr (aq_challenge q) \<and> aq_rest q = rk_rest k \<and>
        list_all2 (\<lambda>c n. fromBase64Url (wc_id c) = Inr (nc_id n) \<and> nc_transports n = wc_transports c)
          (case rk_allow k of None \<Rightarrow> [] | Some cs \<Rightarrow> cs) (aq_allow q) \<and>
        holds_buffer (Some j) ''rawId'' (as_rawId a) \<and>
        holds_buffer (field j ''response'') ''clientDataJSON'' (as_clientDataJSON a) \<and>
        holds_buffer (field j ''response'') ''authenticatorData'' (as_authenticatorData a) \<and>
        holds_buffer (field j ''response'') ''signature'' (as_signature a) \<and>
        (case as_userHandle a of
           None \<Rightarrow> optfield (field j ''response'') ''userHandle'' = Some JNull
         | Some h \<Rightarrow> holds_buffer (field j ''response'') ''userHandle'' h))"
proof (intro allI impI)
  fix j assume "getCredential nav k = Inr j"
  then obtain q a where r: "nav q = Inr (Some a)" "assertion_request_of k = Inr q" "j = assertion_json a"
    by (auto simp: getCredential_def then_ok_Inr split: option.splits)
  have q: "fromBase64Url (rk_challenge k) = Inr (aq_challenge q)" "aq_rest q = rk_rest k"
      "list_all2 (\<lambda>c n. fromBase64Url (wc_id c) = Inr (nc_id n) \<and> nc_transports n = wc_transports c)
          (case rk_allow k of None \<Rightarrow> [] | Some cs \<Rightarrow> cs) (aq_allow q)"
    using r(2) native_list by (fastforce simp: assertion_request_of_def then_ok_Inr)+
  show "\<exists>q a. nav q = Inr (Some a) \<and> fromBase64Url (rk_challenge k) = Inr (aq_challenge q) \<and> aq_rest q = rk_rest k \<and>
        list_all2 (\<lambda>c n. fromBase64Url (wc_id c) = Inr (nc_id n) \<and> nc_transports n = wc_transports c)
          (case rk_allow k of None \<Rightarrow> [] | Some cs \<Rightarrow> cs) (aq_allow q) \<and>
        holds_buffer (Some j) ''rawId'' (as_rawId a) \<and>
        holds_buffer (field j ''response'') ''clientDataJSON'' (as_clientDataJSON a) \<and>
        holds_buffer (field j ''response'') ''authenticatorData'' (as_authenticatorData a) \<and>
        holds_buffer (field j ''response'') ''signature'' (as_signature a) \<and>
        (case as_userHandle a of
           None \<Rightarrow> optfield (field j ''response'') ''userHandle'' = Some JNull
         | Some h \<Rightarrow> holds_buffer (field j ''response'') ''userHandle'' h)"
    using q r(1)
    by (intro exI [of _ q] exI [of _ a])
      (simp add: r(3) assertion_json_def buffer_field_def holds_buffer_def fromBase64Url_to split: option.splits)
qed

definition demo_creation :: creation_options where
  "demo_creation = \<lparr>pk_rest = [], pk_challenge = toBase64Url [1, 2, 255], pk_user_id = toBase64Url [7], pk_user_name = ''ada'',
     pk_user_display = ''Ada'', pk_exclude = None\<rparr>"

definition demo_authenticator :: "creation_request \<Rightarrow> thrown + attestation option" where
  "demo_authenticator q = Inr (Some \<lparr>at_id = ''k'', at_rawId = [9, 9], at_type = ''public-key'', at_clientDataJSON = cq_challenge q,
     at_attestationObject = [3], at_transports = None\<rparr>)"

theorem registration_is_faithful_witness:
  "\<exists>j. createCredential demo_authenticator demo_creation = Inr j \<and> holds_buffer (Some j) ''rawId'' [9, 9]"
proof -
  have "\<exists>j. createCredential demo_authenticator demo_creation = Inr j"
    by (simp add: createCredential_def creation_request_of_def demo_creation_def fromBase64Url_to demo_authenticator_def)
  then show ?thesis
    using registration_is_faithful [of demo_authenticator demo_creation] by (fastforce simp: demo_authenticator_def)
qed

definition demo_request :: request_options where
  "demo_request = \<lparr>rk_rest = [], rk_challenge = toBase64Url [4, 4, 4], rk_allow = Some [\<lparr>wc_id = toBase64Url [9, 9], wc_type = ''public-key'', wc_transports = None\<rparr>]\<rparr>"

definition demo_signer :: "assertion_request \<Rightarrow> thrown + assertion option" where
  "demo_signer q = Inr (Some \<lparr>as_id = ''k'', as_rawId = [9, 9], as_type = ''public-key'', as_clientDataJSON = aq_challenge q,
     as_authenticatorData = [], as_signature = [5, 6], as_userHandle = None\<rparr>)"

theorem assertion_is_faithful_witness:
  "\<exists>j. getCredential demo_signer demo_request = Inr j \<and> holds_buffer (field j ''response'') ''signature'' [5, 6]"
proof -
  have "\<exists>j. getCredential demo_signer demo_request = Inr j"
    by (simp add: getCredential_def assertion_request_of_def demo_request_def native_def fromBase64Url_to demo_signer_def)
  then show ?thesis
    using assertion_is_faithful [of demo_signer demo_request] by (fastforce simp: demo_signer_def)
qed

end
