(* ===== verification/Middleware.thy ===== *)
theory Middleware imports Base64 Connection begin

text \<open>
  The middleware that sets the security headers of every response (web/middleware.ts), and the origin
  the framework's server-action guard is configured with (web/next.config.ts).  Header names are in
  lower case, as \<open>Headers\<close> compares them.
\<close>

section \<open>Model\<close>

record mw_request =
  mw_headers :: "string \<rightharpoonup> string"
  mw_protocol :: string
  mw_pathname :: string

text \<open>The request forwarded to the page, and the headers of its response.\<close>

record mw_result =
  mr_request :: "string \<rightharpoonup> string"
  mr_response :: "string \<rightharpoonup> string"

text \<open>\<open>btoa(String.fromCharCode(...bytes))\<close> of 16 random bytes.\<close>

definition generateNonce :: "8 word list \<Rightarrow> string" where
  "generateNonce bs = btoa (map (\<lambda>b. char_of (unat b)) bs)"

definition quoted :: "string \<Rightarrow> string" where
  "quoted s = squote # s @ [squote]"

definition csp_directives :: "bool \<Rightarrow> string \<Rightarrow> string list" where
  "csp_directives isDevelopment nonce =
    [''default-src '' @ quoted ''self'',
     ''script-src '' @ quoted ''self'' @ '' '' @ quoted (''nonce-'' @ nonce) @ '' '' @ quoted ''strict-dynamic'' @
       '' https: '' @ quoted ''unsafe-inline'' @ (if isDevelopment then '' '' @ quoted ''unsafe-eval'' else []),
     ''style-src '' @ quoted ''self'' @ '' '' @ quoted ''unsafe-inline'',
     ''img-src '' @ quoted ''self'' @ '' data: blob:'',
     ''font-src '' @ quoted ''self'' @ '' data:'',
     (if isDevelopment then ''connect-src '' @ quoted ''self'' @ '' ws: wss:'' else ''connect-src '' @ quoted ''self''),
     ''object-src '' @ quoted ''none'',
     ''base-uri '' @ quoted ''none'',
     ''form-action '' @ quoted ''self'',
     ''frame-ancestors '' @ quoted ''none'',
     ''upgrade-insecure-requests'']"

definition csp :: "bool \<Rightarrow> string \<Rightarrow> string" where
  "csp isDevelopment nonce = join ''; '' (csp_directives isDevelopment nonce)"

text \<open>\<open>/^\/(favicon|icon|apple-touch-icon|warder)-[\w-]+\.png$/\<close>\<close>

definition brand_names :: "string list" where
  "brand_names = [''favicon'', ''icon'', ''apple-touch-icon'', ''warder'']"

definition png_tail :: "string \<Rightarrow> bool" where
  "png_tail s = (5 \<le> length s \<and> drop (length s - 4) s = ''.png'' \<and>
     list_all (\<lambda>c. is_word_char c \<or> c = CHR ''-'') (take (length s - 4) s))"

definition brand_asset :: "string \<Rightarrow> bool" where
  "brand_asset path = list_ex (\<lambda>n. let p = CHR ''/'' # n @ ''-'' in
     startsWith path p \<and> png_tail (drop (length p) path)) brand_names"

definition isPublicPage :: "string \<Rightarrow> bool" where
  "isPublicPage pathname =
     (if pathname = ''/'' \<or> pathname = ''/docs'' \<or> startsWith pathname ''/docs/'' then True
      else pathname = ''/manifest.webmanifest'' \<or> brand_asset pathname)"

definition middleware :: "bool \<Rightarrow> 8 word list \<Rightarrow> mw_request \<Rightarrow> mw_result" where
  "middleware isDevelopment random rq =
     (let nonce = generateNonce random;
          policy = csp isDevelopment nonce;
          headers = (mw_headers rq)(''x-nonce'' \<mapsto> nonce, ''content-security-policy'' \<mapsto> policy);
          response = [''content-security-policy'' \<mapsto> policy,
            ''x-content-type-options'' \<mapsto> ''nosniff'',
            ''x-frame-options'' \<mapsto> ''DENY'',
            ''referrer-policy'' \<mapsto> ''no-referrer'',
            ''permissions-policy'' \<mapsto> ''geolocation=(), camera=(), microphone=(), payment=(), usb=(), interest-cohort=()'',
            ''cross-origin-opener-policy'' \<mapsto> ''same-origin'',
            ''cross-origin-resource-policy'' \<mapsto> ''same-origin'',
            ''x-dns-prefetch-control'' \<mapsto> ''off''];
          response = (if mw_protocol rq = ''https:'' then
              response(''strict-transport-security'' \<mapsto> ''max-age=63072000; includeSubDomains; preload'') else response)
      in \<lparr>mr_request = headers,
          mr_response = response(''cache-control'' \<mapsto>
            (if isPublicPage (mw_pathname rq) then ''public, max-age=0, must-revalidate''
             else ''no-store, must-revalidate''))\<rparr>)"

text \<open>\<open>allowedOrigin()\<close>; \<open>None\<close> where \<open>new URL\<close> throws.\<close>

definition allowedOrigin :: "(string \<Rightarrow> url option) \<Rightarrow> string option \<Rightarrow> string" where
  "allowedOrigin nu raw = (case raw of
     None \<Rightarrow> ''localhost:3000''
   | Some r \<Rightarrow>
       if r = [] then ''localhost:3000''
       else case nu r of
         None \<Rightarrow> ''localhost:3000''
       | Some u \<Rightarrow>
           (case search_get u ''origin'' of
              Some (c # cs) \<Rightarrow> (case nu (c # cs) of None \<Rightarrow> ''localhost:3000'' | Some p \<Rightarrow> u_host p)
            | _ \<Rightarrow> ''localhost:3000''))"

text \<open>What the root layout hands the theme provider as the nonce of its inline script (web/app/layout.tsx).\<close>

definition layout_nonce :: "(string \<rightharpoonup> string) \<Rightarrow> string option" where
  "layout_nonce headers = headers ''x-nonce''"

section \<open>Lemmas\<close>

definition nonce_char :: "char \<Rightarrow> bool" where
  "nonce_char c = (is_upper c \<or> is_lower c \<or> is_digit c \<or> c = CHR ''+'' \<or> c = CHR ''/'' \<or> c = CHR ''='')"

lemma b64_nonce_char: "n < 64 \<Longrightarrow> nonce_char (b64_char n)"
proof -
  have "list_all (\<lambda>n. nonce_char (b64_char n)) [0..<64]" by code_simp
  then show "n < 64 \<Longrightarrow> nonce_char (b64_char n)" by (simp add: list_all_iff)
qed

lemma btoa_chars: "c \<in> set (btoa s) \<Longrightarrow> nonce_char c"
proof -
  have "v \<in> set (sextets (map of_char s)) \<Longrightarrow> v < 64" for v
    by (rule sextets_bound [OF of_char_list_bound])
  then show "c \<in> set (btoa s) \<Longrightarrow> nonce_char c"
    by (auto simp: btoa_def Let_def b64_nonce_char) (simp add: nonce_char_def)
qed

lemma third: "(k + q * 3) div 3 = q + k div (3 :: nat)"
  by simp

lemma fourth: "(k + 4 * q) mod 4 = k mod (4 :: nat)"
  by simp

lemma btoa_length: "length (btoa s) = (length s + 2) div 3 * 4"
proof -
  have "(4 * n + 2) div 3 + (4 - (4 * n + 2) div 3 mod 4) mod 4 = (n + 2) div 3 * 4" for n :: nat
  proof -
    obtain q r where n: "n = r + q * 3" "r < 3" by (metis mod_less_divisor mod_div_mult_eq add.commute zero_less_numeral)
    have m: "4 * n + 2 = (4 * r + 2) + (4 * q) * 3" "n + 2 = (r + 2) + q * 3" using n by simp_all
    have d: "(4 * n + 2) div 3 = 4 * q + (4 * r + 2) div 3" "(n + 2) div 3 = q + (r + 2) div 3"
      unfolding m by (rule third)+
    have "r = 0 \<or> r = 1 \<or> r = 2" using n(2) by linarith
    then show ?thesis
      unfolding d add.commute [of "4 * q"] fourth by (elim disjE) simp_all
  qed
  from this [of "length s"] show ?thesis
    by (simp add: btoa_def Let_def sextets_length_exact)
qed

lemma nonce_char_plain: "\<not> nonce_char squote" "\<not> nonce_char CHR '';''" "\<not> nonce_char CHR '' ''"
  by (simp_all add: nonce_char_def is_upper_def is_lower_def is_digit_def less_eq_char_def)

section \<open>Properties\<close>

text \<open>A nonce of 16 random bytes is 24 characters of the base64 alphabet, so it can neither end the
  quoted source it stands in nor start another directive, and different bytes give different nonces.\<close>

theorem nonce_is_inert:
  assumes "length bs = 16"
  shows "length (generateNonce bs) = 24 \<and> list_all nonce_char (generateNonce bs) \<and>
    squote \<notin> set (generateNonce bs) \<and> CHR '';'' \<notin> set (generateNonce bs) \<and> CHR '' '' \<notin> set (generateNonce bs) \<and>
    (generateNonce bs = generateNonce cs \<longleftrightarrow> bs = cs)"
proof -
  note n = nonce_char_plain
  have i: "map (\<lambda>b. char_of (unat b) :: char) bs = map (\<lambda>b. char_of (unat b)) cs \<longleftrightarrow> bs = cs" for cs :: "8 word list"
  proof (rule inj_map_eq_map, rule injI)
    fix a b :: "8 word"
    assume "(char_of (unat a) :: char) = char_of (unat b)"
    then have "of_char (char_of (unat a) :: char) = (of_char (char_of (unat b) :: char) :: nat)" by simp
    then have "unat a = unat b"
      using unsigned_less [of a, where ?'a = nat] unsigned_less [of b, where ?'a = nat] by (simp add: of_char_of)
    then show "a = b" by (rule unsigned_word_eqI)
  qed
  show ?thesis
    using assms n i base64.enc_eq_iff btoa_chars
    by (auto simp: generateNonce_def btoa_length list_all_iff)
qed

theorem nonce_is_inert_witness: "length (generateNonce (replicate 16 7)) = 24"
  using nonce_is_inert [of "replicate 16 7" "replicate 16 7"] by simp

text \<open>Every response carries the policy its page was rendered under: the policy header of the response
  and of the forwarded request are the same text, the forwarded nonce is the one in that policy whatever
  the browser sent under those names, framing is denied and the policy is strict; HSTS is sent exactly
  over TLS; and everything but the published pages is marked never to be stored.\<close>

theorem response_headers:
  "let r = middleware dev bs rq; n = generateNonce bs in
     mr_response r ''content-security-policy'' = Some (csp dev n) \<and>
     mr_request r ''content-security-policy'' = Some (csp dev n) \<and> mr_request r ''x-nonce'' = Some n \<and>
     mr_response r ''x-frame-options'' = Some ''DENY'' \<and> mr_response r ''x-content-type-options'' = Some ''nosniff'' \<and>
     (''frame-ancestors '' @ quoted ''none'') \<in> set (csp_directives dev n) \<and>
     (mr_response r ''strict-transport-security'' \<noteq> None \<longleftrightarrow> mw_protocol rq = ''https:'') \<and>
     mr_response r ''cache-control'' =
       Some (if isPublicPage (mw_pathname rq) then ''public, max-age=0, must-revalidate'' else ''no-store, must-revalidate'') \<and>
     (\<forall>k. k \<noteq> ''x-nonce'' \<and> k \<noteq> ''content-security-policy'' \<longrightarrow> mr_request r k = mw_headers rq k)"
  by (simp add: middleware_def Let_def csp_directives_def)

theorem response_headers_witness:
  "mr_request (middleware False (replicate 16 0) \<lparr>mw_headers = [''x-nonce'' \<mapsto> ''forged'', ''host'' \<mapsto> ''h''],
     mw_protocol = ''https:'', mw_pathname = ''/projects''\<rparr>) ''host'' = Some ''h''"
  using response_headers [of False "replicate 16 0" "\<lparr>mw_headers = [''x-nonce'' \<mapsto> ''forged'', ''host'' \<mapsto> ''h''],
     mw_protocol = ''https:'', mw_pathname = ''/projects''\<rparr>"]
  by (simp add: Let_def)

lemma png_tail_no_slash: "png_tail s \<Longrightarrow> CHR ''/'' \<notin> set s"
proof
  assume t: "png_tail s" and m: "CHR ''/'' \<in> set s"
  have w: "\<not> is_word_char (CHR ''/'')" by code_simp
  have d: "CHR ''/'' \<notin> set ''.png''" by simp
  have "set s = set (take (length s - 4) s) \<union> set (drop (length s - 4) s)"
    by (metis append_take_drop_id set_append)
  with m t d have "CHR ''/'' \<in> set (take (length s - 4) s)" unfolding png_tail_def by (metis UnE)
  with t w show False by (auto simp: png_tail_def list_all_iff)
qed

lemma brand_asset_segment:
  assumes "brand_asset path"
  shows "\<exists>s. path = CHR ''/'' # s \<and> CHR ''/'' \<notin> set s \<and> drop (length s - 4) s = ''.png''"
proof -
  obtain n where n: "n \<in> set brand_names" "startsWith path (CHR ''/'' # n @ ''-'')"
      "png_tail (drop (length (CHR ''/'' # n @ ''-'')) path)"
    using assms by (auto simp: brand_asset_def list_ex_iff Let_def)
  obtain t where t: "t = drop (length (CHR ''/'' # n @ ''-'')) path" by blast
  have p: "path = (CHR ''/'' # n @ ''-'') @ t" using startsWith_split [OF n(2)] t by simp
  have g: "CHR ''/'' \<notin> set n" using n(1) by (auto simp: brand_names_def)
  have u: "CHR ''/'' \<notin> set t" "5 \<le> length t" "drop (length t - 4) t = ''.png''"
    using n(3) png_tail_no_slash unfolding t [symmetric] by (auto simp: png_tail_def)
  have "length (n @ ''-'' @ t) - 4 = length (n @ ''-'') + (length t - 4)" using u(2) by simp
  then have "drop (length (n @ ''-'' @ t) - 4) (n @ ''-'' @ t) = drop (length t - 4) t"
    by (metis append_assoc append_eq_conv_conj drop_drop add.commute)
  with p g u show ?thesis by (intro exI [of _ "n @ ''-'' @ t"]) (simp del: drop_append)
qed

text \<open>What may be cached is a closed list.  A path whose response is not marked no-store is the landing
  page, the web manifest, the documentation index or a path below it, or a single segment that ends in
  \<open>.png\<close>; so no page of the dashboard and no API route, all of which have another first segment, is ever
  cacheable.\<close>

theorem cacheable_paths_are_listed:
  assumes "mr_response (middleware dev bs rq) ''cache-control'' \<noteq> Some ''no-store, must-revalidate''"
  shows "mw_pathname rq = ''/'' \<or> mw_pathname rq = ''/manifest.webmanifest'' \<or>
    (\<exists>rest. split_on (CHR ''/'') (mw_pathname rq) = [] # ''docs'' # rest) \<or>
    (\<exists>s. split_on (CHR ''/'') (mw_pathname rq) = [[], s] \<and> drop (length s - 4) s = ''.png'')"
proof -
  let ?p = "mw_pathname rq"
  have "isPublicPage ?p" using assms by (simp add: middleware_def Let_def split: if_splits)
  then consider "?p = ''/''" | "?p = ''/docs''" | "startsWith ?p ''/docs/''" | "?p = ''/manifest.webmanifest''" | "brand_asset ?p"
    by (auto simp: isPublicPage_def split: if_splits)
  then show ?thesis
  proof cases
    case 1
    then show ?thesis by blast
  next
    case 4
    then show ?thesis by blast
  next
    case 2
    then have "split_on (CHR ''/'') ?p = [] # ''docs'' # []" by simp
    then show ?thesis by blast
  next
    case 3
    then have "?p = ''/docs/'' @ drop (length ''/docs/'') ?p" by (rule startsWith_split)
    then obtain r where "?p = ''/docs/'' @ r" by blast
    then have "split_on (CHR ''/'') ?p = [] # ''docs'' # split_on (CHR ''/'') r" by simp
    then show ?thesis by blast
  next
    case 5
    then obtain s where s: "?p = CHR ''/'' # s" "CHR ''/'' \<notin> set s" "drop (length s - 4) s = ''.png''"
      using brand_asset_segment by blast
    then have "split_on (CHR ''/'') ?p = [[], s]" by (simp add: split_on_none)
    with s(3) show ?thesis by blast
  qed
qed

theorem cacheable_paths_are_listed_witness:
  "\<exists>rest. split_on (CHR ''/'') ''/docs/x'' = [] # ''docs'' # rest"
proof -
  let ?rq = "\<lparr>mw_headers = Map.empty, mw_protocol = ''https:'', mw_pathname = ''/docs/x''\<rparr>"
  have "isPublicPage ''/docs/x''" by code_simp
  then have "mr_response (middleware False [] ?rq) ''cache-control'' \<noteq> Some ''no-store, must-revalidate''"
    by (simp add: middleware_def Let_def)
  from cacheable_paths_are_listed [OF this] show ?thesis by simp
qed

section \<open>Scripts under the policy\<close>

text \<open>
  What a browser makes of a policy: its directives, the sources of the one that governs scripts, and whether a script written
  into the page runs.  A script that carries a nonce runs when a source names it; one without runs only where \<open>unsafe-inline\<close>
  allows it, which it does in no policy with a nonce or with \<open>strict-dynamic\<close>.
\<close>

definition policy_directives :: "string \<Rightarrow> string list" where
  "policy_directives policy = map (dropWhile (\<lambda>c. c = CHR '' '')) (split_on (CHR '';'') policy)"

definition script_sources :: "string \<Rightarrow> string list" where
  "script_sources policy = (case filter (\<lambda>d. startsWith d ''script-src '') (policy_directives policy) @
       filter (\<lambda>d. startsWith d ''default-src '') (policy_directives policy) of
     [] \<Rightarrow> [quoted ''unsafe-inline'']
   | d # _ \<Rightarrow> tl (split_on (CHR '' '') d))"

definition runs_script :: "string \<Rightarrow> string option \<Rightarrow> bool" where
  "runs_script policy nonce = (let sources = script_sources policy in
     (case nonce of None \<Rightarrow> False | Some n \<Rightarrow> quoted (''nonce-'' @ n) \<in> set sources) \<or>
     quoted ''unsafe-inline'' \<in> set sources \<and> quoted ''strict-dynamic'' \<notin> set sources \<and>
       \<not> list_ex (\<lambda>s. startsWith s (squote # ''nonce-'')) sources)"

lemma split_on_join_spaced:
  assumes "\<And>x. x \<in> set (x0 # xs) \<Longrightarrow> c \<notin> set x" "c \<noteq> CHR '' ''"
  shows "split_on c (join [c, CHR '' ''] (x0 # xs)) = x0 # map (\<lambda>x. CHR '' '' # x) xs"
  using assms(1)
proof (induction xs arbitrary: x0)
  case (Cons y ys)
  have "split_on c (join [c, CHR '' ''] (x0 # y # ys)) = split_on c x0 @ split_on c (CHR '' '' # join [c, CHR '' ''] (y # ys))"
    using split_on_append [of c x0 "CHR '' '' # join [c, CHR '' ''] (y # ys)"] by simp
  also have "\<dots> = [x0] @ (CHR '' '' # y) # map (\<lambda>x. CHR '' '' # x) ys"
    using Cons.IH [of y] Cons.prems assms(2) by (simp add: split_on_none)
  finally show ?case by simp
qed (simp add: split_on_none)

definition policy_sources :: "bool \<Rightarrow> string \<Rightarrow> string list" where
  "policy_sources dev n = [quoted ''self'', quoted (''nonce-'' @ n), quoted ''strict-dynamic'', ''https:'', quoted ''unsafe-inline''] @
     (if dev then [quoted ''unsafe-eval''] else [])"

lemma unspaced: "d = [] \<or> hd d \<noteq> CHR '' '' \<Longrightarrow> dropWhile (\<lambda>c. c = CHR '' '') d = d"
  by (cases d) auto

lemma csp_directives_plain:
  assumes "CHR '';'' \<notin> set n" "d \<in> set (csp_directives dev n)"
  shows "CHR '';'' \<notin> set d" "hd d \<noteq> CHR '' ''"
  using assms by (auto simp: csp_directives_def quoted_def split: if_splits)

lemma csp_directives_read:
  assumes "CHR '';'' \<notin> set n"
  shows "policy_directives (csp dev n) = csp_directives dev n"
proof -
  obtain x xs where x: "csp_directives dev n = x # xs" by (simp add: csp_directives_def)
  have d: "CHR '';'' \<notin> set d" "hd d \<noteq> CHR '' ''" if "d \<in> set (x # xs)" for d
    using csp_directives_plain [OF assms] that x by metis+
  have "split_on (CHR '';'') (csp dev n) = x # map (\<lambda>y. CHR '' '' # y) xs"
    unfolding csp_def x by (rule split_on_join_spaced) (use d in auto)
  moreover have "map (dropWhile (\<lambda>c. c = CHR '' '')) (x # xs) = x # xs" by (rule map_idI) (use d unspaced in blast)
  ultimately show ?thesis unfolding policy_directives_def x by (simp add: comp_def)
qed

lemma csp_script_sources:
  assumes "CHR '';'' \<notin> set n" "CHR '' '' \<notin> set n"
  shows "script_sources (csp dev n) = policy_sources dev n"
proof -
  let ?d = "''script-src '' @ quoted ''self'' @ '' '' @ quoted (''nonce-'' @ n) @ '' '' @ quoted ''strict-dynamic'' @
       '' https: '' @ quoted ''unsafe-inline'' @ (if dev then '' '' @ quoted ''unsafe-eval'' else [])"
  have "?d = join [CHR '' ''] (''script-src'' # policy_sources dev n)" by (simp add: policy_sources_def)
  moreover have "split_on (CHR '' '') (join [CHR '' ''] (''script-src'' # policy_sources dev n)) = ''script-src'' # policy_sources dev n"
    using assms(2) by (intro split_on_join) (auto simp: policy_sources_def quoted_def split: if_splits)
  ultimately have "tl (split_on (CHR '' '') ?d) = policy_sources dev n" by (simp only: list.sel)
  moreover have "filter (\<lambda>d. startsWith d ''script-src '') (policy_directives (csp dev n)) = [?d]"
    unfolding csp_directives_read [OF assms(1)] by (simp add: csp_directives_def startsWith_def quoted_def)
  ultimately show ?thesis by (simp only: script_sources_def append.simps list.case)
qed

text \<open>C40: Scripts and the policy.  On a page rendered for the request the theme's script runs: whatever nonce the request arrived with,
  the layout hands it the one the middleware has just drawn and the policy names.  On a page rendered ahead of any
  request, as the public pages are, the layout reads no nonce at all, and under the policy the middleware gives that page, as it does
  every page, such a script never runs.\<close>

theorem scripts_under_the_policy:
  "let r = middleware dev bs rq in \<exists>p. mr_response r ''content-security-policy'' = Some p \<and>
    layout_nonce (mr_request r) = Some (generateNonce bs) \<and> runs_script p (layout_nonce (mr_request r)) \<and>
    \<not> runs_script p (layout_nonce Map.empty)"
proof -
  let ?n = "generateNonce bs"
  have n: "CHR '';'' \<notin> set ?n" "CHR '' '' \<notin> set ?n" using nonce_char_plain btoa_chars unfolding generateNonce_def by blast+
  have "runs_script (csp dev ?n) (Some ?n)" "\<not> runs_script (csp dev ?n) None"
    unfolding runs_script_def csp_script_sources [OF n] by (simp_all add: policy_sources_def)
  then show ?thesis by (simp add: middleware_def layout_nonce_def Let_def)
qed

end
