(* ===== verification/Docs.thy ===== *)
theory Docs imports Errors begin

text \<open>
  The published documentation (web/lib/docs.ts): the manifest, lookup and neighbours, and the three
  text functions (anchor ids, removal of the title, collection of headings).  Reading a file is a
  parameter.
\<close>

section \<open>The manifest\<close>

record DocMeta =
  slug :: string
  doc_file :: string
  doc_title :: string
  doc_summary :: string

record DocSection =
  section_title :: string
  blurb :: string
  docs :: "DocMeta list"

definition DOC_SECTIONS :: "DocSection list" where
  "DOC_SECTIONS =
    [\<lparr>section_title = ''Start here'',
      blurb = ''What changes in your application, and the commands you will use.'',
      docs =
       [\<lparr>slug = ''using-warder'', doc_file = ''using-warder.md'',
         doc_title = ''Using Warder in your application'',
         doc_summary = ''What stays in your .env, where the two remaining variables come from, and how frontends fit.''\<rparr>,
        \<lparr>slug = ''developer-guide'', doc_file = ''developer-guide.md'',
         doc_title = ''Developer guide'',
         doc_summary = ''Every command you need, in the order you need them.''\<rparr>]\<rparr>,
     \<lparr>section_title = ''Security'',
      blurb = ''What is protected and what is not, so the claims on this site can be checked rather than taken.'',
      docs =
       [\<lparr>slug = ''security/threat-model'', doc_file = ''security/threat-model.md'',
         doc_title = ''Threat model'',
         doc_summary = ''What is protected, from whom, and how each defence is verified.''\<rparr>,
        \<lparr>slug = ''security/limitations'', doc_file = ''security/limitations.md'',
         doc_title = ''Limitations'',
         doc_summary = ''What Warder does not protect against, stated plainly.''\<rparr>,
        \<lparr>slug = ''security/audit'', doc_file = ''security/audit.md'',
         doc_title = ''Audit'',
         doc_summary = ''What is recorded, what is never recorded, and why.''\<rparr>]\<rparr>]"

definition ALL_DOCS :: "DocMeta list" where
  "ALL_DOCS = concat (map docs DOC_SECTIONS)"

definition findDoc :: "string \<Rightarrow> DocMeta option" where
  "findDoc s = find (\<lambda>d. slug d = s) ALL_DOCS"

text \<open>\<open>findIndex\<close>, with \<open>None\<close> for -1; an index outside an array reads as \<open>undefined\<close>.\<close>

fun findIndex :: "('a \<Rightarrow> bool) \<Rightarrow> 'a list \<Rightarrow> nat option" where
  "findIndex P [] = None"
| "findIndex P (x # xs) = (if P x then Some 0 else map_option Suc (findIndex P xs))"

definition at_index :: "'a list \<Rightarrow> int \<Rightarrow> 'a option" where
  "at_index xs i = (if 0 \<le> i \<and> i < int (length xs) then Some (xs ! nat i) else None)"

record neighbours =
  previous_doc :: "DocMeta option"
  next_doc :: "DocMeta option"

definition docNeighbours :: "string \<Rightarrow> neighbours" where
  "docNeighbours s = (case findIndex (\<lambda>d. slug d = s) ALL_DOCS of
     None \<Rightarrow> \<lparr>previous_doc = None, next_doc = None\<rparr>
   | Some i \<Rightarrow> \<lparr>previous_doc = at_index ALL_DOCS (int i - 1), next_doc = at_index ALL_DOCS (int i + 1)\<rparr>)"

section \<open>Text\<close>

text \<open>Lower case, letters (\<open>\p{L}\<close>) and numbers (\<open>\p{N}\<close>) over the code units below 256.\<close>

definition latin1_lower :: "char \<Rightarrow> char" where
  "latin1_lower c = (let n = of_char c :: nat in
     if (65 \<le> n \<and> n \<le> 90) \<or> (192 \<le> n \<and> n \<le> 222 \<and> n \<noteq> 215) then char_of (n + 32) else c)"

definition latin1_letter :: "char \<Rightarrow> bool" where
  "latin1_letter c = (let n = of_char c :: nat in
     (65 \<le> n \<and> n \<le> 90) \<or> (97 \<le> n \<and> n \<le> 122) \<or> n = 170 \<or> n = 181 \<or> n = 186 \<or>
     (192 \<le> n \<and> n \<noteq> 215 \<and> n \<noteq> 247))"

definition latin1_number :: "char \<Rightarrow> bool" where
  "latin1_number c = (let n = of_char c :: nat in
     (48 \<le> n \<and> n \<le> 57) \<or> n = 178 \<or> n = 179 \<or> n = 185 \<or> (188 \<le> n \<and> n \<le> 190))"

definition slug_keeps :: "char \<Rightarrow> bool" where
  "slug_keeps c = (latin1_letter c \<or> latin1_number c \<or> c = CHR ''_'' \<or> c = CHR '' '' \<or> c = CHR ''-'')"

text \<open>\<open>s.replace(/\s+/g, "-")\<close>: every maximal run of white space becomes one hyphen.\<close>

fun hyphenate :: "bool \<Rightarrow> string \<Rightarrow> string" where
  "hyphenate inside [] = []"
| "hyphenate inside (c # cs) =
     (if js_ws c then (if inside then hyphenate True cs else CHR ''-'' # hyphenate True cs)
      else c # hyphenate False cs)"

definition slugifyHeading :: "string \<Rightarrow> string" where
  "slugifyHeading s = hyphenate False (trim (filter slug_keeps (map latin1_lower s)))"

text \<open>Line ends, and \<open>(\r?\n)+\<close> matched greedily.\<close>

definition line_end :: "char \<Rightarrow> bool" where
  "line_end c = (c = newline \<or> c = creturn)"

fun drop_newlines :: "string \<Rightarrow> string" where
  "drop_newlines [] = []"
| "drop_newlines [c] = (if c = newline then [] else [c])"
| "drop_newlines (c # d # r) =
     (if c = newline then drop_newlines (d # r)
      else if c = creturn \<and> d = newline then drop_newlines r
      else c # d # r)"

definition starts_newline :: "string \<Rightarrow> bool" where
  "starts_newline s = (startsWith s [newline] \<or> startsWith s [creturn, newline])"

text \<open>
  \<open>/^#\s+.*(\r?\n)+/\<close>: the longest run of white space after the hash that lets the rest match, then the
  rest of that line, then all line ends.
\<close>

definition match_h1 :: "string \<Rightarrow> nat \<Rightarrow> string option" where
  "match_h1 s k = (let r = dropWhile (\<lambda>c. \<not> line_end c) (drop k s) in
     if starts_newline r then Some (drop_newlines r) else None)"

fun first_some :: "('a \<Rightarrow> 'b option) \<Rightarrow> 'a list \<Rightarrow> 'b option" where
  "first_some f [] = None"
| "first_some f (x # xs) = (case f x of None \<Rightarrow> first_some f xs | Some y \<Rightarrow> Some y)"

definition stripLeadingH1 :: "string \<Rightarrow> string" where
  "stripLeadingH1 markdown = (case markdown of
     [] \<Rightarrow> markdown
   | c # s \<Rightarrow>
       if c = CHR ''#'' then
         (case first_some (match_h1 s) (rev [1 ..< length (takeWhile js_ws s) + 1]) of
            None \<Rightarrow> markdown
          | Some r \<Rightarrow> r)
       else markdown)"

datatype level = Two | Three

record Heading =
  heading_id :: string
  heading_text :: string
  heading_level :: level

text \<open>\<open>/^\s*(```|~~~)/\<close>\<close>

definition fence_line :: "string \<Rightarrow> bool" where
  "fence_line l = (let s = trimStart l in
     startsWith s (replicate 3 (CHR 0x60)) \<or> startsWith s (replicate 3 (CHR ''~'')))"

text \<open>\<open>\s*#*\s*$\<close>\<close>

definition heading_tail :: "string \<Rightarrow> bool" where
  "heading_tail s = (dropWhile js_ws (dropWhile (\<lambda>c. c = CHR ''#'') (dropWhile js_ws s)) = [])"

text \<open>\<open>(.+?)\s*#*\s*$\<close>: the shortest non-empty text the tail allows.\<close>

definition heading_match :: "string \<Rightarrow> string option" where
  "heading_match s = first_some (\<lambda>n. if list_all (\<lambda>c. \<not> line_end c) (take n s) \<and> heading_tail (drop n s)
     then Some (take n s) else None) [1 ..< length s + 1]"

text \<open>\<open>/^(#{2,3})\s+(.+?)\s*#*\s*$/\<close>: the longest run of white space that lets the rest match.\<close>

definition heading_after :: "string \<Rightarrow> string option" where
  "heading_after s = first_some (\<lambda>k. heading_match (drop k s)) (rev [1 ..< length (takeWhile js_ws s) + 1])"

definition match_heading :: "string \<Rightarrow> (level \<times> string) option" where
  "match_heading l =
     (if startsWith l ''###'' \<and> heading_after (drop 3 l) \<noteq> None then map_option (Pair Three) (heading_after (drop 3 l))
      else if startsWith l ''##'' then map_option (Pair Two) (heading_after (drop 2 l))
      else None)"

definition strip_marks :: "string \<Rightarrow> string" where
  "strip_marks s = filter (\<lambda>c. c \<noteq> CHR 0x60 \<and> c \<noteq> CHR ''*'') s"

fun headings_loop :: "bool \<Rightarrow> string list \<Rightarrow> Heading list" where
  "headings_loop insideFence [] = []"
| "headings_loop insideFence (l # ls) =
     (if fence_line l then headings_loop (\<not> insideFence) ls
      else if insideFence then headings_loop insideFence ls
      else case match_heading l of
        None \<Rightarrow> headings_loop insideFence ls
      | Some (lv, raw) \<Rightarrow>
          \<lparr>heading_id = slugifyHeading (strip_marks raw), heading_text = strip_marks raw, heading_level = lv\<rparr>
          # headings_loop insideFence ls)"

definition extractHeadings :: "string \<Rightarrow> Heading list" where
  "extractHeadings markdown = headings_loop False (split_lines markdown)"

record LoadedDoc =
  ld_meta :: DocMeta
  ld_body :: string
  ld_headings :: "Heading list"

definition loadDoc :: "string \<Rightarrow> (string \<Rightarrow> string option) \<Rightarrow> string \<Rightarrow> exn + LoadedDoc option" where
  "loadDoc docs_root readFile s = (case findDoc s of
     None \<Rightarrow> Inr None
   | Some meta \<Rightarrow>
       (case readFile (docs_root @ ''/'' @ doc_file meta) of
          None \<Rightarrow> Inl (PlainError (''docs manifest names '' @ doc_file meta @ '', which could not be read from '' @ docs_root))
        | Some raw \<Rightarrow> Inr (Some \<lparr>ld_meta = meta, ld_body = stripLeadingH1 raw, ld_headings = extractHeadings raw\<rparr>)))"

section \<open>Lemmas\<close>

lemma all_docs_slugs:
  "map slug ALL_DOCS = [''using-warder'', ''developer-guide'', ''security/threat-model'', ''security/limitations'', ''security/audit'']"
  by (simp add: ALL_DOCS_def DOC_SECTIONS_def)

lemma all_docs_files: "d \<in> set ALL_DOCS \<Longrightarrow> doc_file d = slug d @ ''.md''"
  by (auto simp: ALL_DOCS_def DOC_SECTIONS_def)

lemma findIndex_Some:
  "findIndex P xs = Some i \<longleftrightarrow> i < length xs \<and> P (xs ! i) \<and> (\<forall>j < i. \<not> P (xs ! j))"
proof (induction xs arbitrary: i)
  case (Cons x xs)
  then show ?case
    by (cases i) (auto simp: less_Suc_eq_0_disj)
qed simp

lemma hyphenate_chars: "c \<in> set (hyphenate b s) \<Longrightarrow> c = CHR ''-'' \<or> c \<in> set s \<and> \<not> js_ws c"
  by (induction b s rule: hyphenate.induct) (auto split: if_splits)

lemma hyphenate_no_ws: "(\<And>c. c \<in> set s \<Longrightarrow> \<not> js_ws c) \<Longrightarrow> hyphenate b s = s"
  by (induction b s rule: hyphenate.induct) auto

lemma latin1_lower_idem [simp]: "latin1_lower (latin1_lower c) = latin1_lower c"
proof (cases "(65 \<le> (of_char c :: nat) \<and> of_char c \<le> (90 :: nat)) \<or> (192 \<le> (of_char c :: nat) \<and> of_char c \<le> (222 :: nat) \<and> of_char c \<noteq> (215 :: nat))")
  case True
  then have l: "latin1_lower c = char_of (of_char c + 32 :: nat)" by (simp add: latin1_lower_def Let_def)
  have "of_char c + 32 < (256 :: nat)" using True by linarith
  then have "of_char (latin1_lower c) = (of_char c + 32 :: nat)"
    unfolding l by (simp add: of_char_of)
  then show ?thesis using True unfolding latin1_lower_def [of "latin1_lower c"] Let_def by (auto simp: l)
next
  case False
  then have "latin1_lower c = c" by (auto simp: latin1_lower_def Let_def)
  then show ?thesis by simp
qed

lemma slug_char:
  assumes "c \<in> set (slugifyHeading s)"
  shows "slug_keeps c \<and> \<not> js_ws c \<and> latin1_lower c = c"
proof -
  have h: "slug_keeps CHR ''-''" "\<not> js_ws CHR ''-''" "latin1_lower CHR ''-'' = CHR ''-''" by code_simp+
  from hyphenate_chars assms have "c = CHR ''-'' \<or> c \<in> set (trim (filter slug_keeps (map latin1_lower s))) \<and> \<not> js_ws c"
    unfolding slugifyHeading_def by blast
  with h trim_subset show ?thesis by fastforce
qed

lemma findDoc_Some: "findDoc s = Some d \<Longrightarrow> d \<in> set ALL_DOCS \<and> slug d = s"
  by (auto simp: findDoc_def find_Some_iff)

lemma headings_append_plain:
  "list_all (\<lambda>l. \<not> fence_line l) a \<Longrightarrow> headings_loop b (a @ r) = headings_loop b a @ headings_loop b r"
  by (induction a) (auto split: option.splits)

lemma headings_inside: "list_all (\<lambda>l. \<not> fence_line l) a \<Longrightarrow> headings_loop True (a @ r) = headings_loop True r"
  by (induction a) auto

section \<open>Properties\<close>

text \<open>An anchor id is stable and clean: it holds only lower-case letters, numbers, underscores and
  hyphens, no white space, and computing the id of an id gives the id back.\<close>

theorem slugs_are_stable:
  "slugifyHeading (slugifyHeading s) = slugifyHeading s \<and>
   list_all (\<lambda>c. (latin1_letter c \<or> latin1_number c \<or> c = CHR ''_'' \<or> c = CHR ''-'') \<and> latin1_lower c = c) (slugifyHeading s)"
proof -
  let ?t = "slugifyHeading s"
  have k: "c \<in> set ?t \<Longrightarrow> slug_keeps c \<and> \<not> js_ws c \<and> latin1_lower c = c" for c by (rule slug_char)
  have l: "map latin1_lower ?t = ?t" using k by (intro map_idI) blast
  have f: "filter slug_keeps ?t = ?t" using k by (simp add: filter_id_conv)
  have t: "trim ?t = ?t" using k by (intro trim_no_ws) blast
  have h: "hyphenate False ?t = ?t" using k by (intro hyphenate_no_ws) blast
  have e: "slugifyHeading ?t = ?t" unfolding slugifyHeading_def [of ?t] l f t h ..
  have "list_all (\<lambda>c. (latin1_letter c \<or> latin1_number c \<or> c = CHR ''_'' \<or> c = CHR ''-'') \<and> latin1_lower c = c) ?t"
    unfolding list_all_iff
  proof
    fix c assume "c \<in> set ?t"
    from k [OF this] show "(latin1_letter c \<or> latin1_number c \<or> c = CHR ''_'' \<or> c = CHR ''-'') \<and> latin1_lower c = c"
      unfolding slug_keeps_def by (metis js_ws_simps(4))
  qed
  with e show ?thesis by blast
qed

text \<open>Only the manifest is published.  Whatever slug is asked for, what loading it returns depends on no
  file but the five of the manifest, each of them its slug with the ending \<open>.md\<close> below the docs root; a
  slug outside the manifest loads nothing, without reading anything.\<close>

theorem only_manifest_is_published:
  assumes "\<And>d. d \<in> set ALL_DOCS \<Longrightarrow> rd (docs_root @ ''/'' @ slug d @ ''.md'') = rd' (docs_root @ ''/'' @ slug d @ ''.md'')"
  shows "loadDoc docs_root rd s = loadDoc docs_root rd' s \<and>
    (s \<notin> set (map slug ALL_DOCS) \<longrightarrow> loadDoc docs_root rd s = Inr None) \<and> length ALL_DOCS = 5"
proof -
  have "findDoc s = Some d \<Longrightarrow> rd (docs_root @ ''/'' @ doc_file d) = rd' (docs_root @ ''/'' @ doc_file d)" for d
    using assms findDoc_Some all_docs_files by metis
  then have "loadDoc docs_root rd s = loadDoc docs_root rd' s"
    by (auto simp: loadDoc_def split: option.splits)
  moreover have "s \<notin> set (map slug ALL_DOCS) \<Longrightarrow> findDoc s = None"
    by (auto simp: findDoc_def find_None_iff)
  moreover have "length ALL_DOCS = 5" by (simp add: ALL_DOCS_def DOC_SECTIONS_def)
  ultimately show ?thesis by (simp add: loadDoc_def)
qed

theorem only_manifest_is_published_witness:
  "loadDoc ''docs'' (\<lambda>p. if p = ''docs/../CONTRIBUTING.md'' then Some ''x'' else None) ''../CONTRIBUTING'' = Inr None"
proof -
  have "''../CONTRIBUTING'' \<notin> set (map slug ALL_DOCS)" unfolding all_docs_slugs by simp
  then show ?thesis
    using only_manifest_is_published [of "\<lambda>p. if p = ''docs/../CONTRIBUTING.md'' then Some ''x'' else None" "''docs''"
        "\<lambda>p. if p = ''docs/../CONTRIBUTING.md'' then Some ''x'' else None" "''../CONTRIBUTING''"] by blast
qed

text \<open>The reading order is a chain: the document after one has that one before it and the reverse, the
  first has none before it, the last none after it, and an unknown slug has no neighbours.\<close>

theorem neighbours_are_inverse:
  assumes "a \<in> set ALL_DOCS" "b \<in> set ALL_DOCS"
  shows "next_doc (docNeighbours (slug a)) = Some b \<longleftrightarrow> previous_doc (docNeighbours (slug b)) = Some a"
proof -
  have n: "list_all (\<lambda>a. list_all (\<lambda>b. next_doc (docNeighbours (slug a)) = Some b \<longleftrightarrow>
      previous_doc (docNeighbours (slug b)) = Some a) ALL_DOCS) ALL_DOCS"
    by (simp add: docNeighbours_def ALL_DOCS_def DOC_SECTIONS_def at_index_def)
  then show ?thesis using assms by (simp add: list_all_iff)
qed

theorem neighbours_are_inverse_witness:
  "\<exists>a b. next_doc (docNeighbours (slug a)) = Some b \<and> previous_doc (docNeighbours (slug b)) = Some a"
proof -
  have m: "ALL_DOCS ! 0 \<in> set ALL_DOCS" "ALL_DOCS ! 1 \<in> set ALL_DOCS"
    by (simp_all add: ALL_DOCS_def DOC_SECTIONS_def)
  have "next_doc (docNeighbours (slug (ALL_DOCS ! 0))) = Some (ALL_DOCS ! 1)"
    by (simp add: docNeighbours_def ALL_DOCS_def DOC_SECTIONS_def at_index_def)
  with neighbours_are_inverse [OF m] show ?thesis by blast
qed

text \<open>Code is never mistaken for a heading: cutting a fenced block, markers and all, out of a document
  changes nothing about its headings, whatever lines the block holds.\<close>

theorem fenced_blocks_have_no_headings:
  assumes "fence_line f" "fence_line g" "list_all (\<lambda>l. \<not> fence_line l) before" "list_all (\<lambda>l. \<not> fence_line l) body"
  shows "headings_loop False (before @ f # body @ g # rest) = headings_loop False (before @ rest)"
  using assms by (simp add: headings_append_plain [where a = before] headings_inside)

theorem fenced_blocks_have_no_headings_witness:
  "headings_loop False ([''## Run it''] @ replicate 3 (CHR 0x60) # [''## not a heading''] @ replicate 3 (CHR 0x60) # []) =
     headings_loop False ([''## Run it''] @ [])"
proof -
  have "fence_line (replicate 3 (CHR 0x60))" "\<not> fence_line ''## Run it''" "\<not> fence_line ''## not a heading''" by code_simp+
  then show ?thesis
    using fenced_blocks_have_no_headings [of "replicate 3 (CHR 0x60)" "replicate 3 (CHR 0x60)" "[''## Run it'']"
        "[''## not a heading'']" "[]"] by simp
qed

end
