(* ===== verification/Ui.thy ===== *)
theory Ui imports Errors begin

text \<open>
  Browser components as state machines.  A component's handlers and the completions of what it awaits
  are its events; its rendering is a list of elements, and a person can only press or type into what is
  rendered and enabled.  The styling, layout and animation of a rendering are left out.
\<close>

section \<open>Rendering\<close>

text \<open>
  \<open>Press label event disabled\<close> is a button, link or menu item that fires \<open>event\<close>; \<open>Field name text\<close> is an
  input with its current text; \<open>Alert\<close> is a \<open>role="alert"\<close> paragraph.
\<close>

datatype 'e elem =
    Note string
  | Alert json
  | Field string string
  | Press string 'e bool

definition pressable :: "'e elem list \<Rightarrow> 'e \<Rightarrow> bool" where
  "pressable v e = (\<exists>l. Press l e False \<in> set v)"

definition editable :: "'e elem list \<Rightarrow> string \<Rightarrow> bool" where
  "editable v n = (\<exists>t. Field n t \<in> set v)"

text \<open>\<open>{error && <p role="alert">...}\<close>\<close>

definition alert_if :: "json \<Rightarrow> 'e elem list" where
  "alert_if e = (if truthy (Some e) then [Alert e] else [])"

lemma pressable_simps [simp]:
  "pressable [] e = False"
  "pressable (Press l d b # v) e = ((d = e \<and> \<not> b) \<or> pressable v e)"
  "pressable (Note t # v) e = pressable v e" "pressable (Alert j # v) e = pressable v e"
  "pressable (Field n t # v) e = pressable v e"
  "pressable (v @ w) e = (pressable v e \<or> pressable w e)"
  by (auto simp: pressable_def)

lemma editable_simps [simp]:
  "editable [] n = False"
  "editable (Press l d b # v) n = editable v n"
  "editable (Note t # v) n = editable v n" "editable (Alert j # v) n = editable v n"
  "editable (Field m t # v) n = (m = n \<or> editable v n)"
  "editable (v @ w) n = (editable v n \<or> editable w n)"
  by (auto simp: editable_def)

lemma alert_if_inert [simp]: "pressable (alert_if j) e = False" "editable (alert_if j) n = False"
  by (auto simp: alert_if_def)

text \<open>A component rendered inside another: its events are wrapped.\<close>

lemma pressable_map_elem:
  "pressable (map (map_elem f) v) e \<longleftrightarrow> (\<exists>d. e = f d \<and> pressable v d)"
proof -
  have "(Press l e False = map_elem f x) = (\<exists>d. e = f d \<and> x = Press l d False)" for l x by (cases x) auto
  then show ?thesis by (auto simp: pressable_def image_iff)
qed

lemma editable_map_elem [simp]: "editable (map (map_elem f) v) n = editable v n"
proof -
  have "(Field n t = map_elem f x) = (x = Field n t)" for t x by (cases x) auto
  then show ?thesis by (auto simp: editable_def image_iff)
qed

section \<open>What the server answered\<close>

text \<open>
  A \<open>fetch\<close> that settles: it rejects with a message, or yields a status and the body \<open>json()\<close> parses
  (\<open>None\<close> when it is not JSON).
\<close>

datatype reply = Unreachable string | Reply nat "json option"

definition reply_ok :: "nat \<Rightarrow> bool" where
  "reply_ok status = (200 \<le> status \<and> status < 300)"

definition payload_of :: "json option \<Rightarrow> json" where
  "payload_of b = (case b of Some j \<Rightarrow> j | None \<Rightarrow> JNull)"

text \<open>\<open>payload?.error?.message ?? fallback\<close>\<close>

definition error_message :: "json \<Rightarrow> string \<Rightarrow> json" where
  "error_message payload fallback =
     the (coalesce (optfield (optfield (Some payload) ''error'') ''message'') (Some (JStr fallback)))"

section \<open>Reachable states\<close>

inductive reachable :: "('s \<Rightarrow> bool) \<Rightarrow> ('s \<Rightarrow> 'e \<Rightarrow> bool) \<Rightarrow> ('s \<Rightarrow> 'e \<Rightarrow> 's) \<Rightarrow> 's \<Rightarrow> bool"
  for start :: "'s \<Rightarrow> bool" and offers :: "'s \<Rightarrow> 'e \<Rightarrow> bool" and step :: "'s \<Rightarrow> 'e \<Rightarrow> 's" where
  initial: "start s \<Longrightarrow> reachable start offers step s"
| event: "reachable start offers step s \<Longrightarrow> offers s e \<Longrightarrow> reachable start offers step (step s e)"

text \<open>A run of offered events, and that it stays among the reachable states.\<close>

fun legal :: "('s \<Rightarrow> 'e \<Rightarrow> bool) \<Rightarrow> ('s \<Rightarrow> 'e \<Rightarrow> 's) \<Rightarrow> 's \<Rightarrow> 'e list \<Rightarrow> bool" where
  "legal offers step s [] = True"
| "legal offers step s (e # es) = (offers s e \<and> legal offers step (step s e) es)"

lemma legal_reachable:
  "reachable start offers step s \<Longrightarrow> legal offers step s es \<Longrightarrow> reachable start offers step (foldl step s es)"
  by (induction es arbitrary: s) (auto intro: reachable.event)

text \<open>
  A component with an invariant: it holds at the start and every offered event keeps it, so it holds in
  every reachable state.
\<close>

locale component =
  fixes start :: "'s \<Rightarrow> bool" and offers :: "'s \<Rightarrow> 'e \<Rightarrow> bool" and step :: "'s \<Rightarrow> 'e \<Rightarrow> 's"
    and inv :: "'s \<Rightarrow> bool"
  assumes inv_start: "start s \<Longrightarrow> inv s"
    and inv_step: "inv s \<Longrightarrow> offers s e \<Longrightarrow> inv (step s e)"
begin

lemma always: "reachable start offers step s \<Longrightarrow> inv s"
  by (induction rule: reachable.induct) (auto intro: inv_start inv_step)

lemma runs: "reachable start offers step s \<Longrightarrow> offers s e \<Longrightarrow> inv (step s e)"
  by (simp add: always inv_step)

end

end
