(* ===== verification/LoginForm.thy ===== *)
theory LoginForm imports Ui Webauthn begin

text \<open>
  The sign-in form (web/components/login-form.tsx): the password step, the passkey or recovery-code
  step that follows it, and sign-in with a passkey alone.  An asynchronous handler is cut at its
  awaits: what it is waiting for is a flight in the state, and \<open>Settled\<close> resumes it.
\<close>

section \<open>Model\<close>

datatype flight =
    LoginReply
  | AssertBegin string
  | AssertPrompt string
  | AssertFinish
  | RecoveryReply
  | SigninBegin
  | SigninPrompt jsval
  | SigninFinish

text \<open>An await ends with a server reply, or with what the authenticator returned or threw.\<close>

datatype outcome = Answer reply | Prompted "thrown + json"

datatype login_event =
    Mounted bool
  | TypeEmail string
  | TypePassword string
  | TypeCode string
  | Submit
  | ConfirmWithPasskey
  | SubmitCode
  | StartOver
  | UsePasskey
  | UseCode
  | SignInWithPasskey
  | FollowForgot
  | Settled nat outcome

record login_state =
  email :: string
  password :: string
  lf_error :: json
  pending :: bool
  pendingToken :: "string option"
  usingCode :: bool
  recoveryCode :: string
  supported :: bool
  flights :: "flight list"
  lf_sent :: "(string \<times> json) list"
  signed_in :: nat

definition login_start :: "login_state \<Rightarrow> bool" where
  "login_start s = (s = \<lparr>email = [], password = [], lf_error = JNull, pending = False, pendingToken = None,
     usingCode = False, recoveryCode = [], supported = False, flights = [], lf_sent = [], signed_in = 0\<rparr>)"

text \<open>\<open>pendingToken &&\<close>: an empty token counts as none.\<close>

definition token_held :: "login_state \<Rightarrow> bool" where
  "token_held s = (case pendingToken s of Some (c # cs) \<Rightarrow> True | _ \<Rightarrow> False)"

definition signedIn :: "login_state \<Rightarrow> login_state" where
  "signedIn s = s\<lparr>signed_in := Suc (signed_in s)\<rparr>"

definition launch :: "flight \<Rightarrow> string \<Rightarrow> json \<Rightarrow> login_state \<Rightarrow> login_state" where
  "launch f path body s = s\<lparr>flights := flights s @ [f], lf_sent := lf_sent s @ [(path, body)]\<rparr>"

definition prompt :: "flight \<Rightarrow> login_state \<Rightarrow> login_state" where
  "prompt f s = s\<lparr>flights := flights s @ [f]\<rparr>"

definition begin_pending :: "login_state \<Rightarrow> login_state" where
  "begin_pending s = s\<lparr>lf_error := JNull, pending := True\<rparr>"

text \<open>\<open>post\<close> after its fetch: the payload, or the error it throws.\<close>

definition post_result :: "reply \<Rightarrow> thrown + json" where
  "post_result r = (case r of
     Unreachable m \<Rightarrow> Inl (ErrorValue m)
   | Reply status body \<Rightarrow>
       if reply_ok status then Inr (payload_of body)
       else Inl (ErrorValue (json_string (error_message (payload_of body) ''Sign-in failed.''))))"

definition outcome_result :: "outcome \<Rightarrow> thrown + json" where
  "outcome_result out = (case out of Answer r \<Rightarrow> post_result r | Prompted p \<Rightarrow> p)"

text \<open>The continuation of \<open>onSubmit\<close>, its \<open>finally\<close> included.\<close>

definition login_reply :: "outcome \<Rightarrow> login_state \<Rightarrow> login_state" where
  "login_reply out s =
     (case out of
        Answer (Reply status body) \<Rightarrow>
          let payload = payload_of body in
          if \<not> reply_ok status then s\<lparr>lf_error := error_message payload ''Sign-in failed.''\<rparr>
          else (case field payload ''pendingToken'' of
              Some (JStr t) \<Rightarrow> if truthy (field payload ''mfaRequired'') then s\<lparr>pendingToken := Some t\<rparr> else signedIn s
            | _ \<Rightarrow> signedIn s)
      | _ \<Rightarrow> s\<lparr>lf_error := JStr ''Could not reach the server.''\<rparr>)
     \<lparr>password := [], pending := False\<rparr>"

definition fail_passkey :: "thrown \<Rightarrow> login_state \<Rightarrow> login_state" where
  "fail_passkey e s = s\<lparr>lf_error := JStr (describePasskeyError e), pending := False\<rparr>"

definition finish_signed_in :: "login_state \<Rightarrow> login_state" where
  "finish_signed_in s = (signedIn s)\<lparr>pending := False\<rparr>"

fun resume :: "flight \<Rightarrow> outcome \<Rightarrow> login_state \<Rightarrow> login_state" where
  "resume LoginReply out s = login_reply out s"
| "resume (AssertBegin t) out s = (case outcome_result out of
     Inl e \<Rightarrow> fail_passkey e s
   | Inr options \<Rightarrow> prompt (AssertPrompt t) s)"
| "resume (AssertPrompt t) out s = (case outcome_result out of
     Inl e \<Rightarrow> fail_passkey e s
   | Inr credential \<Rightarrow> launch AssertFinish ''/api/auth/passkeys/assert/finish''
       (obj [(''pendingToken'', Some (JStr t)), (''credential'', Some credential)]) s)"
| "resume AssertFinish out s = (case outcome_result out of
     Inl e \<Rightarrow> fail_passkey e s
   | Inr x \<Rightarrow> finish_signed_in s)"
| "resume RecoveryReply out s =
     (case outcome_result out of
        Inl (ErrorValue m) \<Rightarrow> s\<lparr>lf_error := JStr m\<rparr>
      | Inl (DOMException n m) \<Rightarrow> s\<lparr>lf_error := JStr m\<rparr>
      | Inl OtherThrown \<Rightarrow> s\<lparr>lf_error := JStr ''Sign-in failed.''\<rparr>
      | Inr x \<Rightarrow> signedIn s)
     \<lparr>recoveryCode := [], pending := False\<rparr>"
| "resume SigninBegin out s = (case outcome_result out of
     Inl e \<Rightarrow> fail_passkey e s
   | Inr begun \<Rightarrow>
       if begun = JNull then fail_passkey (ErrorValue (exn_message TypeError)) s
       else prompt (SigninPrompt (field begun ''handle'')) s)"
| "resume (SigninPrompt handle) out s = (case outcome_result out of
     Inl e \<Rightarrow> fail_passkey e s
   | Inr credential \<Rightarrow> launch SigninFinish ''/api/auth/passkeys/signin/finish''
       (obj [(''handle'', handle), (''kind'', Some (JStr ''browser'')), (''credential'', Some credential)]) s)"
| "resume SigninFinish out s = (case outcome_result out of
     Inl e \<Rightarrow> fail_passkey e s
   | Inr x \<Rightarrow> finish_signed_in s)"

definition take_flight :: "nat \<Rightarrow> login_state \<Rightarrow> login_state" where
  "take_flight i s = s\<lparr>flights := take i (flights s) @ drop (Suc i) (flights s)\<rparr>"

definition startOver :: "login_state \<Rightarrow> login_state" where
  "startOver s = s\<lparr>pendingToken := None, usingCode := False, recoveryCode := [], lf_error := JNull\<rparr>"

fun login_step :: "login_state \<Rightarrow> login_event \<Rightarrow> login_state" where
  "login_step s (Mounted b) = s\<lparr>supported := b\<rparr>"
| "login_step s (TypeEmail t) = s\<lparr>email := t\<rparr>"
| "login_step s (TypePassword t) = s\<lparr>password := t\<rparr>"
| "login_step s (TypeCode t) = s\<lparr>recoveryCode := t\<rparr>"
| "login_step s Submit = launch LoginReply ''/api/auth/login''
     (obj [(''email'', Some (JStr (email s))), (''password'', Some (JStr (password s)))]) (begin_pending s)"
| "login_step s ConfirmWithPasskey =
     (if \<not> token_held s then s
      else launch (AssertBegin (the (pendingToken s))) ''/api/auth/passkeys/assert/begin''
        (obj [(''pendingToken'', map_option JStr (pendingToken s))]) (begin_pending s))"
| "login_step s SubmitCode =
     (if \<not> token_held s then s
      else launch RecoveryReply ''/api/auth/passkeys/assert/recovery''
        (obj [(''pendingToken'', map_option JStr (pendingToken s)), (''recoveryCode'', Some (JStr (recoveryCode s)))])
        (begin_pending s))"
| "login_step s StartOver = startOver s"
| "login_step s UsePasskey = s\<lparr>usingCode := False, lf_error := JNull\<rparr>"
| "login_step s UseCode = s\<lparr>usingCode := True, lf_error := JNull\<rparr>"
| "login_step s SignInWithPasskey = launch SigninBegin ''/api/auth/passkeys/signin/begin'' (obj []) (begin_pending s)"
| "login_step s FollowForgot = s"
| "login_step s (Settled i out) =
     (if i < length (flights s) then resume (flights s ! i) out (take_flight i s) else s)"

text \<open>The three renderings.\<close>

definition code_view :: "login_state \<Rightarrow> login_event elem list" where
  "code_view s =
     [Note ''Enter one of the recovery codes you saved. It works once, and you can issue a new set from Settings once you're in.'',
      Field ''recovery-code'' (recoveryCode s)] @
     alert_if (lf_error s) @
     [Press ''Continue'' SubmitCode (pending s),
      Press ''Back'' StartOver False,
      Press ''Use passkey instead'' UsePasskey False]"

definition passkey_view :: "login_state \<Rightarrow> login_event elem list" where
  "passkey_view s =
     [Note ''Your password was accepted. Confirm it's you with the passkey on this account.''] @
     alert_if (lf_error s) @
     [Press ''Use passkey'' ConfirmWithPasskey (pending s),
      Press ''Back'' StartOver False,
      Press ''Use a recovery code'' UseCode False]"

definition password_view :: "login_state \<Rightarrow> login_event elem list" where
  "password_view s =
     [Field ''email'' (email s), Field ''password'' (password s),
      Press ''Forgot password?'' FollowForgot False] @
     alert_if (lf_error s) @
     [Press ''Continue'' Submit (pending s)] @
     (if supported s then [Press ''Sign in with a passkey'' SignInWithPasskey (pending s)] else [])"

definition login_view :: "login_state \<Rightarrow> login_event elem list" where
  "login_view s = (if token_held s \<and> usingCode s then code_view s
     else if token_held s then passkey_view s else password_view s)"

text \<open>What can happen next: what the rendering offers, and any await settling.\<close>

fun login_offers :: "login_state \<Rightarrow> login_event \<Rightarrow> bool" where
  "login_offers s (Mounted b) = True"
| "login_offers s (TypeEmail t) = editable (login_view s) ''email''"
| "login_offers s (TypePassword t) = editable (login_view s) ''password''"
| "login_offers s (TypeCode t) = editable (login_view s) ''recovery-code''"
| "login_offers s (Settled i out) = (i < length (flights s))"
| "login_offers s e = pressable (login_view s) e"

section \<open>Lemmas\<close>

lemma state_sel [simp]:
  "flights (launch f p b s) = flights s @ [f]" "pending (launch f p b s) = pending s"
  "password (launch f p b s) = password s" "pendingToken (launch f p b s) = pendingToken s"
  "lf_sent (launch f p b s) = lf_sent s @ [(p, b)]" "signed_in (launch f p b s) = signed_in s"
  "flights (prompt f s) = flights s @ [f]" "pending (prompt f s) = pending s"
  "password (prompt f s) = password s" "pendingToken (prompt f s) = pendingToken s"
  "lf_sent (prompt f s) = lf_sent s" "signed_in (prompt f s) = signed_in s"
  "flights (begin_pending s) = flights s" "pending (begin_pending s)"
  "password (begin_pending s) = password s" "pendingToken (begin_pending s) = pendingToken s"
  "lf_sent (begin_pending s) = lf_sent s" "signed_in (begin_pending s) = signed_in s"
  "flights (take_flight i s) = take i (flights s) @ drop (Suc i) (flights s)"
  "pending (take_flight i s) = pending s" "password (take_flight i s) = password s"
  "pendingToken (take_flight i s) = pendingToken s" "lf_sent (take_flight i s) = lf_sent s"
  "signed_in (take_flight i s) = signed_in s"
  by (simp_all add: launch_def prompt_def begin_pending_def take_flight_def)

lemma finish_sel [simp]:
  "flights (finish_signed_in s) = flights s" "\<not> pending (finish_signed_in s)"
  "password (finish_signed_in s) = password s" "pendingToken (finish_signed_in s) = pendingToken s"
  "lf_sent (finish_signed_in s) = lf_sent s" "signed_in (finish_signed_in s) = Suc (signed_in s)"
  "flights (fail_passkey e s) = flights s" "\<not> pending (fail_passkey e s)"
  "password (fail_passkey e s) = password s" "pendingToken (fail_passkey e s) = pendingToken s"
  "lf_sent (fail_passkey e s) = lf_sent s" "signed_in (fail_passkey e s) = signed_in s"
  by (simp_all add: finish_signed_in_def fail_passkey_def signedIn_def)

lemma login_reply_sel [simp]:
  "flights (login_reply out s) = flights s" "\<not> pending (login_reply out s)"
  "password (login_reply out s) = []" "lf_sent (login_reply out s) = lf_sent s"
  by (simp_all add: login_reply_def signedIn_def Let_def split: outcome.splits reply.splits option.splits json.splits)

lemma token_held_cong: "pendingToken s = pendingToken s' \<Longrightarrow> token_held s = token_held s'"
  by (simp add: token_held_def)

lemma password_view_offers [simp]:
  "editable (password_view s) n \<longleftrightarrow> n = ''email'' \<or> n = ''password''"
  "pressable (password_view s) e \<longleftrightarrow> e = FollowForgot \<or> e = Submit \<and> \<not> pending s \<or>
     e = SignInWithPasskey \<and> supported s \<and> \<not> pending s"
  by (auto simp: password_view_def)

lemma passkey_view_offers [simp]:
  "\<not> editable (passkey_view s) n"
  "pressable (passkey_view s) e \<longleftrightarrow> e = ConfirmWithPasskey \<and> \<not> pending s \<or> e = StartOver \<or> e = UseCode"
  by (auto simp: passkey_view_def)

lemma code_view_offers [simp]:
  "editable (code_view s) n \<longleftrightarrow> n = ''recovery-code''"
  "pressable (code_view s) e \<longleftrightarrow> e = SubmitCode \<and> \<not> pending s \<or> e = StartOver \<or> e = UsePasskey"
  by (auto simp: code_view_def)

lemma login_view_offers:
  "editable (login_view s) n \<longleftrightarrow> (if token_held s then usingCode s \<and> n = ''recovery-code'' else n = ''email'' \<or> n = ''password'')"
  "pressable (login_view s) e \<longleftrightarrow>
     (if \<not> token_held s then e = FollowForgot \<or> e = Submit \<and> \<not> pending s \<or> e = SignInWithPasskey \<and> supported s \<and> \<not> pending s
      else if usingCode s then e = SubmitCode \<and> \<not> pending s \<or> e = StartOver \<or> e = UsePasskey
      else e = ConfirmWithPasskey \<and> \<not> pending s \<or> e = StartOver \<or> e = UseCode)"
  by (auto simp: login_view_def)

definition password_confined :: "(string \<times> json) list \<Rightarrow> bool" where
  "password_confined sent = (\<forall>(p, b) \<in> set sent. field b ''password'' \<noteq> None \<longrightarrow> p = ''/api/auth/login'')"

definition login_inv :: "login_state \<Rightarrow> bool" where
  "login_inv s = (length (flights s) = (if pending s then 1 else 0) \<and> (token_held s \<longrightarrow> password s = []) \<and>
     password_confined (lf_sent s))"

lemma password_confined_snoc:
  "password_confined (ps @ [(p, b)]) \<longleftrightarrow> password_confined ps \<and> (field b ''password'' \<noteq> None \<longrightarrow> p = ''/api/auth/login'')"
  by (auto simp: password_confined_def)

lemma no_password_field:
  "''password'' \<notin> fst ` set fs \<Longrightarrow> field (obj fs) ''password'' = None"
  by (auto simp: obj_def map_of_eq_None_iff List.map_filter_def split: option.splits) force

lemma resume_inv:
  assumes "flights s = []" "token_held s \<longrightarrow> password s = []" "password_confined (lf_sent s)" "pending s"
  shows "login_inv (resume f out s)"
  using assms
  by (cases f) (auto simp: login_inv_def password_confined_snoc no_password_field token_held_def signedIn_def
      split: sum.splits thrown.splits)

lemma login_inv_step:
  assumes "login_inv s" "login_offers s e"
  shows "login_inv (login_step s e)"
proof (cases e)
  case (Settled i out)
  have "i < length (flights s)" using assms(2) Settled by simp
  then have f: "flights (take_flight i s) = []" "pending s" "i = 0"
    using assms(1) by (auto simp: login_inv_def split: if_splits)
  have "login_inv (resume (flights s ! i) out (take_flight i s))"
    using assms(1) f(1,2) token_held_cong [of "take_flight i s" s] by (intro resume_inv) (simp_all add: login_inv_def)
  then show ?thesis using Settled \<open>i < length (flights s)\<close> by simp
qed (use assms in \<open>auto simp: login_inv_def login_view_offers password_confined_snoc no_password_field token_held_def
       startOver_def split: if_splits\<close>)

interpretation login: component login_start login_offers login_step login_inv
proof unfold_locales
  show "login_start s \<Longrightarrow> login_inv s" for s
    by (auto simp: login_start_def login_inv_def token_held_def password_confined_def)
qed (rule login_inv_step)

lemma resume_signed_in:
  assumes "signed_in (resume f out s) \<noteq> signed_in s"
  shows "f \<in> {LoginReply, AssertFinish, RecoveryReply, SigninFinish} \<and>
    ((\<exists>c. out = Prompted (Inr c)) \<or> (\<exists>n b. out = Answer (Reply n b) \<and> reply_ok n))"
  using assms
  by (cases f) (auto simp: signedIn_def login_reply_def outcome_result_def post_result_def Let_def
      split: sum.splits thrown.splits outcome.splits reply.splits option.splits json.splits if_splits)

section \<open>Properties\<close>

text \<open>C8: The sign-in form runs one ceremony at a time and does not keep the password.  In every reachable
  state at most one request or prompt is outstanding, exactly while the form shows itself as pending; the
  password is empty whenever a pending token is held, and empty after any answer to a password sign-in,
  success, refusal or network failure; and no request to any other path ever carried a password.\<close>

theorem login_form_safe:
  assumes "reachable login_start login_offers login_step s"
  shows "length (flights s) = (if pending s then 1 else 0) \<and> (token_held s \<longrightarrow> password s = []) \<and>
    (\<forall>i out. i < length (flights s) \<and> flights s ! i = LoginReply \<longrightarrow> password (login_step s (Settled i out)) = []) \<and>
    (\<forall>(p, b) \<in> set (lf_sent s). field b ''password'' \<noteq> None \<longrightarrow> p = ''/api/auth/login'')"
  using login.always [OF assms] by (simp add: login_inv_def password_confined_def)

definition login_demo :: login_state where
  "login_demo = login_step (login_step (login_step
     \<lparr>email = [], password = [], lf_error = JNull, pending = False, pendingToken = None,
       usingCode = False, recoveryCode = [], supported = False, flights = [], lf_sent = [], signed_in = 0\<rparr>
     (TypePassword ''hunter2'')) Submit) (Settled 0 (Answer (Reply 200 (Some (JObj [(''mfaRequired'', JBool True), (''pendingToken'', JStr ''p3nd'')])))))"

lemma login_demo_reachable: "reachable login_start login_offers login_step login_demo"
  unfolding login_demo_def
  by (intro reachable.event reachable.initial)
    (simp_all add: login_start_def login_view_offers token_held_def)

theorem login_form_safe_witness: "token_held login_demo \<and> password login_demo = []"
proof -
  have "token_held login_demo"
    by (simp add: login_demo_def token_held_def login_reply_def reply_ok_def payload_of_def Let_def)
  with login_form_safe [OF login_demo_reachable] show ?thesis by blast
qed

text \<open>The form leaves for the dashboard only on a successful answer: a step that navigates is the
  completion of one of the four final exchanges, and a server reply among them had a status from 200
  to 299.  No key press, click, prompt or failure navigates.\<close>

theorem login_navigates_only_on_success:
  assumes "reachable login_start login_offers login_step s" "login_offers s e"
    and "signed_in (login_step s e) \<noteq> signed_in s"
  shows "\<exists>i f out. e = Settled i out \<and> i < length (flights s) \<and> flights s ! i = f \<and>
    f \<in> {LoginReply, AssertFinish, RecoveryReply, SigninFinish} \<and>
    ((\<exists>c. out = Prompted (Inr c)) \<or> (\<exists>n b. out = Answer (Reply n b) \<and> reply_ok n))"
proof (cases e)
  case (Settled i out)
  with assms(2,3) resume_signed_in [of "flights s ! i" out "take_flight i s"] show ?thesis by auto
qed (use assms(3) in \<open>auto simp: startOver_def split: if_splits\<close>)

theorem login_navigates_only_on_success_witness:
  "\<exists>s e. signed_in (login_step s e) = Suc (signed_in s)"
proof -
  let ?s = "login_step (login_step (login_step login_demo UseCode) (TypeCode ''aaaa'')) SubmitCode"
  let ?e = "Settled 0 (Answer (Reply 200 None))"
  have d: "pendingToken login_demo = Some ''p3nd''" "\<not> pending login_demo" "flights login_demo = []" "\<not> usingCode login_demo"
    by (simp_all add: login_demo_def token_held_def login_reply_def reply_ok_def payload_of_def Let_def take_flight_def launch_def begin_pending_def)
  have r: "reachable login_start login_offers login_step ?s"
    by (intro reachable.event login_demo_reachable) (simp_all add: login_view_offers token_held_def d)
  have o: "login_offers ?s ?e" and c: "signed_in (login_step ?s ?e) \<noteq> signed_in ?s"
    by (simp_all add: token_held_def d outcome_result_def post_result_def reply_ok_def signedIn_def take_flight_def)
  from login_navigates_only_on_success [OF r o c] c show ?thesis
    by (intro exI [of _ ?s] exI [of _ ?e])
      (simp add: token_held_def d outcome_result_def post_result_def reply_ok_def signedIn_def take_flight_def)
qed

end
