(* ===== verification/ClientApi.thy ===== *)
theory ClientApi imports Ui Webauthn begin

text \<open>
  The browser's way to the server (web/lib/client-api.ts): reading the CSRF cookie, the request
  \<open>apiFetch\<close> makes and what it makes of the answer.  The second half is the vocabulary of the
  components that call it: requests in flight, effects on the world outside, and the contract of a
  form that has one request in flight at a time.
\<close>

section \<open>Model\<close>

text \<open>
  What a handler can catch: an \<open>ApiError\<close> with status, code, message and details, or anything else.
\<close>

datatype failure = ApiError nat json string jsval | Thrown thrown

record api_call =
  ac_path :: string
  ac_method :: string
  ac_body :: jsval

record browser_request =
  br_path :: string
  br_method :: string
  br_headers :: "string \<rightharpoonup> string"
  br_body :: jsval

definition csrf_prefix :: string where "csrf_prefix = ''warder_csrf=''"
definition csrf_header :: string where "csrf_header = ''x-csrf-token''"

text \<open>\<open>document.cookie.match(/(?:^|; )warder_csrf=([^;]*)/)\<close>: the leftmost match, its capture.\<close>

fun match_later :: "string \<Rightarrow> string option" where
  "match_later [] = None"
| "match_later (c # cs) =
     (if startsWith (c # cs) ('';'' @ '' '' @ csrf_prefix)
      then Some (takeWhile (\<lambda>d. d \<noteq> CHR '';'') (drop (2 + length csrf_prefix) (c # cs)))
      else match_later cs)"

definition match_csrf :: "string \<Rightarrow> string option" where
  "match_csrf cookie = (if startsWith cookie csrf_prefix
     then Some (takeWhile (\<lambda>d. d \<noteq> CHR '';'') (drop (length csrf_prefix) cookie)) else match_later cookie)"

text \<open>\<open>de\<close> is \<open>decodeURIComponent\<close>, \<open>None\<close> where it throws.\<close>

definition readCsrfToken :: "(string \<Rightarrow> string option) \<Rightarrow> string \<Rightarrow> failure + string" where
  "readCsrfToken de cookie = (case match_csrf cookie of
     Some (c # cs) \<Rightarrow> (case de (c # cs) of Some t \<Rightarrow> Inr t | None \<Rightarrow> Inl (Thrown (ErrorValue (exn_message URIError))))
   | _ \<Rightarrow> Inr [])"

definition api_headers :: "(string \<Rightarrow> string option) \<Rightarrow> string \<Rightarrow> api_call \<Rightarrow> failure + (string \<rightharpoonup> string)" where
  "api_headers de cookie c =
     (let accept = [''Accept'' \<mapsto> ''application/json''];
          typed = (\<lambda>h. if ac_body c = None then h else h(''Content-Type'' \<mapsto> ''application/json''))
      in if ac_method c \<noteq> ''GET'' \<and> ac_method c \<noteq> ''HEAD''
         then then_ok (readCsrfToken de cookie) (\<lambda>t. Inr (typed (accept(csrf_header \<mapsto> t))))
         else Inr (typed accept))"

definition apiRequest :: "(string \<Rightarrow> string option) \<Rightarrow> string \<Rightarrow> api_call \<Rightarrow> failure + browser_request" where
  "apiRequest de cookie c = then_ok (api_headers de cookie c) (\<lambda>h.
     Inr \<lparr>br_path = ac_path c, br_method = ac_method c, br_headers = h, br_body = ac_body c\<rparr>)"

text \<open>The rest of \<open>apiFetch\<close>, once \<open>fetch\<close> has settled.\<close>

definition api_error :: "nat \<Rightarrow> json \<Rightarrow> failure" where
  "api_error status payload =
     (let error = optfield (Some payload) ''error'' in
      ApiError status
        (the (coalesce (optfield error ''code'') (Some (JStr ''request_failed''))))
        (json_string (the (coalesce (optfield error ''message'') (Some (JStr ''The request could not be completed.'')))))
        (optfield error ''details''))"

definition apiResult :: "reply \<Rightarrow> failure + json" where
  "apiResult r = (case r of
     Unreachable m \<Rightarrow> Inl (Thrown (ErrorValue m))
   | Reply status body \<Rightarrow>
       if status = 401 then Inl (ApiError 401 (JStr ''unauthorized'') ''Your session has ended.'' None)
       else
         let payload = (if status = 204 then JNull else payload_of body) in
         if \<not> reply_ok status then Inl (api_error status payload) else Inr payload)"

text \<open>\<open>window.location.href = "/login"\<close> on a 401, and nothing else.\<close>

definition ends_session :: "reply \<Rightarrow> bool" where
  "ends_session r = (case r of Reply status body \<Rightarrow> status = 401 | Unreachable m \<Rightarrow> False)"

text \<open>\<open>caught instanceof Error ? caught.message : fallback\<close>\<close>

definition failure_message :: "string \<Rightarrow> failure \<Rightarrow> string" where
  "failure_message fallback e = (case e of
     ApiError s c m d \<Rightarrow> m
   | Thrown (ErrorValue m) \<Rightarrow> m
   | Thrown (DOMException n m) \<Rightarrow> m
   | Thrown OtherThrown \<Rightarrow> fallback)"

text \<open>\<open>caught instanceof ApiError && caught.details\<close>\<close>

definition failure_details :: "failure \<Rightarrow> jsval" where
  "failure_details e = (case e of
     ApiError s c m d \<Rightarrow> if truthy d then d else None
   | Thrown t \<Rightarrow> None)"

text \<open>\<open>result.k\<close> on a parsed body, which throws when the body was \<open>null\<close>.\<close>

definition result_field :: "json \<Rightarrow> string \<Rightarrow> failure + jsval" where
  "result_field j k = (if j = JNull then Inl (Thrown (ErrorValue (exn_message TypeError))) else Inr (field j k))"

section \<open>Components that call the server\<close>

text \<open>
  What a handler does outside its component, in order: calls of \<open>apiFetch\<close>, toasts, router refreshes and
  navigation, full page loads, clipboard writes, callbacks the parent passed in, files offered for download,
  and \<open>history.replaceState\<close> to the bare path, which takes the fragment out of the address bar.
\<close>

datatype effect =
    Calls api_call
  | Toasts string
  | ToastsError string
  | Refreshes
  | Visits string
  | Loads string
  | Copies string
  | Tells string jsval
  | Saves string string
  | ClearsFragment

text \<open>A request in flight holds what its handler had captured when it started.\<close>

record 'f form =
  flights :: "'f list"
  effects :: "effect list"
  pending :: bool
  problem :: "string option"

definition emit :: "effect \<Rightarrow> ('f, 'a) form_scheme \<Rightarrow> ('f, 'a) form_scheme" where
  "emit x s = s\<lparr>effects := effects s @ [x]\<rparr>"

definition call_api :: "'f \<Rightarrow> api_call \<Rightarrow> ('f, 'a) form_scheme \<Rightarrow> ('f, 'a) form_scheme" where
  "call_api f c s = s\<lparr>flights := flights s @ [f], effects := effects s @ [Calls c]\<rparr>"

text \<open>The flight \<open>i\<close> has settled; on a 401 the browser is sent to the sign-in page.\<close>

definition arrive :: "nat \<Rightarrow> reply \<Rightarrow> ('f, 'a) form_scheme \<Rightarrow> ('f, 'a) form_scheme" where
  "arrive i r s = s\<lparr>flights := take i (flights s) @ drop (Suc i) (flights s),
     effects := effects s @ (if ends_session r then [Loads ''/login''] else [])\<rparr>"

text \<open>\<open>setPending(true); setError(null)\<close> and \<open>setError(message)\<close>\<close>

definition start_pending :: "('f, 'a) form_scheme \<Rightarrow> ('f, 'a) form_scheme" where
  "start_pending s = s\<lparr>pending := True, problem := None\<rparr>"

definition fail_with :: "string \<Rightarrow> failure \<Rightarrow> ('f, 'a) form_scheme \<Rightarrow> ('f, 'a) form_scheme" where
  "fail_with fallback e s = s\<lparr>problem := Some (failure_message fallback e)\<rparr>"

text \<open>\<open>{error && <p role="alert">{error}</p>}\<close>\<close>

definition problem_note :: "('f, 'a) form_scheme \<Rightarrow> 'e elem list" where
  "problem_note s = (case problem s of Some (c # cs) \<Rightarrow> [Alert (JStr (c # cs))] | _ \<Rightarrow> [])"

definition post_call :: "string \<Rightarrow> json \<Rightarrow> api_call" where
  "post_call p b = \<lparr>ac_path = p, ac_method = ''POST'', ac_body = Some b\<rparr>"

text \<open>
  The requests a component has made, and the JSON values below a value, so that "appears nowhere in a
  request" can be said.
\<close>

definition calls :: "effect list \<Rightarrow> api_call list" where
  "calls xs = List.map_filter (\<lambda>x. case x of Calls c \<Rightarrow> Some c | _ \<Rightarrow> None) xs"

text \<open>One request at a time, exactly while the form shows itself as pending.\<close>

definition one_flight :: "('f, 'a) form_scheme \<Rightarrow> bool" where
  "one_flight s = (length (flights s) = (if pending s then 1 else 0))"

text \<open>The text of \<open>document.cookie\<close>: the readable cookies, name and value, in the jar's order.\<close>

definition cookie_pair :: "string \<times> string \<Rightarrow> string" where
  "cookie_pair nv = fst nv @ ''='' @ snd nv"

definition document_cookie :: "(string \<times> string) list \<Rightarrow> string" where
  "document_cookie nvs = join ''; '' (map cookie_pair nvs)"

definition plain_cookie :: "string \<times> string \<Rightarrow> bool" where
  "plain_cookie nv = (CHR '';'' \<notin> set (fst nv) \<and> CHR ''='' \<notin> set (fst nv) \<and> CHR '';'' \<notin> set (snd nv))"

section \<open>Lemmas\<close>

lemma match_later_skip: "CHR '';'' \<notin> set p \<Longrightarrow> match_later (p @ q) = match_later q"
  by (induction p) (auto simp: startsWith_def)

lemma match_later_none: "CHR '';'' \<notin> set p \<Longrightarrow> match_later p = None"
  using match_later_skip [of p "[]"] by simp

lemma takeWhile_sep: "c \<notin> set p \<Longrightarrow> takeWhile (\<lambda>d. d \<noteq> c) (p @ c # q) = p"
  by (induction p) auto

lemma csrf_prefix_here:
  assumes "CHR ''='' \<notin> set n"
  shows "startsWith (n @ CHR ''='' # v) csrf_prefix \<longleftrightarrow> n = ''warder_csrf''"
proof
  assume "startsWith (n @ CHR ''='' # v) csrf_prefix"
  then obtain r where "n @ CHR ''='' # v = ''warder_csrf'' @ CHR ''='' # r"
    by (auto simp: startsWith_iff csrf_prefix_def)
  from arg_cong [OF this, of "takeWhile (\<lambda>d. d \<noteq> CHR ''='')"] show "n = ''warder_csrf''"
    using assms by (simp add: takeWhile_sep)
qed (simp add: startsWith_def csrf_prefix_def)

lemma document_cookie_Cons:
  "document_cookie (nv # nvs) = cookie_pair nv @ (if nvs = [] then [] else CHR '';'' # CHR '' '' # document_cookie nvs)"
  by (cases nvs) (simp_all add: document_cookie_def)

lemma value_until_sep:
  "CHR '';'' \<notin> set v \<Longrightarrow> takeWhile (\<lambda>d. d \<noteq> CHR '';'') (v @ (if b then [] else CHR '';'' # x)) = v"
  by (cases b) (auto simp: takeWhile_sep takeWhile_eq_all_conv)

lemma match_later_cookies:
  assumes "list_all plain_cookie nvs" "nvs \<noteq> []"
  shows "match_later (CHR '';'' # CHR '' '' # document_cookie nvs) = map_of nvs ''warder_csrf''"
  using assms
proof (induction nvs)
  case (Cons nv nvs)
  obtain n v where nv: "nv = (n, v)" by (cases nv)
  have free: "CHR '';'' \<notin> set n" "CHR ''='' \<notin> set n" "CHR '';'' \<notin> set v"
    using Cons.prems nv by (auto simp: plain_cookie_def)
  let ?rest = "if nvs = [] then [] else CHR '';'' # CHR '' '' # document_cookie nvs"
  have shape: "document_cookie (nv # nvs) = n @ CHR ''='' # v @ ?rest"
    by (simp add: document_cookie_Cons cookie_pair_def nv)
  have rest: "match_later ?rest = map_of nvs ''warder_csrf''"
    using Cons by (cases nvs) auto
  show ?case
  proof (cases "n = ''warder_csrf''")
    case True
    then have "startsWith (CHR '';'' # CHR '' '' # n @ CHR ''='' # v @ ?rest) ('';'' @ '' '' @ csrf_prefix)"
      by (simp add: startsWith_def csrf_prefix_def)
    then show ?thesis using True value_until_sep [OF free(3), of "nvs = []"]
      unfolding shape by (simp add: nv csrf_prefix_def)
  next
    case False
    then have "\<not> startsWith (CHR '';'' # CHR '' '' # n @ CHR ''='' # v @ ?rest) ('';'' @ '' '' @ csrf_prefix)"
      using csrf_prefix_here [OF free(2)] by (simp add: startsWith_def csrf_prefix_def)
    moreover have "match_later (n @ CHR ''='' # v @ ?rest) = match_later ?rest"
      using match_later_skip [of "n @ CHR ''='' # v" ?rest] free by simp
    ultimately show ?thesis
      using False rest match_later_skip [of "[CHR '' '']" "n @ CHR ''='' # v @ ?rest"]
      unfolding shape by (simp add: nv)
  qed
qed simp

lemma match_csrf_cookies:
  assumes "list_all plain_cookie nvs"
  shows "match_csrf (document_cookie nvs) = map_of nvs ''warder_csrf''"
proof (cases nvs)
  case Nil
  then show ?thesis by (simp add: match_csrf_def document_cookie_def startsWith_def csrf_prefix_def)
next
  case (Cons nv rest)
  obtain n v where nv: "nv = (n, v)" by (cases nv)
  have free: "CHR '';'' \<notin> set n" "CHR ''='' \<notin> set n" "CHR '';'' \<notin> set v"
    using assms Cons nv by (auto simp: plain_cookie_def)
  let ?rest = "if rest = [] then [] else CHR '';'' # CHR '' '' # document_cookie rest"
  have shape: "document_cookie nvs = n @ CHR ''='' # v @ ?rest"
    by (simp add: Cons document_cookie_Cons cookie_pair_def nv)
  show ?thesis
  proof (cases "n = ''warder_csrf''")
    case True
    then show ?thesis using csrf_prefix_here [OF free(2)] value_until_sep [OF free(3), of "rest = []"]
      unfolding match_csrf_def shape by (simp add: Cons nv csrf_prefix_def)
  next
    case False
    have "match_later (n @ CHR ''='' # v @ ?rest) = match_later ?rest"
      using match_later_skip [of "n @ CHR ''='' # v" ?rest] free by simp
    moreover have "match_later ?rest = map_of rest ''warder_csrf''"
      using match_later_cookies [of rest] assms Cons by (cases rest) auto
    ultimately show ?thesis
      using False csrf_prefix_here [OF free(2)] unfolding match_csrf_def shape by (simp add: Cons nv)
  qed
qed

lemma apiResult_ok: "apiResult (Reply st b) = Inr j \<Longrightarrow> reply_ok st \<and> st \<noteq> 401"
  by (auto simp: apiResult_def Let_def split: if_splits)

lemma apiResult_Inr:
  "apiResult r = Inr j \<longleftrightarrow> (\<exists>st b. r = Reply st b \<and> reply_ok st \<and> j = (if st = 204 then JNull else payload_of b))"
  by (auto simp: apiResult_def reply_ok_def Let_def split: reply.splits if_splits)

lemma ends_session_result: "ends_session r \<Longrightarrow> \<exists>m. apiResult r = Inl (ApiError 401 (JStr ''unauthorized'') m None)"
  by (auto simp: ends_session_def apiResult_def split: reply.splits)

lemmas form_defs = emit_def call_api_def arrive_def start_pending_def fail_with_def

lemma form_sel [simp]:
  "flights (emit x s) = flights s" "pending (emit x s) = pending s" "problem (emit x s) = problem s"
  "effects (emit x s) = effects s @ [x]" "form.more (emit x s) = form.more s"
  "flights (call_api f c s) = flights s @ [f]" "pending (call_api f c s) = pending s"
  "problem (call_api f c s) = problem s" "effects (call_api f c s) = effects s @ [Calls c]"
  "form.more (call_api f c s) = form.more s"
  "flights (arrive i r s) = take i (flights s) @ drop (Suc i) (flights s)" "pending (arrive i r s) = pending s"
  "problem (arrive i r s) = problem s" "form.more (arrive i r s) = form.more s"
  "effects (arrive i r s) = effects s @ (if ends_session r then [Loads ''/login''] else [])"
  "flights (start_pending s) = flights s" "pending (start_pending s)" "problem (start_pending s) = None"
  "effects (start_pending s) = effects s" "form.more (start_pending s) = form.more s"
  "flights (fail_with b e s) = flights s" "pending (fail_with b e s) = pending s"
  "effects (fail_with b e s) = effects s" "form.more (fail_with b e s) = form.more s"
  "problem (fail_with b e s) = Some (failure_message b e)"
  by (simp_all add: form_defs)

lemma calls_simps [simp]:
  "calls [] = []" "calls (xs @ ys) = calls xs @ calls ys" "calls (Calls c # xs) = c # calls xs"
  "calls (Toasts m # xs) = calls xs" "calls (ToastsError m # xs) = calls xs" "calls (Refreshes # xs) = calls xs"
  "calls (Visits p # xs) = calls xs" "calls (Loads p # xs) = calls xs" "calls (Copies t # xs) = calls xs"
  "calls (Tells n v # xs) = calls xs" "calls (Saves f t # xs) = calls xs" "calls (ClearsFragment # xs) = calls xs"
  "calls (if b then [Loads p] else []) = []"
  by (simp_all add: calls_def List.map_filter_def)

text \<open>\<open>setFieldErrors(caught.details)\<close>, and the message of a field below its input.\<close>

definition field_note :: "json \<Rightarrow> string \<Rightarrow> 'e elem list" where
  "field_note fs n = (case field fs n of Some j \<Rightarrow> if truthy (Some j) then [Alert j] else [] | None \<Rightarrow> [])"

lemma field_note_inert [simp]: "pressable (field_note fs n) e = False" "editable (field_note fs n) m = False"
  by (auto simp: field_note_def split: option.splits)

lemma problem_note_inert [simp]: "pressable (problem_note s) e = False" "editable (problem_note s) n = False"
  by (auto simp: problem_note_def split: option.splits list.splits)

lemma one_flight_unfold:
  "one_flight s \<longleftrightarrow> (if pending s then length (flights s) = 1 else flights s = [])"
  by (auto simp: one_flight_def)

text \<open>The only flight there can be is number 0, and when it has landed none is left.\<close>

lemma one_flight_lands:
  "one_flight s \<Longrightarrow> i < length (flights s) \<Longrightarrow> i = 0 \<and> pending s \<and> flights (arrive i r s) = []"
  by (auto simp: one_flight_def split: if_splits)

lemma one_flight_cong:
  "flights t = flights s \<Longrightarrow> pending t = pending s \<Longrightarrow> one_flight t = one_flight s"
  by (simp add: one_flight_def)

section \<open>The contract of a form\<close>

text \<open>
  A form with one request at a time: it is idle at the start, its request can settle whichever way the
  server answers, and however it settles the form is idle again.
\<close>

locale request_form = component start offers step inv
  for start :: "('f, 'a) form_scheme \<Rightarrow> bool" and offers :: "('f, 'a) form_scheme \<Rightarrow> 'e \<Rightarrow> bool"
    and step :: "('f, 'a) form_scheme \<Rightarrow> 'e \<Rightarrow> ('f, 'a) form_scheme" and inv :: "('f, 'a) form_scheme \<Rightarrow> bool" +
  fixes settle :: "nat \<Rightarrow> reply \<Rightarrow> 'e"
  assumes inv_one_flight: "inv s \<Longrightarrow> one_flight s"
    and settle_offered: "i < length (flights s) \<Longrightarrow> offers s (settle i r)"
    and settle_idle: "inv s \<Longrightarrow> i < length (flights s) \<Longrightarrow> \<not> pending (step s (settle i r))"
begin

lemma single_flight: "reachable start offers step s \<Longrightarrow> one_flight s"
  by (rule inv_one_flight) (rule always)

lemma never_stuck:
  assumes "reachable start offers step s" "pending s"
  shows "offers s (settle 0 r) \<and> \<not> pending (step s (settle 0 r)) \<and> flights (step s (settle 0 r)) = []"
proof -
  have inv: "inv s" using assms(1) by (rule always)
  then have len: "0 < length (flights s)" using inv_one_flight assms(2) by (auto simp: one_flight_def)
  have offered: "offers s (settle 0 r)" by (rule settle_offered [OF len])
  have idle: "\<not> pending (step s (settle 0 r))" by (rule settle_idle [OF inv len])
  have "one_flight (step s (settle 0 r))" by (rule inv_one_flight) (rule inv_step [OF inv offered])
  with idle offered show ?thesis by (simp add: one_flight_def)
qed

end

section \<open>Properties\<close>

text \<open>\<open>apiFetch\<close> and the CSRF cookie.  Whatever other readable cookies the page has, every call that is
  not a GET or a HEAD carries the CSRF cookie's value in the CSRF header (empty when there is no such
  cookie), and a GET or HEAD carries none; path, method and body are the caller's.\<close>

theorem unsafe_calls_carry_the_token:
  assumes "list_all plain_cookie cs" "\<And>t. CHR ''%'' \<notin> set t \<Longrightarrow> de t = Some t" "list_all (\<lambda>(n, v). CHR ''%'' \<notin> set v) cs"
  shows "\<exists>rq. apiRequest de (document_cookie cs) c = Inr rq \<and>
    br_path rq = ac_path c \<and> br_method rq = ac_method c \<and> br_body rq = ac_body c \<and>
    br_headers rq ''x-csrf-token'' =
      (if ac_method c \<in> {''GET'', ''HEAD''} then None
       else Some (case map_of cs ''warder_csrf'' of Some t \<Rightarrow> t | None \<Rightarrow> []))"
proof -
  have "readCsrfToken de (document_cookie cs) = Inr (case map_of cs ''warder_csrf'' of Some t \<Rightarrow> t | None \<Rightarrow> [])"
  proof (cases "map_of cs ''warder_csrf''")
    case (Some v)
    then have "CHR ''%'' \<notin> set v" using assms(3) by (auto simp: list_all_iff dest: map_of_SomeD)
    then show ?thesis using Some assms(1,2)
      by (cases v) (simp_all add: readCsrfToken_def match_csrf_cookies)
  qed (simp add: readCsrfToken_def match_csrf_cookies assms(1))
  then show ?thesis by (simp add: apiRequest_def api_headers_def csrf_header_def Let_def)
qed

theorem unsafe_calls_carry_the_token_witness:
  "\<exists>rq. apiRequest Some (document_cookie [(''theme'', ''dark''), (''warder_csrf'', ''ab'')]) (post_call ''/x'' JNull) = Inr rq \<and>
    br_headers rq ''x-csrf-token'' = Some ''ab''"
proof -
  have "list_all plain_cookie [(''theme'', ''dark''), (''warder_csrf'', ''ab'')]" by (simp add: plain_cookie_def)
  then obtain rq where rq: "apiRequest Some (document_cookie [(''theme'', ''dark''), (''warder_csrf'', ''ab'')]) (post_call ''/x'' JNull) = Inr rq"
    "br_headers rq ''x-csrf-token'' =
      (if ac_method (post_call ''/x'' JNull) \<in> {''GET'', ''HEAD''} then None
       else Some (case map_of [(''theme'', ''dark''), (''warder_csrf'', ''ab'')] ''warder_csrf'' of Some t \<Rightarrow> t | None \<Rightarrow> []))"
    using unsafe_calls_carry_the_token [of "[(''theme'', ''dark''), (''warder_csrf'', ''ab'')]" Some "post_call ''/x'' JNull"] by auto
  then show ?thesis by (intro exI [of _ rq]) (simp add: post_call_def)
qed

text \<open>The answer decides what a caller of \<open>apiFetch\<close> sees.  The call succeeds exactly on a status from
  200 to 299, with the parsed body (\<open>null\<close> for a 204 or a body that is not JSON); a 401 rejects and is the
  only answer that sends the browser to the sign-in page; any other status rejects with an \<open>ApiError\<close> of
  that very status, and only a failed \<open>fetch\<close> rejects with anything else.\<close>

theorem apiFetch_outcome:
  "(apiResult r = Inr j \<longleftrightarrow> (\<exists>st b. r = Reply st b \<and> reply_ok st \<and> j = (if st = 204 then JNull else payload_of b))) \<and>
   (ends_session r \<longleftrightarrow> (\<exists>b. r = Reply 401 b)) \<and>
   (ends_session r \<longrightarrow> apiResult r = Inl (ApiError 401 (JStr ''unauthorized'') ''Your session has ended.'' None)) \<and>
   (\<forall>st b. r = Reply st b \<and> \<not> reply_ok st \<longrightarrow> (\<exists>k m d. apiResult r = Inl (ApiError st k m d))) \<and>
   ((\<exists>t. apiResult r = Inl (Thrown t)) \<longleftrightarrow> (\<exists>m. r = Unreachable m))"
  using apiResult_Inr [of r j]
  by (auto simp: ends_session_def apiResult_def api_error_def Let_def split: reply.splits if_splits)

theorem apiFetch_outcome_witness: "apiResult (Reply 204 None) = Inr JNull"
  using apiFetch_outcome [of "Reply 204 None" JNull] by (simp add: reply_ok_def)

end
