(* ===== verification/SecretDialogs.thy ===== *)
theory SecretDialogs imports ClientApi begin

text \<open>
  The two dialogs behind a secret's menu: rotating its value (web/components/rotate-secret-dialog.tsx)
  and changing its expiry (web/components/change-expiry-dialog.tsx).  The browser's own checks of a field
  (\<open>required\<close>, \<open>type\<close>) are left out, so the models also cover what those would stop.
\<close>

section \<open>Dates\<close>

text \<open>
  What the platform does with dates: \<open>new Date(s).getTime()\<close> (\<open>None\<close> for an invalid date),
  \<open>toISOString\<close>, \<open>getTimezoneOffset\<close> in minutes, \<open>toLocaleString\<close>.
\<close>

record dates =
  dt_parse :: "string \<Rightarrow> int option"
  dt_iso :: "int \<Rightarrow> string"
  dt_offset :: "int \<Rightarrow> int"
  dt_local :: "int \<Rightarrow> string"

text \<open>\<open>expiresAt ? new Date(expiresAt).toISOString() : ""\<close>, which throws on an invalid date.\<close>

definition expiry_iso :: "dates \<Rightarrow> string \<Rightarrow> failure + string" where
  "expiry_iso D t = (if t = [] then Inr [] else
     (case dt_parse D t of None \<Rightarrow> Inl (Thrown (ErrorValue ''Invalid time value'')) | Some d \<Rightarrow> Inr (dt_iso D d)))"

definition toLocalInput :: "dates \<Rightarrow> string option \<Rightarrow> string" where
  "toLocalInput D stamp = (case stamp of
     Some (c # cs) \<Rightarrow> (case dt_parse D (c # cs) of
         None \<Rightarrow> []
       | Some d \<Rightarrow> take 16 (dt_iso D (d - dt_offset D d * 60000)))
   | _ \<Rightarrow> [])"

section \<open>Rotating a secret\<close>

record rotate = "unit form" +
  ro_open :: bool
  ro_value :: string

datatype rotate_event =
    RotateOpenChange bool
  | RotateType string
  | RotateCancel
  | RotateSubmit
  | RotateSettled nat reply

definition rotate_start :: "rotate \<Rightarrow> bool" where
  "rotate_start s = (s = \<lparr>flights = [], effects = [], pending = False, problem = None, ro_open = False, ro_value = []\<rparr>)"

definition rotate_call :: "string \<Rightarrow> string \<Rightarrow> api_call" where
  "rotate_call sid v = post_call (''/api/secrets/'' @ sid @ ''/rotate'') (obj [(''value'', Some (JStr v))])"

definition rotate_submit :: "string \<Rightarrow> rotate \<Rightarrow> rotate" where
  "rotate_submit sid s = call_api () (rotate_call sid (ro_value s)) (start_pending s)"

definition rotate_settle :: "string \<Rightarrow> reply \<Rightarrow> rotate \<Rightarrow> rotate" where
  "rotate_settle key r s =
     (case apiResult r of
        Inl e \<Rightarrow> fail_with ''Could not rotate this secret.'' e s
      | Inr j \<Rightarrow> emit (Tells ''onRotated'' None)
          (emit (Toasts (key @ '' rotated. Running applications pick it up on their next start.'')) (s\<lparr>ro_open := False\<rparr>)))
     \<lparr>ro_value := [], pending := False\<rparr>"

fun rotate_step :: "string \<Rightarrow> string \<Rightarrow> rotate \<Rightarrow> rotate_event \<Rightarrow> rotate" where
  "rotate_step sid key s (RotateOpenChange next) =
     (if next then s\<lparr>ro_open := True\<rparr> else s\<lparr>ro_open := False, ro_value := [], problem := None\<rparr>)"
| "rotate_step sid key s (RotateType t) = s\<lparr>ro_value := t\<rparr>"
| "rotate_step sid key s RotateCancel = s\<lparr>ro_open := False\<rparr>"
| "rotate_step sid key s RotateSubmit = rotate_submit sid s"
| "rotate_step sid key s (RotateSettled i r) =
     (if i < length (flights s) then rotate_settle key r (arrive i r s) else s)"

definition rotate_view :: "rotate \<Rightarrow> rotate_event elem list" where
  "rotate_view s = (if \<not> ro_open s then [Press ''Rotate'' (RotateOpenChange True) False] else
     [Note ''A new version becomes active immediately. Applications keep referring to the same key and receive the new value on their next start: nothing needs reconfiguring.'',
      Field ''rotate-value'' (ro_value s),
      Note ''This changes the value Warder stores. It does not change the credential at the provider: rotate it there first, then paste the new one here.''] @
     problem_note s @
     [Press ''Cancel'' RotateCancel False,
      Press ''Rotate'' RotateSubmit (pending s),
      Press ''Close'' (RotateOpenChange False) False])"

fun rotate_offers :: "rotate \<Rightarrow> rotate_event \<Rightarrow> bool" where
  "rotate_offers s (RotateType t) = editable (rotate_view s) ''rotate-value''"
| "rotate_offers s (RotateSettled i r) = (i < length (flights s))"
| "rotate_offers s e = pressable (rotate_view s) e"

section \<open>Changing an expiry\<close>

text \<open>The flight holds the date that was typed when the form was sent.\<close>

record expiry = "string form" +
  ce_open :: bool
  ce_expires :: string

datatype expiry_event =
    ExpiryOpenChange bool
  | ExpiryType string
  | ExpirySubmit
  | ExpirySettled nat reply

definition expiry_start :: "dates \<Rightarrow> string option \<Rightarrow> expiry \<Rightarrow> bool" where
  "expiry_start D current s = (s = \<lparr>flights = [], effects = [], pending = False, problem = None, ce_open = False,
     ce_expires = toLocalInput D current\<rparr>)"

definition expiry_call :: "string \<Rightarrow> string \<Rightarrow> api_call" where
  "expiry_call sid t = post_call (''/api/secrets/'' @ sid @ ''/expiry'') (obj [(''expiresAt'', Some (JStr t))])"

definition expiry_submit :: "dates \<Rightarrow> string \<Rightarrow> expiry \<Rightarrow> expiry" where
  "expiry_submit D sid s =
     (case expiry_iso D (ce_expires s) of
        Inl e \<Rightarrow> (fail_with ''Could not change the expiry.'' e (start_pending s))\<lparr>pending := False\<rparr>
      | Inr t \<Rightarrow> call_api (ce_expires s) (expiry_call sid t) (start_pending s))"

definition expiry_toast :: "dates \<Rightarrow> string \<Rightarrow> string \<Rightarrow> string" where
  "expiry_toast D key t = (if t = [] then key @ '' no longer expires.''
     else key @ '' now expires '' @ (case dt_parse D t of None \<Rightarrow> ''Invalid Date'' | Some d \<Rightarrow> dt_local D d) @ ''.'')"

definition expiry_settle :: "dates \<Rightarrow> string \<Rightarrow> string \<Rightarrow> reply \<Rightarrow> expiry \<Rightarrow> expiry" where
  "expiry_settle D key t r s =
     (case apiResult r of
        Inl e \<Rightarrow> fail_with ''Could not change the expiry.'' e s
      | Inr j \<Rightarrow> emit (Tells ''onChanged'' None) ((emit (Toasts (expiry_toast D key t)) s)\<lparr>ce_open := False\<rparr>))
     \<lparr>pending := False\<rparr>"

fun expiry_step :: "dates \<Rightarrow> string \<Rightarrow> string \<Rightarrow> expiry \<Rightarrow> expiry_event \<Rightarrow> expiry" where
  "expiry_step D sid key s (ExpiryOpenChange next) = (if pending s then s else s\<lparr>ce_open := next\<rparr>)"
| "expiry_step D sid key s (ExpiryType t) = s\<lparr>ce_expires := t\<rparr>"
| "expiry_step D sid key s ExpirySubmit = expiry_submit D sid s"
| "expiry_step D sid key s (ExpirySettled i r) =
     (if i < length (flights s) then expiry_settle D key (flights s ! i) r (arrive i r s) else s)"

definition expiry_view :: "string \<Rightarrow> expiry \<Rightarrow> expiry_event elem list" where
  "expiry_view key s = (if \<not> ce_open s then [Press ''Change expiry'' (ExpiryOpenChange True) False] else
     [Note ''The value does not change and nothing restarts. Running applications keep the credential they already hold.'',
      Field (''New expiry for '' @ key) (ce_expires s),
      Note ''Leave empty for no expiry. A credential that never expires is one nobody is ever reminded to review.''] @
     problem_note s @
     [Press ''Cancel'' (ExpiryOpenChange False) (pending s),
      Press ''Save expiry'' ExpirySubmit (pending s),
      Press ''Close'' (ExpiryOpenChange False) False])"

fun expiry_offers :: "string \<Rightarrow> expiry \<Rightarrow> expiry_event \<Rightarrow> bool" where
  "expiry_offers key s (ExpiryType t) = editable (expiry_view key s) (''New expiry for '' @ key)"
| "expiry_offers key s (ExpirySettled i r) = (i < length (flights s))"
| "expiry_offers key s e = pressable (expiry_view key s) e"

section \<open>Lemmas\<close>

lemma expiry_iso_Inr: "expiry_iso D t = Inr u \<longleftrightarrow> (t = [] \<and> u = [] \<or> t \<noteq> [] \<and> (\<exists>d. dt_parse D t = Some d \<and> u = dt_iso D d))"
  by (auto simp: expiry_iso_def split: option.splits)

lemma rotate_view_offers [simp]:
  "editable (rotate_view s) n \<longleftrightarrow> ro_open s \<and> n = ''rotate-value''"
  "pressable (rotate_view s) e \<longleftrightarrow> (if ro_open s then e = RotateCancel \<or> e = RotateSubmit \<and> \<not> pending s \<or> e = RotateOpenChange False
     else e = RotateOpenChange True)"
  by (auto simp: rotate_view_def)

lemma expiry_view_offers [simp]:
  "editable (expiry_view key s) n \<longleftrightarrow> ce_open s \<and> n = ''New expiry for '' @ key"
  "pressable (expiry_view key s) e \<longleftrightarrow>
     (if ce_open s then e = ExpirySubmit \<and> \<not> pending s \<or> e = ExpiryOpenChange False else e = ExpiryOpenChange True)"
  by (auto simp: expiry_view_def)

lemma rotate_fields [simp]:
  "ro_open (call_api f c s) = ro_open s" "ro_value (call_api f c s) = ro_value s"
  "ro_open (start_pending s) = ro_open s" "ro_value (start_pending s) = ro_value s"
  "ro_open (arrive i r s) = ro_open s" "ro_value (arrive i r s) = ro_value s"
  "ro_open (emit x s) = ro_open s" "ro_open (fail_with b e s) = ro_open s"
  by (simp_all add: form_defs)

lemma expiry_fields [simp]:
  "ce_open (call_api f c s) = ce_open s" "ce_expires (call_api f c s) = ce_expires s"
  "ce_open (start_pending s) = ce_open s" "ce_expires (start_pending s) = ce_expires s"
  "ce_open (arrive i r s) = ce_open s" "ce_open (emit x s) = ce_open s" "ce_open (fail_with b e s) = ce_open s"
  by (simp_all add: form_defs)

lemma rotate_settle_sel [simp]:
  "\<not> pending (rotate_settle key r s)" "ro_value (rotate_settle key r s) = []"
  "flights (rotate_settle key r s) = flights s" "calls (effects (rotate_settle key r s)) = calls (effects s)"
  by (simp_all add: rotate_settle_def split: sum.splits)

lemma expiry_settle_sel [simp]:
  "\<not> pending (expiry_settle D key t r s)" "flights (expiry_settle D key t r s) = flights s"
  "calls (effects (expiry_settle D key t r s)) = calls (effects s)"
  "ce_open (expiry_settle D key t r s) = (ce_open s \<and> (\<exists>e. apiResult r = Inl e))"
  by (auto simp: expiry_settle_def split: sum.splits)

definition rotates :: "string \<Rightarrow> api_call \<Rightarrow> bool" where
  "rotates sid c = (\<exists>v. c = rotate_call sid v)"

definition rotate_inv :: "string \<Rightarrow> rotate \<Rightarrow> bool" where
  "rotate_inv sid s = (one_flight s \<and> list_all (rotates sid) (calls (effects s)))"

lemma rotates_call [simp]: "rotates sid (rotate_call sid v)"
  by (auto simp: rotates_def)

lemma rotate_inv_step:
  assumes "rotate_inv sid s" "rotate_offers s e"
  shows "rotate_inv sid (rotate_step sid key s e)"
proof (cases e)
  case (RotateSettled i r)
  with assms show ?thesis by (simp add: rotate_inv_def one_flight_def split: if_splits)
next
  case RotateSubmit
  with assms show ?thesis by (simp add: rotate_inv_def one_flight_def rotate_submit_def split: if_splits)
qed (use assms in \<open>simp_all add: rotate_inv_def one_flight_def split: if_splits\<close>)

interpretation rotating: request_form rotate_start rotate_offers "rotate_step sid key" "rotate_inv sid" RotateSettled
  for sid key
proof unfold_locales
  show "rotate_start s \<Longrightarrow> rotate_inv sid s" for s
    by (simp add: rotate_start_def rotate_inv_def one_flight_def)
qed (use rotate_inv_step in \<open>auto simp: rotate_inv_def\<close>)

definition changes :: "dates \<Rightarrow> string \<Rightarrow> api_call \<Rightarrow> bool" where
  "changes D sid c = (\<exists>t u. c = expiry_call sid u \<and> expiry_iso D t = Inr u)"

definition expiry_inv :: "dates \<Rightarrow> string \<Rightarrow> expiry \<Rightarrow> bool" where
  "expiry_inv D sid s = (one_flight s \<and> (pending s \<longrightarrow> ce_open s) \<and> list_all (changes D sid) (calls (effects s)))"

lemma changes_call: "expiry_iso D t = Inr u \<Longrightarrow> changes D sid (expiry_call sid u)"
  by (auto simp: changes_def)

lemma expiry_inv_step:
  assumes "expiry_inv D sid s" "expiry_offers key s e"
  shows "expiry_inv D sid (expiry_step D sid key s e)"
proof (cases e)
  case (ExpirySettled i r)
  with assms show ?thesis by (simp add: expiry_inv_def one_flight_def split: if_splits)
next
  case ExpirySubmit
  with assms show ?thesis
    by (simp add: expiry_inv_def one_flight_def expiry_submit_def changes_call split: if_splits sum.splits)
qed (use assms in \<open>simp_all add: expiry_inv_def one_flight_def split: if_splits\<close>)

interpretation changing: request_form "expiry_start D current" "expiry_offers key" "expiry_step D sid key" "expiry_inv D sid" ExpirySettled
  for D current key sid
proof unfold_locales
  show "expiry_start D current s \<Longrightarrow> expiry_inv D sid s" for s
    by (simp add: expiry_start_def expiry_inv_def one_flight_def)
qed (use expiry_inv_step in \<open>auto simp: expiry_inv_def\<close>)

section \<open>Properties\<close>

text \<open>C19: Rotating.  In every reachable state of the dialog at most one request is out, exactly while it shows
  itself as pending, and every request it ever made is a rotation of its own secret that carries a value and
  nothing else.  However a rotation ends, the value typed for it is gone from the dialog; and closing the
  dialog by any way but its Cancel button clears the value as well.\<close>

theorem rotation_forgets_the_value:
  assumes "reachable rotate_start rotate_offers (rotate_step sid key) s" "rotate_offers s e"
  shows "length (flights s) = (if pending s then 1 else 0) \<and>
    (\<forall>c \<in> set (calls (effects s)). \<exists>v. c = rotate_call sid v) \<and>
    ((\<exists>i r. e = RotateSettled i r) \<longrightarrow> ro_value (rotate_step sid key s e) = []) \<and>
    (ro_open s \<and> \<not> ro_open (rotate_step sid key s e) \<and> e \<noteq> RotateCancel \<longrightarrow> ro_value (rotate_step sid key s e) = [])"
proof -
  have "rotate_inv sid s" using assms(1) by (rule rotating.always)
  then have "length (flights s) = (if pending s then 1 else 0)"
    "\<forall>c \<in> set (calls (effects s)). \<exists>v. c = rotate_call sid v"
    by (auto simp: rotate_inv_def one_flight_def list_all_iff rotates_def)
  then show ?thesis using assms(2)
    by (cases e) (auto simp: rotate_submit_def split: if_splits)
qed

definition rotate_demo :: rotate where
  "rotate_demo = rotate_step ''s1'' ''KEY'' (rotate_step ''s1'' ''KEY''
     \<lparr>flights = [], effects = [], pending = False, problem = None, ro_open = False, ro_value = []\<rparr>
     (RotateOpenChange True)) (RotateType ''v2'')"

lemma rotate_demo_reachable: "reachable rotate_start rotate_offers (rotate_step ''s1'' ''KEY'') rotate_demo"
  unfolding rotate_demo_def by (intro reachable.event reachable.initial) (simp_all add: rotate_start_def)

theorem rotation_forgets_the_value_witness:
  "\<exists>s. reachable rotate_start rotate_offers (rotate_step ''s1'' ''KEY'') s \<and> pending s \<and> length (flights s) = 1"
proof -
  let ?s = "rotate_step ''s1'' ''KEY'' rotate_demo RotateSubmit"
  have "reachable rotate_start rotate_offers (rotate_step ''s1'' ''KEY'') ?s"
    by (rule reachable.event [OF rotate_demo_reachable]) (simp add: rotate_demo_def)
  moreover from rotation_forgets_the_value [OF this, of RotateCancel]
  have "length (flights ?s) = (if pending ?s then 1 else 0)" by (simp add: rotate_demo_def rotate_submit_def)
  ultimately show ?thesis by (intro exI [of _ ?s]) (simp add: rotate_submit_def)
qed

text \<open>The Cancel button of the rotation dialog closes it without clearing: what was typed is still in the
  dialog's state while it is closed, and is shown again when it is opened.\<close>

theorem cancel_keeps_the_value:
  assumes "reachable rotate_start rotate_offers (rotate_step sid key) s" "ro_open s"
  shows "rotate_offers s RotateCancel \<and> \<not> ro_open (rotate_step sid key s RotateCancel) \<and>
    ro_value (rotate_step sid key (rotate_step sid key s RotateCancel) (RotateOpenChange True)) = ro_value s"
  using assms(2) by simp

theorem cancel_keeps_the_value_witness:
  "ro_value (rotate_step ''s1'' ''KEY'' (rotate_step ''s1'' ''KEY'' rotate_demo RotateCancel) (RotateOpenChange True)) = ''v2''"
  using cancel_keeps_the_value [OF rotate_demo_reachable] by (simp add: rotate_demo_def)

text \<open>Changing an expiry.  The dialog never closes under a request: while one is out it stays open whatever
  is pressed, and it closes only by a success or when nothing is out.  Every request it made is a change of
  its own secret's expiry that carries the typed date in UTC, or the empty text for none; a date that cannot
  be read sends nothing and shows an error instead.\<close>

theorem expiry_dialog_waits:
  assumes "reachable (expiry_start D current) (expiry_offers key) (expiry_step D sid key) s" "expiry_offers key s e"
  shows "(pending s \<longrightarrow> ce_open s) \<and>
    (pending s \<and> \<not> ce_open (expiry_step D sid key s e) \<longrightarrow> (\<exists>i r j. e = ExpirySettled i r \<and> apiResult r = Inr j)) \<and>
    (\<forall>c \<in> set (calls (effects s)). \<exists>t u. c = expiry_call sid u \<and>
       (t = [] \<and> u = [] \<or> t \<noteq> [] \<and> (\<exists>d. dt_parse D t = Some d \<and> u = dt_iso D d))) \<and>
    (e = ExpirySubmit \<and> ce_expires s \<noteq> [] \<and> dt_parse D (ce_expires s) = None \<longrightarrow>
       calls (effects (expiry_step D sid key s e)) = calls (effects s) \<and>
       problem (expiry_step D sid key s e) = Some ''Invalid time value'')"
proof -
  have inv: "expiry_inv D sid s" using assms(1) by (rule changing.always)
  have "\<forall>c \<in> set (calls (effects s)). \<exists>t u. c = expiry_call sid u \<and>
       (t = [] \<and> u = [] \<or> t \<noteq> [] \<and> (\<exists>d. dt_parse D t = Some d \<and> u = dt_iso D d))"
    using inv by (auto simp: expiry_inv_def list_all_iff expiry_iso_Inr changes_def)
  moreover have "pending s \<longrightarrow> ce_open s" using inv by (simp add: expiry_inv_def)
  moreover have "pending s \<and> \<not> ce_open (expiry_step D sid key s e) \<longrightarrow> (\<exists>i r j. e = ExpirySettled i r \<and> apiResult r = Inr j)"
    using assms(2) calculation(2) by (cases e) (auto simp: expiry_submit_def split: if_splits sum.splits, metis sum.exhaust)
  moreover have "e = ExpirySubmit \<and> ce_expires s \<noteq> [] \<and> dt_parse D (ce_expires s) = None \<longrightarrow>
       calls (effects (expiry_step D sid key s e)) = calls (effects s) \<and>
       problem (expiry_step D sid key s e) = Some ''Invalid time value''"
    by (simp add: expiry_submit_def expiry_iso_def failure_message_def)
  ultimately show ?thesis by blast
qed

definition demo_dates :: dates where
  "demo_dates = \<lparr>dt_parse = (\<lambda>t. if t = ''2030-01-01T00:00'' then Some 1893456000000 else None),
     dt_iso = (\<lambda>d. ''2030-01-01T00:00:00.000Z''), dt_offset = (\<lambda>d. 0), dt_local = (\<lambda>d. ''1/1/2030'')\<rparr>"

definition expiry_demo :: expiry where
  "expiry_demo = expiry_step demo_dates ''s1'' ''KEY'' (expiry_step demo_dates ''s1'' ''KEY''
     \<lparr>flights = [], effects = [], pending = False, problem = None, ce_open = False, ce_expires = []\<rparr>
     (ExpiryOpenChange True)) (ExpiryType ''soon'')"

theorem expiry_dialog_waits_witness:
  "problem (expiry_step demo_dates ''s1'' ''KEY'' expiry_demo ExpirySubmit) = Some ''Invalid time value''"
proof -
  have "reachable (expiry_start demo_dates None) (expiry_offers ''KEY'') (expiry_step demo_dates ''s1'' ''KEY'') expiry_demo"
    unfolding expiry_demo_def
    by (intro reachable.event reachable.initial) (simp_all add: expiry_start_def toLocalInput_def)
  from expiry_dialog_waits [OF this, of ExpirySubmit] show ?thesis
    by (simp add: expiry_demo_def demo_dates_def)
qed

end
