(* ===== verification/AddSecrets.thy ===== *)
theory AddSecrets imports SecretDialogs Dotenv begin

text \<open>
  The dialog that adds one secret or many (web/components/add-secrets-dialog.tsx): its rows, the paste of
  a whole \<open>.env\<close> file into a key field, the batch request and what becomes of a refusal's field messages.
\<close>

section \<open>Model\<close>

record row =
  row_id :: nat
  row_key :: string
  row_value :: string

record environment =
  env_id :: string
  env_name :: string

text \<open>\<open>rows.filter((row) => row.key.trim() !== "")\<close>\<close>

definition filled :: "row list \<Rightarrow> row list" where
  "filled rows = filter (\<lambda>r. trim (row_key r) \<noteq> []) rows"

text \<open>\<open>Number(digits)\<close>, and the match of \<open>/^secrets\.(\d+)\./\<close>.\<close>

definition digit_value :: "char \<Rightarrow> nat" where
  "digit_value c = of_char c - 48"

definition read_nat :: "string \<Rightarrow> nat" where
  "read_nat ds = foldl (\<lambda>n c. 10 * n + digit_value c) 0 ds"

definition secret_index :: "string \<Rightarrow> nat option" where
  "secret_index f =
     (if startsWith f ''secrets.'' then
        (let r = drop 8 f; ds = takeWhile is_digit r in
         if ds \<noteq> [] \<and> startsWith (drop (length ds) r) ''.'' then Some (read_nat ds) else None)
      else None)"

text \<open>The row a field path names: the index counts the rows that were sent.\<close>

definition named_row :: "row list \<Rightarrow> string \<Rightarrow> row option" where
  "named_row rows f = (case secret_index f of
     None \<Rightarrow> None
   | Some i \<Rightarrow> if i < length (filled rows) then Some (filled rows ! i) else None)"

fun mapFieldErrors :: "(string \<times> string) list \<Rightarrow> row list \<Rightarrow> (nat \<rightharpoonup> string) \<Rightarrow> (nat \<rightharpoonup> string)" where
  "mapFieldErrors [] rows mapped = mapped"
| "mapFieldErrors ((f, m) # details) rows mapped =
     mapFieldErrors details rows (case named_row rows f of None \<Rightarrow> mapped | Some r \<Rightarrow> mapped(row_id r \<mapsto> m))"

definition already_there :: string where "already_there = ''already has that key''"

definition conflictingKeys :: "(string \<times> string) list \<Rightarrow> row list \<Rightarrow> string list" where
  "conflictingKeys details rows = List.map_filter (\<lambda>(f, m).
     if includes_str m already_there then map_option (\<lambda>r. trim (row_key r)) (named_row rows f) else None) details"

text \<open>\<open>Object.entries(details)\<close>; the core API's details are strings by their declared type.\<close>

definition detail_entries :: "json \<Rightarrow> (string \<times> string) list" where
  "detail_entries d = (case d of
     JObj fs \<Rightarrow> List.map_filter (\<lambda>(k, v). case v of JStr m \<Rightarrow> Some (k, m) | _ \<Rightarrow> None) fs
   | _ \<Rightarrow> [])"

text \<open>What a request in flight holds: the rows and the environment it was sent with.\<close>

record batch_flight =
  bf_rows :: "row list"
  bf_env :: string

record add = "batch_flight form" +
  ad_open :: bool
  ad_env :: string
  ad_rows :: "row list"
  ad_expires :: string
  ad_fields :: "nat \<rightharpoonup> string"
  ad_conflicts :: "string list"
  ad_notice :: "string option"
  ad_next :: nat

definition blank :: "nat \<Rightarrow> row" where
  "blank n = \<lparr>row_id = n, row_key = [], row_value = []\<rparr>"

text \<open>
  \<open>nextRowId\<close> is a module variable: \<open>ad_next\<close>.  Every render evaluates the initial \<open>newRow()\<close> again and
  throws it away, which uses up an id: \<open>Rendered\<close>.
\<close>

datatype add_event =
    AddOpenChange bool
  | AddCancel
  | PickEnvironment string
  | TypeKey nat string
  | TypeValue nat string
  | PasteKey nat string
  | RemoveRow nat
  | AddRow
  | TypeExpiry string
  | AddSubmit
  | AddSettled nat reply
  | Rendered

definition add_start :: "string \<Rightarrow> add \<Rightarrow> bool" where
  "add_start cur s = (\<exists>n. s = \<lparr>flights = [], effects = [], pending = False, problem = None, ad_open = False, ad_env = cur,
     ad_rows = [blank n], ad_expires = [], ad_fields = Map.empty, ad_conflicts = [], ad_notice = None, ad_next = Suc n\<rparr>)"

definition reset :: "string \<Rightarrow> add \<Rightarrow> add" where
  "reset cur s = s\<lparr>ad_env := cur, ad_rows := [blank (ad_next s)], ad_next := Suc (ad_next s), ad_expires := [],
     problem := None, ad_notice := None\<rparr>"

definition kept_rows :: "nat \<Rightarrow> row list \<Rightarrow> row list" where
  "kept_rows at rows = map snd (filter (\<lambda>(i, r). i \<noteq> at \<and> (trim (row_key r) \<noteq> [] \<or> row_value r \<noteq> []))
     (enumerate 0 rows))"

definition new_entries :: "row list \<Rightarrow> ParsedEntry list \<Rightarrow> ParsedEntry list" where
  "new_entries kept es =
     filter (\<lambda>e. toUpperCase (entry_key e) \<notin> set (map (\<lambda>r. toUpperCase (trim (row_key r))) kept)) es"

fun number_rows :: "nat \<Rightarrow> ParsedEntry list \<Rightarrow> row list" where
  "number_rows n [] = []"
| "number_rows n (e # es) = \<lparr>row_id = n, row_key = entry_key e, row_value = entry_value e\<rparr> # number_rows (Suc n) es"

definition plural :: "nat \<Rightarrow> string \<Rightarrow> string \<Rightarrow> string" where
  "plural n one many = (if n = 1 then one else many)"

definition paste_notice :: "ParseResult \<Rightarrow> string" where
  "paste_notice p =
     (let n = length (entries p); k = length (skipped p) in
      join '' '' ([''Filled '' @ show_nat n @ '' '' @ plural n ''key'' ''keys'' @ ''.''] @
        (if k > 0
         then [show_nat k @ '' '' @ plural k ''line'' ''lines'' @ '' could not be read ('' @
               join '', '' (map (\<lambda>e. ''line '' @ show_nat (skip_line e)) (skipped p)) @ ''): add '' @
               plural k ''it'' ''them'' @ '' by hand.'']
         else [])))"

definition absorb :: "string \<Rightarrow> nat \<Rightarrow> add \<Rightarrow> add" where
  "absorb t at s =
     (let p = parseDotenv t in
      if entries p = [] then s
      else
        let kept = kept_rows at (ad_rows s); fresh = new_entries kept (entries p); n = ad_next s in
        s\<lparr>ad_rows := kept @ number_rows n fresh @ [blank (n + length fresh)], ad_next := Suc (n + length fresh),
          ad_notice := Some (paste_notice p), problem := None\<rparr>)"

definition onPasteIntoKey :: "string \<Rightarrow> nat \<Rightarrow> add \<Rightarrow> add" where
  "onPasteIntoKey t at s = (if looksLikeDotenv t then absorb t at s else s)"

definition add_body :: "row list \<Rightarrow> string \<Rightarrow> json" where
  "add_body rows expiry = obj [
     (''secrets'', Some (JArr (map (\<lambda>r. obj [(''key'', Some (JStr (trim (row_key r)))), (''value'', Some (JStr (row_value r)))]) rows))),
     (''expiresAt'', Some (JStr expiry))]"

definition batch_call :: "string \<Rightarrow> row list \<Rightarrow> string \<Rightarrow> api_call" where
  "batch_call eid rows expiry = post_call (''/api/environments/'' @ eid @ ''/secrets/batch'') (add_body rows expiry)"

definition add_failed :: "row list \<Rightarrow> failure \<Rightarrow> add \<Rightarrow> add" where
  "add_failed rows e s = fail_with ''Could not add these secrets.'' e (case failure_details e of
     None \<Rightarrow> s
   | Some d \<Rightarrow> s\<lparr>ad_fields := mapFieldErrors (detail_entries d) rows Map.empty,
       ad_conflicts := conflictingKeys (detail_entries d) rows\<rparr>)"

definition add_submit :: "dates \<Rightarrow> add \<Rightarrow> add" where
  "add_submit D s0 =
     (let s = s0\<lparr>problem := None, ad_fields := Map.empty, ad_conflicts := []\<rparr>; rows = filled (ad_rows s) in
      if rows = [] then s\<lparr>problem := Some ''Add at least one key.''\<rparr>
      else case find (\<lambda>r. row_value r = []) rows of
        Some r \<Rightarrow> s\<lparr>problem := Some (row_key r @ '' has no value.'')\<rparr>
      | None \<Rightarrow>
          (case expiry_iso D (ad_expires s) of
             Inl e \<Rightarrow> (add_failed (ad_rows s) e (s\<lparr>pending := True\<rparr>))\<lparr>pending := False\<rparr>
           | Inr t \<Rightarrow> call_api \<lparr>bf_rows = ad_rows s, bf_env = ad_env s\<rparr> (batch_call (ad_env s) rows t) (s\<lparr>pending := True\<rparr>)))"

definition added_toast :: "environment list \<Rightarrow> string \<Rightarrow> jsval \<Rightarrow> string" where
  "added_toast envs eid n = js_string n @ '' '' @ (if n = Some (JNum 1) then ''secret'' else ''secrets'') @ '' added to '' @
     (case find (\<lambda>e. env_id e = eid) envs of Some e \<Rightarrow> env_name e | None \<Rightarrow> ''the environment'') @ '' and encrypted.''"

definition add_settle :: "environment list \<Rightarrow> string \<Rightarrow> batch_flight \<Rightarrow> reply \<Rightarrow> add \<Rightarrow> add" where
  "add_settle envs cur f r s =
     (case then_ok (apiResult r) (\<lambda>j. result_field j ''count'') of
        Inl e \<Rightarrow> add_failed (bf_rows f) e s
      | Inr n \<Rightarrow> emit Refreshes ((reset cur (emit (Toasts (added_toast envs (bf_env f) n)) s))\<lparr>ad_open := False\<rparr>))
     \<lparr>pending := False\<rparr>"

text \<open>\<open>candidate.id === row.id ? { ...candidate, ... } : candidate\<close> for the row rendered at an index.\<close>

definition edit_row :: "nat \<Rightarrow> (row \<Rightarrow> row) \<Rightarrow> add \<Rightarrow> add" where
  "edit_row i g s = (if i < length (ad_rows s)
     then s\<lparr>ad_rows := map (\<lambda>r. if row_id r = row_id (ad_rows s ! i) then g r else r) (ad_rows s)\<rparr> else s)"

definition remove_row :: "nat \<Rightarrow> add \<Rightarrow> add" where
  "remove_row i s = (if i < length (ad_rows s)
     then s\<lparr>ad_rows := filter (\<lambda>r. row_id r \<noteq> row_id (ad_rows s ! i)) (ad_rows s)\<rparr> else s)"

fun add_step :: "dates \<Rightarrow> environment list \<Rightarrow> string \<Rightarrow> add \<Rightarrow> add_event \<Rightarrow> add" where
  "add_step D envs cur s (AddOpenChange next) = (if next then s\<lparr>ad_open := True\<rparr> else reset cur (s\<lparr>ad_open := False\<rparr>))"
| "add_step D envs cur s AddCancel = s\<lparr>ad_open := False\<rparr>"
| "add_step D envs cur s (PickEnvironment e) = s\<lparr>ad_env := e\<rparr>"
| "add_step D envs cur s (TypeKey i t) = edit_row i (\<lambda>r. r\<lparr>row_key := toUpperCase t\<rparr>) s"
| "add_step D envs cur s (TypeValue i t) = edit_row i (\<lambda>r. r\<lparr>row_value := t\<rparr>) s"
| "add_step D envs cur s (PasteKey i t) = onPasteIntoKey t i s"
| "add_step D envs cur s (RemoveRow i) = remove_row i s"
| "add_step D envs cur s AddRow = s\<lparr>ad_rows := ad_rows s @ [blank (ad_next s)], ad_next := Suc (ad_next s)\<rparr>"
| "add_step D envs cur s (TypeExpiry t) = s\<lparr>ad_expires := t\<rparr>"
| "add_step D envs cur s AddSubmit = add_submit D s"
| "add_step D envs cur s (AddSettled i r) =
     (if i < length (flights s) then add_settle envs cur (flights s ! i) r (arrive i r s) else s)"
| "add_step D envs cur s Rendered = s\<lparr>ad_next := Suc (ad_next s)\<rparr>"

text \<open>The rendering.  The remove button of a lone row is hidden unless the row holds a value without a key.\<close>

definition row_view :: "add \<Rightarrow> nat \<Rightarrow> row \<Rightarrow> add_event elem list" where
  "row_view s i r =
     [Field (''Key '' @ show_nat (Suc i)) (row_key r)] @
     (case ad_fields s (row_id r) of Some m \<Rightarrow> [Note m] | None \<Rightarrow> []) @
     [Field (''Value '' @ show_nat (Suc i)) (row_value r),
      Press (''Remove row '' @ show_nat (Suc i)) (RemoveRow i) (length (ad_rows s) = 1 \<and> (row_value r = [] \<or> row_key r \<noteq> []))]"

definition conflict_view :: "string list \<Rightarrow> add_event elem list" where
  "conflict_view ks = (if ks = [] then [] else
     [Note (if length ks = 1 then hd ks @ '' already exists here.'' else show_nat (length ks) @ '' of these keys already exist here.''),
      Note ''A key exists once per environment. To replace the value, rotate it. If only the expiry lapsed, change the expiry instead: the value stays, and nothing has to restart. Both are in the menu on the secret's row.''] @
     (if length ks > 1 then [Note (join '', '' ks)] else []))"

definition add_view :: "environment list \<Rightarrow> add \<Rightarrow> add_event elem list" where
  "add_view envs s = (if \<not> ad_open s then [Press ''Add secrets'' (AddOpenChange True) False] else
     map (\<lambda>e. Press (env_name e) (PickEnvironment (env_id e)) False) envs @
     concat (map (\<lambda>(i, r). row_view s i r) (enumerate 0 (ad_rows s))) @
     [Press ''Add another'' AddRow False, Field ''batch-expiry'' (ad_expires s)] @
     (case ad_notice s of Some (c # cs) \<Rightarrow> [Note (c # cs)] | _ \<Rightarrow> []) @
     conflict_view (ad_conflicts s) @
     problem_note s @
     [Press ''Cancel'' AddCancel False,
      Press (if length (filled (ad_rows s)) > 1 then ''Add '' @ show_nat (length (filled (ad_rows s))) @ '' secrets'' else ''Add secret'')
        AddSubmit (pending s),
      Press ''Close'' (AddOpenChange False) False])"

fun add_offers :: "environment list \<Rightarrow> add \<Rightarrow> add_event \<Rightarrow> bool" where
  "add_offers envs s (TypeKey i t) = editable (add_view envs s) (''Key '' @ show_nat (Suc i))"
| "add_offers envs s (PasteKey i t) = editable (add_view envs s) (''Key '' @ show_nat (Suc i))"
| "add_offers envs s (TypeValue i t) = editable (add_view envs s) (''Value '' @ show_nat (Suc i))"
| "add_offers envs s (TypeExpiry t) = editable (add_view envs s) ''batch-expiry''"
| "add_offers envs s (AddSettled i r) = (i < length (flights s))"
| "add_offers envs s Rendered = True"
| "add_offers envs s e = pressable (add_view envs s) e"

section \<open>Lemmas\<close>

lemma add_fields [simp]:
  "ad_open (call_api f c s) = ad_open s" "ad_rows (call_api f c s) = ad_rows s" "ad_next (call_api f c s) = ad_next s"
  "ad_open (arrive i r s) = ad_open s" "ad_rows (arrive i r s) = ad_rows s" "ad_next (arrive i r s) = ad_next s"
  "ad_open (emit x s) = ad_open s" "ad_rows (emit x s) = ad_rows s" "ad_next (emit x s) = ad_next s"
  "ad_open (fail_with b e s) = ad_open s" "ad_rows (fail_with b e s) = ad_rows s" "ad_next (fail_with b e s) = ad_next s"
  "ad_conflicts (arrive i r s) = ad_conflicts s" "ad_conflicts (emit x s) = ad_conflicts s" "ad_env (arrive i r s) = ad_env s"
  by (simp_all add: form_defs)

lemma reset_sel [simp]:
  "flights (reset cur s) = flights s" "pending (reset cur s) = pending s" "effects (reset cur s) = effects s"
  "ad_rows (reset cur s) = [blank (ad_next s)]" "ad_next (reset cur s) = Suc (ad_next s)" "ad_open (reset cur s) = ad_open s"
  "problem (reset cur s) = None" "ad_conflicts (reset cur s) = ad_conflicts s" "ad_fields (reset cur s) = ad_fields s"
  "ad_env (reset cur s) = cur" "ad_expires (reset cur s) = []" "ad_notice (reset cur s) = None"
  by (simp_all add: reset_def)

lemma add_failed_sel [simp]:
  "flights (add_failed rows e s) = flights s" "pending (add_failed rows e s) = pending s"
  "effects (add_failed rows e s) = effects s" "ad_rows (add_failed rows e s) = ad_rows s"
  "ad_next (add_failed rows e s) = ad_next s" "ad_open (add_failed rows e s) = ad_open s"
  by (simp_all add: add_failed_def split: option.splits)

lemma add_settle_sel [simp]:
  "flights (add_settle envs cur f r s) = flights s" "\<not> pending (add_settle envs cur f r s)"
  "calls (effects (add_settle envs cur f r s)) = calls (effects s)"
  by (simp_all add: add_settle_def split: sum.splits)

text \<open>Row identity: ids are distinct and below the counter.\<close>

definition rows_ok :: "nat \<Rightarrow> row list \<Rightarrow> bool" where
  "rows_ok n rows = (distinct (map row_id rows) \<and> list_all (\<lambda>r. row_id r < n) rows)"

lemma rows_ok_mono: "rows_ok n rows \<Longrightarrow> n \<le> m \<Longrightarrow> rows_ok m rows"
  by (auto simp: rows_ok_def list_all_iff)

lemma rows_ok_blank [simp]: "rows_ok (Suc n) [blank n]"
  by (simp add: rows_ok_def blank_def)

lemma rows_ok_snoc: "rows_ok n rows \<Longrightarrow> rows_ok (Suc n) (rows @ [blank n])"
  by (fastforce simp: rows_ok_def blank_def list_all_iff)

lemma rows_ok_subseq:
  assumes "subseq xs ys" "rows_ok n ys"
  shows "rows_ok n xs"
proof -
  obtain N where "xs = nths ys N" using assms(1) by (auto simp: subseq_conv_nths)
  moreover have "map row_id (nths ys N) = nths (map row_id ys) N" by (simp add: nths_map)
  ultimately show ?thesis using assms(2) set_nths_subset [of ys N]
    by (auto simp: rows_ok_def list_all_iff distinct_nthsI)
qed

lemma rows_ok_edit:
  assumes "\<And>r. row_id (g r) = row_id r"
  shows "rows_ok n (map (\<lambda>r. if P r then g r else r) rows) = rows_ok n rows"
proof -
  have "row_id (if P r then g r else r) = row_id r" for r using assms by simp
  then show ?thesis by (simp add: rows_ok_def list.pred_map comp_def)
qed

lemma kept_rows_subseq: "subseq (kept_rows at rows) rows"
proof -
  have "subseq (map snd (filter P (enumerate 0 rows))) (map snd (enumerate 0 rows))" for P
    by (intro subseq_map) (rule subseq_filter_left)
  then show ?thesis by (simp add: kept_rows_def)
qed

lemma number_rows_props:
  "length (number_rows n es) = length es" "map row_id (number_rows n es) = [n..<n + length es]"
  "map (\<lambda>r. (row_key r, row_value r)) (number_rows n es) = map (\<lambda>e. (entry_key e, entry_value e)) es"
  by (induction n es rule: number_rows.induct) (simp_all del: upt_Suc add: upt_conv_Cons)

lemma rows_ok_absorb:
  assumes "rows_ok n kept"
  shows "rows_ok (Suc (n + length es)) (kept @ number_rows n es @ [blank (n + length es)])"
proof -
  have "map row_id (kept @ number_rows n es @ [blank (n + length es)]) = map row_id kept @ [n..<Suc (n + length es)]"
    by (simp add: number_rows_props blank_def)
  moreover have "distinct (map row_id kept @ [n..<Suc (n + length es)])"
    using assms by (auto simp: rows_ok_def list_all_iff)
  moreover have "list_all (\<lambda>k. k < Suc (n + length es)) (map row_id kept @ [n..<Suc (n + length es)])"
    using assms by (auto simp: rows_ok_def list_all_iff)
  ultimately show ?thesis unfolding rows_ok_def
    by (metis (mono_tags, lifting) list.pred_map comp_def list.pred_cong)
qed

text \<open>What a batch request may carry.\<close>

definition sendable :: "row \<Rightarrow> bool" where
  "sendable r = (trim (row_key r) \<noteq> [] \<and> row_value r \<noteq> [])"

definition sound_batch :: "api_call \<Rightarrow> bool" where
  "sound_batch c = (\<exists>eid rows t. c = batch_call eid rows t \<and> rows \<noteq> [] \<and> list_all sendable rows)"

lemma sound_batch_call:
  assumes "filled rows \<noteq> []" "find (\<lambda>r. row_value r = []) (filled rows) = None"
  shows "sound_batch (batch_call eid (filled rows) t)"
proof -
  have "list_all sendable (filled rows)"
    using assms(2) by (auto simp: find_None_iff sendable_def list_all_iff filled_def)
  with assms(1) show ?thesis unfolding sound_batch_def by blast
qed

lemma add_submit_sel:
  "ad_rows (add_submit D s) = ad_rows s" "ad_next (add_submit D s) = ad_next s" "ad_open (add_submit D s) = ad_open s"
  "flights s = [] \<Longrightarrow> \<not> pending s \<Longrightarrow> one_flight (add_submit D s)"
  "list_all sound_batch (calls (effects s)) \<Longrightarrow> list_all sound_batch (calls (effects (add_submit D s)))"
  by (simp_all add: add_submit_def Let_def one_flight_def sound_batch_call split: option.splits sum.splits)

definition add_inv :: "add \<Rightarrow> bool" where
  "add_inv s = (one_flight s \<and> rows_ok (ad_next s) (ad_rows s) \<and> list_all sound_batch (calls (effects s)))"

lemma row_view_inert:
  "pressable (row_view s i r) e \<Longrightarrow> e = RemoveRow i"
  by (auto simp: row_view_def split: option.splits)

lemma rows_view_inert:
  "pressable (concat (map (\<lambda>(i, r). row_view s i r) irs)) e \<Longrightarrow> \<exists>i. e = RemoveRow i"
  by (induction irs) (auto dest: row_view_inert)

lemma notes_inert [simp]:
  "\<not> pressable (conflict_view ks) e" "\<not> editable (conflict_view ks) m"
  "\<not> pressable (case n of None \<Rightarrow> [] | Some t \<Rightarrow> (case t of [] \<Rightarrow> [] | c # cs \<Rightarrow> [Note (c # cs)])) e"
  by (auto simp: conflict_view_def split: option.splits list.splits)

lemma picks_inert: "pressable (map (\<lambda>e. Press (f e) (PickEnvironment (g e)) False) envs) d \<Longrightarrow> \<exists>x. d = PickEnvironment x"
  by (induction envs) auto

lemma add_submit_offered: "add_offers envs s AddSubmit \<Longrightarrow> \<not> pending s"
  by (auto simp: add_view_def split: if_splits dest!: picks_inert rows_view_inert)

lemma edit_row_sel [simp]:
  "flights (edit_row i g s) = flights s" "pending (edit_row i g s) = pending s" "effects (edit_row i g s) = effects s"
  "ad_next (edit_row i g s) = ad_next s"
  "(\<And>r. row_id (g r) = row_id r) \<Longrightarrow> rows_ok n (ad_rows (edit_row i g s)) = rows_ok n (ad_rows s)"
  by (simp_all add: edit_row_def rows_ok_edit)

lemma remove_row_sel [simp]:
  "flights (remove_row i s) = flights s" "pending (remove_row i s) = pending s" "effects (remove_row i s) = effects s"
  "ad_next (remove_row i s) = ad_next s"
  "rows_ok n (ad_rows s) \<Longrightarrow> rows_ok n (ad_rows (remove_row i s))"
  using rows_ok_subseq [OF subseq_filter_left] by (auto simp: remove_row_def)

lemma paste_sel [simp]:
  "flights (onPasteIntoKey t i s) = flights s" "pending (onPasteIntoKey t i s) = pending s"
  "effects (onPasteIntoKey t i s) = effects s"
  "rows_ok (ad_next s) (ad_rows s) \<Longrightarrow> rows_ok (ad_next (onPasteIntoKey t i s)) (ad_rows (onPasteIntoKey t i s))"
  using rows_ok_absorb [OF rows_ok_subseq [OF kept_rows_subseq]]
  by (auto simp: onPasteIntoKey_def absorb_def Let_def)

lemma add_inv_step:
  assumes "add_inv s" "add_offers envs s e"
  shows "add_inv (add_step D envs cur s e)"
proof (cases e)
  case (AddSettled i r)
  have "rows_ok (ad_next (add_settle envs cur f r t)) (ad_rows (add_settle envs cur f r t))"
    if "rows_ok (ad_next t) (ad_rows t)" for f t
    using that by (simp add: add_settle_def split: sum.splits)
  with AddSettled assms show ?thesis by (simp add: add_inv_def one_flight_def split: if_splits)
next
  case AddSubmit
  then have "\<not> pending s" using assms(2) add_submit_offered by blast
  with AddSubmit assms(1) show ?thesis using add_submit_sel(4) [of s D]
    by (simp add: add_inv_def one_flight_def add_submit_sel(1,2,5))
next
  case AddRow
  with assms(1) show ?thesis by (simp add: add_inv_def one_flight_def rows_ok_snoc)
next
  case Rendered
  with assms(1) show ?thesis by (simp add: add_inv_def one_flight_def) (meson rows_ok_mono le_SucI order_refl)
qed (use assms(1) in \<open>simp_all add: add_inv_def one_flight_def split: if_splits\<close>)

interpretation adding: request_form "add_start cur" "add_offers envs" "add_step D envs cur" add_inv AddSettled
  for cur envs D
proof unfold_locales
  show "add_start cur s \<Longrightarrow> add_inv s" for s
    by (auto simp: add_start_def add_inv_def one_flight_def)
qed (use add_inv_step in \<open>auto simp: add_inv_def\<close>)

definition typed :: "row \<Rightarrow> bool" where
  "typed r = (trim (row_key r) \<noteq> [] \<or> row_value r \<noteq> [])"

lemma kept_rows_from:
  "map snd (filter (\<lambda>(i, r). i \<noteq> at \<and> (trim (row_key r) \<noteq> [] \<or> row_value r \<noteq> [])) (enumerate k rows)) =
   (if at < k then filter typed rows else filter typed (take (at - k) rows) @ filter typed (drop (Suc (at - k)) rows))"
proof (induction rows arbitrary: k)
  case (Cons r rows)
  show ?case
  proof (cases "at < k")
    case True
    with Cons.IH [of "Suc k"] show ?thesis by (simp add: typed_def)
  next
    case False
    show ?thesis
    proof (cases "at = k")
      case True
      with Cons.IH [of "Suc k"] show ?thesis by simp
    next
      case ne: False
      then obtain j where "at - k = Suc j" "at - Suc k = j" using False by (metis Suc_diff_Suc linorder_neqE_nat)
      with Cons.IH [of "Suc k"] False ne show ?thesis by (simp add: typed_def)
    qed
  qed
qed simp

lemma kept_rows_split: "kept_rows at rows = filter typed (take at rows) @ filter typed (drop (Suc at) rows)"
  using kept_rows_from [of at 0 rows] by (simp add: kept_rows_def)

text \<open>Reading back the index the core API writes into a field path.\<close>

lemma read_nat_snoc: "read_nat (ds @ [c]) = 10 * read_nat ds + digit_value c"
  by (simp add: read_nat_def)

lemma digit_value_char: "k < 10 \<Longrightarrow> digit_value (char_of (48 + k)) = k"
  by (simp add: digit_value_def of_char_of)

lemma read_show_nat: "read_nat (show_nat n) = n"
proof (induction n rule: show_nat.induct)
  case (1 n)
  show ?case
  proof (cases "n < 10")
    case True
    then show ?thesis by (simp add: show_nat.simps [of n] read_nat_def digit_value_char)
  next
    case False
    with 1 show ?thesis by (simp add: show_nat.simps [of n] read_nat_snoc digit_value_char)
  qed
qed

lemma show_nat_nonempty: "show_nat n \<noteq> []"
  by (simp add: show_nat.simps [of n])

lemma secret_index_path: "secret_index (''secrets.'' @ show_nat i @ CHR ''.'' # p) = Some i"
proof -
  have digits: "list_all is_digit (show_nat i)" using show_nat_digits by (auto simp: list_all_iff)
  have dot: "\<not> is_digit CHR ''.''" by (simp add: is_digit_def less_eq_char_def)
  have "takeWhile is_digit (show_nat i @ CHR ''.'' # p) = show_nat i"
    using digits dot by (simp add: takeWhile_append2 list_all_iff)
  then show ?thesis by (simp add: secret_index_def startsWith_def Let_def show_nat_nonempty read_show_nat)
qed

lemma named_row_path:
  "i < length (filled rows) \<Longrightarrow> named_row rows (''secrets.'' @ show_nat i @ CHR ''.'' # p) = Some (filled rows ! i)"
  unfolding named_row_def secret_index_path by simp

lemma mapFieldErrors_append:
  "mapFieldErrors (xs @ ys) rows M = mapFieldErrors ys rows (mapFieldErrors xs rows M)"
  by (induction xs rows M rule: mapFieldErrors.induct) auto

lemma mapFieldErrors_untouched:
  "(\<And>f m r. (f, m) \<in> set details \<Longrightarrow> named_row rows f = Some r \<Longrightarrow> row_id r \<noteq> i) \<Longrightarrow> mapFieldErrors details rows M i = M i"
proof (induction details arbitrary: M)
  case (Cons d details)
  obtain f m where d: "d = (f, m)" by (cases d)
  have "mapFieldErrors details rows M' i = M' i" for M' using Cons by auto
  with Cons.prems [of f m] d show ?case by (auto split: option.splits)
qed simp

section \<open>Properties\<close>

text \<open>Adding secrets.  In every reachable state the dialog has at most one batch out, exactly while it shows
  itself as pending; the rows on screen have distinct identities; and every batch it ever sent is not
  empty, with a non-blank key and a non-empty value in each entry.\<close>

theorem batches_are_sound:
  assumes "reachable (add_start cur) (add_offers envs) (add_step D envs cur) s"
  shows "length (flights s) = (if pending s then 1 else 0) \<and> distinct (map row_id (ad_rows s)) \<and>
    (\<forall>c \<in> set (calls (effects s)). \<exists>eid rows t. c = batch_call eid rows t \<and> rows \<noteq> [] \<and>
       (\<forall>r \<in> set rows. trim (row_key r) \<noteq> [] \<and> row_value r \<noteq> []))"
proof -
  have "add_inv s" using assms by (rule adding.always)
  then show ?thesis by (fastforce simp: add_inv_def one_flight_def rows_ok_def list_all_iff sound_batch_def sendable_def)
qed

definition add_demo :: add where
  "add_demo = \<lparr>flights = [], effects = [], pending = False, problem = None, ad_open = False, ad_env = ''e1'',
     ad_rows = [blank 0], ad_expires = [], ad_fields = Map.empty, ad_conflicts = [], ad_notice = None, ad_next = 1\<rparr>"

definition add_opened :: add where
  "add_opened = add_step demo_dates [] ''e1'' add_demo (AddOpenChange True)"

lemma add_opened_reachable: "reachable (add_start ''e1'') (add_offers []) (add_step demo_dates [] ''e1'') add_opened"
  unfolding add_opened_def
  by (intro reachable.event reachable.initial) (simp_all add: add_start_def add_demo_def add_view_def)

lemma add_opened_eval: "add_opened = add_demo\<lparr>ad_open := True\<rparr>"
  by (simp add: add_opened_def)

theorem batches_are_sound_witness: "distinct (map row_id (ad_rows add_opened)) \<and> flights add_opened = []"
  using batches_are_sound [OF add_opened_reachable] by (simp add: add_opened_eval add_demo_def)

text \<open>A pasted file never overwrites what was typed.  When the text pasted into the key field of a row is a
  \<open>.env\<close> file, the rows afterwards are: every other row that held a key or a value, unchanged and in order;
  then one row for each entry of the file whose key none of those has already, up to case; then one blank
  row.  A text that is not such a file changes nothing.\<close>

theorem paste_keeps_what_was_typed:
  "if looksLikeDotenv t \<and> entries (parseDotenv t) \<noteq> []
   then \<exists>kept added last. ad_rows (add_step D envs cur s (PasteKey at t)) = kept @ added @ [last] \<and>
       row_key last = [] \<and> row_value last = [] \<and>
       kept = filter typed (take at (ad_rows s)) @ filter typed (drop (Suc at) (ad_rows s)) \<and>
       map (\<lambda>r. (row_key r, row_value r)) added = map (\<lambda>e. (entry_key e, entry_value e))
         (filter (\<lambda>e. \<forall>r \<in> set kept. toUpperCase (trim (row_key r)) \<noteq> toUpperCase (entry_key e)) (entries (parseDotenv t)))
   else add_step D envs cur s (PasteKey at t) = s"
proof (cases "looksLikeDotenv t \<and> entries (parseDotenv t) \<noteq> []")
  case True
  let ?kept = "kept_rows at (ad_rows s)"
  let ?fresh = "new_entries ?kept (entries (parseDotenv t))"
  let ?last = "blank (ad_next s + length ?fresh)"
  have rows: "ad_rows (add_step D envs cur s (PasteKey at t)) = ?kept @ number_rows (ad_next s) ?fresh @ [?last]"
    using True by (simp add: onPasteIntoKey_def absorb_def Let_def)
  have "?fresh = filter (\<lambda>e. \<forall>r \<in> set ?kept. toUpperCase (trim (row_key r)) \<noteq> toUpperCase (entry_key e)) (entries (parseDotenv t))"
    unfolding new_entries_def by (rule filter_cong) (force simp: image_iff)+
  note added = trans [OF number_rows_props(3) [of "ad_next s" ?fresh] arg_cong [OF this, of "map (\<lambda>e. (entry_key e, entry_value e))"]]
  have blank: "row_key ?last = []" "row_value ?last = []" by (simp_all add: blank_def)
  have "\<exists>kept added last. ad_rows (add_step D envs cur s (PasteKey at t)) = kept @ added @ [last] \<and>
       row_key last = [] \<and> row_value last = [] \<and>
       kept = filter typed (take at (ad_rows s)) @ filter typed (drop (Suc at) (ad_rows s)) \<and>
       map (\<lambda>r. (row_key r, row_value r)) added = map (\<lambda>e. (entry_key e, entry_value e))
         (filter (\<lambda>e. \<forall>r \<in> set kept. toUpperCase (trim (row_key r)) \<noteq> toUpperCase (entry_key e)) (entries (parseDotenv t)))"
    by (rule exI [of _ ?kept], rule exI [of _ "number_rows (ad_next s) ?fresh"], rule exI [of _ ?last])
      (intro conjI rows blank kept_rows_split added)
  then show ?thesis unfolding if_P [OF True] by blast
next
  case False
  then show ?thesis by (auto simp: onPasteIntoKey_def absorb_def Let_def)
qed

lemma map_number_rows:
  "list_all (\<lambda>e. trim (entry_key e) = entry_key e) es \<Longrightarrow>
   map (\<lambda>r. JObj [(''key'', JStr (trim (row_key r))), (''value'', JStr (row_value r))]) (number_rows n es) =
   map (\<lambda>e. JObj [(''key'', JStr (entry_key e)), (''value'', JStr (entry_value e))]) es"
  by (induction n es rule: number_rows.induct) simp_all

lemma filled_number_rows:
  "list_all (\<lambda>e. trim (entry_key e) \<noteq> []) es \<Longrightarrow> filled (number_rows n es @ [blank m]) = number_rows n es"
proof -
  have "filled (number_rows n es) = number_rows n es" if "list_all (\<lambda>e. trim (entry_key e) \<noteq> []) es"
    using that by (induction n es rule: number_rows.induct) (simp_all add: filled_def)
  then show "list_all (\<lambda>e. trim (entry_key e) \<noteq> []) es \<Longrightarrow> filled (number_rows n es @ [blank m]) = number_rows n es"
    by (simp add: filled_def blank_def)
qed

lemma missing_value:
  "find (\<lambda>e. entry_value e = []) es = None \<Longrightarrow> find (\<lambda>r. row_value r = []) (number_rows n es) = None"
  "find (\<lambda>e. entry_value e = []) es = Some e \<Longrightarrow>
     \<exists>i. find (\<lambda>r. row_value r = []) (number_rows n es) = Some \<lparr>row_id = i, row_key = entry_key e, row_value = []\<rparr>"
  by (induction n es rule: number_rows.induct) (auto split: if_splits)

lemma parsed_keys: "list_all (\<lambda>e. trim (entry_key e) = entry_key e \<and> entry_key e \<noteq> []) (entries (parseDotenv t))"
  using parse_loop_ok [of 0 "split_lines t"] valid_key_facts by (fastforce simp: list_all_iff result_ok_def parseDotenv_def)

text \<open>C15: A file pasted is the batch sent.  Paste any text the dialog takes for a .env file into the dialog as it
  opens and send it.  When every entry the parser reads has a value, that makes one request, to the chosen environment, with exactly
  those entries, keys and values, in the file's order, repeated keys and line breaks included; when one has none, nothing is sent and
  the dialog names the first key without a value.  And for a file of double-quoted assignments what the parser reads are the
  assignments written.\<close>

theorem pasted_file_is_sent:
  assumes "looksLikeDotenv t" "ad_rows s = [blank n]" "ad_expires s = []"
  shows "(let es = entries (parseDotenv t); u = add_step D envs cur (add_step D envs cur s (PasteKey 0 t)) AddSubmit in
     es \<noteq> [] \<and>
     (case find (\<lambda>e. entry_value e = []) es of
        None \<Rightarrow> calls (effects u) = calls (effects s) @ [post_call (''/api/environments/'' @ ad_env s @ ''/secrets/batch'') (JObj [
          (''secrets'', JArr (map (\<lambda>e. JObj [(''key'', JStr (entry_key e)), (''value'', JStr (entry_value e))]) es)),
          (''expiresAt'', JStr [])])]
      | Some e \<Rightarrow> effects u = effects s \<and> problem u = Some (entry_key e @ '' has no value.''))) \<and>
    (\<forall>as. t = render dquote as \<and> list_all (renderable dquote) as \<longrightarrow> entries (parseDotenv t) = as)"
proof -
  let ?es = "entries (parseDotenv t)" and ?s = "add_step D envs cur s (PasteKey 0 t)"
  have es: "?es \<noteq> []" using assms(1) by (simp add: looksLikeDotenv_def Let_def)
  have kept: "kept_rows 0 (ad_rows s) = []" by (simp add: kept_rows_split assms(2))
  have rows: "ad_rows ?s = number_rows (ad_next s) ?es @ [blank (ad_next s + length ?es)]"
    using assms(1) es kept by (simp add: onPasteIntoKey_def absorb_def Let_def new_entries_def)
  have frame: "effects ?s = effects s" "ad_env ?s = ad_env s" "ad_expires ?s = []"
    using assms(3) by (simp_all add: onPasteIntoKey_def absorb_def Let_def)
  have keys: "list_all (\<lambda>e. trim (entry_key e) \<noteq> []) ?es" "list_all (\<lambda>e. trim (entry_key e) = entry_key e) ?es"
    using parsed_keys [of t] by (auto simp: list_all_iff)
  have filled: "filled (ad_rows ?s) = number_rows (ad_next s) ?es"
    unfolding rows using keys(1) by (rule filled_number_rows)
  have some: "number_rows (ad_next s) ?es \<noteq> []" using es by (cases ?es) simp_all
  have sent: "case find (\<lambda>e. entry_value e = []) ?es of
        None \<Rightarrow> calls (effects (add_submit D ?s)) = calls (effects s) @ [post_call (''/api/environments/'' @ ad_env s @ ''/secrets/batch'') (JObj [
          (''secrets'', JArr (map (\<lambda>e. JObj [(''key'', JStr (entry_key e)), (''value'', JStr (entry_value e))]) ?es)),
          (''expiresAt'', JStr [])])]
      | Some e \<Rightarrow> effects (add_submit D ?s) = effects s \<and> problem (add_submit D ?s) = Some (entry_key e @ '' has no value.'')"
  proof (cases "find (\<lambda>e. entry_value e = []) ?es")
    case None
    then have "find (\<lambda>r. row_value r = []) (number_rows (ad_next s) ?es) = None" using missing_value(1) by blast
    with None filled frame some map_number_rows [OF keys(2)] show ?thesis
      by (simp add: add_submit_def Let_def batch_call_def add_body_def expiry_iso_def del: add_step.simps(6))
  next
    case (Some e)
    then obtain i where "find (\<lambda>r. row_value r = []) (number_rows (ad_next s) ?es) = Some \<lparr>row_id = i, row_key = entry_key e, row_value = []\<rparr>"
      using missing_value(2) by blast
    with Some filled frame some show ?thesis by (simp add: add_submit_def Let_def del: add_step.simps(6))
  qed
  have "entries (parseDotenv t) = as" if "t = render dquote as \<and> list_all (renderable dquote) as" for as
    using that by (simp add: parseDotenv_render)
  with es sent show ?thesis by (simp add: Let_def del: add_step.simps(6))
qed

lemma pasted_demo:
  "parseDotenv (''# a note'' @ newline # ''export B=2'') = \<lparr>entries = [\<lparr>entry_key = ''B'', entry_value = ''2''\<rparr>], skipped = []\<rparr>"
  by code_simp

theorem pasted_file_is_sent_witness:
  "calls (effects (add_step demo_dates [] ''e1'' (add_step demo_dates [] ''e1'' add_opened
      (PasteKey 0 (''# a note'' @ newline # ''export B=2''))) AddSubmit)) =
    [post_call ''/api/environments/e1/secrets/batch'' (JObj [
      (''secrets'', JArr [JObj [(''key'', JStr ''B''), (''value'', JStr ''2'')]]), (''expiresAt'', JStr [])])]"
proof -
  have t: "looksLikeDotenv (''# a note'' @ newline # ''export B=2'')" unfolding looksLikeDotenv_def pasted_demo by simp
  have s: "ad_rows add_opened = [blank 0]" "ad_expires add_opened = []" "effects add_opened = []" "ad_env add_opened = ''e1''"
    by (simp_all add: add_opened_eval add_demo_def)
  show ?thesis using pasted_file_is_sent [OF t s(1,2), of demo_dates "[]" "''e1''"] unfolding pasted_demo s(3,4) by (simp add: Let_def del: add_step.simps)
qed

text \<open>A refusal's messages reach the rows they are about.  When the core API blames entry \<open>i\<close> of the batch in
  a field \<open>secrets.i.\<close>\<open>...\<close>, and no later message is about that row, the message is shown at the row that was
  sent as entry \<open>i\<close>, whatever blank rows stand between; and a conflict message lists that row's key.\<close>

theorem messages_reach_their_rows:
  assumes "distinct (map row_id rows)" "i < length (filled rows)"
    and "details = before @ (''secrets.'' @ show_nat i @ CHR ''.'' # p, m) # after"
    and "\<And>f m r. (f, m) \<in> set after \<Longrightarrow> named_row rows f = Some r \<Longrightarrow> r \<noteq> filled rows ! i"
  shows "mapFieldErrors details rows Map.empty (row_id (filled rows ! i)) = Some m \<and>
    (includes_str m ''already has that key'' \<longrightarrow> trim (row_key (filled rows ! i)) \<in> set (conflictingKeys details rows)) \<and>
    (\<exists>secrets. field (add_body (filled rows) t) ''secrets'' = Some (JArr secrets) \<and> i < length secrets \<and>
       field (secrets ! i) ''key'' = Some (JStr (trim (row_key (filled rows ! i)))))"
proof -
  let ?r = "filled rows ! i"
  have inj: "inj_on row_id (set rows)" using assms(1) by (simp add: distinct_map)
  have sub: "set (filled rows) \<subseteq> set rows" by (auto simp: filled_def)
  have "row_id r \<noteq> row_id ?r" if "(f, m') \<in> set after" "named_row rows f = Some r" for f m' r
  proof -
    have "r \<in> set (filled rows)" using that(2) by (auto simp: named_row_def split: option.splits if_splits)
    with assms(4) [OF that] inj sub assms(2) show ?thesis by (metis inj_onD nth_mem subsetD)
  qed
  then have "mapFieldErrors details rows Map.empty (row_id ?r) = Some m"
    using mapFieldErrors_untouched [of after rows "row_id ?r"]
    by (simp add: assms(3) mapFieldErrors_append named_row_path [OF assms(2)] del: append.simps)
  moreover have "includes_str m already_there \<Longrightarrow> trim (row_key ?r) \<in> set (conflictingKeys details rows)"
    by (simp add: assms(3) conflictingKeys_def List.map_filter_def named_row_path [OF assms(2)] del: append.simps)
  moreover have "\<exists>secrets. field (add_body (filled rows) t) ''secrets'' = Some (JArr secrets) \<and> i < length secrets \<and>
       field (secrets ! i) ''key'' = Some (JStr (trim (row_key ?r)))"
    using assms(2) by (simp add: add_body_def)
  ultimately show ?thesis by (simp add: already_there_def)
qed

theorem messages_reach_their_rows_witness:
  "mapFieldErrors [(''secrets.1.key'', ''bad'')]
    [\<lparr>row_id = 4, row_key = ''A'', row_value = ''x''\<rparr>, blank 7, \<lparr>row_id = 9, row_key = ''B'', row_value = ''y''\<rparr>] Map.empty 9 = Some ''bad''"
proof -
  define rows where "rows = [\<lparr>row_id = 4, row_key = ''A'', row_value = ''x''\<rparr>, blank 7, \<lparr>row_id = 9, row_key = ''B'', row_value = ''y''\<rparr>]"
  define details where "details = [(''secrets.1.key'', ''bad'')]"
  have f: "filled rows = [\<lparr>row_id = 4, row_key = ''A'', row_value = ''x''\<rparr>, \<lparr>row_id = 9, row_key = ''B'', row_value = ''y''\<rparr>]"
    by (simp add: rows_def filled_def blank_def trim_id js_ws_def)
  have d: "details = [] @ (''secrets.'' @ show_nat 1 @ CHR ''.'' # ''key'', ''bad'') # []"
    unfolding details_def by code_simp
  have ids: "distinct (map row_id rows)" "1 < length (filled rows)"
    unfolding f by (simp_all add: rows_def blank_def)
  have "mapFieldErrors details rows Map.empty (row_id (filled rows ! 1)) = Some ''bad''"
    using messages_reach_their_rows [OF ids d] by simp
  then show ?thesis by (simp add: f) (simp add: rows_def details_def)
qed

text \<open>What closing forgets.  Dismissing the dialog and a successful batch leave one blank row, no date, no
  notice and no error; but the Cancel button leaves every row as it was, values included, for the next time
  the dialog opens, and no way of closing takes back the field messages and conflicts of a refusal.\<close>

theorem closing_forgets_except_by_cancel:
  "(let s' = add_step D envs cur s (AddOpenChange False) in
      \<not> ad_open s' \<and> ad_rows s' = [blank (ad_next s)] \<and> ad_expires s' = [] \<and> ad_notice s' = None \<and> problem s' = None \<and>
      ad_conflicts s' = ad_conflicts s \<and> ad_fields s' = ad_fields s) \<and>
   (let s' = add_step D envs cur s AddCancel in \<not> ad_open s' \<and> ad_rows s' = ad_rows s \<and>
      ad_rows (add_step D envs cur s' (AddOpenChange True)) = ad_rows s) \<and>
   (\<forall>i j. i < length (flights s) \<and> j \<noteq> JNull \<longrightarrow>
      (let s' = add_step D envs cur s (AddSettled i (Reply 200 (Some j))) in
        \<not> ad_open s' \<and> ad_rows s' = [blank (ad_next s)] \<and> ad_conflicts s' = ad_conflicts s))"
  by (simp add: Let_def add_settle_def apiResult_def reply_ok_def payload_of_def result_field_def)

theorem closing_forgets_except_by_cancel_witness:
  "ad_rows (add_step demo_dates [] ''e1'' (edit_row 0 (\<lambda>r. r\<lparr>row_value := ''s3cret''\<rparr>) add_opened) AddCancel) =
    [\<lparr>row_id = 0, row_key = [], row_value = ''s3cret''\<rparr>]"
  using closing_forgets_except_by_cancel [of demo_dates "[]" "''e1''" "edit_row 0 (\<lambda>r. r\<lparr>row_value := ''s3cret''\<rparr>) add_opened"]
  by (simp add: Let_def add_opened_eval add_demo_def edit_row_def blank_def)

end
