(* ===== verification/AccountForms.thy ===== *)
theory AccountForms imports ClientApi begin

text \<open>
  The forms around an account: the panel that shows recovery codes (web/components/recovery-codes-panel.tsx),
  sign-up (signup-form.tsx), a new password with a recovery code (forgot-password-form.tsx) and with a
  recovery link (redeem-recovery-form.tsx), and issuing a fresh set of codes (recovery-codes-settings.tsx).
\<close>

section \<open>The recovery codes panel\<close>

text \<open>
  \<open>pn_writes\<close> counts clipboard writes not yet settled, \<open>pn_timers\<close> the two-second timers running.  The codes
  are whatever JSON value the parent was handed.
\<close>

record panel =
  pn_copied :: bool
  pn_writes :: nat
  pn_timers :: nat

datatype panel_event = PanelCopy | PanelWritten bool | PanelTimer | PanelDownload

definition panel_start :: panel where
  "panel_start = \<lparr>pn_copied = False, pn_writes = 0, pn_timers = 0\<rparr>"

text \<open>\<open>codes.join("\n")\<close>\<close>

definition codes_text :: "json \<Rightarrow> string" where
  "codes_text codes = (case codes of JArr cs \<Rightarrow> join [newline] (map json_string cs) | j \<Rightarrow> json_string j)"

definition download_text :: "json \<Rightarrow> string" where
  "download_text codes = ''Warder recovery codes'' @ [newline] @
     ''Each one works once. Keep them somewhere you can reach without this account.'' @ [newline, newline] @
     codes_text codes @ [newline]"

fun panel_step :: "json \<Rightarrow> panel \<Rightarrow> panel_event \<Rightarrow> panel \<times> effect list" where
  "panel_step codes p PanelCopy = (p\<lparr>pn_writes := Suc (pn_writes p)\<rparr>, [Copies (codes_text codes)])"
| "panel_step codes p (PanelWritten ok) =
     (if pn_writes p = 0 then (p, [])
      else if ok then (p\<lparr>pn_writes := pn_writes p - 1, pn_copied := True, pn_timers := Suc (pn_timers p)\<rparr>, [])
      else (p\<lparr>pn_writes := pn_writes p - 1\<rparr>, []))"
| "panel_step codes p PanelTimer =
     (if pn_timers p = 0 then (p, []) else (p\<lparr>pn_timers := pn_timers p - 1, pn_copied := False\<rparr>, []))"
| "panel_step codes p PanelDownload = (p, [Saves ''warder-recovery-codes.txt'' (download_text codes)])"

definition panel_view :: "json \<Rightarrow> panel \<Rightarrow> panel_event elem list" where
  "panel_view codes p =
     (case codes of JArr cs \<Rightarrow> map (\<lambda>c. Note (json_string c)) cs | _ \<Rightarrow> []) @
     [Press (if pn_copied p then ''Copied'' else ''Copy'') PanelCopy False,
      Press ''Download'' PanelDownload False]"

fun panel_offers :: "json \<Rightarrow> panel \<Rightarrow> panel_event \<Rightarrow> bool" where
  "panel_offers codes p (PanelWritten ok) = (0 < pn_writes p)"
| "panel_offers codes p PanelTimer = (0 < pn_timers p)"
| "panel_offers codes p e = pressable (panel_view codes p) e"

section \<open>Sign-up\<close>

definition MIN_PASSWORD_LENGTH :: nat where "MIN_PASSWORD_LENGTH = 12"

text \<open>\<open>su_codes\<close> is \<open>null\<close> until the account exists.\<close>

record signup = "unit form" +
  su_name :: string
  su_email :: string
  su_password :: string
  su_fields :: json
  su_codes :: json
  su_acknowledged :: bool
  su_panel :: panel

datatype signup_event =
    SignupName string
  | SignupEmail string
  | SignupPassword string
  | SignupSubmit
  | SignupSettled nat reply
  | SignupAcknowledge
  | SignupContinue
  | SignupPanel panel_event

definition signup_start :: "signup \<Rightarrow> bool" where
  "signup_start s = (s = \<lparr>flights = [], effects = [], pending = False, problem = None, su_name = [], su_email = [],
     su_password = [], su_fields = JObj [], su_codes = JNull, su_acknowledged = False, su_panel = panel_start\<rparr>)"

definition passwordLongEnough :: "signup \<Rightarrow> bool" where
  "passwordLongEnough s = (MIN_PASSWORD_LENGTH \<le> length (su_password s))"

definition signup_call :: "string \<Rightarrow> string \<Rightarrow> string \<Rightarrow> api_call" where
  "signup_call n e p = post_call ''/api/auth/signup''
     (obj [(''name'', Some (JStr n)), (''email'', Some (JStr e)), (''password'', Some (JStr p))])"

definition signup_submit :: "signup \<Rightarrow> signup" where
  "signup_submit s0 =
     (let s = s0\<lparr>problem := None, su_fields := JObj []\<rparr> in
      if \<not> passwordLongEnough s
      then s\<lparr>su_fields := JObj [(''password'', JStr (''Use at least '' @ show_nat MIN_PASSWORD_LENGTH @ '' characters.''))]\<rparr>
      else call_api () (signup_call (su_name s) (su_email s) (su_password s)) (s\<lparr>pending := True\<rparr>))"

definition signup_settle :: "reply \<Rightarrow> signup \<Rightarrow> signup" where
  "signup_settle r s =
     (case then_ok (apiResult r) (\<lambda>j. result_field j ''recoveryCodes'') of
        Inl e \<Rightarrow> (case failure_details e of
            Some d \<Rightarrow> fail_with ''Could not create your account.'' e (s\<lparr>su_fields := d\<rparr>)
          | None \<Rightarrow> fail_with ''Could not create your account.'' e s)
      | Inr v \<Rightarrow> s\<lparr>su_codes := the (coalesce v (Some (JArr []))), su_panel := panel_start\<rparr>)
     \<lparr>su_password := [], pending := False\<rparr>"

definition in_panel :: "panel \<times> effect list \<Rightarrow> signup \<Rightarrow> signup" where
  "in_panel pe s = s\<lparr>su_panel := fst pe, effects := effects s @ snd pe\<rparr>"

fun signup_step :: "signup \<Rightarrow> signup_event \<Rightarrow> signup" where
  "signup_step s (SignupName t) = s\<lparr>su_name := t\<rparr>"
| "signup_step s (SignupEmail t) = s\<lparr>su_email := t\<rparr>"
| "signup_step s (SignupPassword t) = s\<lparr>su_password := t\<rparr>"
| "signup_step s SignupSubmit = signup_submit s"
| "signup_step s (SignupSettled i r) = (if i < length (flights s) then signup_settle r (arrive i r s) else s)"
| "signup_step s SignupAcknowledge = s\<lparr>su_acknowledged := \<not> su_acknowledged s\<rparr>"
| "signup_step s SignupContinue = emit Refreshes (emit (Visits ''/welcome'') s)"
| "signup_step s (SignupPanel e) = in_panel (panel_step (su_codes s) (su_panel s) e) s"

definition codes_view :: "signup \<Rightarrow> signup_event elem list" where
  "codes_view s =
     [Note ''Save these recovery codes'',
      Note ''Warder sends no email, so these are how you get back in if you forget your password. Each one works once, and they are stored hashed: this is the only time they can be shown.''] @
     map (map_elem SignupPanel) (panel_view (su_codes s) (su_panel s)) @
     [Press ''I have saved these somewhere I can reach without this account'' SignupAcknowledge False,
      Press ''Continue'' SignupContinue (\<not> su_acknowledged s)]"

definition signup_form_view :: "signup \<Rightarrow> signup_event elem list" where
  "signup_form_view s =
     [Field ''name'' (su_name s)] @ field_note (su_fields s) ''name'' @
     [Field ''email'' (su_email s)] @ field_note (su_fields s) ''email'' @
     [Field ''password'' (su_password s)] @ field_note (su_fields s) ''password'' @
     [Note (''At least '' @ show_nat MIN_PASSWORD_LENGTH @ '' characters.'')] @
     problem_note s @
     [Press ''Create account'' SignupSubmit (pending s)]"

definition signup_view :: "signup \<Rightarrow> signup_event elem list" where
  "signup_view s = (if truthy (Some (su_codes s)) then codes_view s else signup_form_view s)"

fun signup_offers :: "signup \<Rightarrow> signup_event \<Rightarrow> bool" where
  "signup_offers s (SignupName t) = editable (signup_view s) ''name''"
| "signup_offers s (SignupEmail t) = editable (signup_view s) ''email''"
| "signup_offers s (SignupPassword t) = editable (signup_view s) ''password''"
| "signup_offers s (SignupSettled i r) = (i < length (flights s))"
| "signup_offers s (SignupPanel e) = (truthy (Some (su_codes s)) \<and> panel_offers (su_codes s) (su_panel s) e)"
| "signup_offers s e = pressable (signup_view s) e"

section \<open>A new password with a recovery code\<close>

text \<open>\<open>fg_remaining\<close> is \<open>null\<close> until the password is set; a success leaves \<open>pending\<close> as it is.\<close>

record forgot = "unit form" +
  fg_email :: string
  fg_code :: string
  fg_password :: string
  fg_fields :: json
  fg_remaining :: jsval

datatype forgot_event =
    ForgotEmail string
  | ForgotCode string
  | ForgotPassword string
  | ForgotSubmit
  | ForgotSettled nat reply
  | ForgotSignIn

definition forgot_start :: "forgot \<Rightarrow> bool" where
  "forgot_start s = (s = \<lparr>flights = [], effects = [], pending = False, problem = None, fg_email = [], fg_code = [],
     fg_password = [], fg_fields = JObj [], fg_remaining = Some JNull\<rparr>)"

definition forgot_call :: "forgot \<Rightarrow> api_call" where
  "forgot_call s = post_call ''/api/auth/password/reset''
     (obj [(''email'', Some (JStr (fg_email s))), (''recoveryCode'', Some (JStr (fg_code s))),
       (''newPassword'', Some (JStr (fg_password s)))])"

definition forgot_settle :: "reply \<Rightarrow> forgot \<Rightarrow> forgot" where
  "forgot_settle r s =
     (case then_ok (apiResult r) (\<lambda>j. result_field j ''remainingCodes'') of
        Inl e \<Rightarrow> (fail_with ''That did not work. Check the code and try again.'' e
            (case failure_details e of Some d \<Rightarrow> s\<lparr>fg_fields := d\<rparr> | None \<Rightarrow> s))\<lparr>pending := False\<rparr>
      | Inr v \<Rightarrow> s\<lparr>fg_remaining := v\<rparr>)
     \<lparr>fg_password := []\<rparr>"

fun forgot_step :: "forgot \<Rightarrow> forgot_event \<Rightarrow> forgot" where
  "forgot_step s (ForgotEmail t) = s\<lparr>fg_email := t\<rparr>"
| "forgot_step s (ForgotCode t) = s\<lparr>fg_code := t\<rparr>"
| "forgot_step s (ForgotPassword t) = s\<lparr>fg_password := t\<rparr>"
| "forgot_step s ForgotSubmit = call_api () (forgot_call s) ((start_pending s)\<lparr>fg_fields := JObj []\<rparr>)"
| "forgot_step s (ForgotSettled i r) = (if i < length (flights s) then forgot_settle r (arrive i r s) else s)"
| "forgot_step s ForgotSignIn = emit (Visits ''/login'') s"

definition remaining_note :: "jsval \<Rightarrow> string" where
  "remaining_note v = ''Your password is set and every session has been signed out. You have '' @ js_string v @ '' '' @
     (if v = Some (JNum 1) then ''code'' else ''codes'') @ '' left.'' @
     (case v of Some (JNum n) \<Rightarrow> if n \<le> 2 then '' Generate a new set from Settings once you are in.'' else [] | _ \<Rightarrow> [])"

definition forgot_view :: "forgot \<Rightarrow> forgot_event elem list" where
  "forgot_view s = (if fg_remaining s \<noteq> Some JNull
     then [Note (remaining_note (fg_remaining s)), Press ''Sign in'' ForgotSignIn False]
     else [Field ''email'' (fg_email s), Field ''recoveryCode'' (fg_code s)] @ field_note (fg_fields s) ''recoveryCode'' @
       [Field ''newPassword'' (fg_password s)] @ field_note (fg_fields s) ''newPassword'' @
       [Note ''At least 12 characters. Every session signs out when this changes.''] @
       problem_note s @ [Press ''Set a new password'' ForgotSubmit (pending s)])"

fun forgot_offers :: "forgot \<Rightarrow> forgot_event \<Rightarrow> bool" where
  "forgot_offers s (ForgotEmail t) = editable (forgot_view s) ''email''"
| "forgot_offers s (ForgotCode t) = editable (forgot_view s) ''recoveryCode''"
| "forgot_offers s (ForgotPassword t) = editable (forgot_view s) ''newPassword''"
| "forgot_offers s (ForgotSettled i r) = (i < length (flights s))"
| "forgot_offers s e = pressable (forgot_view s) e"

section \<open>A new password with a recovery link\<close>

text \<open>\<open>hash.replace(/^#/, "").trim()\<close>\<close>

definition fragment_of :: "string \<Rightarrow> string" where
  "fragment_of hash = trim (case hash of CHR ''#'' # t \<Rightarrow> t | _ \<Rightarrow> hash)"

record redeem = "unit form" +
  rd_token :: "string option"
  rd_ready :: bool
  rd_password :: string
  rd_fields :: json
  rd_done :: jsval
  rd_removed :: json

datatype redeem_event =
    RedeemMounted string
  | RedeemPassword string
  | RedeemSubmit
  | RedeemSettled nat reply
  | RedeemSignIn

definition redeem_start :: "redeem \<Rightarrow> bool" where
  "redeem_start s = (s = \<lparr>flights = [], effects = [], pending = False, problem = None, rd_token = None, rd_ready = False,
     rd_password = [], rd_fields = JObj [], rd_done = Some JNull, rd_removed = JNum 0\<rparr>)"

definition redeem_mount :: "string \<Rightarrow> redeem \<Rightarrow> redeem" where
  "redeem_mount hash s =
     (if fragment_of hash \<noteq> [] then emit ClearsFragment (s\<lparr>rd_token := Some (fragment_of hash)\<rparr>) else s)\<lparr>rd_ready := True\<rparr>"

definition redeem_call :: "string \<Rightarrow> string \<Rightarrow> api_call" where
  "redeem_call t p = post_call ''/api/auth/password/recover'' (obj [(''token'', Some (JStr t)), (''newPassword'', Some (JStr p))])"

definition redeem_submit :: "redeem \<Rightarrow> redeem" where
  "redeem_submit s0 =
     (let s = s0\<lparr>problem := None, rd_fields := JObj []\<rparr> in
      case rd_token s of
        Some (c # cs) \<Rightarrow> call_api () (redeem_call (c # cs) (rd_password s)) (s\<lparr>pending := True\<rparr>)
      | _ \<Rightarrow> s\<lparr>problem := Some ''This link is missing its token. Ask for a new one.''\<rparr>)"

definition redeem_settle :: "reply \<Rightarrow> redeem \<Rightarrow> redeem" where
  "redeem_settle r s =
     (case then_ok (apiResult r) (\<lambda>j. then_ok (result_field j ''email'') (\<lambda>v. Inr (v, field j ''passkeysRemoved''))) of
        Inl e \<Rightarrow> (fail_with ''This link could not be used.'' e
            (case failure_details e of Some d \<Rightarrow> s\<lparr>rd_fields := d\<rparr> | None \<Rightarrow> s))\<lparr>pending := False\<rparr>
      | Inr (v, n) \<Rightarrow> s\<lparr>rd_done := v, rd_removed := the (coalesce n (Some (JNum 0)))\<rparr>)
     \<lparr>rd_password := []\<rparr>"

fun redeem_step :: "redeem \<Rightarrow> redeem_event \<Rightarrow> redeem" where
  "redeem_step s (RedeemMounted hash) = redeem_mount hash s"
| "redeem_step s (RedeemPassword t) = s\<lparr>rd_password := t\<rparr>"
| "redeem_step s RedeemSubmit = redeem_submit s"
| "redeem_step s (RedeemSettled i r) = (if i < length (flights s) then redeem_settle r (arrive i r s) else s)"
| "redeem_step s RedeemSignIn = emit (Visits ''/login'') s"

definition token_known :: "redeem \<Rightarrow> bool" where
  "token_known s = (case rd_token s of Some (c # cs) \<Rightarrow> True | _ \<Rightarrow> False)"

definition redeem_view :: "redeem \<Rightarrow> redeem_event elem list" where
  "redeem_view s =
     (if \<not> rd_ready s then [Note ''Checking the link...'']
      else if truthy (rd_done s) then
        [Note (''Your password is set. Sign in as '' @ js_string (rd_done s) @ ''.'')] @
        (case rd_removed s of JNum n \<Rightarrow> if n > 0
           then [Note ''Your old passkeys were removed. Add new ones, and issue fresh recovery codes, from Settings once you're in.''] else [] | _ \<Rightarrow> []) @
        [Press ''Sign in'' RedeemSignIn False]
      else if \<not> token_known s then
        [Alert (JStr ''This link does not carry a token. It may have been shortened or truncated: the part after the # matters. Ask whoever issued it for a fresh one.'')]
      else [Field ''newPassword'' (rd_password s)] @ field_note (rd_fields s) ''newPassword'' @
        [Note ''At least 12 characters.''] @ problem_note s @ [Press ''Set password'' RedeemSubmit (pending s)])"

fun redeem_offers :: "redeem \<Rightarrow> redeem_event \<Rightarrow> bool" where
  "redeem_offers s (RedeemMounted hash) = (\<not> rd_ready s)"
| "redeem_offers s (RedeemPassword t) = editable (redeem_view s) ''newPassword''"
| "redeem_offers s (RedeemSettled i r) = (i < length (flights s))"
| "redeem_offers s e = pressable (redeem_view s) e"

section \<open>A fresh set of codes\<close>

text \<open>
  \<open>result.codes.length\<close> throws when there are no codes in the answer; by then \<open>setCodes\<close> has been called
  with what there was.
\<close>

record settings = "unit form" +
  rs_count :: json
  rs_codes :: jsval
  rs_confirming :: bool
  rs_panel :: panel

datatype settings_event =
    CodesPress
  | CodesIssue
  | CodesCancel
  | CodesSettled nat reply
  | CodesSaved
  | CodesPanel panel_event

definition settings_start :: "int \<Rightarrow> settings \<Rightarrow> bool" where
  "settings_start n s = (s = \<lparr>flights = [], effects = [], pending = False, problem = None, rs_count = JNum n, rs_codes = Some JNull,
     rs_confirming = False, rs_panel = panel_start\<rparr>)"

definition issue_call :: api_call where
  "issue_call = \<lparr>ac_path = ''/api/auth/recovery-codes'', ac_method = ''POST'', ac_body = None\<rparr>"

definition issue :: "settings \<Rightarrow> settings" where
  "issue s = call_api () issue_call (s\<lparr>pending := True\<rparr>)"

definition codes_count :: "jsval \<Rightarrow> failure + json" where
  "codes_count v = (case v of
     Some (JArr cs) \<Rightarrow> Inr (JNum (int (length cs)))
   | _ \<Rightarrow> Inl (Thrown (ErrorValue (exn_message TypeError))))"

definition settings_settle :: "reply \<Rightarrow> settings \<Rightarrow> settings" where
  "settings_settle r s =
     (case then_ok (apiResult r) (\<lambda>j. result_field j ''codes'') of
        Inl e \<Rightarrow> emit (ToastsError (failure_message ''Could not issue new codes.'' e)) s
      | Inr v \<Rightarrow>
          (let t = s\<lparr>rs_codes := v, rs_panel := panel_start\<rparr> in
           case codes_count v of
             Inl e \<Rightarrow> emit (ToastsError (failure_message ''Could not issue new codes.'' e)) t
           | Inr n \<Rightarrow> t\<lparr>rs_count := n\<rparr>))
     \<lparr>pending := False, rs_confirming := False\<rparr>"

fun settings_step :: "settings \<Rightarrow> settings_event \<Rightarrow> settings" where
  "settings_step s CodesPress = (if rs_count s = JNum 0 then issue s else s\<lparr>rs_confirming := True\<rparr>)"
| "settings_step s CodesIssue = issue s"
| "settings_step s CodesCancel = s\<lparr>rs_confirming := False\<rparr>"
| "settings_step s (CodesSettled i r) = (if i < length (flights s) then settings_settle r (arrive i r s) else s)"
| "settings_step s CodesSaved = s\<lparr>rs_codes := Some JNull\<rparr>"
| "settings_step s (CodesPanel e) =
     (let pe = panel_step (case rs_codes s of Some j \<Rightarrow> j | None \<Rightarrow> JNull) (rs_panel s) e
      in s\<lparr>rs_panel := fst pe, effects := effects s @ snd pe\<rparr>)"

definition count_note :: "json \<Rightarrow> string" where
  "count_note n = (if n = JNum 0
     then ''You have no unused recovery codes. Without them, a lost passkey or password can't be recovered on your own.''
     else json_string n @ '' unused recovery '' @ (if n = JNum 1 then ''code'' else ''codes'') @
       '' left. Each one signs you in once if you lose your passkey or password.'')"

definition settings_view :: "settings \<Rightarrow> settings_event elem list" where
  "settings_view s =
     (if truthy (rs_codes s) then
        [Note ''Save these now. They won't be shown again, and your old codes no longer work.''] @
        map (map_elem CodesPanel) (panel_view (the (rs_codes s)) (rs_panel s)) @
        [Press ''I've saved them'' CodesSaved False]
      else [Note (count_note (rs_count s))] @
        (if rs_confirming s then
           [Note ''This replaces every unused code.'', Press ''Issue new codes'' CodesIssue (pending s), Press ''Cancel'' CodesCancel (pending s)]
         else [Press (if rs_count s = JNum 0 then ''Issue recovery codes'' else ''Issue new codes'') CodesPress (pending s)]))"

fun settings_offers :: "settings \<Rightarrow> settings_event \<Rightarrow> bool" where
  "settings_offers s (CodesSettled i r) = (i < length (flights s))"
| "settings_offers s (CodesPanel e) = (truthy (rs_codes s) \<and> panel_offers (the (rs_codes s)) (rs_panel s) e)"
| "settings_offers s e = pressable (settings_view s) e"

section \<open>Lemmas\<close>

definition visits :: "effect list \<Rightarrow> string list" where
  "visits xs = List.map_filter (\<lambda>x. case x of Visits p \<Rightarrow> Some p | _ \<Rightarrow> None) xs"

lemma visits_simps [simp]:
  "visits [] = []" "visits (xs @ ys) = visits xs @ visits ys" "visits (Calls c # xs) = visits xs"
  "visits (Visits p # xs) = p # visits xs" "visits (Refreshes # xs) = visits xs" "visits (Loads p # xs) = visits xs"
  "visits (Copies t # xs) = visits xs" "visits (Saves f t # xs) = visits xs" "visits (ToastsError t # xs) = visits xs"
  "visits (ClearsFragment # xs) = visits xs"
  by (simp_all add: visits_def List.map_filter_def)

lemma panel_quiet [simp]: "calls (snd (panel_step codes p e)) = []" "visits (snd (panel_step codes p e)) = []"
  by (cases e; simp)+

lemma panel_fields_inert [simp]: "\<not> editable (panel_view codes p) n"
  by (auto simp: panel_view_def editable_def split: json.splits)

lemma panel_pressable: "pressable (panel_view codes p) e \<longleftrightarrow> e = PanelCopy \<or> e = PanelDownload"
proof -
  have "\<not> pressable (case codes of JArr cs \<Rightarrow> map (\<lambda>c. Note (json_string c)) cs | _ \<Rightarrow> []) e"
    by (auto simp: pressable_def split: json.splits)
  then show ?thesis by (auto simp: panel_view_def)
qed

lemma signup_frame [simp]:
  "su_codes (arrive i r s) = su_codes s" "su_password (arrive i r s) = su_password s" "su_acknowledged (arrive i r s) = su_acknowledged s"
  "su_codes (emit x s) = su_codes s" "su_codes (call_api f c s) = su_codes s"
  "su_codes (fail_with b e s) = su_codes s"
  by (simp_all add: form_defs)

lemma signup_settle_sel [simp]:
  "flights (signup_settle r s) = flights s" "\<not> pending (signup_settle r s)" "su_password (signup_settle r s) = []"
  "effects (signup_settle r s) = effects s"
  by (simp_all add: signup_settle_def split: sum.splits option.splits)

lemma signup_submit_sel [simp]:
  "su_codes (signup_submit s) = su_codes s" "visits (effects (signup_submit s)) = visits (effects s)"
  by (simp_all add: signup_submit_def Let_def)

lemma in_panel_sel [simp]:
  "flights (in_panel pe s) = flights s" "pending (in_panel pe s) = pending s" "su_codes (in_panel pe s) = su_codes s"
  "effects (in_panel pe s) = effects s @ snd pe"
  by (simp_all add: in_panel_def)

lemma signup_view_offers:
  "editable (signup_view s) n \<longleftrightarrow> \<not> truthy (Some (su_codes s)) \<and> (n = ''name'' \<or> n = ''email'' \<or> n = ''password'')"
  "pressable (signup_view s) e \<longleftrightarrow>
     (if truthy (Some (su_codes s))
      then e = SignupAcknowledge \<or> e = SignupContinue \<and> su_acknowledged s \<or> e = SignupPanel PanelCopy \<or> e = SignupPanel PanelDownload
      else e = SignupSubmit \<and> \<not> pending s)"
  by (auto simp: signup_view_def codes_view_def signup_form_view_def pressable_map_elem panel_pressable)

definition long_signup :: "api_call \<Rightarrow> bool" where
  "long_signup c = (\<exists>n e p. c = signup_call n e p \<and> MIN_PASSWORD_LENGTH \<le> length p)"

definition signup_inv :: "signup \<Rightarrow> bool" where
  "signup_inv s = (one_flight s \<and> (truthy (Some (su_codes s)) \<longrightarrow> \<not> pending s) \<and> list_all long_signup (calls (effects s)))"

lemma signup_inv_step:
  assumes "signup_inv s" "signup_offers s e"
  shows "signup_inv (signup_step s e)"
proof (cases e)
  case (SignupSettled i r)
  with assms show ?thesis by (simp add: signup_inv_def one_flight_def split: if_splits)
next
  case SignupSubmit
  have "long_signup (signup_call n m p)" if "MIN_PASSWORD_LENGTH \<le> length p" for n m p
    using that by (auto simp: long_signup_def)
  with SignupSubmit assms show ?thesis
    by (simp add: signup_inv_def one_flight_def signup_view_offers signup_submit_def passwordLongEnough_def Let_def split: if_splits)
qed (use assms in \<open>simp_all add: signup_inv_def one_flight_def split: if_splits\<close>)

interpretation signing_up: request_form signup_start signup_offers signup_step signup_inv SignupSettled
proof unfold_locales
  show "signup_start s \<Longrightarrow> signup_inv s" for s
    by (simp add: signup_start_def signup_inv_def one_flight_def)
qed (use signup_inv_step in \<open>auto simp: signup_inv_def\<close>)

text \<open>The two password forms keep \<open>pending\<close> set after a success, so they have a weaker contract.\<close>

definition at_most_one :: "('f, 'a) form_scheme \<Rightarrow> bool" where
  "at_most_one s = (length (flights s) \<le> 1 \<and> (flights s \<noteq> [] \<longrightarrow> pending s))"

lemma at_most_one_lands: "at_most_one s \<Longrightarrow> i < length (flights s) \<Longrightarrow> flights (arrive i r s) = []"
  by (auto simp: at_most_one_def)

lemma forgot_settle_sel [simp]:
  "flights (forgot_settle r s) = flights s" "fg_password (forgot_settle r s) = []" "effects (forgot_settle r s) = effects s"
  by (auto simp: forgot_settle_def split: sum.splits option.splits)

lemma redeem_settle_sel [simp]:
  "flights (redeem_settle r s) = flights s" "rd_password (redeem_settle r s) = []" "effects (redeem_settle r s) = effects s"
  "rd_token (redeem_settle r s) = rd_token s" "rd_ready (redeem_settle r s) = rd_ready s"
  by (auto simp: redeem_settle_def fail_with_def split: sum.splits option.splits)

lemma forgot_frame [simp]:
  "fg_remaining (arrive i r s) = fg_remaining s" "fg_password (arrive i r s) = fg_password s"
  by (simp_all add: form_defs)

lemma forgot_view_offers:
  "editable (forgot_view s) n \<longleftrightarrow> fg_remaining s = Some JNull \<and> (n = ''email'' \<or> n = ''recoveryCode'' \<or> n = ''newPassword'')"
  "pressable (forgot_view s) e \<longleftrightarrow> (if fg_remaining s \<noteq> Some JNull then e = ForgotSignIn else e = ForgotSubmit \<and> \<not> pending s)"
  by (auto simp: forgot_view_def)

lemma forgot_at_most_one_step:
  assumes "at_most_one s" "forgot_offers s e"
  shows "at_most_one (forgot_step s e)"
proof (cases e)
  case (ForgotSettled i r)
  with assms show ?thesis using at_most_one_lands [of s i r] by (simp add: at_most_one_def)
next
  case ForgotSubmit
  with assms show ?thesis by (auto simp: at_most_one_def forgot_view_offers call_api_def split: if_splits)
qed (use assms in \<open>simp_all add: at_most_one_def\<close>)

interpretation forgetting: component forgot_start forgot_offers forgot_step at_most_one
proof unfold_locales
  show "forgot_start s \<Longrightarrow> at_most_one s" for s by (simp add: forgot_start_def at_most_one_def)
qed (rule forgot_at_most_one_step)

lemma redeem_frame [simp]:
  "rd_token (arrive i r s) = rd_token s" "rd_ready (arrive i r s) = rd_ready s"
  "rd_token (emit x s) = rd_token s" "rd_ready (emit x s) = rd_ready s"
  "rd_token (call_api f c s) = rd_token s" "rd_ready (call_api f c s) = rd_ready s"
  by (simp_all add: form_defs)

lemma redeem_view_offers:
  "editable (redeem_view s) n \<longleftrightarrow> rd_ready s \<and> \<not> truthy (rd_done s) \<and> token_known s \<and> n = ''newPassword''"
  "pressable (redeem_view s) e \<longleftrightarrow> rd_ready s \<and>
     (if truthy (rd_done s) then e = RedeemSignIn else token_known s \<and> e = RedeemSubmit \<and> \<not> pending s)"
  by (auto simp: redeem_view_def split: json.splits)

definition redeems :: "string option \<Rightarrow> api_call \<Rightarrow> bool" where
  "redeems t c = (\<exists>x p. t = Some x \<and> x \<noteq> [] \<and> c = redeem_call x p)"

definition redeem_inv :: "redeem \<Rightarrow> bool" where
  "redeem_inv s = (at_most_one s \<and> (\<not> rd_ready s \<longrightarrow> flights s = [] \<and> calls (effects s) = []) \<and>
     (rd_token s \<noteq> None \<longrightarrow> ClearsFragment \<in> set (effects s)) \<and> list_all (redeems (rd_token s)) (calls (effects s)))"

lemma redeem_inv_step:
  assumes "redeem_inv s" "redeem_offers s e"
  shows "redeem_inv (redeem_step s e)"
proof (cases e)
  case (RedeemSettled i r)
  with assms show ?thesis using at_most_one_lands [of s i r] by (auto simp: redeem_inv_def at_most_one_def)
next
  case RedeemSubmit
  then obtain x where x: "rd_token s = Some x" "x \<noteq> []" and idle: "\<not> pending s" "rd_ready s"
    using assms(2) by (auto simp: redeem_view_offers token_known_def split: option.splits list.splits if_splits)
  then obtain c cs where cs: "x = c # cs" by (cases x) auto
  have "redeems (Some (c # cs)) (redeem_call (c # cs) p)" for p by (auto simp: redeems_def)
  with RedeemSubmit assms(1) x idle cs show ?thesis
    by (simp add: redeem_inv_def at_most_one_def redeem_submit_def Let_def call_api_def)
next
  case (RedeemMounted hash)
  with assms show ?thesis by (auto simp: redeem_inv_def at_most_one_def redeem_mount_def)
qed (use assms in \<open>simp_all add: redeem_inv_def at_most_one_def\<close>)

interpretation redeeming: component redeem_start redeem_offers redeem_step redeem_inv
proof unfold_locales
  show "redeem_start s \<Longrightarrow> redeem_inv s" for s by (simp add: redeem_start_def redeem_inv_def at_most_one_def)
qed (rule redeem_inv_step)

lemma settings_settle_sel [simp]:
  "flights (settings_settle r s) = flights s" "\<not> pending (settings_settle r s)"
  "calls (effects (settings_settle r s)) = calls (effects s)"
  by (simp_all add: settings_settle_def Let_def split: sum.splits)

lemma settings_view_offers:
  "pressable (settings_view s) e \<longleftrightarrow>
     (if truthy (rs_codes s) then e = CodesSaved \<or> e = CodesPanel PanelCopy \<or> e = CodesPanel PanelDownload
      else if rs_confirming s then (e = CodesIssue \<or> e = CodesCancel) \<and> \<not> pending s else e = CodesPress \<and> \<not> pending s)"
  by (auto simp: settings_view_def pressable_map_elem panel_pressable)

lemma settings_inv_step:
  assumes "one_flight s" "settings_offers s e"
  shows "one_flight (settings_step s e)"
proof (cases e)
  case (CodesPanel pe)
  then show ?thesis using assms(1) by (simp add: one_flight_def Let_def)
qed (use assms in \<open>auto simp: one_flight_def issue_def settings_view_offers split: if_splits\<close>)

interpretation issuing: request_form "settings_start n" settings_offers settings_step one_flight CodesSettled for n
proof unfold_locales
  show "settings_start n s \<Longrightarrow> one_flight s" for s by (simp add: settings_start_def one_flight_def)
qed (use settings_inv_step in auto)

section \<open>Properties\<close>

text \<open>Sign-up.  One request at a time, exactly while the form is pending, and only with a password of at
  least twelve code units; the password is gone after any answer.  Once recovery codes are on screen nothing
  more is sent to the server, whatever is pressed, and the page is left only after the box that says they
  were saved has been ticked.\<close>

theorem signup_shows_the_codes_once:
  assumes "reachable signup_start signup_offers signup_step s" "signup_offers s e"
  shows "length (flights s) = (if pending s then 1 else 0) \<and>
    (\<forall>c \<in> set (calls (effects s)). \<exists>n m p. c = signup_call n m p \<and> 12 \<le> length p) \<and>
    ((\<exists>i r. e = SignupSettled i r) \<longrightarrow> su_password (signup_step s e) = []) \<and>
    (truthy (Some (su_codes s)) \<longrightarrow> calls (effects (signup_step s e)) = calls (effects s)) \<and>
    (visits (effects (signup_step s e)) \<noteq> visits (effects s) \<longrightarrow> truthy (Some (su_codes s)) \<and> su_acknowledged s)"
proof -
  have inv: "signup_inv s" using assms(1) by (rule signing_up.always)
  then have "length (flights s) = (if pending s then 1 else 0)"
    "\<forall>c \<in> set (calls (effects s)). \<exists>n m p. c = signup_call n m p \<and> 12 \<le> length p"
    by (auto simp: signup_inv_def one_flight_def list_all_iff long_signup_def MIN_PASSWORD_LENGTH_def)
  moreover have "truthy (Some (su_codes s)) \<longrightarrow> calls (effects (signup_step s e)) = calls (effects s)"
    using inv assms(2) by (cases e) (auto simp: signup_view_offers signup_inv_def one_flight_def)
  moreover have "visits (effects (signup_step s e)) \<noteq> visits (effects s) \<longrightarrow> truthy (Some (su_codes s)) \<and> su_acknowledged s"
    using assms(2) by (cases e) (auto simp: signup_view_offers split: if_splits)
  moreover have "(\<exists>i r. e = SignupSettled i r) \<longrightarrow> su_password (signup_step s e) = []"
    using assms(2) by auto
  ultimately show ?thesis by blast
qed

definition signup_demo :: signup where
  "signup_demo = signup_step \<lparr>flights = [], effects = [], pending = False, problem = None, su_name = [], su_email = [],
     su_password = [], su_fields = JObj [], su_codes = JNull, su_acknowledged = False, su_panel = panel_start\<rparr>
     (SignupPassword ''correct horse'')"

lemma signup_demo_reachable: "reachable signup_start signup_offers signup_step signup_demo"
  unfolding signup_demo_def
  by (intro reachable.event reachable.initial) (simp_all add: signup_start_def signup_view_offers)

theorem signup_shows_the_codes_once_witness:
  "\<exists>s. reachable signup_start signup_offers signup_step s \<and> calls (effects s) \<noteq> [] \<and>
     su_password (signup_step s (SignupSettled 0 (Unreachable ''Failed to fetch''))) = []"
proof -
  let ?s = "signup_step signup_demo SignupSubmit"
  have r: "reachable signup_start signup_offers signup_step ?s"
    by (rule reachable.event [OF signup_demo_reachable]) (simp add: signup_demo_def signup_view_offers)
  have sub: "flights ?s = [()]" "calls (effects ?s) \<noteq> []"
    by (simp_all add: signup_demo_def signup_submit_def passwordLongEnough_def MIN_PASSWORD_LENGTH_def)
  then have "signup_offers ?s (SignupSettled 0 (Unreachable ''Failed to fetch''))" by simp
  from signup_shows_the_codes_once [OF r this] r sub(2) show ?thesis by blast
qed

text \<open>Recovering with a link.  In every reachable state at most one request is out and none while the form
  is not pending; every request carries the token of the link, which is never empty, and nothing was sent
  before the link was read; a token that was found has been taken out of the address bar; and however a
  request ends, the new password is gone from the form.\<close>

theorem recovery_link_is_used_carefully:
  assumes "reachable redeem_start redeem_offers redeem_step s" "redeem_offers s e"
  shows "length (flights s) \<le> 1 \<and> (flights s \<noteq> [] \<longrightarrow> pending s) \<and>
    (\<forall>c \<in> set (calls (effects s)). rd_ready s \<and> (\<exists>t p. rd_token s = Some t \<and> t \<noteq> [] \<and> c = redeem_call t p)) \<and>
    (rd_token s \<noteq> None \<longrightarrow> ClearsFragment \<in> set (effects s)) \<and>
    ((\<exists>i r. e = RedeemSettled i r) \<longrightarrow> rd_password (redeem_step s e) = [])"
proof -
  have "redeem_inv s" using assms(1) by (rule redeeming.always)
  then have "length (flights s) \<le> 1 \<and> (flights s \<noteq> [] \<longrightarrow> pending s) \<and>
    (\<forall>c \<in> set (calls (effects s)). rd_ready s \<and> (\<exists>t p. rd_token s = Some t \<and> t \<noteq> [] \<and> c = redeem_call t p)) \<and>
    (rd_token s \<noteq> None \<longrightarrow> ClearsFragment \<in> set (effects s))"
    by (auto simp: redeem_inv_def at_most_one_def list_all_iff redeems_def)
  with assms(2) show ?thesis by auto
qed

theorem recovery_link_is_used_carefully_witness:
  "\<exists>s. reachable redeem_start redeem_offers redeem_step s \<and> rd_token s = Some ''tok'' \<and> ClearsFragment \<in> set (effects s)"
proof -
  let ?i = "\<lparr>flights = [], effects = [], pending = False, problem = None, rd_token = None, rd_ready = False,
     rd_password = [], rd_fields = JObj [], rd_done = Some JNull, rd_removed = JNum 0\<rparr> :: redeem"
  let ?s = "redeem_step ?i (RedeemMounted ''#tok'')"
  have r: "reachable redeem_start redeem_offers redeem_step ?s"
    by (intro reachable.event reachable.initial) (simp_all add: redeem_start_def)
  have t: "rd_token ?s = Some ''tok''" "pending ?s = False" "rd_ready ?s" "rd_done ?s = Some JNull"
    by (simp_all add: redeem_mount_def fragment_of_def trim_id js_ws_def emit_def)
  then have "redeem_offers ?s RedeemSubmit" by (simp add: redeem_view_offers token_known_def)
  from recovery_link_is_used_carefully [OF r this] r t(1) show ?thesis by blast
qed

text \<open>A new code set is issued only on an explicit request: when there is no code left, or after the warning that
  it replaces every unused one has been confirmed.\<close>

theorem codes_are_replaced_knowingly:
  assumes "settings_offers s e" "calls (effects (settings_step s e)) \<noteq> calls (effects s)"
  shows "rs_count s = JNum 0 \<or> rs_confirming s \<and> e = CodesIssue"
  using assms by (cases e) (auto simp: settings_view_offers issue_def Let_def split: if_splits)

text \<open>Resetting with a recovery code.  At most one request is out, and none while the form is not pending; the
  new password is gone from the form after any answer; and after an answer that names how many codes are
  left, no field is offered any more and nothing can be sent.\<close>

theorem reset_form_finishes:
  assumes "reachable forgot_start forgot_offers forgot_step s" "i < length (flights s)"
  shows "length (flights s) = 1 \<and> pending s \<and> fg_password (forgot_step s (ForgotSettled i r)) = [] \<and>
    (apiResult r = Inr (JObj [(''remainingCodes'', JNum n)]) \<longrightarrow>
       (let t = forgot_step s (ForgotSettled i r) in
        \<forall>e. forgot_offers t e \<longrightarrow> e = ForgotSignIn \<and> calls (effects (forgot_step t e)) = calls (effects t)))"
proof -
  have one: "at_most_one s" using assms(1) by (rule forgetting.always)
  have len: "length (flights s) = 1" "pending s" using one assms(2) by (auto simp: at_most_one_def)
  have "e = ForgotSignIn \<and> calls (effects (forgot_step (forgot_step s (ForgotSettled i r)) e)) = calls (effects (forgot_step s (ForgotSettled i r)))"
    if "apiResult r = Inr (JObj [(''remainingCodes'', JNum n)])" "forgot_offers (forgot_step s (ForgotSettled i r)) e" for e
  proof -
    have "fg_remaining (forgot_step s (ForgotSettled i r)) = Some (JNum n)"
      using that(1) assms(2) by (simp add: forgot_settle_def result_field_def)
    moreover have "flights (forgot_step s (ForgotSettled i r)) = []"
      using at_most_one_lands [OF one assms(2)] assms(2) by simp
    ultimately have "e = ForgotSignIn" using that(2)
      by (cases e) (simp_all add: forgot_view_offers del: forgot_step.simps)
    then show ?thesis by simp
  qed
  with len assms(2) show ?thesis by (simp add: Let_def)
qed

theorem reset_form_finishes_witness:
  "\<exists>s. reachable forgot_start forgot_offers forgot_step s \<and> flights s \<noteq> [] \<and>
     fg_password (forgot_step s (ForgotSettled 0 (Reply 500 None))) = []"
proof -
  let ?i = "\<lparr>flights = [], effects = [], pending = False, problem = None, fg_email = [], fg_code = [],
     fg_password = [], fg_fields = JObj [], fg_remaining = Some JNull\<rparr> :: forgot"
  let ?s = "forgot_step (forgot_step ?i (ForgotPassword ''correct horse'')) ForgotSubmit"
  have r: "reachable forgot_start forgot_offers forgot_step ?s"
    by (intro reachable.event reachable.initial) (simp_all add: forgot_start_def forgot_view_offers)
  have f: "0 < length (flights ?s)" by (simp add: call_api_def)
  from reset_form_finishes [OF r f] r f show ?thesis by blast
qed

end
