(* ===== verification/AcceptInvitation.thy ===== *)
theory AcceptInvitation imports AccountForms begin

text \<open>
  Redeeming an invitation (web/components/accept-invitation-form.tsx): reading the token out of the
  fragment, asking the server what it is, and then either joining with the account signed in here, or
  signing in elsewhere first, or creating an account.
\<close>

section \<open>Model\<close>

datatype invite_flight = Inspecting | Accepting | Joining

text \<open>
  \<open>ac_fragment\<close> is whether the token still stands in the address bar; \<open>ac_cancelled\<close> is the effect's own
  variable, set when the component goes away.
\<close>

record accept = "invite_flight form" +
  ac_token :: "string option"
  ac_ready :: bool
  ac_name :: string
  ac_password :: string
  ac_confirm :: string
  ac_done :: jsval
  ac_joined :: bool
  ac_invitation :: json
  ac_fragment :: bool
  ac_cancelled :: bool

datatype accept_event =
    InviteMounted string
  | InviteUnmounted
  | InviteName string
  | InvitePassword string
  | InviteConfirm string
  | InviteSubmit
  | InviteJoin
  | InviteSignIn
  | InviteDashboard
  | InviteSettled nat reply

definition accept_start :: "accept \<Rightarrow> bool" where
  "accept_start s = (s = \<lparr>flights = [], effects = [], pending = False, problem = None, ac_token = None, ac_ready = False,
     ac_name = [], ac_password = [], ac_confirm = [], ac_done = Some JNull, ac_joined = False, ac_invitation = JNull,
     ac_fragment = False, ac_cancelled = False\<rparr>)"

definition inspect_call :: "string \<Rightarrow> api_call" where
  "inspect_call t = post_call ''/api/auth/invitations/inspect'' (obj [(''token'', Some (JStr t))])"

definition accept_call :: "string \<Rightarrow> string \<Rightarrow> string \<Rightarrow> api_call" where
  "accept_call t n p = post_call ''/api/auth/accept-invitation''
     (obj [(''token'', Some (JStr t)), (''name'', Some (JStr n)), (''password'', Some (JStr p))])"

definition join_call :: "string \<Rightarrow> api_call" where
  "join_call t = post_call ''/api/auth/accept-invitation'' (obj [(''token'', Some (JStr t))])"

text \<open>\<open>!token\<close> is false for a token that is a non-empty string.\<close>

definition held_token :: "accept \<Rightarrow> string option" where
  "held_token s = (case ac_token s of Some (c # cs) \<Rightarrow> Some (c # cs) | _ \<Rightarrow> None)"

definition invite_mount :: "string \<Rightarrow> accept \<Rightarrow> accept" where
  "invite_mount hash s =
     (if fragment_of hash = [] then s\<lparr>ac_ready := True\<rparr>
      else call_api Inspecting (inspect_call (fragment_of hash)) (s\<lparr>ac_token := Some (fragment_of hash), ac_fragment := True\<rparr>))"

definition clear_fragment :: "accept \<Rightarrow> accept" where
  "clear_fragment s = emit ClearsFragment (s\<lparr>ac_fragment := False\<rparr>)"

definition inspect_failed :: "failure \<Rightarrow> accept \<Rightarrow> accept" where
  "inspect_failed e s = fail_with ''This invitation could not be read.'' e (clear_fragment s)"

text \<open>
  \<open>then\<close>, \<open>catch\<close> and \<open>finally\<close> of the inspection.  Reading a property of a \<open>null\<close> result throws inside
  \<open>then\<close>, after \<open>setInvitation\<close>, and ends in \<open>catch\<close>.
\<close>

definition inspect_settle :: "reply \<Rightarrow> accept \<Rightarrow> accept" where
  "inspect_settle r s =
     (if ac_cancelled s then s
      else (case apiResult r of
          Inl e \<Rightarrow> inspect_failed e s
        | Inr j \<Rightarrow>
            (let t = s\<lparr>ac_invitation := j\<rparr> in
             if j = JNull then inspect_failed (Thrown (ErrorValue (exn_message TypeError))) t
             else if \<not> (truthy (field j ''accountExists'') \<and> \<not> truthy (field j ''canClaim'')) then clear_fragment t
             else t))\<lparr>ac_ready := True\<rparr>)"

definition accept_settle :: "reply \<Rightarrow> accept \<Rightarrow> accept" where
  "accept_settle r s =
     (case then_ok (apiResult r) (\<lambda>j. result_field j ''email'') of
        Inl e \<Rightarrow> fail_with ''This invitation could not be used.'' e s
      | Inr v \<Rightarrow> s\<lparr>ac_done := v\<rparr>)
     \<lparr>pending := False\<rparr>"

definition join_settle :: "reply \<Rightarrow> accept \<Rightarrow> accept" where
  "join_settle r s =
     (case apiResult r of
        Inl e \<Rightarrow> fail_with ''This invitation could not be used.'' e s
      | Inr j \<Rightarrow> s\<lparr>ac_joined := True\<rparr>)
     \<lparr>pending := False\<rparr>"

definition invite_submit :: "accept \<Rightarrow> accept" where
  "invite_submit s0 =
     (let s = s0\<lparr>problem := None\<rparr> in
      if ac_password s \<noteq> ac_confirm s then s\<lparr>problem := Some ''Those passwords do not match.''\<rparr>
      else case held_token s of
        None \<Rightarrow> s\<lparr>problem := Some ''This link is missing its invitation. Ask for a new one.''\<rparr>
      | Some t \<Rightarrow> call_api Accepting (accept_call t (ac_name s) (ac_password s)) (s\<lparr>pending := True\<rparr>))"

definition invite_join :: "accept \<Rightarrow> accept" where
  "invite_join s = (case held_token s of None \<Rightarrow> s | Some t \<Rightarrow> call_api Joining (join_call t) (start_pending s))"

fun settle_invite :: "invite_flight \<Rightarrow> reply \<Rightarrow> accept \<Rightarrow> accept" where
  "settle_invite Inspecting r s = inspect_settle r s"
| "settle_invite Accepting r s = accept_settle r s"
| "settle_invite Joining r s = join_settle r s"

fun accept_step :: "accept \<Rightarrow> accept_event \<Rightarrow> accept" where
  "accept_step s (InviteMounted hash) = invite_mount hash s"
| "accept_step s InviteUnmounted = s\<lparr>ac_cancelled := True\<rparr>"
| "accept_step s (InviteName t) = s\<lparr>ac_name := t\<rparr>"
| "accept_step s (InvitePassword t) = s\<lparr>ac_password := t\<rparr>"
| "accept_step s (InviteConfirm t) = s\<lparr>ac_confirm := t\<rparr>"
| "accept_step s InviteSubmit = invite_submit s"
| "accept_step s InviteJoin = invite_join s"
| "accept_step s InviteSignIn = emit (Visits ''/login'') s"
| "accept_step s InviteDashboard = emit (Loads ''/projects'') s"
| "accept_step s (InviteSettled i r) =
     (if i < length (flights s) then settle_invite (flights s ! i) r (arrive i r s) else s)"

text \<open>The renderings, in the order the component tries them.\<close>

definition can_claim :: "accept \<Rightarrow> bool" where
  "can_claim s = truthy (field (ac_invitation s) ''canClaim'')"

definition account_exists :: "accept \<Rightarrow> bool" where
  "account_exists s = truthy (field (ac_invitation s) ''accountExists'')"

definition told :: "accept \<Rightarrow> string \<Rightarrow> string" where
  "told s k = js_string (field (ac_invitation s) k)"

definition join_view :: "accept \<Rightarrow> accept_event elem list" where
  "join_view s =
     [Note (''Join '' @ told s ''organization'' @ '' as '' @ told s ''email'' @ '', with the role of '' @
        toLowerCase (told s ''role'') @ ''.'')] @
     problem_note s @
     [Press (''Join '' @ told s ''organization'') InviteJoin (pending s),
      Note ''This adds an organization to the account you already have. Your password does not change; there is only ever one.'']"

definition elsewhere_view :: "accept \<Rightarrow> accept_event elem list" where
  "elsewhere_view s =
     [Note (told s ''email'' @ '' already has a Warder account, so there is no second one to create. Sign in, then come back to this page to join '' @
        told s ''organization'' @ ''.''),
      Press ''Sign in'' InviteSignIn False,
      Note ''Your browser's back button returns you here with the invitation intact.'']"

definition create_view :: "accept \<Rightarrow> accept_event elem list" where
  "create_view s =
     (if truthy (Some (ac_invitation s))
      then [Note (''Creating an account for '' @ told s ''email'' @ '' to join '' @ told s ''organization'' @ ''.'')] else []) @
     [Field ''accept-name'' (ac_name s), Field ''accept-password'' (ac_password s),
      Note ''At least 12 characters. Nobody else sees this, not even your organization owner.'',
      Field ''accept-confirm'' (ac_confirm s)] @
     problem_note s @
     [Press ''Accept invitation'' InviteSubmit (pending s)]"

definition accept_view :: "accept \<Rightarrow> accept_event elem list" where
  "accept_view s =
     (if \<not> ac_ready s then [Note ''Checking the link...'']
      else if ac_joined s then
        [Note ''You have joined. Switch between organizations from the name at the top of the sidebar.'',
         Press ''Go to the dashboard'' InviteDashboard False]
      else if can_claim s then join_view s
      else if account_exists s then elsewhere_view s
      else if truthy (ac_done s) then
        [Note (''Your account is ready. Sign in as '' @ js_string (ac_done s) @ '' with the password you just chose.''),
         Press ''Go to sign in'' InviteSignIn False]
      else if held_token s = None then
        [Alert (JStr ''This link does not carry an invitation. It may have been shortened, forwarded as plain text, or truncated by a chat client, the part after the # matters. Ask whoever invited you for a fresh link.''),
         Press ''Sign in instead'' InviteSignIn False]
      else create_view s)"

text \<open>The mount effect runs once, before anything else; an unmounted form has no handlers left to press.\<close>

fun accept_offers :: "accept \<Rightarrow> accept_event \<Rightarrow> bool" where
  "accept_offers s (InviteMounted hash) = (\<not> ac_ready s \<and> ac_token s = None)"
| "accept_offers s InviteUnmounted = (\<not> ac_cancelled s)"
| "accept_offers s (InviteName t) = (\<not> ac_cancelled s \<and> editable (accept_view s) ''accept-name'')"
| "accept_offers s (InvitePassword t) = (\<not> ac_cancelled s \<and> editable (accept_view s) ''accept-password'')"
| "accept_offers s (InviteConfirm t) = (\<not> ac_cancelled s \<and> editable (accept_view s) ''accept-confirm'')"
| "accept_offers s (InviteSettled i r) = (i < length (flights s))"
| "accept_offers s e = (\<not> ac_cancelled s \<and> pressable (accept_view s) e)"

section \<open>Lemmas\<close>

lemma accept_frame [simp]:
  "ac_token (call_api f c s) = ac_token s" "ac_ready (call_api f c s) = ac_ready s" "ac_fragment (call_api f c s) = ac_fragment s"
  "ac_invitation (call_api f c s) = ac_invitation s" "ac_cancelled (call_api f c s) = ac_cancelled s"
  "ac_token (arrive i r s) = ac_token s" "ac_ready (arrive i r s) = ac_ready s" "ac_fragment (arrive i r s) = ac_fragment s"
  "ac_invitation (arrive i r s) = ac_invitation s" "ac_cancelled (arrive i r s) = ac_cancelled s"
  "ac_token (emit x s) = ac_token s" "ac_ready (emit x s) = ac_ready s" "ac_fragment (emit x s) = ac_fragment s"
  "ac_invitation (emit x s) = ac_invitation s" "ac_cancelled (emit x s) = ac_cancelled s"
  "ac_token (fail_with b e s) = ac_token s" "ac_ready (fail_with b e s) = ac_ready s" "ac_fragment (fail_with b e s) = ac_fragment s"
  "ac_invitation (fail_with b e s) = ac_invitation s" "ac_cancelled (fail_with b e s) = ac_cancelled s"
  "ac_token (start_pending s) = ac_token s" "ac_ready (start_pending s) = ac_ready s" "ac_fragment (start_pending s) = ac_fragment s"
  "ac_invitation (start_pending s) = ac_invitation s" "ac_cancelled (start_pending s) = ac_cancelled s"
  by (simp_all add: form_defs)

lemma clear_fragment_sel [simp]:
  "flights (clear_fragment s) = flights s" "pending (clear_fragment s) = pending s" "\<not> ac_fragment (clear_fragment s)"
  "ac_token (clear_fragment s) = ac_token s" "ac_ready (clear_fragment s) = ac_ready s"
  "ac_invitation (clear_fragment s) = ac_invitation s" "ac_cancelled (clear_fragment s) = ac_cancelled s"
  "calls (effects (clear_fragment s)) = calls (effects s)"
  by (simp_all add: clear_fragment_def)

lemma held_token_cong: "ac_token s = ac_token t \<Longrightarrow> held_token s = held_token t"
  by (simp add: held_token_def)

lemma held_token_Some: "held_token s = Some t \<longleftrightarrow> ac_token s = Some t \<and> t \<noteq> []"
  by (auto simp: held_token_def split: option.splits list.splits)

lemma accept_view_offers:
  "editable (accept_view s) n \<longleftrightarrow> ac_ready s \<and> \<not> ac_joined s \<and> \<not> can_claim s \<and> \<not> account_exists s \<and> \<not> truthy (ac_done s) \<and>
     held_token s \<noteq> None \<and> n \<in> {''accept-name'', ''accept-password'', ''accept-confirm''}"
  "pressable (accept_view s) e \<longleftrightarrow> ac_ready s \<and>
     (if ac_joined s then e = InviteDashboard
      else if can_claim s then e = InviteJoin \<and> \<not> pending s
      else if account_exists s \<or> truthy (ac_done s) \<or> held_token s = None then e = InviteSignIn
      else e = InviteSubmit \<and> \<not> pending s)"
  by (auto simp: accept_view_def join_view_def elsewhere_view_def create_view_def)

text \<open>Accepting and joining are the form's requests; the inspection belongs to the mount effect.\<close>

definition ceremonies :: "invite_flight list \<Rightarrow> invite_flight list" where
  "ceremonies fs = filter (\<lambda>f. f \<noteq> Inspecting) fs"

definition token_call :: "string option \<Rightarrow> api_call \<Rightarrow> bool" where
  "token_call tok c = (\<exists>t. tok = Some t \<and> t \<noteq> [] \<and>
     (c = inspect_call t \<or> c = join_call t \<or> (\<exists>n p. c = accept_call t n p)))"

lemma token_call_intros:
  "t \<noteq> [] \<Longrightarrow> token_call (Some t) (inspect_call t)" "t \<noteq> [] \<Longrightarrow> token_call (Some t) (join_call t)"
  "t \<noteq> [] \<Longrightarrow> token_call (Some t) (accept_call t n p)"
  by (auto simp: token_call_def)

lemma no_token_no_call [simp]: "list_all (token_call None) cs \<longleftrightarrow> cs = []"
  by (cases cs) (simp_all add: token_call_def)

text \<open>
  Before the inspection has ended the form shows nothing: either nothing has happened yet, or the token
  was found and the inspection is out.  Afterwards at most one ceremony is out, exactly while pending, and
  the token stands in the address bar exactly for a person who has to sign in elsewhere first.
\<close>

definition accept_inv :: "accept \<Rightarrow> bool" where
  "accept_inv s =
     (list_all (token_call (ac_token s)) (calls (effects s)) \<and>
      (if ac_ready s
       then list_all (\<lambda>f. f \<noteq> Inspecting) (flights s) \<and> one_flight s \<and>
         (ac_fragment s \<longleftrightarrow> ac_token s \<noteq> None \<and> account_exists s \<and> \<not> can_claim s)
       else \<not> pending s \<and> ac_invitation s = JNull \<and>
         (ac_token s = None \<and> \<not> ac_fragment s \<and> flights s = [] \<or>
          ac_token s \<noteq> None \<and> ac_fragment s \<and> set (flights s) \<subseteq> {Inspecting} \<and> length (flights s) \<le> 1 \<and>
            (flights s = [] \<longrightarrow> ac_cancelled s))))"

lemma accept_settle_sel [simp]:
  "flights (accept_settle r s) = flights s" "\<not> pending (accept_settle r s)" "effects (accept_settle r s) = effects s"
  "ac_token (accept_settle r s) = ac_token s" "ac_ready (accept_settle r s) = ac_ready s"
  "ac_fragment (accept_settle r s) = ac_fragment s" "ac_invitation (accept_settle r s) = ac_invitation s"
  by (simp_all add: accept_settle_def split: sum.splits)

lemma join_settle_sel [simp]:
  "flights (join_settle r s) = flights s" "\<not> pending (join_settle r s)" "effects (join_settle r s) = effects s"
  "ac_token (join_settle r s) = ac_token s" "ac_ready (join_settle r s) = ac_ready s"
  "ac_fragment (join_settle r s) = ac_fragment s" "ac_invitation (join_settle r s) = ac_invitation s"
  by (simp_all add: join_settle_def split: sum.splits)

lemma accept_cong:
  "ac_invitation s = ac_invitation t \<Longrightarrow> account_exists s = account_exists t"
  "ac_invitation s = ac_invitation t \<Longrightarrow> can_claim s = can_claim t"
  by (simp_all add: account_exists_def can_claim_def)

lemma inspect_settle_inv:
  assumes "flights s = []" "\<not> ac_ready s" "\<not> pending s" "ac_token s \<noteq> None" "ac_fragment s" "ac_invitation s = JNull"
    and "list_all (token_call (ac_token s)) (calls (effects s))"
  shows "accept_inv (inspect_settle r s)"
proof (cases "ac_cancelled s")
  case True
  with assms show ?thesis by (simp add: inspect_settle_def accept_inv_def)
next
  case False
  with assms show ?thesis
    by (auto simp: inspect_settle_def inspect_failed_def accept_inv_def one_flight_def Let_def account_exists_def can_claim_def
        split: sum.splits)
qed

lemma submit_inv:
  assumes "accept_inv s" "ac_ready s" "\<not> pending s"
  shows "accept_inv (invite_submit s)" "accept_inv (invite_join s)"
proof -
  have same: "account_exists (s\<lparr>problem := p\<rparr>) = account_exists s" "can_claim (s\<lparr>problem := p\<rparr>) = can_claim s"
    "held_token (s\<lparr>problem := p\<rparr>) = held_token s" for p
    by (simp_all add: account_exists_def can_claim_def held_token_def)
  show "accept_inv (invite_submit s)"
    using assms by (auto simp: invite_submit_def accept_inv_def Let_def one_flight_def same held_token_Some token_call_intros
        account_exists_def can_claim_def split: option.splits)
  show "accept_inv (invite_join s)"
    using assms by (auto simp: invite_join_def accept_inv_def one_flight_def held_token_Some token_call_intros
        account_exists_def can_claim_def split: option.splits)
qed

lemma accept_inv_step:
  assumes "accept_inv s" "accept_offers s e"
  shows "accept_inv (accept_step s e)"
proof (cases e)
  case (InviteMounted hash)
  with assms show ?thesis
    by (auto simp: accept_inv_def invite_mount_def one_flight_def token_call_intros account_exists_def)
next
  case InviteSubmit
  then have "ac_ready s" "\<not> pending s" using assms(2) by (auto simp: accept_view_offers split: if_splits)
  with InviteSubmit submit_inv(1) [OF assms(1)] show ?thesis by simp
next
  case InviteJoin
  then have "ac_ready s" "\<not> pending s" using assms(2) by (auto simp: accept_view_offers split: if_splits)
  with InviteJoin submit_inv(2) [OF assms(1)] show ?thesis by simp
next
  case (InviteSettled i r)
  show ?thesis
  proof (cases "ac_ready s")
    case True
    then have "flights s ! i \<noteq> Inspecting" "one_flight s" "i < length (flights s)"
      using assms InviteSettled by (auto simp: accept_inv_def list_all_length)
    then have none: "flights (arrive i r s) = []" using one_flight_lands by blast
    have "flights s ! i = Accepting \<or> flights s ! i = Joining" using \<open>flights s ! i \<noteq> Inspecting\<close> by (cases "flights s ! i") auto
    then show ?thesis using assms(1) True none InviteSettled \<open>i < length (flights s)\<close>
      by (auto simp: accept_inv_def one_flight_def account_exists_def can_claim_def simp del: form_sel(11))
  next
    case False
    then have "flights s = [Inspecting]" "i = 0" "ac_token s \<noteq> None" "ac_fragment s" "ac_invitation s = JNull" "\<not> pending s"
      using assms InviteSettled by (auto simp: accept_inv_def) (cases "flights s"; auto)+
    moreover have "list_all (token_call (ac_token s)) (calls (effects s))" using assms(1) by (simp add: accept_inv_def)
    ultimately show ?thesis using InviteSettled False by (simp, intro inspect_settle_inv) simp_all
  qed
qed (use assms in \<open>auto simp: accept_inv_def one_flight_def account_exists_def can_claim_def split: if_splits\<close>)

interpretation inviting: component accept_start accept_offers accept_step accept_inv
proof unfold_locales
  show "accept_start s \<Longrightarrow> accept_inv s" for s by (simp add: accept_start_def accept_inv_def)
qed (rule accept_inv_step)

section \<open>Properties\<close>

text \<open>C18: Where an invitation token goes.  Every request the form ever makes carries the token of the link, and is
  the inspection, a claim with the token and nothing else, or a new account with a name and a password.  Once
  the link has been read, the token still stands in the address bar exactly when the invited address has an
  account and this browser is not signed in as it.\<close>

theorem invitation_token_is_confined:
  assumes "reachable accept_start accept_offers accept_step s"
  shows "(\<forall>c \<in> set (calls (effects s)). \<exists>t. ac_token s = Some t \<and> t \<noteq> [] \<and>
      (c = inspect_call t \<or> c = join_call t \<or> (\<exists>n p. c = accept_call t n p))) \<and>
    (ac_ready s \<longrightarrow> (ac_fragment s \<longleftrightarrow> ac_token s \<noteq> None \<and> account_exists s \<and> \<not> can_claim s))"
proof -
  have "accept_inv s" using assms by (rule inviting.always)
  then show ?thesis by (auto simp: accept_inv_def list_all_iff token_call_def)
qed

text \<open>A password is never offered to the server for an address that has an account.  A step sends a name and a
  password only when the form is submitted, with both password fields equal, by someone whom the inspection
  did not report as having an account or as able to claim; joining sends no password whatever was typed.\<close>

theorem password_only_for_a_new_account:
  assumes "reachable accept_start accept_offers accept_step s" "accept_offers s e"
    and "calls (effects (accept_step s e)) = calls (effects s) @ [c]" "field (the (ac_body c)) ''password'' \<noteq> None"
  shows "e = InviteSubmit \<and> (\<exists>t. ac_token s = Some t \<and> c = accept_call t (ac_name s) (ac_password s)) \<and>
    ac_password s = ac_confirm s \<and> \<not> account_exists s \<and> \<not> can_claim s \<and> \<not> pending s"
proof -
  have no_password: "field (the (ac_body (inspect_call t))) ''password'' = None" "field (the (ac_body (join_call t))) ''password'' = None" for t
    by (simp_all add: inspect_call_def join_call_def post_call_def)
  have e: "e = InviteSubmit"
  proof (cases e)
    case (InviteSettled i r)
    have "calls (effects (settle_invite f r t)) = calls (effects t)" for f t
      by (cases f) (simp_all add: inspect_settle_def inspect_failed_def Let_def split: sum.splits)
    with InviteSettled assms(2,3) show ?thesis by simp
  qed (use assms(2-4) no_password in \<open>auto simp: invite_mount_def invite_join_def split: option.splits if_splits\<close>)
  have "\<not> account_exists s" "\<not> can_claim s" "\<not> pending s"
    using assms(2) e by (auto simp: accept_view_offers split: if_splits)
  moreover have "held_token (s\<lparr>problem := None\<rparr>) = held_token s" by (simp add: held_token_def)
  ultimately show ?thesis using assms(3) e
    by (auto simp: invite_submit_def Let_def held_token_Some split: if_splits option.splits)
qed

definition invite_demo :: accept where
  "invite_demo = accept_step (accept_step \<lparr>flights = [], effects = [], pending = False, problem = None, ac_token = None, ac_ready = False,
     ac_name = [], ac_password = [], ac_confirm = [], ac_done = Some JNull, ac_joined = False, ac_invitation = JNull,
     ac_fragment = False, ac_cancelled = False\<rparr> (InviteMounted ''#t0k''))
     (InviteSettled 0 (Reply 200 (Some (JObj [(''accountExists'', JBool False), (''canClaim'', JBool False)]))))"

lemma t0k: "fragment_of ''#t0k'' = ''t0k''"
  by (simp add: fragment_of_def trim_id js_ws_def)

lemma invite_demo_reachable: "reachable accept_start accept_offers accept_step invite_demo"
  unfolding invite_demo_def
  by (intro reachable.event reachable.initial) (simp_all add: accept_start_def invite_mount_def t0k)

lemma invite_demo_eval:
  "ac_ready invite_demo" "ac_token invite_demo = Some ''t0k''" "\<not> account_exists invite_demo" "\<not> can_claim invite_demo"
  "\<not> pending invite_demo" "calls (effects invite_demo) = [inspect_call ''t0k'']" "ac_password invite_demo = []" "ac_confirm invite_demo = []"
  "\<not> ac_joined invite_demo" "ac_done invite_demo = Some JNull" "\<not> ac_cancelled invite_demo"
  by (simp_all add: invite_demo_def invite_mount_def t0k inspect_settle_def apiResult_def reply_ok_def payload_of_def Let_def
      clear_fragment_def account_exists_def can_claim_def call_api_def arrive_def emit_def)

theorem invitation_token_is_confined_witness: "\<not> ac_fragment invite_demo"
  using invitation_token_is_confined [OF invite_demo_reachable] by (simp add: invite_demo_eval)

theorem password_only_for_a_new_account_witness:
  "\<exists>c. calls (effects (accept_step invite_demo InviteSubmit)) = calls (effects invite_demo) @ [c] \<and>
     c = accept_call ''t0k'' (ac_name invite_demo) (ac_password invite_demo)"
proof -
  have o: "accept_offers invite_demo InviteSubmit"
    by (simp add: accept_view_offers invite_demo_eval held_token_def)
  let ?c = "accept_call ''t0k'' (ac_name invite_demo) (ac_password invite_demo)"
  have c: "calls (effects (accept_step invite_demo InviteSubmit)) = calls (effects invite_demo) @ [?c]"
    by (simp add: invite_submit_def Let_def held_token_def invite_demo_eval)
  have "field (the (ac_body ?c)) ''password'' \<noteq> None" by (simp add: accept_call_def post_call_def)
  from password_only_for_a_new_account [OF invite_demo_reachable o c this] c show ?thesis
    by (auto simp: invite_demo_eval)
qed

end
