(* ===== verification/SecretsTable.thy ===== *)
theory SecretsTable imports ClientApi begin

text \<open>
  The list of an environment's secrets (web/components/secrets-table.tsx): the filter and the selection
  of the table, one row with its revealed value and the countdown that clears it, and the detail pane.
  Time stamps and the two dialogs of a row's menu (theory SecretDialogs) are left out of the renderings.
\<close>

section \<open>Data\<close>

record subject =
  sj_name :: string
  sj_kind :: string

record secret =
  sc_id :: string
  sc_key :: string
  sc_description :: string
  sc_version :: "nat option"
  sc_status :: string
  sc_can_reveal :: bool
  sc_can_rotate :: bool

text \<open>Who can use and who can read a secret; \<open>None\<close> where the page has no entry for it.\<close>

type_synonym reach = "(subject list \<times> subject list) option"

section \<open>A row\<close>

definition REVEAL_SECONDS :: nat where "REVEAL_SECONDS = 30"

text \<open>
  \<open>rv_value\<close> is \<open>null\<close> while nothing is revealed.  \<open>rv_ticking\<close> counts the running intervals, which are
  all alike; \<open>rv_mounted\<close> ends with the row's cleanup, and after it setting state has no effect.
\<close>

record reveal_row = "unit form" +
  rv_value :: jsval
  rv_countdown :: nat
  rv_ticking :: nat
  rv_mounted :: bool

datatype row_event =
    RowReveal
  | RowSettled nat reply
  | RowTick
  | RowCopy
  | RowUnmounted

definition row_start :: "reveal_row \<Rightarrow> bool" where
  "row_start s = (s = \<lparr>flights = [], effects = [], pending = False, problem = None, rv_value = Some JNull,
     rv_countdown = 0, rv_ticking = 0, rv_mounted = True\<rparr>)"

definition revealed :: "reveal_row \<Rightarrow> bool" where
  "revealed s = truthy (rv_value s)"

definition reveal_call :: "secret \<Rightarrow> api_call" where
  "reveal_call sc = \<lparr>ac_path = ''/api/secrets/'' @ sc_id sc @ ''/reveal'', ac_method = ''POST'', ac_body = None\<rparr>"

text \<open>\<open>startCountdown\<close>: the interval is started even when the row has gone.\<close>

definition startCountdown :: "reveal_row \<Rightarrow> reveal_row" where
  "startCountdown s = s\<lparr>rv_countdown := (if rv_mounted s then REVEAL_SECONDS else rv_countdown s), rv_ticking := Suc (rv_ticking s)\<rparr>"

definition reveal_settle :: "secret \<Rightarrow> reply \<Rightarrow> reveal_row \<Rightarrow> reveal_row" where
  "reveal_settle sc r s =
     (let t = (case then_ok (apiResult r) (\<lambda>j. result_field j ''value'') of
          Inl e \<Rightarrow> emit (ToastsError (failure_message ''Could not reveal this value.'' e)) s
        | Inr v \<Rightarrow> emit (Toasts (sc_key sc @ '' revealed. This was recorded in the audit trail.''))
            (startCountdown (if rv_mounted s then s\<lparr>rv_value := v\<rparr> else s)))
      in if rv_mounted t then t\<lparr>pending := False\<rparr> else t)"

text \<open>One interval fires; the updater of \<open>setCountdown\<close> runs only while the row is there.\<close>

definition tick :: "reveal_row \<Rightarrow> reveal_row" where
  "tick s =
     (if rv_ticking s = 0 \<or> \<not> rv_mounted s then s
      else if rv_countdown s \<le> 1 then s\<lparr>rv_countdown := 0, rv_value := Some JNull, rv_ticking := rv_ticking s - 1\<rparr>
      else s\<lparr>rv_countdown := rv_countdown s - 1\<rparr>)"

text \<open>The cleanup clears every interval; what the row held is discarded with it.\<close>

definition unmount :: "reveal_row \<Rightarrow> reveal_row" where
  "unmount s = s\<lparr>rv_mounted := False, rv_ticking := 0, rv_value := Some JNull\<rparr>"

fun row_step :: "secret \<Rightarrow> reveal_row \<Rightarrow> row_event \<Rightarrow> reveal_row" where
  "row_step sc s RowReveal = call_api () (reveal_call sc) (s\<lparr>pending := True\<rparr>)"
| "row_step sc s (RowSettled i r) = (if i < length (flights s) then reveal_settle sc r (arrive i r s) else s)"
| "row_step sc s RowTick = tick s"
| "row_step sc s RowCopy = emit (Copies (js_string (rv_value s))) s"
| "row_step sc s RowUnmounted = unmount s"

definition plural_title :: "nat \<Rightarrow> string \<Rightarrow> string" where
  "plural_title n verb = (if n = 1 then ''1 identity may '' @ verb @ '' this'' else show_nat n @ '' identities may '' @ verb @ '' this'')"

text \<open>The two dots, as their titles, and the number beside the ring.\<close>

definition reach_dots :: "reach \<Rightarrow> 'e elem list" where
  "reach_dots rc =
     (let use = (case rc of Some (u, r) \<Rightarrow> length u | None \<Rightarrow> 0); read = (case rc of Some (u, r) \<Rightarrow> length r | None \<Rightarrow> 0) in
      [Note (plural_title use ''use''), Note (plural_title read ''read'')] @
      (if read > 0 then [Note (show_nat read)] else []))"

definition status_label :: "string \<Rightarrow> string" where
  "status_label st = replace_first (CHR ''_'') '' '' (toLowerCase st)"

definition status_tone :: "string \<Rightarrow> string" where
  "status_tone st = (if st = ''EXPIRED'' \<or> st = ''REVOKED'' then ''error'' else if st = ''ACTIVE'' then ''ready'' else ''neutral'')"

definition version_badge :: "secret \<Rightarrow> 'e elem list" where
  "version_badge sc = (case sc_version sc of Some (Suc n) \<Rightarrow> [Note (CHR ''v'' # show_nat (Suc n))] | _ \<Rightarrow> [])"

definition row_view :: "secret \<Rightarrow> reach \<Rightarrow> reveal_row \<Rightarrow> row_event elem list" where
  "row_view sc rc s =
     [Note (sc_key sc)] @ (if sc_description sc \<noteq> [] then [Note (sc_description sc)] else []) @
     reach_dots rc @
     (if revealed s
      then [Note (js_string (rv_value s)), Press (''Copy '' @ sc_key sc) RowCopy False, Note (show_nat (rv_countdown s) @ ''s'')] else []) @
     [Note (status_label (sc_status sc))] @ version_badge sc @
     (if sc_can_reveal sc \<and> \<not> revealed s then [Press ''Reveal'' RowReveal (pending s)] else [])"

fun row_offers :: "secret \<Rightarrow> reach \<Rightarrow> reveal_row \<Rightarrow> row_event \<Rightarrow> bool" where
  "row_offers sc rc s (RowSettled i r) = (i < length (flights s))"
| "row_offers sc rc s RowTick = (0 < rv_ticking s)"
| "row_offers sc rc s RowUnmounted = rv_mounted s"
| "row_offers sc rc s e = (rv_mounted s \<and> pressable (row_view sc rc s) e)"

section \<open>The table\<close>

record table =
  tb_query :: string
  tb_status :: string
  tb_selected :: "string option"
  tb_rows :: "string \<Rightarrow> reveal_row"

datatype table_event =
    TableQuery string
  | TableStatus string
  | TableReset
  | TableSelect string
  | TableRow string row_event
  | DetailReveal

definition matches :: "string \<Rightarrow> string \<Rightarrow> secret \<Rightarrow> bool" where
  "matches query status sc =
     (let needle = toLowerCase (trim query) in
      if status \<noteq> [] \<and> sc_status sc \<noteq> status then False
      else if needle = [] then True
      else includes_str (toLowerCase (sc_key sc)) needle \<or> includes_str (toLowerCase (sc_description sc)) needle)"

definition filtered :: "secret list \<Rightarrow> table \<Rightarrow> secret list" where
  "filtered scs s = filter (matches (tb_query s) (tb_status s)) scs"

definition selected :: "secret list \<Rightarrow> table \<Rightarrow> secret option" where
  "selected scs s =
     (case find (\<lambda>sc. Some (sc_id sc) = tb_selected s) (filtered scs s) of
        Some sc \<Rightarrow> Some sc
      | None \<Rightarrow> (case filtered scs s of [] \<Rightarrow> None | sc # rest \<Rightarrow> Some sc))"

definition fresh_row :: reveal_row where
  "fresh_row = \<lparr>flights = [], effects = [], pending = False, problem = None, rv_value = Some JNull,
     rv_countdown = 0, rv_ticking = 0, rv_mounted = True\<rparr>"

definition shown :: "secret list \<Rightarrow> table \<Rightarrow> string set" where
  "shown scs s = sc_id ` set (filtered scs s)"

text \<open>
  Rows that leave the list are unmounted, rows that come into it are new, the others keep their state.  A
  press inside a row also reaches the row itself, whose handler selects it.
\<close>

definition remount :: "secret list \<Rightarrow> table \<Rightarrow> table \<Rightarrow> table" where
  "remount scs old new = new\<lparr>tb_rows := (\<lambda>k.
     if k \<in> shown scs new then (if k \<in> shown scs old then tb_rows new k else fresh_row)
     else if k \<in> shown scs old then unmount (tb_rows new k) else tb_rows new k)\<rparr>"

definition table_start :: "secret list \<Rightarrow> table \<Rightarrow> bool" where
  "table_start scs s = (s = \<lparr>tb_query = [], tb_status = [], tb_selected = (case scs of [] \<Rightarrow> None | sc # rest \<Rightarrow> Some (sc_id sc)),
     tb_rows = (\<lambda>k. fresh_row)\<rparr>)"

fun table_step :: "secret list \<Rightarrow> table \<Rightarrow> table_event \<Rightarrow> table" where
  "table_step scs s (TableQuery t) = remount scs s (s\<lparr>tb_query := t\<rparr>)"
| "table_step scs s (TableStatus t) = remount scs s (s\<lparr>tb_status := t\<rparr>)"
| "table_step scs s TableReset = remount scs s (s\<lparr>tb_query := [], tb_status := []\<rparr>)"
| "table_step scs s (TableSelect k) = s\<lparr>tb_selected := Some k\<rparr>"
| "table_step scs s (TableRow k e) = (case find (\<lambda>sc. sc_id sc = k) scs of
     Some sc \<Rightarrow> s\<lparr>tb_rows := (tb_rows s)(k := row_step sc (tb_rows s k) e),
       tb_selected := (if e = RowReveal \<or> e = RowCopy then Some k else tb_selected s)\<rparr>
   | None \<Rightarrow> s)"
| "table_step scs s DetailReveal = s"

definition status_options :: "(string \<times> string) list" where
  "status_options = [(''ACTIVE'', ''Active''), (''EXPIRED'', ''Expired''), (''REVOKED'', ''Revoked''), (''NO_VERSION'', ''No version'')]"

definition subject_notes :: "string \<Rightarrow> subject list \<Rightarrow> 'e elem list" where
  "subject_notes none sjs = (if sjs = [] then [Note none] else map (\<lambda>sj. Note (sj_name sj)) sjs)"

text \<open>The detail pane.  Its reveal button has no handler.\<close>

definition detail_view :: "(string \<Rightarrow> reach) \<Rightarrow> secret \<Rightarrow> table_event elem list" where
  "detail_view rc sc =
     [Note (sc_key sc)] @ version_badge sc @ [Note (status_label (sc_status sc))] @
     (if sc_description sc \<noteq> [] then [Note (sc_description sc)] else []) @
     [Note ''The value is not on this page. A runtime holding USE_SECRET receives it directly.''] @
     (if sc_can_reveal sc then [Press ''Reveal, and record it'' DetailReveal False] else []) @
     subject_notes ''Nothing can use this yet. A secret nothing is granted is a secret no application can start with.''
       (case rc (sc_id sc) of Some (u, r) \<Rightarrow> u | None \<Rightarrow> []) @
     subject_notes ''Nobody. The value reaches runtimes and no one else.''
       (case rc (sc_id sc) of Some (u, r) \<Rightarrow> r | None \<Rightarrow> [])"

definition table_view :: "secret list \<Rightarrow> (string \<Rightarrow> reach) \<Rightarrow> table \<Rightarrow> table_event elem list" where
  "table_view scs rc s =
     (if scs = [] then [Note ''No secrets in this environment''] else
       [Field ''Search secrets'' (tb_query s)] @
       map (\<lambda>(v, l). Press l (TableStatus v) False) (([], ''All Statuses'') # status_options) @
       (if tb_query s \<noteq> [] \<or> tb_status s \<noteq> [] then [Press ''Reset'' TableReset False] else []) @
       [Note (show_nat (length (filtered scs s)) @ '' of '' @ show_nat (length scs))] @
       (if filtered scs s = [] then [Note ''No secrets match those filters''] else
         concat (map (\<lambda>sc. Press (sc_key sc) (TableSelect (sc_id sc)) False #
           map (map_elem (TableRow (sc_id sc))) (row_view sc (rc (sc_id sc)) (tb_rows s (sc_id sc)))) (filtered scs s))) @
       (case selected scs s of Some sc \<Rightarrow> detail_view rc sc | None \<Rightarrow> []))"

text \<open>\<open>selected={secret.id === selectedId}\<close>: which row is drawn as the selected one.\<close>

definition highlighted :: "table \<Rightarrow> secret \<Rightarrow> bool" where
  "highlighted s sc = (Some (sc_id sc) = tb_selected s)"

text \<open>Row events that are not presses (an answer, a tick) can also reach rows that are no longer shown.\<close>

fun table_offers :: "secret list \<Rightarrow> (string \<Rightarrow> reach) \<Rightarrow> table \<Rightarrow> table_event \<Rightarrow> bool" where
  "table_offers scs rc s (TableQuery t) = editable (table_view scs rc s) ''Search secrets''"
| "table_offers scs rc s (TableStatus t) = (scs \<noteq> [] \<and> t \<in> insert [] (fst ` set status_options))"
| "table_offers scs rc s (TableRow k e) = (\<exists>sc \<in> set scs. sc_id sc = k \<and> e \<noteq> RowUnmounted \<and> row_offers sc (rc k) (tb_rows s k) e \<and>
     (k \<in> shown scs s \<or> (\<exists>i r. e = RowSettled i r) \<or> e = RowTick))"
| "table_offers scs rc s e = pressable (table_view scs rc s) e"

section \<open>Lemmas\<close>

lemma row_frame [simp]:
  "rv_value (call_api f c s) = rv_value s" "rv_countdown (call_api f c s) = rv_countdown s"
  "rv_ticking (call_api f c s) = rv_ticking s" "rv_mounted (call_api f c s) = rv_mounted s"
  "rv_value (arrive i r s) = rv_value s" "rv_countdown (arrive i r s) = rv_countdown s"
  "rv_ticking (arrive i r s) = rv_ticking s" "rv_mounted (arrive i r s) = rv_mounted s"
  "rv_value (emit x s) = rv_value s" "rv_countdown (emit x s) = rv_countdown s"
  "rv_ticking (emit x s) = rv_ticking s" "rv_mounted (emit x s) = rv_mounted s"
  by (simp_all add: form_defs)

lemma reach_dots_inert [simp]: "\<not> pressable (reach_dots rc) e" "\<not> editable (reach_dots rc) n"
  by (simp_all add: reach_dots_def Let_def)

lemma version_badge_inert [simp]: "\<not> pressable (version_badge sc) e" "\<not> editable (version_badge sc) n"
  by (simp_all add: version_badge_def split: option.splits nat.splits)

lemma row_view_offers:
  "pressable (row_view sc rc s) e \<longleftrightarrow>
     (if revealed s then e = RowCopy else sc_can_reveal sc \<and> e = RowReveal \<and> \<not> pending s)"
  by (auto simp: row_view_def)

lemma reveal_settle_sel [simp]:
  "flights (reveal_settle sc r s) = flights s" "rv_mounted (reveal_settle sc r s) = rv_mounted s"
  "calls (effects (reveal_settle sc r s)) = calls (effects s)"
  "pending (reveal_settle sc r s) = (pending s \<and> \<not> rv_mounted s)"
  by (simp_all add: reveal_settle_def startCountdown_def Let_def split: sum.splits)

lemma tick_sel [simp]:
  "flights (tick s) = flights s" "pending (tick s) = pending s" "effects (tick s) = effects s" "rv_mounted (tick s) = rv_mounted s"
  by (simp_all add: tick_def)

text \<open>
  While a value is shown, an interval is running, the count is between 1 and 30, and no request is out
  that could start it again.
\<close>

definition reveals :: "secret \<Rightarrow> api_call \<Rightarrow> bool" where
  "reveals sc c = (c = reveal_call sc \<and> sc_can_reveal sc)"

definition row_inv :: "secret \<Rightarrow> reveal_row \<Rightarrow> bool" where
  "row_inv sc s =
     (length (flights s) \<le> 1 \<and> (rv_mounted s \<longrightarrow> one_flight s) \<and> (flights s \<noteq> [] \<longrightarrow> pending s) \<and> rv_countdown s \<le> REVEAL_SECONDS \<and>
      (revealed s \<longrightarrow> rv_mounted s \<and> 0 < rv_countdown s \<and> 0 < rv_ticking s \<and> \<not> pending s) \<and>
      list_all (reveals sc) (calls (effects s)))"

lemma revealed_cong: "rv_value s = rv_value t \<Longrightarrow> revealed s = revealed t"
  by (simp add: revealed_def)

lemma reveal_settle_value:
  "rv_value (reveal_settle sc r s) = rv_value s \<and> rv_countdown (reveal_settle sc r s) = rv_countdown s \<or>
   rv_mounted s \<and> rv_countdown (reveal_settle sc r s) = REVEAL_SECONDS \<and> 0 < rv_ticking (reveal_settle sc r s)"
  by (cases "then_ok (apiResult r) (\<lambda>j. result_field j ''value'')")
    (simp_all add: reveal_settle_def startCountdown_def Let_def)

lemma reveal_settle_inv:
  assumes "row_inv sc s" "flights s = [x]"
  shows "row_inv sc (reveal_settle sc r (arrive 0 r s))"
proof -
  define t where "t = reveal_settle sc r (arrive 0 r s)"
  have t: "flights t = []" "rv_mounted t = rv_mounted s" "calls (effects t) = calls (effects s)" "pending t = (pending s \<and> \<not> rv_mounted s)"
    using assms(2) by (simp_all add: t_def)
  have v: "rv_value t = rv_value s \<and> rv_countdown t = rv_countdown s \<or>
      rv_mounted s \<and> rv_countdown t = REVEAL_SECONDS \<and> 0 < rv_ticking t"
    using reveal_settle_value [of sc r "arrive 0 r s"] by (simp add: t_def)
  have s: "\<not> revealed s" "rv_countdown s \<le> REVEAL_SECONDS" "list_all (reveals sc) (calls (effects s))"
    using assms by (auto simp: row_inv_def)
  have "revealed t \<Longrightarrow> rv_mounted s \<and> rv_countdown t = REVEAL_SECONDS \<and> 0 < rv_ticking t"
    using v s(1) by (auto simp: revealed_def)
  moreover have "rv_countdown t \<le> REVEAL_SECONDS" using v s(2) by auto
  moreover have "0 < REVEAL_SECONDS" by (simp add: REVEAL_SECONDS_def)
  ultimately show ?thesis using t s(3) unfolding t_def [symmetric] row_inv_def one_flight_def by auto
qed

lemma row_inv_step:
  assumes "row_inv sc s" "row_offers sc rc s e"
  shows "row_inv sc (row_step sc s e)"
proof (cases e)
  case (RowSettled i r)
  then have "flights s = [flights s ! 0]" "i = 0" using assms by (cases "flights s"; auto simp: row_inv_def)+
  with RowSettled assms(2) reveal_settle_inv [OF assms(1)] show ?thesis by simp
next
  case RowReveal
  with assms show ?thesis by (auto simp: row_inv_def row_view_offers one_flight_def revealed_def reveals_def split: if_splits)
next
  case RowTick
  with assms show ?thesis by (auto simp: row_inv_def tick_def one_flight_def revealed_def)
next
  case RowUnmounted
  with assms show ?thesis by (auto simp: row_inv_def unmount_def one_flight_def revealed_def split: if_splits)
next
  case RowCopy
  with assms show ?thesis by (auto simp: row_inv_def one_flight_def revealed_def)
qed

interpretation revealing: component row_start "row_offers sc rc" "row_step sc" "row_inv sc" for sc rc
proof unfold_locales
  show "row_start s \<Longrightarrow> row_inv sc s" for s
    by (simp add: row_start_def row_inv_def one_flight_def revealed_def)
qed (rule row_inv_step)

text \<open>While a value is shown: a tick takes one second off or hides it, and nothing else prolongs it.\<close>

lemma shown_step:
  assumes "row_inv sc s" "row_offers sc rc s e" "revealed s"
  shows "\<not> revealed (row_step sc s e) \<or>
    rv_value (row_step sc s e) = rv_value s \<and> rv_countdown (row_step sc s e) = rv_countdown s - (if e = RowTick then 1 else 0) \<and>
    (e = RowTick \<longrightarrow> 1 < rv_countdown s)"
  using assms by (cases e) (auto simp: row_inv_def tick_def unmount_def revealed_def row_view_offers)

lemma countdown_run:
  assumes "row_inv sc s" "legal (row_offers sc rc) (row_step sc) s es" "rv_countdown s \<le> count_list es RowTick"
  shows "\<exists>k \<le> length es. \<not> revealed (foldl (row_step sc) s (take k es))"
  using assms
proof (induction es arbitrary: s)
  case Nil
  then show ?case by (auto simp: row_inv_def)
next
  case (Cons e es)
  show ?case
  proof (cases "revealed s \<and> revealed (row_step sc s e)")
    case False
    then show ?thesis by (cases "revealed s") (auto intro: exI [of _ "Suc 0"] exI [of _ 0])
  next
    case True
    have offers: "row_offers sc rc s e" and leg: "legal (row_offers sc rc) (row_step sc) (row_step sc s e) es"
      using Cons.prems(2) by simp_all
    have inv: "row_inv sc (row_step sc s e)" by (rule row_inv_step [OF Cons.prems(1) offers])
    have "rv_countdown (row_step sc s e) \<le> count_list es RowTick"
      using shown_step [OF Cons.prems(1) offers] True Cons.prems(3) by (auto split: if_splits)
    then obtain k where "k \<le> length es" "\<not> revealed (foldl (row_step sc) (row_step sc s e) (take k es))"
      using Cons.IH [OF inv leg] by blast
    then show ?thesis by (intro exI [of _ "Suc k"]) simp
  qed
qed

lemma find_Some_iff_ex: "(\<exists>x. find P xs = Some x) \<longleftrightarrow> (\<exists>x \<in> set xs. P x)"
  by (induction xs) auto

lemma find_Some_props: "find P xs = Some x \<Longrightarrow> x \<in> set xs \<and> P x"
  by (induction xs) (auto split: if_splits)

text \<open>Rows that are not in the list hold no value.\<close>

definition table_inv :: "secret list \<Rightarrow> table \<Rightarrow> bool" where
  "table_inv scs s = (\<forall>k. k \<notin> shown scs s \<longrightarrow> \<not> revealed (tb_rows s k) \<and> (k \<in> sc_id ` set scs \<longrightarrow> \<not> rv_mounted (tb_rows s k)))"

lemma shown_row_step [simp]: "shown scs (table_step scs s (TableRow k e)) = shown scs s" "shown scs (table_step scs s (TableSelect k)) = shown scs s"
  by (simp_all add: shown_def filtered_def split: option.splits)

lemma shown_rows [simp]: "shown scs (s\<lparr>tb_rows := f\<rparr>) = shown scs s" "shown scs (remount scs old new) = shown scs new"
  by (simp_all add: shown_def filtered_def remount_def)

lemma remount_inv:
  assumes "table_inv scs old" "tb_rows new = tb_rows old"
  shows "table_inv scs (remount scs old new)"
  using assms by (auto simp: table_inv_def remount_def unmount_def revealed_def)

lemma table_inv_step:
  assumes "table_inv scs s" "table_offers scs rc s e"
  shows "table_inv scs (table_step scs s e)"
proof (cases e)
  case (TableRow k d)
  have "\<not> revealed (row_step sc (tb_rows s k) d) \<and> \<not> rv_mounted (row_step sc (tb_rows s k) d)"
    if "k \<notin> shown scs s" "sc \<in> set scs" "sc_id sc = k" for sc
  proof -
    have "\<not> revealed (tb_rows s k)" "\<not> rv_mounted (tb_rows s k)" using assms(1) that by (auto simp: table_inv_def)
    moreover have "(\<exists>i r. d = RowSettled i r) \<or> d = RowTick" using assms(2) TableRow that(1) by auto
    ultimately show ?thesis
      by (auto simp: tick_def reveal_settle_def startCountdown_def revealed_def Let_def split: sum.splits if_splits)
  qed
  note row = this
  have "\<not> revealed (tb_rows (table_step scs s e) m) \<and> (m \<in> sc_id ` set scs \<longrightarrow> \<not> rv_mounted (tb_rows (table_step scs s e) m))"
    if m: "m \<notin> shown scs s" for m
  proof (cases "find (\<lambda>sc. sc_id sc = k) scs")
    case None
    then show ?thesis using m assms(1) TableRow by (simp add: table_inv_def)
  next
    case (Some sc)
    then have "sc \<in> set scs" "sc_id sc = k" using find_Some_props by fastforce+
    with row [of sc] m assms(1) TableRow Some show ?thesis
      by (cases "m = k") (simp_all add: table_inv_def del: row_step.simps)
  qed
  then show ?thesis using TableRow by (simp add: table_inv_def del: table_step.simps)
qed (use assms(1) in \<open>simp_all add: remount_inv, simp_all add: table_inv_def shown_def filtered_def\<close>)

lemma all_shown: "tb_query s = [] \<Longrightarrow> tb_status s = [] \<Longrightarrow> filtered scs s = scs"
proof -
  have "matches [] [] sc" for sc by (simp add: matches_def Let_def toLowerCase_def)
  then show "tb_query s = [] \<Longrightarrow> tb_status s = [] \<Longrightarrow> filtered scs s = scs" by (simp add: filtered_def)
qed

interpretation listing: component "table_start scs" "table_offers scs rc" "table_step scs" "table_inv scs" for scs rc
proof unfold_locales
  show "table_start scs s \<Longrightarrow> table_inv scs s" for s
    by (auto simp: table_start_def table_inv_def shown_def all_shown fresh_row_def revealed_def)
qed (rule table_inv_step)

section \<open>Properties\<close>

text \<open>C17: A revealed value does not stay on screen.  In every reachable state of a row at most one reveal is out,
  a value is shown only while the row is there, its countdown runs and reads between 1 and 30, and every
  reveal was one the viewer holds the right to.  However the row is used from then on, by the time thirty
  ticks of its interval have passed the value has been cleared.\<close>

theorem revealed_value_expires:
  assumes "reachable row_start (row_offers sc rc) (row_step sc) s"
  shows "length (flights s) \<le> 1 \<and>
    (truthy (rv_value s) \<longrightarrow> rv_mounted s \<and> 0 < rv_ticking s \<and> 1 \<le> rv_countdown s \<and> rv_countdown s \<le> 30) \<and>
    (\<forall>c \<in> set (calls (effects s)). c = reveal_call sc \<and> sc_can_reveal sc) \<and>
    (\<forall>es. legal (row_offers sc rc) (row_step sc) s es \<and> 30 \<le> count_list es RowTick \<longrightarrow>
       (\<exists>k \<le> length es. \<not> truthy (rv_value (foldl (row_step sc) s (take k es)))))"
proof -
  have inv: "row_inv sc s" using assms by (rule revealing.always)
  have "\<exists>k \<le> length es. \<not> truthy (rv_value (foldl (row_step sc) s (take k es)))"
    if "legal (row_offers sc rc) (row_step sc) s es" "30 \<le> count_list es RowTick" for es
    using countdown_run [OF inv that(1)] that(2) inv by (simp add: row_inv_def REVEAL_SECONDS_def revealed_def)
  with inv show ?thesis by (auto simp: row_inv_def REVEAL_SECONDS_def revealed_def list_all_iff reveals_def)
qed

definition demo_secret :: secret where
  "demo_secret = \<lparr>sc_id = ''s1'', sc_key = ''DB_URL'', sc_description = [], sc_version = Some 2, sc_status = ''ACTIVE'',
     sc_can_reveal = True, sc_can_rotate = False\<rparr>"

definition row_demo :: reveal_row where
  "row_demo = row_step demo_secret (row_step demo_secret fresh_row RowReveal)
     (RowSettled 0 (Reply 200 (Some (JObj [(''value'', JStr ''p0stgres'')]))))"

lemma row_demo_eval: "rv_value row_demo = Some (JStr ''p0stgres'')" "rv_countdown row_demo = 30" "rv_ticking row_demo = 1" "rv_mounted row_demo"
  by (simp_all add: row_demo_def fresh_row_def reveal_settle_def apiResult_def reply_ok_def payload_of_def result_field_def
      startCountdown_def REVEAL_SECONDS_def emit_def arrive_def call_api_def Let_def)

lemma row_demo_reachable: "reachable row_start (row_offers demo_secret None) (row_step demo_secret) row_demo"
  unfolding row_demo_def
  by (intro reachable.event reachable.initial)
    (simp_all add: row_start_def fresh_row_def row_view_offers revealed_def demo_secret_def)

theorem revealed_value_expires_witness: "rv_countdown row_demo = 30 \<and> rv_countdown row_demo \<le> 30 \<and> 0 < rv_ticking row_demo"
  using revealed_value_expires [OF row_demo_reachable] by (simp add: row_demo_eval)

text \<open>What the filter hides is forgotten, and the pane shows only what is listed.  In every reachable state of
  the table no row outside the list holds a revealed value; the detail pane is empty exactly when the list
  is, and otherwise shows a listed secret, the chosen one when it is listed; resetting the filters lists every
  secret.\<close>

theorem hidden_rows_hold_nothing:
  assumes "reachable (table_start scs) (table_offers scs rc) (table_step scs) s" "distinct (map sc_id scs)"
  shows "(\<forall>k. k \<notin> sc_id ` set (filtered scs s) \<longrightarrow> \<not> truthy (rv_value (tb_rows s k))) \<and>
    (selected scs s = None \<longleftrightarrow> filtered scs s = []) \<and>
    (\<forall>sc. selected scs s = Some sc \<longrightarrow> sc \<in> set (filtered scs s)) \<and>
    (\<forall>sc \<in> set (filtered scs s). tb_selected s = Some (sc_id sc) \<longrightarrow> selected scs s = Some sc) \<and>
    filtered scs (table_step scs s TableReset) = scs"
proof -
  have "table_inv scs s" using assms(1) by (rule listing.always)
  then have hidden: "\<forall>k. k \<notin> sc_id ` set (filtered scs s) \<longrightarrow> \<not> truthy (rv_value (tb_rows s k))"
    by (auto simp: table_inv_def shown_def revealed_def)
  have chosen: "selected scs s = Some sc" if "sc \<in> set (filtered scs s)" "tb_selected s = Some (sc_id sc)" for sc
  proof -
    have "\<exists>x. find (\<lambda>sc. Some (sc_id sc) = tb_selected s) (filtered scs s) = Some x"
      using that by (auto simp: find_Some_iff_ex)
    then obtain x where x: "find (\<lambda>sc. Some (sc_id sc) = tb_selected s) (filtered scs s) = Some x" by blast
    then have "x \<in> set (filtered scs s)" "sc_id x = sc_id sc" using find_Some_props that(2) by fastforce+
    then have "x = sc" using that(1) assms(2) by (auto simp: filtered_def distinct_map inj_on_def)
    with x show ?thesis by (simp add: selected_def)
  qed
  have "selected scs s = None \<longleftrightarrow> filtered scs s = []" "\<forall>sc. selected scs s = Some sc \<longrightarrow> sc \<in> set (filtered scs s)"
    by (auto simp: selected_def find_None_iff split: option.splits list.splits dest!: find_Some_props)
  moreover have "filtered scs (table_step scs s TableReset) = scs"
    by (rule all_shown) (simp_all add: remount_def)
  ultimately show ?thesis using hidden chosen by blast
qed

definition table_demo :: table where
  "table_demo = \<lparr>tb_query = [], tb_status = [], tb_selected = Some ''s1'', tb_rows = (\<lambda>k. fresh_row)\<rparr>"

definition two_secrets :: "secret list" where
  "two_secrets = [demo_secret, demo_secret\<lparr>sc_id := ''s2'', sc_status := ''EXPIRED''\<rparr>]"

theorem hidden_rows_hold_nothing_witness: "selected two_secrets table_demo = Some demo_secret"
proof -
  have "reachable (table_start two_secrets) (table_offers two_secrets (\<lambda>k. None)) (table_step two_secrets) table_demo"
    by (rule reachable.initial) (simp add: table_start_def table_demo_def two_secrets_def demo_secret_def)
  moreover have "distinct (map sc_id two_secrets)" by (simp add: two_secrets_def demo_secret_def)
  ultimately have "\<forall>sc \<in> set (filtered two_secrets table_demo). tb_selected table_demo = Some (sc_id sc) \<longrightarrow>
      selected two_secrets table_demo = Some sc"
    using hidden_rows_hold_nothing by blast
  moreover have "filtered two_secrets table_demo = two_secrets" by (rule all_shown) (simp_all add: table_demo_def)
  ultimately show ?thesis by (simp add: two_secrets_def table_demo_def demo_secret_def)
qed

text \<open>Two places where the table does not do what it shows.  When the chosen row is filtered out, the pane falls
  back to the first listed secret but no row is drawn as selected; and the button of the pane that offers to
  reveal the value does nothing at all.\<close>

theorem pane_and_list_disagree:
  assumes "filtered scs s \<noteq> []" "\<forall>sc \<in> set (filtered scs s). tb_selected s \<noteq> Some (sc_id sc)"
  shows "selected scs s = Some (hd (filtered scs s)) \<and> (\<forall>sc \<in> set (filtered scs s). \<not> highlighted s sc) \<and>
    (sc_can_reveal (hd (filtered scs s)) \<and> scs \<noteq> [] \<longrightarrow> table_offers scs rc s DetailReveal \<and> table_step scs s DetailReveal = s)"
proof -
  have "find (\<lambda>sc. Some (sc_id sc) = tb_selected s) (filtered scs s) = None"
    using assms(2) by (auto simp: find_None_iff)
  then have "selected scs s = Some (hd (filtered scs s))"
    using assms(1) by (cases "filtered scs s") (simp_all add: selected_def)
  moreover from this have "sc_can_reveal (hd (filtered scs s)) \<and> scs \<noteq> [] \<longrightarrow> table_offers scs rc s DetailReveal"
    by (simp add: table_view_def detail_view_def)
  ultimately show ?thesis using assms(2) by (auto simp: highlighted_def)
qed

theorem pane_and_list_disagree_witness:
  "selected two_secrets (table_demo\<lparr>tb_status := ''EXPIRED''\<rparr>) = Some (demo_secret\<lparr>sc_id := ''s2'', sc_status := ''EXPIRED''\<rparr>)"
proof -
  have f: "filtered two_secrets (table_demo\<lparr>tb_status := ''EXPIRED''\<rparr>) = [demo_secret\<lparr>sc_id := ''s2'', sc_status := ''EXPIRED''\<rparr>]"
    by (simp add: filtered_def matches_def two_secrets_def table_demo_def demo_secret_def toLowerCase_def)
  from pane_and_list_disagree [of two_secrets "table_demo\<lparr>tb_status := ''EXPIRED''\<rparr>"] show ?thesis
    by (simp add: f) (simp add: table_demo_def demo_secret_def)
qed

text \<open>An answer that arrives after its row has gone starts an interval that nothing clears: ticking no
  longer changes anything, and no value was kept.\<close>

theorem late_answer_leaves_an_interval:
  assumes "\<not> rv_mounted s" "i < length (flights s)" "apiResult r = Inr j" "j \<noteq> JNull"
  shows "0 < rv_ticking (row_step sc s (RowSettled i r)) \<and> rv_value (row_step sc s (RowSettled i r)) = rv_value s \<and>
    row_step sc (row_step sc s (RowSettled i r)) RowTick = row_step sc s (RowSettled i r)"
  using assms by (simp add: reveal_settle_def result_field_def startCountdown_def tick_def Let_def)

end
