(* ===== verification/KeyPicker.thy ===== *)
theory KeyPicker imports ClientApi begin

text \<open>
  The control that narrows a token to chosen secrets (web/components/secret-key-picker.tsx): it loads the
  keys of the environment it is given, and edits a selection that its parent owns.
\<close>

section \<open>Model\<close>

text \<open>
  A load in flight holds the selection its effect had captured, and whether its effect is still the current
  one: the cleanup of an effect sets \<open>cancelled\<close>.  \<open>loading\<close> is \<open>pending\<close>, \<open>error\<close> is \<open>problem\<close>;
  \<open>kp_env\<close> and \<open>kp_selected\<close> are the properties the parent passes.
\<close>

record fetch =
  ft_env :: string
  ft_selected :: "string list"
  ft_live :: bool

record picker = "fetch form" +
  kp_env :: string
  kp_selected :: "string list"
  kp_keys :: "string list"
  kp_open :: bool
  kp_query :: string

datatype picker_event =
    PickerEnv string
  | PickerSettled nat reply
  | PickerOutside
  | PickerOpen
  | PickerQuery string
  | PickerToggle string
  | PickerRemove string
  | PickerBackspace
  | PickerEnter
  | PickerEscape
  | PickerArrowDown

definition keys_call :: "string \<Rightarrow> api_call" where
  "keys_call e = \<lparr>ac_path = ''/api/environments/'' @ e @ ''/secrets'', ac_method = ''GET'', ac_body = None\<rparr>"

text \<open>The effect on \<open>[environmentId]\<close>: the cleanup of the previous one, then the new one.\<close>

definition load_keys :: "string \<Rightarrow> picker \<Rightarrow> picker" where
  "load_keys e s0 =
     (let s = s0\<lparr>kp_env := e, flights := map (\<lambda>f. f\<lparr>ft_live := False\<rparr>) (flights s0)\<rparr> in
      if e = [] then s\<lparr>kp_keys := []\<rparr>
      else call_api \<lparr>ft_env = e, ft_selected = kp_selected s, ft_live = True\<rparr> (keys_call e) (start_pending s))"

definition picker_fresh :: "string list \<Rightarrow> picker" where
  "picker_fresh sel = \<lparr>flights = [], effects = [], pending = False, problem = None, kp_env = [], kp_selected = sel, kp_keys = [],
     kp_open = False, kp_query = []\<rparr>"

definition picker_start :: "picker \<Rightarrow> bool" where
  "picker_start s = (\<exists>e sel. s = load_keys e (picker_fresh sel))"

text \<open>
  \<open>(result.secrets ?? []).map((secret) => secret.key)\<close>.  The answer's declared type is a list of objects with
  a string \<open>key\<close>; anything else is treated as an error of the load.
\<close>

definition listed_keys :: "json \<Rightarrow> failure + string list" where
  "listed_keys j = then_ok (result_field j ''secrets'') (\<lambda>v. case coalesce v (Some (JArr [])) of
     Some (JArr xs) \<Rightarrow> map_ok (\<lambda>x. case field x ''key'' of Some (JStr k) \<Rightarrow> Inr k
       | _ \<Rightarrow> Inl (Thrown (ErrorValue (exn_message TypeError)))) xs
   | _ \<Rightarrow> Inl (Thrown (ErrorValue (exn_message TypeError))))"

definition picker_settle :: "fetch \<Rightarrow> reply \<Rightarrow> picker \<Rightarrow> picker" where
  "picker_settle f r s =
     (if \<not> ft_live f then s
      else (case then_ok (apiResult r) listed_keys of
          Inr available \<Rightarrow> s\<lparr>kp_keys := available, kp_selected := filter (\<lambda>k. k \<in> set available) (ft_selected f)\<rparr>
        | Inl e \<Rightarrow> fail_with ''Could not load secrets.'' e s)\<lparr>pending := False\<rparr>)"

definition key_matches :: "picker \<Rightarrow> string list" where
  "key_matches s = (let needle = toLowerCase (trim (kp_query s)) in
     filter (\<lambda>k. needle = [] \<or> includes_str (toLowerCase k) needle) (kp_keys s))"

definition toggle_key :: "string \<Rightarrow> picker \<Rightarrow> picker" where
  "toggle_key k s = s\<lparr>kp_selected := (if k \<in> set (kp_selected s) then filter (\<lambda>l. l \<noteq> k) (kp_selected s) else kp_selected s @ [k]),
     kp_query := []\<rparr>"

text \<open>The keys of the input: \<open>None\<close> where the handler leaves the key to the browser.\<close>

definition picker_backspace :: "picker \<Rightarrow> picker" where
  "picker_backspace s = (if kp_query s = [] \<and> kp_selected s \<noteq> [] then s\<lparr>kp_selected := butlast (kp_selected s)\<rparr> else s)"

definition picker_enter :: "picker \<Rightarrow> picker option" where
  "picker_enter s = (if key_matches s = [] then None
     else case find (\<lambda>k. k \<notin> set (kp_selected s)) (key_matches s) of
       Some (c # cs) \<Rightarrow> Some (toggle_key (c # cs) s)
     | _ \<Rightarrow> Some s)"

fun picker_step :: "picker \<Rightarrow> picker_event \<Rightarrow> picker" where
  "picker_step s (PickerEnv e) = load_keys e s"
| "picker_step s (PickerSettled i r) = (if i < length (flights s) then picker_settle (flights s ! i) r (arrive i r s) else s)"
| "picker_step s PickerOutside = s\<lparr>kp_open := False\<rparr>"
| "picker_step s PickerOpen = s\<lparr>kp_open := True\<rparr>"
| "picker_step s (PickerQuery t) = s\<lparr>kp_query := t, kp_open := True\<rparr>"
| "picker_step s (PickerToggle k) = toggle_key k s"
| "picker_step s (PickerRemove k) = s\<lparr>kp_selected := filter (\<lambda>l. l \<noteq> k) (kp_selected s)\<rparr>"
| "picker_step s PickerBackspace = picker_backspace s"
| "picker_step s PickerEnter = (case picker_enter s of Some t \<Rightarrow> t | None \<Rightarrow> s)"
| "picker_step s PickerEscape = s\<lparr>kp_open := False\<rparr>"
| "picker_step s PickerArrowDown = s\<lparr>kp_open := True\<rparr>"

text \<open>A chosen key, with the button that takes it out.\<close>

definition key_chip :: "string \<Rightarrow> picker_event elem list" where
  "key_chip k = [Note k, Press (''Remove '' @ k) (PickerRemove k) False]"

text \<open>The input's placeholder is on screen while the input is empty; it has a text only while nothing is selected.\<close>

definition picker_control :: "picker \<Rightarrow> picker_event elem list" where
  "picker_control s =
     concat (map key_chip (kp_selected s)) @
     [Field ''Filter secrets'' (kp_query s)] @
     (if kp_selected s = [] \<and> kp_query s = [] then [Note ''All granted secrets''] else []) @
     [Press ''Open'' PickerOpen False] @
     (if kp_open s then
        (if key_matches s = [] then [Note ''No secret matches that.'']
         else map (\<lambda>k. Press k (PickerToggle k) False) (key_matches s))
      else []) @
     (if kp_selected s \<noteq> [] then
        [Note (show_nat (length (kp_selected s)) @ '' of '' @ show_nat (length (kp_keys s)) @ '' selected'')] else [])"

definition picker_view :: "picker \<Rightarrow> picker_event elem list" where
  "picker_view s =
     (if pending s then [Note ''Loading secrets...'']
      else case problem s of
        Some (c # cs) \<Rightarrow> [Alert (JStr (c # cs))]
      | _ \<Rightarrow> if kp_keys s = [] then [Note ''This environment has no secrets yet.''] else picker_control s)"

fun picker_offers :: "picker \<Rightarrow> picker_event \<Rightarrow> bool" where
  "picker_offers s (PickerEnv e) = (e \<noteq> kp_env s)"
| "picker_offers s (PickerSettled i r) = (i < length (flights s))"
| "picker_offers s PickerOutside = kp_open s"
| "picker_offers s (PickerQuery t) = editable (picker_view s) ''Filter secrets''"
| "picker_offers s PickerBackspace = editable (picker_view s) ''Filter secrets''"
| "picker_offers s PickerEnter = editable (picker_view s) ''Filter secrets''"
| "picker_offers s PickerEscape = editable (picker_view s) ''Filter secrets''"
| "picker_offers s PickerArrowDown = editable (picker_view s) ''Filter secrets''"
| "picker_offers s e = pressable (picker_view s) e"

section \<open>Lemmas\<close>

lemma picker_frame [simp]:
  "kp_env (call_api f c s) = kp_env s" "kp_selected (call_api f c s) = kp_selected s" "kp_keys (call_api f c s) = kp_keys s"
  "kp_env (arrive i r s) = kp_env s" "kp_selected (arrive i r s) = kp_selected s" "kp_keys (arrive i r s) = kp_keys s"
  "kp_env (start_pending s) = kp_env s" "kp_selected (start_pending s) = kp_selected s" "kp_keys (start_pending s) = kp_keys s"
  "kp_env (fail_with b e s) = kp_env s" "kp_selected (fail_with b e s) = kp_selected s" "kp_keys (fail_with b e s) = kp_keys s"
  by (simp_all add: form_defs)

lemma key_matches_subset: "set (key_matches s) \<subseteq> set (kp_keys s)"
  by (auto simp: key_matches_def Let_def)

lemma picker_control_offers:
  "pressable (picker_control s) e \<longleftrightarrow> (\<exists>k \<in> set (kp_selected s). e = PickerRemove k) \<or> e = PickerOpen \<or>
     (kp_open s \<and> (\<exists>k \<in> set (key_matches s). e = PickerToggle k))"
proof -
  have a: "pressable (concat (map key_chip ks)) e \<longleftrightarrow> (\<exists>k \<in> set ks. e = PickerRemove k)" for ks
    by (induction ks) (auto simp: key_chip_def)
  have b: "pressable (map (\<lambda>k. Press k (PickerToggle k) False) ks) e \<longleftrightarrow> (\<exists>k \<in> set ks. e = PickerToggle k)" for ks
    by (induction ks) auto
  show ?thesis by (auto simp: picker_control_def a b)
qed

lemma picker_view_offers:
  "pressable (picker_view s) e \<Longrightarrow> \<not> pending s \<and> pressable (picker_control s) e"
  "editable (picker_view s) n \<Longrightarrow> \<not> pending s \<and> editable (picker_control s) n"
  by (auto simp: picker_view_def split: if_splits option.splits list.splits)

text \<open>The one load whose answer still counts.\<close>

definition live :: "picker \<Rightarrow> fetch list" where
  "live s = filter ft_live (flights s)"

definition current_load :: "picker \<Rightarrow> bool" where
  "current_load s = (live s = (if pending s \<and> kp_env s \<noteq> []
     then [\<lparr>ft_env = kp_env s, ft_selected = kp_selected s, ft_live = True\<rparr>] else []))"

definition loads_keys :: "api_call \<Rightarrow> bool" where
  "loads_keys c = (\<exists>e. e \<noteq> [] \<and> c = keys_call e)"

definition picker_inv :: "picker \<Rightarrow> bool" where
  "picker_inv s = (current_load s \<and> list_all loads_keys (calls (effects s)) \<and>
     (\<not> pending s \<and> problem s = None \<and> kp_env s \<noteq> [] \<longrightarrow> set (kp_selected s) \<subseteq> set (kp_keys s)))"

lemma no_live_map [simp]: "filter ft_live (map (\<lambda>f. f\<lparr>ft_live := False\<rparr>) fs) = []"
  by (induction fs) auto

lemma load_keys_inv:
  assumes "list_all loads_keys (calls (effects s))"
  shows "picker_inv (load_keys e s)"
  using assms by (auto simp: picker_inv_def current_load_def live_def load_keys_def Let_def loads_keys_def)

text \<open>Taking one flight out of a list with at most one live flight.\<close>

lemma single_live:
  assumes "i < length xs" "P (xs ! i)" "filter P xs = [y]"
  shows "filter P (take i xs) = []" "filter P (drop (Suc i) xs) = []"
  using filter_split_nth [OF assms(1), of P] assms(2,3) by (simp_all add: Cons_eq_append_conv)

lemma picker_settle_stale: "\<not> ft_live f \<Longrightarrow> picker_settle f r s = s"
  by (simp add: picker_settle_def)

lemma picker_settled_inv:
  assumes "picker_inv s" "i < length (flights s)"
  shows "picker_inv (picker_settle (flights s ! i) r (arrive i r s))"
proof (cases "ft_live (flights s ! i)")
  case False
  then have "live (arrive i r s) = live s" using assms(2) by (simp add: live_def filter_split_nth [where P = ft_live])
  with assms(1) False show ?thesis by (simp add: picker_settle_stale picker_inv_def current_load_def)
next
  case True
  then have "live s \<noteq> []" using assms(2) by (auto simp: live_def filter_empty_conv)
  then have p: "pending s" "kp_env s \<noteq> []" and l: "live s = [\<lparr>ft_env = kp_env s, ft_selected = kp_selected s, ft_live = True\<rparr>]"
    using assms(1) by (auto simp: picker_inv_def current_load_def split: if_splits)
  have f: "live (arrive i r s) = []"
    using single_live [where P = ft_live, OF assms(2) True l [unfolded live_def]] by (simp add: live_def)
  have c: "list_all loads_keys (calls (effects s))" using assms(1) by (simp add: picker_inv_def)
  define t where "t = arrive i r s"
  have t: "live t = []" "list_all loads_keys (calls (effects t))" using f c by (simp_all add: t_def)
  show ?thesis using t True unfolding t_def [symmetric]
    by (cases "then_ok (apiResult r) listed_keys")
      (auto simp: picker_settle_def picker_inv_def current_load_def live_def)
qed

lemma selection_kept:
  assumes "picker_inv s" "\<not> pending s" "flights t = flights s" "pending t = pending s" "kp_env t = kp_env s" "effects t = effects s"
    "problem t = problem s" "kp_keys t = kp_keys s" "set (kp_selected t) \<subseteq> set (kp_selected s) \<union> set (kp_keys s)"
  shows "picker_inv t"
  using assms by (auto simp: picker_inv_def current_load_def live_def)

lemma toggle_key_inv:
  assumes "picker_inv s" "\<not> pending s" "k \<in> set (kp_keys s)"
  shows "picker_inv (toggle_key k s)"
  by (rule selection_kept [OF assms(1,2)]) (use assms(3) in \<open>auto simp: toggle_key_def\<close>)

lemma picker_enter_inv:
  assumes "picker_inv s" "\<not> pending s"
  shows "picker_inv (case picker_enter s of Some t \<Rightarrow> t | None \<Rightarrow> s)"
proof -
  have "c # cs \<in> set (kp_keys s)" if "find (\<lambda>k. k \<notin> set (kp_selected s)) (key_matches s) = Some (c # cs)" for c cs
    using that key_matches_subset [of s] by (auto simp: find_Some_iff)
  then show ?thesis using assms toggle_key_inv
    by (auto simp: picker_enter_def split: option.splits list.splits)
qed

lemma picker_inv_step:
  assumes "picker_inv s" "picker_offers s e"
  shows "picker_inv (picker_step s e)"
proof (cases e)
  case (PickerEnv e')
  moreover have "list_all loads_keys (calls (effects s))" using assms(1) by (simp add: picker_inv_def)
  ultimately show ?thesis by (simp add: load_keys_inv)
next
  case (PickerSettled i r)
  with assms picker_settled_inv show ?thesis by simp
next
  case (PickerToggle k)
  then have "\<not> pending s" "k \<in> set (kp_keys s)"
    using assms(2) picker_view_offers(1) [of s e] key_matches_subset [of s] by (auto simp: picker_control_offers)
  with assms(1) PickerToggle show ?thesis by (simp add: toggle_key_inv)
next
  case (PickerRemove k)
  then have p: "\<not> pending s" using assms(2) picker_view_offers(1) [of s e] by simp
  show ?thesis unfolding PickerRemove picker_step.simps by (rule selection_kept [OF assms(1) p]) auto
next
  case PickerBackspace
  then have p: "\<not> pending s" using assms(2) picker_view_offers(2) by simp
  show ?thesis unfolding PickerBackspace picker_step.simps
    by (rule selection_kept [OF assms(1) p]) (auto simp: picker_backspace_def dest: in_set_butlastD)
next
  case PickerEnter
  then have "\<not> pending s" using assms(2) picker_view_offers(2) by simp
  with assms(1) PickerEnter picker_enter_inv show ?thesis by simp
qed (use assms in \<open>simp_all add: picker_inv_def current_load_def live_def\<close>)

interpretation picking: component picker_start picker_offers picker_step picker_inv
proof unfold_locales
  show "picker_start s \<Longrightarrow> picker_inv s" for s
    using load_keys_inv by (auto simp: picker_start_def picker_fresh_def)
qed (rule picker_inv_step)

section \<open>Properties\<close>

text \<open>The selection stays within the environment.  In every reachable state of the picker, once a load has
  succeeded every selected key is one the environment has; every request is a read of an environment's
  list; at most the load of the current environment can still change anything, and an answer to any other
  load changes neither the selection nor the keys nor what is shown.\<close>

theorem selection_stays_within_environment:
  assumes "reachable picker_start picker_offers picker_step s"
  shows "(\<not> pending s \<and> problem s = None \<and> kp_env s \<noteq> [] \<longrightarrow> set (kp_selected s) \<subseteq> set (kp_keys s)) \<and>
    (\<forall>c \<in> set (calls (effects s)). \<exists>e. e \<noteq> [] \<and> c = keys_call e) \<and>
    (\<forall>i r. i < length (flights s) \<and> (ft_env (flights s ! i) \<noteq> kp_env s \<or> \<not> ft_live (flights s ! i)) \<longrightarrow>
      (let t = picker_step s (PickerSettled i r) in kp_selected t = kp_selected s \<and> kp_keys t = kp_keys s \<and> picker_view t = picker_view s))"
proof -
  have inv: "picker_inv s" using assms by (rule picking.always)
  have stale: "\<not> ft_live (flights s ! i)" if "i < length (flights s)" "ft_env (flights s ! i) \<noteq> kp_env s" for i
  proof
    assume "ft_live (flights s ! i)"
    then have "flights s ! i \<in> set (live s)" using that(1) by (simp add: live_def)
    with inv that(2) show False by (auto simp: picker_inv_def current_load_def split: if_splits)
  qed
  have control: "picker_control (arrive i r s) = picker_control s" for i r
    by (simp add: picker_control_def key_matches_def arrive_def)
  have view: "picker_view (arrive i r s) = picker_view s" for i r
    unfolding picker_view_def control by simp
  have "let t = picker_step s (PickerSettled i r) in kp_selected t = kp_selected s \<and> kp_keys t = kp_keys s \<and> picker_view t = picker_view s"
    if "i < length (flights s)" "ft_env (flights s ! i) \<noteq> kp_env s \<or> \<not> ft_live (flights s ! i)" for i r
    using that stale by (auto simp: picker_settle_stale view)
  with inv show ?thesis by (auto simp: picker_inv_def list_all_iff loads_keys_def)
qed

text \<open>Changing the environment.  Whatever was selected, once the answer of the new environment is there the
  selection is what of it that environment has; so a selection none of whose keys exist there becomes
  empty, which is the selection that means every granted secret and is shown as that.
  When the load fails the selection is kept, but none of it is shown and nothing can be taken out.\<close>

theorem switching_can_empty_the_selection:
  assumes "e \<noteq> []"
  shows "let t = picker_step (picker_step s (PickerEnv e)) (PickerSettled (length (flights s)) r) in
   (then_ok (apiResult r) listed_keys = Inr ks \<longrightarrow>
      kp_keys t = ks \<and> kp_selected t = filter (\<lambda>k. k \<in> set ks) (kp_selected s) \<and>
      (set (kp_selected s) \<inter> set ks = {} \<longrightarrow> kp_selected t = [])) \<and>
    (\<forall>err. then_ok (apiResult r) listed_keys = Inl err \<and> failure_message ''Could not load secrets.'' err \<noteq> [] \<longrightarrow>
      kp_selected t = kp_selected s \<and> picker_view t = [Alert (JStr (failure_message ''Could not load secrets.'' err))])"
proof -
  let ?s = "load_keys e s"
  have l: "flights ?s = map (\<lambda>f. f\<lparr>ft_live := False\<rparr>) (flights s) @ [\<lparr>ft_env = e, ft_selected = kp_selected s, ft_live = True\<rparr>]"
    "kp_selected ?s = kp_selected s" using assms(1) by (simp_all add: load_keys_def Let_def)
  then have t: "picker_step (picker_step s (PickerEnv e)) (PickerSettled (length (flights s)) r) = picker_settle \<lparr>ft_env = e, ft_selected = kp_selected s, ft_live = True\<rparr> r (arrive (length (flights s)) r ?s)"
    by (simp add: nth_append)
  have some: "m \<noteq> [] \<Longrightarrow> picker_view (u\<lparr>problem := Some m, pending := False\<rparr>) = [Alert (JStr m)]" for m u
    by (cases m) (simp_all add: picker_view_def)
  show ?thesis unfolding t Let_def
    by (auto simp: picker_settle_def l some fail_with_def filter_empty_conv)
qed

definition picker_demo :: picker where
  "picker_demo = (picker_fresh [''DB_URL''])\<lparr>kp_env := ''e1'', kp_keys := [''DB_URL'']\<rparr>"

definition other_keys :: reply where
  "other_keys = Reply 200 (Some (JObj [(''secrets'', JArr [JObj [(''id'', JStr ''s9''), (''key'', JStr ''API_KEY'')]])]))"

lemma other_keys_listed: "then_ok (apiResult other_keys) listed_keys = Inr [''API_KEY'']"
  by (simp add: other_keys_def apiResult_def reply_ok_def payload_of_def listed_keys_def result_field_def)

theorem switching_can_empty_the_selection_witness:
  "kp_selected picker_demo = [''DB_URL''] \<and>
   kp_selected (picker_step (picker_step picker_demo (PickerEnv ''e2'')) (PickerSettled 0 other_keys)) = []"
  using switching_can_empty_the_selection [of "''e2''" picker_demo other_keys "[''API_KEY'']"]
  by (simp add: other_keys_listed Let_def del: picker_step.simps) (simp add: picker_demo_def picker_fresh_def)

theorem selection_stays_within_environment_witness:
  "\<exists>s. reachable picker_start picker_offers picker_step s \<and> set (kp_selected s) \<subseteq> set (kp_keys s) \<and> kp_keys s = [''API_KEY'']"
proof -
  let ?a = "load_keys ''e1'' (picker_fresh [''API_KEY''])"
  let ?s = "picker_step ?a (PickerSettled 0 other_keys)"
  have f: "flights ?a = [\<lparr>ft_env = ''e1'', ft_selected = [''API_KEY''], ft_live = True\<rparr>]" "kp_env ?a = ''e1''" "problem ?a = None"
    by (simp_all add: load_keys_def picker_fresh_def Let_def)
  have "reachable picker_start picker_offers picker_step ?s"
    by (intro reachable.event reachable.initial) (auto simp: picker_start_def f)
  moreover have "\<not> pending ?s" "problem ?s = None" "kp_env ?s = ''e1''" "kp_keys ?s = [''API_KEY'']"
    by (simp_all add: f picker_settle_def other_keys_listed)
  ultimately show ?thesis
    using selection_stays_within_environment [of ?s] by (intro exI [of _ ?s]) simp
qed

end
