(* ===== verification/AccessView.thy ===== *)
theory AccessView imports ClientApi "HOL-Library.AList" "HOL-Library.Sorting_Algorithms" begin

text \<open>
  The access screen (web/components/access-grid.tsx and web/components/access-matrix.tsx): which dots the
  grid draws for the grants of a project, and how the matrix groups them.  Both are pure functions of the
  grants; the rows' revoke button is in \<open>RowActions\<close>.
\<close>

section \<open>Model\<close>

text \<open>\<open>null\<close> is \<open>None\<close>.\<close>

record grant =
  gr_id :: string
  gr_subjectType :: string
  gr_subjectId :: string
  gr_subjectName :: string
  gr_subjectKind :: string
  gr_scope :: string
  gr_environmentId :: "string option"
  gr_secretId :: "string option"
  gr_capabilities :: "string list"
  gr_canUse :: bool
  gr_canReveal :: bool
  gr_expiresAt :: "string option"
  gr_reason :: string
  gr_temporary :: bool

record environ =
  en_id :: string
  en_name :: string
  en_slug :: string

record secret_ref =
  sr_id :: string
  sr_key :: string

record grid_subject =
  gs_id :: string
  gs_name :: string
  gs_kind :: string
  gs_type :: string

subsection \<open>The grid\<close>

definition applicable :: "environ \<Rightarrow> grant list \<Rightarrow> grant list" where
  "applicable env grants = filter (\<lambda>g. gr_environmentId g = None \<or> gr_environmentId g = Some (en_id env)) grants"

text \<open>
  \<open>new Map(pairs)\<close>: a key keeps the place of its first pair and the value of its last; \<open>values()\<close> are in
  the keys' order.
\<close>

definition new_map :: "('k \<times> 'v) list \<Rightarrow> ('k \<times> 'v) list" where
  "new_map pairs = foldl (\<lambda>m (k, v). AList.update k v m) [] pairs"

definition subject_of :: "grant \<Rightarrow> grid_subject" where
  "subject_of g = \<lparr>gs_id = gr_subjectId g, gs_name = gr_subjectName g, gs_kind = gr_subjectKind g, gs_type = gr_subjectType g\<rparr>"

text \<open>\<open>collate\<close> is \<open>localeCompare\<close>, which is a total preorder; \<open>Array.prototype.sort\<close> is stable.\<close>

definition subjects :: "string comparator \<Rightarrow> environ \<Rightarrow> grant list \<Rightarrow> grid_subject list" where
  "subjects collate env grants = Sorting_Algorithms.sort (key gs_name collate)
     (map snd (new_map (map (\<lambda>g. (gr_subjectId g, subject_of g)) (applicable env grants))))"

definition reaches :: "environ \<Rightarrow> grant list \<Rightarrow> string \<Rightarrow> string \<Rightarrow> bool \<times> bool" where
  "reaches env grants subjectId secretId =
     (let matching = filter (\<lambda>g. gr_subjectId g = subjectId \<and> (gr_secretId g = None \<or> gr_secretId g = Some secretId))
        (applicable env grants)
      in (list_ex gr_canUse matching, list_ex gr_canReveal matching))"

definition cell_label :: "bool \<times> bool \<Rightarrow> string" where
  "cell_label c = (if fst c \<and> snd c then ''may use and read''
     else if fst c then ''may use'' else if snd c then ''may read'' else ''no access'')"

text \<open>\<open>s.split(/[\s@._-]+/)\<close>\<close>

definition name_sep :: "char \<Rightarrow> bool" where
  "name_sep c = (js_ws c \<or> c \<in> set ''@._-'')"

function split_runs :: "(char \<Rightarrow> bool) \<Rightarrow> string \<Rightarrow> string list" where
  "split_runs P s = (case dropWhile (\<lambda>c. \<not> P c) s of [] \<Rightarrow> [s]
     | c # cs \<Rightarrow> takeWhile (\<lambda>c. \<not> P c) s # split_runs P (dropWhile P cs))"
  by pat_completeness auto
termination
proof (relation "measure (\<lambda>(P, s). length s)")
  fix P :: "char \<Rightarrow> bool" and s c cs assume "dropWhile (\<lambda>c. \<not> P c) s = c # cs"
  then have "length cs < length s"
    using length_dropWhile_le [of "\<lambda>c. \<not> P c" s] by simp
  moreover have "length (dropWhile P cs) \<le> length cs" by (rule length_dropWhile_le)
  ultimately show "((P, dropWhile P cs), P, s) \<in> measure (\<lambda>(P, s). length s)" by simp
qed simp

declare split_runs.simps [simp del]

definition machine_marks :: "(string \<times> string) list" where
  "machine_marks = [(''WORKLOAD'', ''WL''), (''CI'', ''CI''), (''AI_AGENT'', ''AI''), (''SERVICE'', ''SV'')]"

definition initials :: "string \<Rightarrow> string \<Rightarrow> string" where
  "initials name kind = (case map_of machine_marks (toUpperCase kind) of
     Some mark \<Rightarrow> mark
   | None \<Rightarrow>
       let parts = filter (\<lambda>p. p \<noteq> []) (split_runs name_sep (trim name));
           first = (case parts of (c # _) # _ \<Rightarrow> [c] | _ \<Rightarrow> ''?'');
           second = (case parts of
               _ # (c # _) # _ \<Rightarrow> [c]
             | (_ # c # _) # _ \<Rightarrow> [c]
             | _ \<Rightarrow> [])
       in toUpperCase (first @ second))"

text \<open>A row of the table: the subject, its mark, and for each secret a cell and its spoken label.\<close>

record grid_row =
  gw_subject :: grid_subject
  gw_mark :: string
  gw_kind :: string
  gw_cells :: "(bool \<times> bool) list"
  gw_labels :: "string list"

definition grid_row_of :: "environ \<Rightarrow> secret_ref list \<Rightarrow> grant list \<Rightarrow> grid_subject \<Rightarrow> grid_row" where
  "grid_row_of env secrets grants sj =
     (let cells = map (\<lambda>sc. reaches env grants (gs_id sj) (sr_id sc)) secrets in
      \<lparr>gw_subject = sj, gw_mark = initials (gs_name sj) (gs_kind sj),
       gw_kind = replace_first (CHR ''_'') '' '' (toLowerCase (gs_kind sj)), gw_cells = cells,
       gw_labels = map2 (\<lambda>sc c. gs_name sj @ '' '' @ cell_label c @ '' '' @ sr_key sc) secrets cells\<rparr>)"

record grid =
  gd_title :: string
  gd_count :: string
  gd_keys :: "string list"
  gd_rows :: "grid_row list"

definition access_grid :: "string comparator \<Rightarrow> environ \<Rightarrow> secret_ref list \<Rightarrow> grant list \<Rightarrow> grid option" where
  "access_grid collate env secrets grants =
     (if secrets = [] \<or> subjects collate env grants = [] then None
      else Some \<lparr>gd_title = en_name env,
        gd_count = show_nat (length secrets) @ '' '' @ (if length secrets = 1 then ''secret'' else ''secrets''),
        gd_keys = map sr_key secrets,
        gd_rows = map (grid_row_of env secrets grants) (subjects collate env grants)\<rparr>)"

subsection \<open>The matrix\<close>

record grant_group =
  gp_title :: string
  gp_subtitle :: string
  gp_grants :: "grant list"

text \<open>One turn of the loop: the map by environment and the project-wide grants, in the order met.\<close>

definition sort_grant :: "(string \<times> grant list) list \<times> grant list \<Rightarrow> grant \<Rightarrow> (string \<times> grant list) list \<times> grant list" where
  "sort_grant st g = (case gr_environmentId g of
     Some (c # cs) \<Rightarrow>
       (AList.update (c # cs) ((case map_of (fst st) (c # cs) of Some gs \<Rightarrow> gs | None \<Rightarrow> []) @ [g]) (fst st), snd st)
   | _ \<Rightarrow> (fst st, snd st @ [g]))"

definition access_matrix :: "environ list \<Rightarrow> grant list \<Rightarrow> grant_group list option" where
  "access_matrix envs grants =
     (case foldl sort_grant ([], []) grants of (byEnvironment, projectWide) \<Rightarrow>
       if grants = [] then None
       else Some
         ((if projectWide \<noteq> [] then [\<lparr>gp_title = ''All environments'', gp_subtitle = ''project-wide'', gp_grants = projectWide\<rparr>] else []) @
          List.map_filter (\<lambda>env.
            let forEnvironment = (case map_of byEnvironment (en_id env) of Some gs \<Rightarrow> gs | None \<Rightarrow> []) in
            if forEnvironment = [] then None
            else Some \<lparr>gp_title = en_name env, gp_subtitle = en_slug env, gp_grants = forEnvironment\<rparr>) envs))"

text \<open>The mark of a capability and its title.\<close>

definition capability_mark :: "string \<Rightarrow> bool \<Rightarrow> string \<times> string" where
  "capability_mark label granted = (if \<not> granted then (''Not granted '' @ label, ''No'') else (''Granted '' @ label, ''Yes''))"

section \<open>Lemmas\<close>

lemma new_map_snoc: "new_map (ps @ [(k, v)]) = AList.update k v (new_map ps)"
  by (simp add: new_map_def)

lemma new_map_keys: "distinct (map fst (new_map ps)) \<and> fst ` set (new_map ps) = fst ` set ps"
proof (induction ps rule: rev_induct)
  case (snoc p ps)
  then show ?case by (cases p) (simp add: new_map_snoc distinct_update dom_update)
qed (simp add: new_map_def)

lemma new_map_value: "kv \<in> set (new_map ps) \<Longrightarrow> kv \<in> set ps"
proof (induction ps arbitrary: kv rule: rev_induct)
  case (snoc p ps)
  obtain k v where p: "p = (k, v)" by (cases p)
  have "set (AList.update k v m) \<subseteq> insert (k, v) (set m)" for m
    by (induction m) auto
  then have "kv \<in> insert (k, v) (set (new_map ps))" using snoc.prems p by (auto simp: new_map_snoc)
  then show ?case using snoc.IH [of kv] p by auto
qed (simp add: new_map_def)

lemma subjects_ids:
  "distinct (map gs_id (subjects collate env grants))"
  "gs_id ` set (subjects collate env grants) = gr_subjectId ` set (applicable env grants)"
proof -
  let ?ps = "map (\<lambda>g. (gr_subjectId g, subject_of g)) (applicable env grants)"
  let ?m = "new_map ?ps"
  have "kv \<in> set ?m \<Longrightarrow> gs_id (snd kv) = fst kv" for kv
    using new_map_value [of kv ?ps] by (auto simp: subject_of_def)
  then have ids: "map gs_id (map snd ?m) = map fst ?m" by simp
  have "mset (map gs_id (subjects collate env grants)) = mset (map gs_id (map snd ?m))"
    by (simp only: subjects_def mset_map mset_sort)
  then have "mset (map gs_id (subjects collate env grants)) = mset (map fst ?m)" by (simp only: ids)
  then show "distinct (map gs_id (subjects collate env grants))"
    using new_map_keys [of ?ps] by (metis mset_eq_imp_distinct_iff)
  have "gs_id ` set (subjects collate env grants) = set (map gs_id (map snd ?m))" by (simp add: subjects_def image_image)
  also have "\<dots> = fst ` set ?ps" unfolding ids using new_map_keys [of ?ps] by simp
  finally show "gs_id ` set (subjects collate env grants) = gr_subjectId ` set (applicable env grants)"
    by (simp add: image_image)
qed

lemma subjects_empty: "subjects collate env grants = [] \<longleftrightarrow> applicable env grants = []"
  using subjects_ids(2) [of collate env grants] by (metis empty_set image_is_empty set_empty)

text \<open>What a grant gives: the policy the two screens are about.\<close>

definition covers :: "grant \<Rightarrow> string \<Rightarrow> string \<Rightarrow> bool" where
  "covers g e k = ((gr_environmentId g = None \<or> gr_environmentId g = Some e) \<and> (gr_secretId g = None \<or> gr_secretId g = Some k))"

definition may_use :: "grant list \<Rightarrow> string \<Rightarrow> string \<Rightarrow> string \<Rightarrow> bool" where
  "may_use grants sj e k = (\<exists>g \<in> set grants. gr_subjectId g = sj \<and> covers g e k \<and> gr_canUse g)"

definition may_read :: "grant list \<Rightarrow> string \<Rightarrow> string \<Rightarrow> string \<Rightarrow> bool" where
  "may_read grants sj e k = (\<exists>g \<in> set grants. gr_subjectId g = sj \<and> covers g e k \<and> gr_canReveal g)"

lemma reaches_policy:
  "reaches env grants sj k = (may_use grants sj (en_id env) k, may_read grants sj (en_id env) k)"
  by (auto simp: reaches_def Let_def list_ex_iff applicable_def may_use_def may_read_def covers_def)

lemma sorted_by_key: "Sorting_Algorithms.sorted (key f cmp) xs = Sorting_Algorithms.sorted cmp (map f xs)"
  by (induction xs rule: induct_list012) simp_all

lemma filter_mset_disj:
  "(\<And>x. P x \<Longrightarrow> \<not> Q x) \<Longrightarrow> filter_mset P M + filter_mset Q M = filter_mset (\<lambda>x. P x \<or> Q x) M"
  by (induction M) auto

text \<open>The loop of the matrix collects what a filter would.\<close>

definition of_environment :: "string \<Rightarrow> grant \<Rightarrow> bool" where
  "of_environment e g = (gr_environmentId g = Some e \<and> e \<noteq> [])"

definition project_wide :: "grant \<Rightarrow> bool" where
  "project_wide g = (gr_environmentId g = None \<or> gr_environmentId g = Some [])"

lemma sort_grants:
  "snd (foldl sort_grant ([], []) gs) = filter project_wide gs \<and>
   (\<forall>e. (case map_of (fst (foldl sort_grant ([], []) gs)) e of Some hs \<Rightarrow> hs | None \<Rightarrow> []) = filter (of_environment e) gs)"
proof (induction gs rule: rev_induct)
  case (snoc g gs)
  show ?case
  proof (cases "project_wide g")
    case True
    then have "sort_grant st g = (fst st, snd st @ [g])" for st
      by (auto simp: sort_grant_def project_wide_def)
    with snoc True show ?thesis by (auto simp: project_wide_def of_environment_def)
  next
    case False
    then obtain c cs where g: "gr_environmentId g = Some (c # cs)"
      by (cases "gr_environmentId g") (auto simp: project_wide_def neq_Nil_conv)
    then have "sort_grant st g = (AList.update (c # cs) ((case map_of (fst st) (c # cs) of Some hs \<Rightarrow> hs | None \<Rightarrow> []) @ [g]) (fst st), snd st)" for st
      by (simp add: sort_grant_def)
    with snoc False g show ?thesis by (auto simp: update_conv' of_environment_def)
  qed
qed simp

lemma access_matrix_groups:
  assumes "grants \<noteq> []"
  shows "access_matrix envs grants = Some
    ((if filter project_wide grants = [] then []
      else [\<lparr>gp_title = ''All environments'', gp_subtitle = ''project-wide'', gp_grants = filter project_wide grants\<rparr>]) @
     map (\<lambda>env. \<lparr>gp_title = en_name env, gp_subtitle = en_slug env, gp_grants = filter (of_environment (en_id env)) grants\<rparr>)
       (filter (\<lambda>env. filter (of_environment (en_id env)) grants \<noteq> []) envs))"
proof -
  obtain m wide where mw: "foldl sort_grant ([], []) grants = (m, wide)" by (cases "foldl sort_grant ([], []) grants")
  then have facts: "wide = filter project_wide grants"
    "\<And>e. (case map_of m e of Some hs \<Rightarrow> hs | None \<Rightarrow> []) = filter (of_environment e) grants"
    using sort_grants [of grants] by auto
  have "List.map_filter (\<lambda>env. if filter (of_environment (en_id env)) grants = [] then None
      else Some \<lparr>gp_title = en_name env, gp_subtitle = en_slug env, gp_grants = filter (of_environment (en_id env)) grants\<rparr>) envs =
    map (\<lambda>env. \<lparr>gp_title = en_name env, gp_subtitle = en_slug env, gp_grants = filter (of_environment (en_id env)) grants\<rparr>)
       (filter (\<lambda>env. filter (of_environment (en_id env)) grants \<noteq> []) envs)"
    by (induction envs) (simp_all add: map_filter_simps)
  then show ?thesis unfolding access_matrix_def mw prod.case facts Let_def using assms by simp
qed

section \<open>Properties\<close>

text \<open>C25: The grid shows the policy.  There is a grid exactly when there are secrets and a grant that applies to the
  environment.  Its rows are the subjects of those grants, once each, in the order of their names; and the
  dots of a row say, for every secret listed, exactly whether some grant lets the subject use it and whether
  some grant lets the subject read it.  So nobody who can reach a listed secret is missing, and no dot is
  drawn without a grant behind it.\<close>

theorem grid_shows_the_policy:
  "(access_grid collate env secrets grants = None \<longleftrightarrow>
      secrets = [] \<or> (\<forall>g \<in> set grants. \<nexists>k. covers g (en_id env) k)) \<and>
   (\<forall>rows. map_option gd_rows (access_grid collate env secrets grants) = Some rows \<longrightarrow>
      distinct (map (\<lambda>w. gs_id (gw_subject w)) rows) \<and>
      set (map (\<lambda>w. gs_id (gw_subject w)) rows) = {gr_subjectId g | g. g \<in> set grants \<and> (\<exists>k. covers g (en_id env) k)} \<and>
      Sorting_Algorithms.sorted collate (map (\<lambda>w. gs_name (gw_subject w)) rows) \<and>
      (\<forall>w \<in> set rows. gw_cells w = map (\<lambda>sc. (may_use grants (gs_id (gw_subject w)) (en_id env) (sr_id sc),
         may_read grants (gs_id (gw_subject w)) (en_id env) (sr_id sc))) secrets))"
proof (intro conjI allI impI)
  have some: "g \<in> set (applicable env grants) \<longleftrightarrow> g \<in> set grants \<and> (\<exists>k. covers g (en_id env) k)" for g
    by (cases "gr_secretId g") (auto simp: applicable_def covers_def)
  then show "access_grid collate env secrets grants = None \<longleftrightarrow>
      secrets = [] \<or> (\<forall>g \<in> set grants. \<nexists>k. covers g (en_id env) k)"
    by (auto simp: access_grid_def subjects_empty) (metis equals0I set_empty)
  fix rows assume "map_option gd_rows (access_grid collate env secrets grants) = Some rows"
  then have rows: "rows = map (grid_row_of env secrets grants) (subjects collate env grants)"
    by (auto simp: access_grid_def split: if_splits)
  have subject: "gw_subject (grid_row_of env secrets grants sj) = sj" for sj by (simp add: grid_row_of_def Let_def)
  show "distinct (map (\<lambda>w. gs_id (gw_subject w)) rows)"
    using subjects_ids(1) [of collate env grants] by (simp add: rows comp_def subject)
  have "set (map (\<lambda>w. gs_id (gw_subject w)) rows) = gs_id ` set (subjects collate env grants)"
    by (simp add: rows image_image subject)
  then show "set (map (\<lambda>w. gs_id (gw_subject w)) rows) = {gr_subjectId g | g. g \<in> set grants \<and> (\<exists>k. covers g (en_id env) k)}"
    by (simp add: subjects_ids(2) setcompr_eq_image) (rule arg_cong [of _ _ "(`) gr_subjectId"], use some in blast)
  show "Sorting_Algorithms.sorted collate (map (\<lambda>w. gs_name (gw_subject w)) rows)"
    by (simp add: rows comp_def subject) (simp add: subjects_def flip: sorted_by_key)
  show "\<forall>w \<in> set rows. gw_cells w = map (\<lambda>sc. (may_use grants (gs_id (gw_subject w)) (en_id env) (sr_id sc),
         may_read grants (gs_id (gw_subject w)) (en_id env) (sr_id sc))) secrets"
    by (simp add: rows grid_row_of_def Let_def reaches_policy)
qed

definition demo_env :: environ where
  "demo_env = \<lparr>en_id = ''e1'', en_name = ''production'', en_slug = ''production''\<rparr>"

definition demo_grant :: grant where
  "demo_grant = \<lparr>gr_id = ''g1'', gr_subjectType = ''MACHINE'', gr_subjectId = ''m1'', gr_subjectName = ''api'', gr_subjectKind = ''WORKLOAD'',
     gr_scope = ''SECRET'', gr_environmentId = None, gr_secretId = Some ''s1'', gr_capabilities = [''USE_SECRET''],
     gr_canUse = True, gr_canReveal = False, gr_expiresAt = None, gr_reason = [], gr_temporary = False\<rparr>"

definition demo_secrets :: "secret_ref list" where
  "demo_secrets = [\<lparr>sr_id = ''s1'', sr_key = ''A''\<rparr>, \<lparr>sr_id = ''s2'', sr_key = ''B''\<rparr>]"

theorem grid_shows_the_policy_witness:
  "\<exists>rows. map_option gd_rows (access_grid flat demo_env demo_secrets [demo_grant]) = Some rows \<and>
     (\<forall>w \<in> set rows. gs_id (gw_subject w) = ''m1'' \<longrightarrow> gw_cells w = [(True, False), (False, False)])"
proof -
  have c: "covers demo_grant (en_id demo_env) ''s1''" by (simp add: covers_def demo_grant_def)
  then have "access_grid flat demo_env demo_secrets [demo_grant] \<noteq> None"
    using grid_shows_the_policy [of flat demo_env demo_secrets "[demo_grant]"] by (auto simp: demo_secrets_def)
  then obtain rows where r: "map_option gd_rows (access_grid flat demo_env demo_secrets [demo_grant]) = Some rows" by auto
  then have "\<forall>w \<in> set rows. gw_cells w = map (\<lambda>sc. (may_use [demo_grant] (gs_id (gw_subject w)) (en_id demo_env) (sr_id sc),
         may_read [demo_grant] (gs_id (gw_subject w)) (en_id demo_env) (sr_id sc))) demo_secrets"
    using grid_shows_the_policy [of flat demo_env demo_secrets "[demo_grant]"] by blast
  with r show ?thesis
    by (auto simp: may_use_def may_read_def covers_def demo_grant_def demo_env_def demo_secrets_def)
qed

text \<open>The matrix lists every grant of a listed environment.  With grants to show and distinct environments, the
  groups hold, each once, exactly the grants that are project-wide or belong to a listed environment; no
  group is empty; and a grant of any other environment is shown nowhere.\<close>

theorem matrix_lists_each_grant_once:
  assumes "grants \<noteq> []" "distinct (map en_id envs)"
  shows "\<exists>groups. access_matrix envs grants = Some groups \<and>
    mset (concat (map gp_grants groups)) =
      filter_mset (\<lambda>g. project_wide g \<or> (\<exists>env \<in> set envs. of_environment (en_id env) g)) (mset grants) \<and>
    (\<forall>gp \<in> set groups. gp_grants gp \<noteq> [])"
proof -
  let ?of = "\<lambda>env. filter (of_environment (en_id env)) grants"
  have "concat (map ?of (filter (\<lambda>env. ?of env \<noteq> []) envs)) = concat (map ?of envs)" by (induction envs) auto
  moreover have "mset (concat (map ?of envs)) =
      filter_mset (\<lambda>g. \<exists>env \<in> set envs. of_environment (en_id env) g) (mset grants)"
    using assms(2)
  proof (induction envs)
    case (Cons env envs)
    have "filter_mset (\<lambda>g. \<exists>v \<in> set (env # envs). of_environment (en_id v) g) (mset grants) =
        filter_mset (of_environment (en_id env)) (mset grants) +
        filter_mset (\<lambda>g. \<exists>v \<in> set envs. of_environment (en_id v) g) (mset grants)"
      using Cons.prems by (subst filter_mset_disj) (auto simp: of_environment_def)
    with Cons show ?case by simp
  qed simp
  moreover have "filter_mset (\<lambda>g. project_wide g \<or> (\<exists>env \<in> set envs. of_environment (en_id env) g)) (mset grants) =
      filter_mset project_wide (mset grants) + filter_mset (\<lambda>g. \<exists>env \<in> set envs. of_environment (en_id env) g) (mset grants)"
    by (subst filter_mset_disj) (auto simp: of_environment_def project_wide_def)
  ultimately show ?thesis using assms(1)
    by (simp add: access_matrix_groups comp_def mset_filter) (simp add: filter_empty_conv)
qed

theorem matrix_lists_each_grant_once_witness:
  "\<exists>groups. access_matrix [demo_env] [demo_grant, demo_grant\<lparr>gr_environmentId := Some ''gone''\<rparr>] = Some groups \<and>
     mset (concat (map gp_grants groups)) = {#demo_grant#}"
proof -
  have "filter_mset (\<lambda>g. project_wide g \<or> (\<exists>env \<in> set [demo_env]. of_environment (en_id env) g))
      (mset [demo_grant, demo_grant\<lparr>gr_environmentId := Some ''gone''\<rparr>]) = {#demo_grant#}"
    by (simp add: project_wide_def of_environment_def demo_grant_def demo_env_def)
  then show ?thesis
    using matrix_lists_each_grant_once [of "[demo_grant, demo_grant\<lparr>gr_environmentId := Some ''gone''\<rparr>]" "[demo_env]"] by auto
qed

end
