(* ===== verification/RowActions.thy ===== *)
theory RowActions imports AccessView begin

text \<open>
  The tables whose rows act on what they show: the access matrix (web/components/access-matrix.tsx), runtime
  tokens (tokens-table.tsx), invitations (invitations-table.tsx), members (members-table.tsx), identities
  (identities-table.tsx) and the row of a passkey (passkeys-panel.tsx).  Time stamps and the icons of a row
  are left out of its rendering.
\<close>

section \<open>Model\<close>

subsection \<open>A row with one button\<close>

text \<open>
  Four of the tables have rows of the same shape: a button that is there under a condition, one request, a
  toast for its success and one for its failure.  What distinguishes them is a \<open>revoker\<close>.
\<close>

record revoker =
  rk_call :: api_call
  rk_success :: string
  rk_fallback :: string
  rk_offered :: bool
  rk_label :: string
  rk_notes :: "string list"

type_synonym action_row = "unit form"

datatype action_event = ActionPress | ActionSettled nat reply

definition action_start :: "action_row \<Rightarrow> bool" where
  "action_start s = (s = \<lparr>flights = [], effects = [], pending = False, problem = None\<rparr>)"

definition action_press :: "revoker \<Rightarrow> action_row \<Rightarrow> action_row" where
  "action_press k s = call_api () (rk_call k) (s\<lparr>pending := True\<rparr>)"

definition action_settle :: "revoker \<Rightarrow> reply \<Rightarrow> action_row \<Rightarrow> action_row" where
  "action_settle k r s =
     (case apiResult r of
        Inl e \<Rightarrow> emit (ToastsError (failure_message (rk_fallback k) e)) s
      | Inr j \<Rightarrow> emit Refreshes (emit (Toasts (rk_success k)) s))
     \<lparr>pending := False\<rparr>"

fun action_step :: "revoker \<Rightarrow> action_row \<Rightarrow> action_event \<Rightarrow> action_row" where
  "action_step k s ActionPress = action_press k s"
| "action_step k s (ActionSettled i r) = (if i < length (flights s) then action_settle k r (arrive i r s) else s)"

definition action_view :: "revoker \<Rightarrow> action_row \<Rightarrow> action_event elem list" where
  "action_view k s = map Note (rk_notes k) @ (if rk_offered k then [Press (rk_label k) ActionPress (pending s)] else [])"

fun action_offers :: "revoker \<Rightarrow> action_row \<Rightarrow> action_event \<Rightarrow> bool" where
  "action_offers k s (ActionSettled i r) = (i < length (flights s))"
| "action_offers k s e = pressable (action_view k s) e"

definition plain_call :: "string \<Rightarrow> string \<Rightarrow> api_call" where
  "plain_call p m = \<lparr>ac_path = p, ac_method = m, ac_body = None\<rparr>"

text \<open>\<open>kind.toLowerCase().replace("_", " ")\<close>\<close>

definition readable_kind :: "string \<Rightarrow> string" where
  "readable_kind k = replace_first (CHR ''_'') '' '' (toLowerCase k)"

definition middot :: char where "middot = CHR 0xB7"

definition grant_revoker :: "string \<Rightarrow> grant \<Rightarrow> revoker" where
  "grant_revoker projectId g =
     \<lparr>rk_call = plain_call (''/api/projects/'' @ projectId @ ''/access/'' @ gr_id g) ''DELETE'',
      rk_success = ''Access revoked for '' @ gr_subjectName g @ ''. The next request is denied.'',
      rk_fallback = ''Could not revoke this access.'',
      rk_offered = True,
      rk_label = ''Revoke access for '' @ gr_subjectName g,
      rk_notes = [if gr_subjectName g = [] then ''Unknown'' else gr_subjectName g,
        readable_kind (gr_subjectKind g) @ (if gr_reason g = [] then [] else '' '' @ [middot] @ '' '' @ gr_reason g),
        snd (capability_mark ''USE_SECRET'' (gr_canUse g)), snd (capability_mark ''READ_SECRET'' (gr_canReveal g))] @
        (if gr_temporary g then [] else [''Never''])\<rparr>"

record token =
  tk_id :: string
  tk_name :: string
  tk_display :: string
  tk_identityName :: string
  tk_actorType :: string
  tk_capabilities :: "string list"
  tk_secretKeys :: "string list"
  tk_expiresAt :: "string option"
  tk_lastUsedAt :: "string option"
  tk_active :: bool

definition token_revoker :: "token \<Rightarrow> revoker" where
  "token_revoker t =
     \<lparr>rk_call = plain_call (''/api/tokens/'' @ tk_id t @ ''/revoke'') ''POST'',
      rk_success = tk_name t @ '' revoked, along with any session already issued from it.'',
      rk_fallback = ''Could not revoke this token.'',
      rk_offered = tk_active t,
      rk_label = ''Revoke '' @ tk_name t,
      rk_notes = [tk_name t, tk_display t, tk_identityName t] @ tk_capabilities t @
        (if tk_secretKeys t = [] then []
         else [show_nat (length (tk_secretKeys t)) @ '' key'' @ (if length (tk_secretKeys t) = 1 then [] else ''s'')]) @
        (if tk_active t then [] else [''Revoked''])\<rparr>"

record invitation =
  iv_id :: string
  iv_email :: string
  iv_name :: string
  iv_role :: string
  iv_status :: string
  iv_display :: string
  iv_createdAt :: string
  iv_expiresAt :: string

definition invitation_revoker :: "invitation \<Rightarrow> revoker" where
  "invitation_revoker iv =
     \<lparr>rk_call = plain_call (''/api/members/invitations/'' @ iv_id iv) ''DELETE'',
      rk_success = ''The invitation for '' @ iv_email iv @ '' no longer works.'',
      rk_fallback = ''Could not withdraw this invitation.'',
      rk_offered = (iv_status iv = ''PENDING''),
      rk_label = ''Withdraw the invitation for '' @ iv_email iv,
      rk_notes = [iv_email iv, iv_display iv, toLowerCase (iv_role iv), toLowerCase (iv_status iv)]\<rparr>"

record member =
  mb_membershipId :: string
  mb_userId :: string
  mb_email :: string
  mb_name :: string
  mb_role :: string
  mb_createdAt :: string
  mb_expiresAt :: "string option"
  mb_revokedAt :: "string option"
  mb_active :: bool

definition isSelf :: "string \<Rightarrow> member \<Rightarrow> bool" where
  "isSelf currentUserId m = (mb_userId m = currentUserId)"

definition member_revoker :: "string \<Rightarrow> member \<Rightarrow> revoker" where
  "member_revoker currentUserId m =
     \<lparr>rk_call = plain_call (''/api/members/'' @ mb_membershipId m) ''DELETE'',
      rk_success = mb_name m @ '' has been removed. Their sessions stop on the next request.'',
      rk_fallback = ''Could not remove this member.'',
      rk_offered = (mb_active m \<and> \<not> isSelf currentUserId m),
      rk_label = ''Remove '' @ mb_name m,
      rk_notes = [mb_name m, mb_email m, toLowerCase (mb_role m), if mb_active m then ''active'' else ''ended''] @
        (case mb_expiresAt m of Some (c # cs) \<Rightarrow> [] | _ \<Rightarrow> [''No expiry''])\<rparr>"

text \<open>Whether the row of a member also has the dialog that issues a recovery link.\<close>

definition recovery_offered :: "bool \<Rightarrow> string \<Rightarrow> member \<Rightarrow> bool" where
  "recovery_offered canRecover currentUserId m = (mb_active m \<and> \<not> isSelf currentUserId m \<and> canRecover)"

subsection \<open>Identities: a confirmation first\<close>

record identity =
  id_id :: string
  id_name :: string
  id_actorType :: string
  id_createdAt :: string
  id_expiresAt :: "string option"
  id_active :: bool

record identity_row = "unit form" +
  ir_confirming :: bool

datatype identity_event =
    IdentityAsk
  | IdentityConfirming bool
  | IdentityRevoke
  | IdentitySettled nat reply

definition identity_start :: "identity_row \<Rightarrow> bool" where
  "identity_start s = (s = \<lparr>flights = [], effects = [], pending = False, problem = None, ir_confirming = False\<rparr>)"

definition identity_call :: "identity \<Rightarrow> api_call" where
  "identity_call x = plain_call (''/api/identities/'' @ id_id x @ ''/disable'') ''POST''"

definition identity_revoke :: "identity \<Rightarrow> identity_row \<Rightarrow> identity_row" where
  "identity_revoke x s = call_api () (identity_call x) (s\<lparr>pending := True\<rparr>)"

definition identity_settle :: "identity \<Rightarrow> reply \<Rightarrow> identity_row \<Rightarrow> identity_row" where
  "identity_settle x r s =
     (case apiResult r of
        Inl e \<Rightarrow> emit (ToastsError (failure_message ''Could not revoke this identity.'' e)) s
      | Inr j \<Rightarrow> emit Refreshes (emit (Toasts (id_name x @ '' revoked. Its tokens and sessions stop working immediately.''))
          (s\<lparr>ir_confirming := False\<rparr>)))
     \<lparr>pending := False\<rparr>"

fun identity_step :: "identity \<Rightarrow> identity_row \<Rightarrow> identity_event \<Rightarrow> identity_row" where
  "identity_step x s IdentityAsk = s\<lparr>ir_confirming := True\<rparr>"
| "identity_step x s (IdentityConfirming b) = s\<lparr>ir_confirming := b\<rparr>"
| "identity_step x s IdentityRevoke = identity_revoke x s"
| "identity_step x s (IdentitySettled i r) = (if i < length (flights s) then identity_settle x r (arrive i r s) else s)"

definition identity_label :: "string \<Rightarrow> string" where
  "identity_label actorType =
     (if actorType = ''AI_AGENT'' then ''AI agent'' else if actorType = ''CI'' then ''CI pipeline''
      else if actorType = ''WORKLOAD'' then ''Workload'' else ''Service'')"

text \<open>The dialog is modal: while it is open the row behind it cannot be pressed.\<close>

definition identity_view :: "identity \<Rightarrow> identity_row \<Rightarrow> identity_event elem list" where
  "identity_view x s =
     [Note (id_name x), Note (identity_label (id_actorType x))] @
     (if id_actorType x = ''AI_AGENT'' then [Note ''agent''] else []) @
     [Note (if id_active x then ''active'' else ''revoked'')] @
     (if ir_confirming s then
        [Note (''Revoke '' @ id_name x @ ''?''),
         Note ''This cannot be undone. There is no way to bring an identity back: create a new one if you need it again.'',
         Press ''Cancel'' (IdentityConfirming False) False,
         Press ''Revoke identity'' IdentityRevoke (pending s),
         Press ''Close'' (IdentityConfirming False) False]
      else if id_active x then [Press ''Revoke identity'' IdentityAsk False] else [])"

fun identity_offers :: "identity \<Rightarrow> identity_row \<Rightarrow> identity_event \<Rightarrow> bool" where
  "identity_offers x s (IdentitySettled i r) = (i < length (flights s))"
| "identity_offers x s e = pressable (identity_view x s) e"

subsection \<open>Passkeys: a confirmation in the row\<close>

record passkey =
  pk_id :: string
  pk_nickname :: string
  pk_createdAt :: string
  pk_lastUsedAt :: "string option"
  pk_transports :: "string list"

record passkey_row = "unit form" +
  pr_confirming :: bool

datatype passkey_event =
    PasskeyAsk
  | PasskeyKeep
  | PasskeyRemove
  | PasskeySettled nat reply

definition passkey_start :: "passkey_row \<Rightarrow> bool" where
  "passkey_start s = (s = \<lparr>flights = [], effects = [], pending = False, problem = None, pr_confirming = False\<rparr>)"

definition passkey_call :: "passkey \<Rightarrow> api_call" where
  "passkey_call p = plain_call (''/api/auth/passkeys/'' @ pk_id p) ''DELETE''"

definition passkey_remove :: "passkey \<Rightarrow> passkey_row \<Rightarrow> passkey_row" where
  "passkey_remove p s = call_api () (passkey_call p) (s\<lparr>pending := True\<rparr>)"

definition passkey_settle :: "passkey \<Rightarrow> reply \<Rightarrow> passkey_row \<Rightarrow> passkey_row" where
  "passkey_settle p r s =
     (case then_ok (apiResult r) (\<lambda>j. result_field j ''remaining'') of
        Inl e \<Rightarrow> emit (ToastsError (failure_message ''Could not remove this passkey.'' e)) s
      | Inr n \<Rightarrow> emit Refreshes (emit (Toasts (if n = Some (JNum 0)
            then pk_nickname p @ '' removed. Your password alone now signs you in.'' else pk_nickname p @ '' removed.'')) s))
     \<lparr>pending := False, pr_confirming := False\<rparr>"

fun passkey_step :: "passkey \<Rightarrow> passkey_row \<Rightarrow> passkey_event \<Rightarrow> passkey_row" where
  "passkey_step p s PasskeyAsk = s\<lparr>pr_confirming := True\<rparr>"
| "passkey_step p s PasskeyKeep = s\<lparr>pr_confirming := False\<rparr>"
| "passkey_step p s PasskeyRemove = passkey_remove p s"
| "passkey_step p s (PasskeySettled i r) = (if i < length (flights s) then passkey_settle p r (arrive i r s) else s)"

definition passkey_row_view :: "passkey \<Rightarrow> bool \<Rightarrow> passkey_row \<Rightarrow> passkey_event elem list" where
  "passkey_row_view p isLast s = [Note (pk_nickname p)] @
     (if pr_confirming s then
        [Note (if isLast then ''Last passkey. Remove?'' else ''Remove?''),
         Press ''Remove'' PasskeyRemove (pending s),
         Press ''Keep'' PasskeyKeep (pending s)]
      else [Press (''Remove '' @ pk_nickname p) PasskeyAsk False])"

fun passkey_offers :: "passkey \<Rightarrow> bool \<Rightarrow> passkey_row \<Rightarrow> passkey_event \<Rightarrow> bool" where
  "passkey_offers p isLast s (PasskeySettled i r) = (i < length (flights s))"
| "passkey_offers p isLast s e = pressable (passkey_row_view p isLast s) e"

section \<open>The contract of an action that reports back\<close>

definition is_toast :: "effect \<Rightarrow> bool" where
  "is_toast x = (case x of Toasts m \<Rightarrow> True | ToastsError m \<Rightarrow> True | _ \<Rightarrow> False)"

definition toasts :: "effect list \<Rightarrow> nat" where
  "toasts xs = length (filter is_toast xs)"

definition asked :: "effect list \<Rightarrow> nat" where
  "asked xs = length (calls xs)"

lemma toasts_simps [simp]:
  "toasts [] = 0" "toasts (xs @ ys) = toasts xs + toasts ys" "toasts (Calls c # xs) = toasts xs"
  "toasts (Toasts m # xs) = Suc (toasts xs)" "toasts (ToastsError m # xs) = Suc (toasts xs)" "toasts (Refreshes # xs) = toasts xs"
  "toasts (if b then [Loads p] else []) = 0"
  by (simp_all add: toasts_def is_toast_def)

lemma asked_simps [simp]:
  "asked [] = 0" "asked (xs @ ys) = asked xs + asked ys" "asked (Calls c # xs) = Suc (asked xs)"
  "asked (Toasts m # xs) = asked xs" "asked (ToastsError m # xs) = asked xs" "asked (Refreshes # xs) = asked xs"
  "asked (if b then [Loads p] else []) = 0"
  by (simp_all add: asked_def)

text \<open>
  A form that reports every request with a toast: a settling request adds one toast and no request; any
  other event either starts one request or leaves the requests, the toasts and what is in flight alone.
\<close>

definition asks_once :: "('f, 'a) form_scheme \<Rightarrow> ('f, 'a) form_scheme \<Rightarrow> bool" where
  "asks_once s t = (toasts (effects t) = toasts (effects s) \<and>
     (asked (effects t) = asked (effects s) \<and> length (flights t) = length (flights s) \<or>
      asked (effects t) = Suc (asked (effects s)) \<and> length (flights t) = Suc (length (flights s))))"

locale reporting_form = request_form start offers step inv settle
  for start :: "('f, 'a) form_scheme \<Rightarrow> bool" and offers :: "('f, 'a) form_scheme \<Rightarrow> 'e \<Rightarrow> bool"
    and step :: "('f, 'a) form_scheme \<Rightarrow> 'e \<Rightarrow> ('f, 'a) form_scheme" and inv :: "('f, 'a) form_scheme \<Rightarrow> bool"
    and settle :: "nat \<Rightarrow> reply \<Rightarrow> 'e" +
  assumes silent_start: "start s \<Longrightarrow> effects s = [] \<and> flights s = []"
    and reported: "i < length (flights s) \<Longrightarrow> toasts (effects (step s (settle i r))) = Suc (toasts (effects s)) \<and>
      asked (effects (step s (settle i r))) = asked (effects s) \<and> Suc (length (flights (step s (settle i r)))) = length (flights s)"
    and asks: "offers s e \<Longrightarrow> \<forall>i r. e \<noteq> settle i r \<Longrightarrow> asks_once s (step s e)"
    and settles: "offers s (settle i r) \<Longrightarrow> i < length (flights s)"
begin

lemma accounted: "reachable start offers step s \<Longrightarrow> asked (effects s) = toasts (effects s) + length (flights s)"
proof (induction rule: reachable.induct)
  case (event s e)
  show ?case
  proof (cases "\<exists>i r. e = settle i r")
    case True
    then obtain i r where e: "e = settle i r" by blast
    with event have "i < length (flights s)" using settles by blast
    from reported [OF this, of r] event e show ?thesis by simp
  next
    case False
    with event asks [of s e] show ?thesis by (auto simp: asks_once_def)
  qed
qed (auto dest: silent_start)

text \<open>So every request that is not out any more has been reported, exactly once.\<close>

lemma reported_once:
  "reachable start offers step s \<Longrightarrow> asked (effects s) = toasts (effects s) + (if pending s then 1 else 0)"
  using accounted single_flight by (auto simp: one_flight_def)

end

section \<open>Lemmas\<close>

definition only :: "bool \<Rightarrow> api_call \<Rightarrow> api_call \<Rightarrow> bool" where
  "only allowed c d = (d = c \<and> allowed)"

definition action_inv :: "revoker \<Rightarrow> action_row \<Rightarrow> bool" where
  "action_inv k s = (one_flight s \<and> list_all (only (rk_offered k) (rk_call k)) (calls (effects s)))"

lemma notes_pressable [simp]: "pressable (map Note ts) e = False"
  by (auto simp: pressable_def)

lemma action_view_offers [simp]:
  "pressable (action_view k s) e \<longleftrightarrow> rk_offered k \<and> e = ActionPress \<and> \<not> pending s"
  by (auto simp: action_view_def)

lemma action_settle_sel [simp]:
  "\<not> pending (action_settle k r s)" "flights (action_settle k r s) = flights s"
  "calls (effects (action_settle k r s)) = calls (effects s)" "asked (effects (action_settle k r s)) = asked (effects s)"
  "toasts (effects (action_settle k r s)) = Suc (toasts (effects s))"
  by (simp_all add: action_settle_def split: sum.splits)

lemma action_inv_step:
  assumes "action_inv k s" "action_offers k s e"
  shows "action_inv k (action_step k s e)"
  using assms by (cases e) (simp_all add: action_inv_def one_flight_def action_press_def only_def split: if_splits)

interpretation acting: reporting_form action_start "action_offers k" "action_step k" "action_inv k" ActionSettled for k
proof unfold_locales
  show "action_start s \<Longrightarrow> action_inv k s" for s by (simp add: action_start_def action_inv_def one_flight_def)
  show "action_offers k s e \<Longrightarrow> \<forall>i r. e \<noteq> ActionSettled i r \<Longrightarrow> asks_once s (action_step k s e)" for s e
    by (cases e) (simp_all add: asks_once_def action_press_def)
qed (use action_inv_step in \<open>auto simp: action_inv_def action_start_def\<close>)

definition identity_inv :: "identity \<Rightarrow> identity_row \<Rightarrow> bool" where
  "identity_inv x s = (one_flight s \<and> (ir_confirming s \<longrightarrow> id_active x) \<and>
     list_all (only (id_active x) (identity_call x)) (calls (effects s)))"

lemma identity_frame [simp]:
  "ir_confirming (call_api f c s) = ir_confirming s" "ir_confirming (arrive i r s) = ir_confirming s"
  "ir_confirming (emit y s) = ir_confirming s"
  by (simp_all add: form_defs)

lemma identity_view_offers [simp]:
  "pressable (identity_view x s) e \<longleftrightarrow>
     (if ir_confirming s then e = IdentityConfirming False \<or> e = IdentityRevoke \<and> \<not> pending s else id_active x \<and> e = IdentityAsk)"
  by (auto simp: identity_view_def)

lemma identity_settle_sel [simp]:
  "\<not> pending (identity_settle x r s)" "flights (identity_settle x r s) = flights s"
  "calls (effects (identity_settle x r s)) = calls (effects s)" "asked (effects (identity_settle x r s)) = asked (effects s)"
  "toasts (effects (identity_settle x r s)) = Suc (toasts (effects s))"
  "ir_confirming (identity_settle x r s) = (ir_confirming s \<and> (\<exists>e. apiResult r = Inl e))"
  by (auto simp: identity_settle_def split: sum.splits)

lemma identity_inv_step:
  assumes "identity_inv x s" "identity_offers x s e"
  shows "identity_inv x (identity_step x s e)"
  using assms by (cases e) (auto simp: identity_inv_def one_flight_def identity_revoke_def only_def split: if_splits)

interpretation disabling: reporting_form identity_start "identity_offers x" "identity_step x" "identity_inv x" IdentitySettled for x
proof unfold_locales
  show "identity_start s \<Longrightarrow> identity_inv x s" for s by (simp add: identity_start_def identity_inv_def one_flight_def)
  show "identity_offers x s e \<Longrightarrow> \<forall>i r. e \<noteq> IdentitySettled i r \<Longrightarrow> asks_once s (identity_step x s e)" for s e
    by (cases e) (simp_all add: asks_once_def identity_revoke_def)
qed (use identity_inv_step in \<open>auto simp: identity_inv_def identity_start_def\<close>)

definition passkey_inv :: "passkey \<Rightarrow> passkey_row \<Rightarrow> bool" where
  "passkey_inv p s = (one_flight s \<and> (pending s \<longrightarrow> pr_confirming s) \<and> list_all (only True (passkey_call p)) (calls (effects s)))"

lemma passkey_frame [simp]:
  "pr_confirming (call_api f c s) = pr_confirming s" "pr_confirming (arrive i r s) = pr_confirming s"
  "pr_confirming (emit y s) = pr_confirming s"
  by (simp_all add: form_defs)

lemma passkey_row_view_offers [simp]:
  "pressable (passkey_row_view p l s) e \<longleftrightarrow>
     (if pr_confirming s then (e = PasskeyRemove \<or> e = PasskeyKeep) \<and> \<not> pending s else e = PasskeyAsk)"
  by (auto simp: passkey_row_view_def)

lemma passkey_settle_sel [simp]:
  "\<not> pending (passkey_settle p r s)" "\<not> pr_confirming (passkey_settle p r s)" "flights (passkey_settle p r s) = flights s"
  "calls (effects (passkey_settle p r s)) = calls (effects s)" "asked (effects (passkey_settle p r s)) = asked (effects s)"
  "toasts (effects (passkey_settle p r s)) = Suc (toasts (effects s))"
  by (simp_all add: passkey_settle_def split: sum.splits)

lemma passkey_inv_step:
  assumes "passkey_inv p s" "passkey_offers p l s e"
  shows "passkey_inv p (passkey_step p s e)"
  using assms by (cases e) (auto simp: passkey_inv_def one_flight_def passkey_remove_def only_def split: if_splits)

interpretation removing: reporting_form passkey_start "passkey_offers p l" "passkey_step p" "passkey_inv p" PasskeySettled for p l
proof unfold_locales
  show "passkey_start s \<Longrightarrow> passkey_inv p s" for s by (simp add: passkey_start_def passkey_inv_def one_flight_def)
  show "passkey_offers p l s e \<Longrightarrow> \<forall>i r. e \<noteq> PasskeySettled i r \<Longrightarrow> asks_once s (passkey_step p s e)" for s e
    by (cases e) (simp_all add: asks_once_def passkey_remove_def)
qed (use passkey_inv_step in \<open>auto simp: passkey_inv_def passkey_start_def\<close>)

section \<open>Properties\<close>

lemma revoker_sel:
  "rk_call (member_revoker me m) = plain_call (''/api/members/'' @ mb_membershipId m) ''DELETE''"
  "rk_offered (member_revoker me m) = (mb_active m \<and> mb_userId m \<noteq> me)"
  "rk_call (token_revoker t) = plain_call (''/api/tokens/'' @ tk_id t @ ''/revoke'') ''POST''"
  "rk_offered (token_revoker t) = tk_active t"
  "rk_call (invitation_revoker iv) = plain_call (''/api/members/invitations/'' @ iv_id iv) ''DELETE''"
  "rk_offered (invitation_revoker iv) = (iv_status iv = ''PENDING'')"
  by (simp_all add: member_revoker_def token_revoker_def invitation_revoker_def isSelf_def)

text \<open>What the rows can ask for.  However the rows of the tables are used, every request of a row is the one
  request it exists for, addressed to its own item: a member's row removes only an active member and never
  the person using the page, a token's row revokes only an active token, an invitation's only a pending one,
  an identity's only an active one.  And every request of a row is reported by exactly one toast, apart from
  the one that is still out while the row shows itself as pending.\<close>

theorem rows_act_within_bounds:
  "(reachable action_start (action_offers (member_revoker me m)) (action_step (member_revoker me m)) s \<longrightarrow>
      (\<forall>c \<in> set (calls (effects s)). c = plain_call (''/api/members/'' @ mb_membershipId m) ''DELETE'' \<and> mb_active m \<and> mb_userId m \<noteq> me) \<and>
      length (calls (effects s)) = toasts (effects s) + (if pending s then 1 else 0)) \<and>
   (reachable action_start (action_offers (token_revoker t)) (action_step (token_revoker t)) s \<longrightarrow>
      (\<forall>c \<in> set (calls (effects s)). c = plain_call (''/api/tokens/'' @ tk_id t @ ''/revoke'') ''POST'' \<and> tk_active t) \<and>
      length (calls (effects s)) = toasts (effects s) + (if pending s then 1 else 0)) \<and>
   (reachable action_start (action_offers (invitation_revoker iv)) (action_step (invitation_revoker iv)) s \<longrightarrow>
      (\<forall>c \<in> set (calls (effects s)). c = plain_call (''/api/members/invitations/'' @ iv_id iv) ''DELETE'' \<and> iv_status iv = ''PENDING'') \<and>
      length (calls (effects s)) = toasts (effects s) + (if pending s then 1 else 0)) \<and>
   (reachable identity_start (identity_offers x) (identity_step x) q \<longrightarrow>
      (\<forall>c \<in> set (calls (effects q)). c = plain_call (''/api/identities/'' @ id_id x @ ''/disable'') ''POST'' \<and> id_active x) \<and>
      length (calls (effects q)) = toasts (effects q) + (if pending q then 1 else 0))"
proof -
  have row: "(\<forall>c \<in> set (calls (effects s)). c = rk_call k \<and> rk_offered k) \<and>
      length (calls (effects s)) = toasts (effects s) + (if pending s then 1 else 0)"
    if "reachable action_start (action_offers k) (action_step k) s" for k
    using acting.always [OF that] acting.reported_once [OF that] by (auto simp: action_inv_def list_all_iff only_def asked_def)
  have "(\<forall>c \<in> set (calls (effects q)). c = identity_call x \<and> id_active x) \<and>
      length (calls (effects q)) = toasts (effects q) + (if pending q then 1 else 0)"
    if "reachable identity_start (identity_offers x) (identity_step x) q"
    using disabling.always [OF that] disabling.reported_once [OF that] by (auto simp: identity_inv_def list_all_iff only_def asked_def)
  then show ?thesis
    using row [of "member_revoker me m"] row [of "token_revoker t"] row [of "invitation_revoker iv"]
    unfolding revoker_sel identity_call_def by blast
qed

definition demo_member :: member where
  "demo_member = \<lparr>mb_membershipId = ''m7'', mb_userId = ''u7'', mb_email = ''ada@example.com'', mb_name = ''Ada'', mb_role = ''ADMIN'',
     mb_createdAt = [], mb_expiresAt = None, mb_revokedAt = None, mb_active = True\<rparr>"

theorem rows_act_within_bounds_witness:
  "\<exists>s. reachable action_start (action_offers (member_revoker ''u1'' demo_member)) (action_step (member_revoker ''u1'' demo_member)) s \<and>
     length (calls (effects s)) = 1 \<and> mb_userId demo_member \<noteq> ''u1''"
proof -
  let ?k = "member_revoker ''u1'' demo_member"
  let ?s = "action_step ?k \<lparr>flights = [], effects = [], pending = False, problem = None\<rparr> ActionPress"
  have r: "reachable action_start (action_offers ?k) (action_step ?k) ?s"
    by (intro reachable.event reachable.initial) (simp_all add: action_start_def member_revoker_def isSelf_def demo_member_def)
  have c: "calls (effects ?s) = [plain_call (''/api/members/'' @ mb_membershipId demo_member) ''DELETE'']"
    by (simp add: action_press_def member_revoker_def)
  have "\<forall>c \<in> set (calls (effects ?s)). mb_userId demo_member \<noteq> ''u1''"
    using rows_act_within_bounds [of "''u1''" demo_member ?s] r by blast
  with r c show ?thesis by (intro exI [of _ ?s]) simp
qed

text \<open>An answer to the removal of a passkey that carries no body is a removal that happened, but it is reported
  as a failure.\<close>

theorem bodyless_removal_looks_failed:
  assumes "flights s = [f]"
  shows "effects (passkey_step p s (PasskeySettled 0 (Reply 204 None))) = effects s @ [ToastsError (exn_message TypeError)]"
  using assms by (simp add: passkey_settle_def apiResult_def reply_ok_def result_field_def failure_message_def ends_session_def emit_def arrive_def)

theorem bodyless_removal_looks_failed_witness:
  "effects (passkey_step p \<lparr>flights = [()], effects = [], pending = True, problem = None, pr_confirming = True\<rparr>
     (PasskeySettled 0 (Reply 204 None))) = [ToastsError (exn_message TypeError)]"
  using bodyless_removal_looks_failed [of "\<lparr>flights = [()], effects = [], pending = True, problem = None, pr_confirming = True\<rparr>"] by simp

end
