(* ===== verification/OneTime.thy ===== *)
theory OneTime imports SecretDialogs KeyPicker RowActions begin

text \<open>
  The dialogs that show a credential once: a runtime token (web/components/create-token-dialog.tsx), an
  invitation link (invite-member-dialog.tsx) and a recovery link (issue-recovery-dialog.tsx).  Exit
  animations are left out: closing a dialog unmounts its content at once.
\<close>

section \<open>Model\<close>

subsection \<open>What the three dialogs share\<close>

text \<open>
  \<open>sh_held\<close> is the credential (\<open>minted\<close>, \<open>created\<close>, \<open>issued\<close>), \<open>null\<close> when there is none; \<open>sh_writes\<close> counts
  clipboard writes not settled yet and \<open>sh_timers\<close> the two-second timers that will take the tick back.
\<close>

record shown = "unit form" +
  sh_open :: bool
  sh_held :: jsval
  sh_copied :: bool
  sh_writes :: nat
  sh_timers :: nat

datatype copy_event = CopyPress | CopyWritten bool | CopyTimer

text \<open>\<open>copy()\<close>, cut at its await, for the text \<open>t\<close>.\<close>

fun copy_step :: "string \<Rightarrow> 'a shown_scheme \<Rightarrow> copy_event \<Rightarrow> 'a shown_scheme" where
  "copy_step t s CopyPress = emit (Copies t) (s\<lparr>sh_writes := Suc (sh_writes s)\<rparr>)"
| "copy_step t s (CopyWritten ok) =
     (if sh_writes s = 0 then s
      else if ok then s\<lparr>sh_writes := sh_writes s - 1, sh_copied := True, sh_timers := Suc (sh_timers s)\<rparr>
      else s\<lparr>sh_writes := sh_writes s - 1\<rparr>)"
| "copy_step t s CopyTimer = (if sh_timers s = 0 then s else s\<lparr>sh_timers := sh_timers s - 1, sh_copied := False\<rparr>)"

text \<open>\<open>if (!minted) return\<close> before the write.\<close>

definition copy_held :: "string \<Rightarrow> 'a shown_scheme \<Rightarrow> copy_event \<Rightarrow> 'a shown_scheme" where
  "copy_held t s e = (if e = CopyPress \<and> \<not> truthy (sh_held s) then s else copy_step t s e)"

text \<open>The part of \<open>close()\<close> the three have in common, and the page with the credential.\<close>

definition close_shown :: "'a shown_scheme \<Rightarrow> 'a shown_scheme" where
  "close_shown s = s\<lparr>sh_open := False, sh_held := Some JNull, sh_copied := False, problem := None\<rparr>"

definition held_view :: "string \<Rightarrow> string \<Rightarrow> string \<Rightarrow> (copy_event \<Rightarrow> 'e) \<Rightarrow> 'e \<Rightarrow> 'e \<Rightarrow> 'e elem list" where
  "held_view title t label copying finish dismiss =
     [Note title, Note t, Press label (copying CopyPress) False, Press ''Done'' finish False, Press ''Close'' dismiss False]"

fun copy_offered :: "'a shown_scheme \<Rightarrow> bool \<Rightarrow> copy_event \<Rightarrow> bool" where
  "copy_offered s b (CopyWritten ok) = (0 < sh_writes s)"
| "copy_offered s b CopyTimer = (0 < sh_timers s)"
| "copy_offered s b CopyPress = b"

subsection \<open>A recovery link\<close>

type_synonym recovery = shown

datatype recovery_event =
    RecoveryOpenChange bool
  | RecoveryClose
  | RecoveryIssue
  | RecoverySettled nat reply
  | RecoveryCopy copy_event

definition recovery_start :: "recovery \<Rightarrow> bool" where
  "recovery_start s = (s = \<lparr>flights = [], effects = [], pending = False, problem = None, sh_open = False, sh_held = Some JNull,
     sh_copied = False, sh_writes = 0, sh_timers = 0\<rparr>)"

definition recovery_call :: "string \<Rightarrow> api_call" where
  "recovery_call mid = plain_call (''/api/members/'' @ mid @ ''/recovery'') ''POST''"

text \<open>\<open>issued ? `${window.location.origin}/recover#${issued.token}` : ""\<close>\<close>

definition recovery_link :: "string \<Rightarrow> recovery \<Rightarrow> string" where
  "recovery_link origin s = (if truthy (sh_held s) then origin @ ''/recover#'' @ js_string (optfield (sh_held s) ''token'') else [])"

definition recovery_issue :: "string \<Rightarrow> recovery \<Rightarrow> recovery" where
  "recovery_issue mid s = call_api () (recovery_call mid) (start_pending s)"

definition recovery_settle :: "reply \<Rightarrow> recovery \<Rightarrow> recovery" where
  "recovery_settle r s =
     (case apiResult r of
        Inl e \<Rightarrow> fail_with ''Could not issue a recovery link.'' e s
      | Inr j \<Rightarrow> s\<lparr>sh_held := Some j\<rparr>)
     \<lparr>pending := False\<rparr>"

fun recovery_step :: "string \<Rightarrow> string \<Rightarrow> recovery \<Rightarrow> recovery_event \<Rightarrow> recovery" where
  "recovery_step origin mid s (RecoveryOpenChange next) = (if next then s\<lparr>sh_open := True\<rparr> else close_shown s)"
| "recovery_step origin mid s RecoveryClose = close_shown s"
| "recovery_step origin mid s RecoveryIssue = recovery_issue mid s"
| "recovery_step origin mid s (RecoverySettled i r) = (if i < length (flights s) then recovery_settle r (arrive i r s) else s)"
| "recovery_step origin mid s (RecoveryCopy e) = copy_step (recovery_link origin s) s e"

definition recovery_view :: "string \<Rightarrow> string \<Rightarrow> recovery \<Rightarrow> recovery_event elem list" where
  "recovery_view origin who s =
     (if \<not> sh_open s then [Press (''Issue a recovery link for '' @ who) (RecoveryOpenChange True) False]
      else if truthy (sh_held s) then
        held_view ''Recovery link ready'' (recovery_link origin s) ''Copy recovery link'' RecoveryCopy RecoveryClose (RecoveryOpenChange False)
      else [Note (''Recover '' @ who @ ''s account?'')] @ problem_note s @
        [Press ''Cancel'' RecoveryClose (pending s), Press ''Issue link'' RecoveryIssue (pending s),
         Press ''Close'' (RecoveryOpenChange False) False])"

fun recovery_offers :: "string \<Rightarrow> string \<Rightarrow> recovery \<Rightarrow> recovery_event \<Rightarrow> bool" where
  "recovery_offers origin who s (RecoverySettled i r) = (i < length (flights s))"
| "recovery_offers origin who s (RecoveryCopy e) = copy_offered s (pressable (recovery_view origin who s) (RecoveryCopy CopyPress)) e"
| "recovery_offers origin who s e = pressable (recovery_view origin who s) e"

subsection \<open>An invitation\<close>

record invite = shown +
  im_name :: string
  im_email :: string
  im_role :: string
  im_expires :: string

datatype invite_event =
    InviteOpenChange bool
  | InviteClose
  | InviteName string
  | InviteEmail string
  | InviteRole string
  | InviteExpiry string
  | InviteSubmit
  | InviteSettled nat reply
  | InviteCopy copy_event

definition ROLES :: "(string \<times> string \<times> string) list" where
  "ROLES = [(''DEVELOPER'', ''Developer'', ''Can see what exists. Cannot administer anything.''),
     (''VIEWER'', ''Viewer'', ''Read-only on metadata.''),
     (''ADMIN'', ''Admin'', ''Manages projects, access, and identities.''),
     (''OWNER'', ''Owner'', ''Everything an admin can do, plus organization settings.'')]"

definition invite_start :: "invite \<Rightarrow> bool" where
  "invite_start s = (s = \<lparr>flights = [], effects = [], pending = False, problem = None, sh_open = False, sh_held = Some JNull,
     sh_copied = False, sh_writes = 0, sh_timers = 0, im_name = [], im_email = [], im_role = ''DEVELOPER'', im_expires = []\<rparr>)"

definition invite_close :: "invite \<Rightarrow> invite" where
  "invite_close s = (close_shown s)\<lparr>im_name := [], im_email := [], im_role := ''DEVELOPER'', im_expires := []\<rparr>"

definition invite_call :: "string \<Rightarrow> string \<Rightarrow> string \<Rightarrow> string \<Rightarrow> api_call" where
  "invite_call n m rl t = post_call ''/api/members/invitations''
     (obj [(''name'', Some (JStr n)), (''email'', Some (JStr m)), (''role'', Some (JStr rl)), (''expiresAt'', Some (JStr t))])"

definition invite_member_submit :: "dates \<Rightarrow> invite \<Rightarrow> invite" where
  "invite_member_submit D s =
     (case expiry_iso D (im_expires s) of
        Inl e \<Rightarrow> (fail_with ''Could not create this invitation.'' e (start_pending s))\<lparr>pending := False\<rparr>
      | Inr t \<Rightarrow> call_api () (invite_call (im_name s) (im_email s) (im_role s) t) (start_pending s))"

definition invite_settle :: "reply \<Rightarrow> invite \<Rightarrow> invite" where
  "invite_settle r s =
     (case apiResult r of
        Inl e \<Rightarrow> fail_with ''Could not create this invitation.'' e s
      | Inr j \<Rightarrow> emit Refreshes (s\<lparr>sh_held := Some j\<rparr>))
     \<lparr>pending := False\<rparr>"

fun invite_step :: "dates \<Rightarrow> invite \<Rightarrow> invite_event \<Rightarrow> invite" where
  "invite_step D s (InviteOpenChange next) = (if next then s\<lparr>sh_open := True\<rparr> else invite_close s)"
| "invite_step D s InviteClose = invite_close s"
| "invite_step D s (InviteName t) = s\<lparr>im_name := t\<rparr>"
| "invite_step D s (InviteEmail t) = s\<lparr>im_email := t\<rparr>"
| "invite_step D s (InviteRole t) = s\<lparr>im_role := t\<rparr>"
| "invite_step D s (InviteExpiry t) = s\<lparr>im_expires := t\<rparr>"
| "invite_step D s InviteSubmit = invite_member_submit D s"
| "invite_step D s (InviteSettled i r) = (if i < length (flights s) then invite_settle r (arrive i r s) else s)"
| "invite_step D s (InviteCopy e) = copy_held (js_string (optfield (sh_held s) ''inviteUrl'')) s e"

definition invite_view :: "invite \<Rightarrow> invite_event elem list" where
  "invite_view s =
     (if \<not> sh_open s then [Press ''Invite member'' (InviteOpenChange True) False]
      else if truthy (sh_held s) then
        held_view ''Invitation ready'' (js_string (optfield (sh_held s) ''inviteUrl'')) ''Copy invitation link'' InviteCopy InviteClose
          (InviteOpenChange False)
      else [Field ''invite-name'' (im_name s), Field ''invite-email'' (im_email s)] @
        map (\<lambda>(v, l, d). Press l (InviteRole v) False) ROLES @
        (case map_of ROLES (im_role s) of Some (l, d) \<Rightarrow> [Note d] | None \<Rightarrow> []) @
        [Field ''invite-expiry'' (im_expires s)] @ problem_note s @
        [Press ''Cancel'' InviteClose False, Press ''Create invitation'' InviteSubmit (pending s),
         Press ''Close'' (InviteOpenChange False) False])"

fun invite_offers :: "invite \<Rightarrow> invite_event \<Rightarrow> bool" where
  "invite_offers s (InviteName t) = editable (invite_view s) ''invite-name''"
| "invite_offers s (InviteEmail t) = editable (invite_view s) ''invite-email''"
| "invite_offers s (InviteExpiry t) = editable (invite_view s) ''invite-expiry''"
| "invite_offers s (InviteSettled i r) = (i < length (flights s))"
| "invite_offers s (InviteCopy e) = copy_offered s (pressable (invite_view s) (InviteCopy CopyPress)) e"
| "invite_offers s e = pressable (invite_view s) e"

subsection \<open>A runtime token\<close>

text \<open>
  \<open>secretKeys\<close> is the selection of the picker, \<open>kp_selected (td_picker s)\<close>.  The picker is mounted while the
  form is on screen; its state is lost when it unmounts, its selection is the dialog's.
\<close>

record new_token = shown +
  td_name :: string
  td_identity :: string
  td_env :: string
  td_expires :: string
  td_picker :: picker

datatype token_event =
    TokenOpenChange bool
  | TokenClose
  | TokenName string
  | TokenIdentity string
  | TokenEnv string
  | TokenPicker picker_event
  | TokenExpiry string
  | TokenSubmit
  | TokenSettled nat reply
  | TokenCopy copy_event

record named_env =
  ne_id :: string
  ne_name :: string

record named_identity =
  ni_id :: string
  ni_name :: string
  ni_actorType :: string

definition first_env :: "named_env list \<Rightarrow> string" where
  "first_env envs = (case envs of e # es \<Rightarrow> ne_id e | [] \<Rightarrow> [])"

definition token_start :: "named_env list \<Rightarrow> new_token \<Rightarrow> bool" where
  "token_start envs s = (s = \<lparr>flights = [], effects = [], pending = False, problem = None, sh_open = False, sh_held = Some JNull,
     sh_copied = False, sh_writes = 0, sh_timers = 0, td_name = [], td_identity = [], td_env = first_env envs, td_expires = [],
     td_picker = picker_fresh []\<rparr>)"

definition secretKeys :: "new_token \<Rightarrow> string list" where
  "secretKeys s = kp_selected (td_picker s)"

definition token_close :: "new_token \<Rightarrow> new_token" where
  "token_close s = (close_shown s)\<lparr>td_name := [], td_expires := [], td_picker := (td_picker s)\<lparr>kp_selected := []\<rparr>\<rparr>"

definition token_call :: "string \<Rightarrow> string \<Rightarrow> string \<Rightarrow> string \<Rightarrow> string list \<Rightarrow> string \<Rightarrow> api_call" where
  "token_call pid ident n eid ks t = post_call (''/api/projects/'' @ pid @ ''/tokens'')
     (obj [(''identityId'', Some (JStr ident)), (''name'', Some (JStr n)), (''environmentId'', Some (JStr eid)),
       (''capabilities'', Some (JArr [JStr ''USE_SECRET''])), (''secretKeys'', Some (JArr (map JStr ks))),
       (''expiresAt'', Some (JStr t))])"

definition token_submit :: "dates \<Rightarrow> string \<Rightarrow> new_token \<Rightarrow> new_token" where
  "token_submit D pid s =
     (case expiry_iso D (td_expires s) of
        Inl e \<Rightarrow> (fail_with ''Could not create this token.'' e (start_pending s))\<lparr>pending := False\<rparr>
      | Inr t \<Rightarrow> call_api () (token_call pid (td_identity s) (td_name s) (td_env s) (secretKeys s) t) (start_pending s))"

definition token_settle :: "reply \<Rightarrow> new_token \<Rightarrow> new_token" where
  "token_settle r s =
     (case then_ok (apiResult r) (\<lambda>j. result_field j ''token'') of
        Inl e \<Rightarrow> fail_with ''Could not create this token.'' e s
      | Inr v \<Rightarrow> emit Refreshes (s\<lparr>sh_held := v\<rparr>))
     \<lparr>pending := False\<rparr>"

text \<open>
  Pressing Enter in the picker's input, where the picker leaves the key to the browser, submits the form
  around it, unless its submit button is disabled.
\<close>

definition picker_event_step :: "dates \<Rightarrow> string \<Rightarrow> new_token \<Rightarrow> picker_event \<Rightarrow> new_token" where
  "picker_event_step D pid s e =
     (if e = PickerEnter \<and> picker_enter (td_picker s) = None
      then (if pending s then s else token_submit D pid s)
      else s\<lparr>td_picker := picker_step (td_picker s) e\<rparr>)"

definition form_shown :: "new_token \<Rightarrow> bool" where
  "form_shown s = (sh_open s \<and> \<not> truthy (sh_held s))"

text \<open>Mounting runs the picker's effect on a fresh picker; unmounting cancels what it had in flight.\<close>

definition mount_picker :: "string \<Rightarrow> picker \<Rightarrow> picker" where
  "mount_picker e p = load_keys e ((picker_fresh (kp_selected p))\<lparr>flights := flights p, effects := effects p\<rparr>)"

definition unmount_picker :: "picker \<Rightarrow> picker" where
  "unmount_picker p = p\<lparr>flights := map (\<lambda>f. f\<lparr>ft_live := False\<rparr>) (flights p)\<rparr>"

definition with_picker :: "new_token \<Rightarrow> new_token \<Rightarrow> new_token" where
  "with_picker s t =
     (if form_shown t \<and> \<not> form_shown s then t\<lparr>td_picker := mount_picker (td_env t) (td_picker t)\<rparr>
      else if form_shown s \<and> \<not> form_shown t then t\<lparr>td_picker := unmount_picker (td_picker t)\<rparr>
      else if form_shown t \<and> td_env t \<noteq> td_env s then t\<lparr>td_picker := load_keys (td_env t) (td_picker t)\<rparr>
      else t)"

fun token_change :: "dates \<Rightarrow> string \<Rightarrow> new_token \<Rightarrow> token_event \<Rightarrow> new_token" where
  "token_change D pid s (TokenOpenChange next) = (if next then s\<lparr>sh_open := True\<rparr> else token_close s)"
| "token_change D pid s TokenClose = token_close s"
| "token_change D pid s (TokenName t) = s\<lparr>td_name := t\<rparr>"
| "token_change D pid s (TokenIdentity t) = s\<lparr>td_identity := t\<rparr>"
| "token_change D pid s (TokenEnv t) = s\<lparr>td_env := t\<rparr>"
| "token_change D pid s (TokenPicker e) = picker_event_step D pid s e"
| "token_change D pid s (TokenExpiry t) = s\<lparr>td_expires := t\<rparr>"
| "token_change D pid s TokenSubmit = token_submit D pid s"
| "token_change D pid s (TokenSettled i r) = (if i < length (flights s) then token_settle r (arrive i r s) else s)"
| "token_change D pid s (TokenCopy e) = copy_held (js_string (sh_held s)) s e"

definition token_step :: "dates \<Rightarrow> string \<Rightarrow> new_token \<Rightarrow> token_event \<Rightarrow> new_token" where
  "token_step D pid s e = with_picker s (token_change D pid s e)"

definition none_note :: "token_event elem" where
  "none_note = Note (''Choosing none lets this token reach every secret its identity is granted in this environment. '' @
     ''Narrowing it is what bounds a compromised process to what it actually uses.'')"

definition token_view :: "named_env list \<Rightarrow> named_identity list \<Rightarrow> new_token \<Rightarrow> token_event elem list" where
  "token_view envs ids s =
     (if \<not> sh_open s then [Press ''New token'' (TokenOpenChange True) False]
      else if truthy (sh_held s) then
        held_view ''Token created'' (js_string (sh_held s)) ''Copy token'' TokenCopy TokenClose (TokenOpenChange False)
      else [Field ''token-name'' (td_name s)] @
        map (\<lambda>x. Press (ni_name x @ '' '' @ [middot] @ '' '' @ readable_kind (ni_actorType x)) (TokenIdentity (ni_id x)) False) ids @
        map (\<lambda>e. Press (ne_name e) (TokenEnv (ne_id e)) False) envs @
        map (map_elem TokenPicker) (picker_view (td_picker s)) @ [none_note] @
        [Field ''token-expiry'' (td_expires s)] @ problem_note s @
        [Press ''Cancel'' TokenClose False, Press ''Create token'' TokenSubmit (pending s),
         Press ''Close'' (TokenOpenChange False) False])"

lemma none_note_inert [simp]: "pressable (none_note # es) e = pressable es e" "editable (none_note # es) n = editable es n"
  by (simp_all add: none_note_def)

text \<open>An answer to a load of the picker can arrive at any time; its other events only while it is mounted.\<close>

fun token_offers :: "named_env list \<Rightarrow> named_identity list \<Rightarrow> new_token \<Rightarrow> token_event \<Rightarrow> bool" where
  "token_offers envs ids s (TokenName t) = editable (token_view envs ids s) ''token-name''"
| "token_offers envs ids s (TokenExpiry t) = editable (token_view envs ids s) ''token-expiry''"
| "token_offers envs ids s (TokenSettled i r) = (i < length (flights s))"
| "token_offers envs ids s (TokenCopy e) = copy_offered s (pressable (token_view envs ids s) (TokenCopy CopyPress)) e"
| "token_offers envs ids s (TokenPicker (PickerSettled i r)) = (i < length (flights (td_picker s)))"
| "token_offers envs ids s (TokenPicker (PickerEnv e)) = False"
| "token_offers envs ids s (TokenPicker e) = (form_shown s \<and> picker_offers (td_picker s) e)"
| "token_offers envs ids s e = pressable (token_view envs ids s) e"

section \<open>The contract of a credential shown once\<close>

definition forgotten_on_close ::
  "('a shown_scheme \<Rightarrow> bool) \<Rightarrow> ('a shown_scheme \<Rightarrow> 'e \<Rightarrow> bool) \<Rightarrow> ('a shown_scheme \<Rightarrow> 'e \<Rightarrow> 'a shown_scheme) \<Rightarrow> (nat \<Rightarrow> reply \<Rightarrow> 'e) \<Rightarrow> bool" where
  "forgotten_on_close start offers step settle =
     ((\<forall>s e. offers s e \<and> sh_open s \<and> \<not> sh_open (step s e) \<longrightarrow> \<not> truthy (sh_held (step s e))) \<and>
      (\<forall>s. reachable start offers step s \<and> \<not> sh_open s \<and> truthy (sh_held s) \<longrightarrow>
        (\<exists>t i r. reachable start offers step t \<and> \<not> sh_open t \<and> i < length (flights t) \<and> \<not> truthy (sh_held t) \<and>
          truthy (sh_held (step t (settle i r))))))"

text \<open>
  Closing forgets the credential, only an answer brings one, and an answer neither opens nor closes the
  dialog.  So a credential that is held behind a closed dialog came with an answer that arrived when the
  dialog had been closed already.
\<close>

locale shown_once = request_form start offers step inv settle
  for start :: "'a shown_scheme \<Rightarrow> bool" and offers :: "'a shown_scheme \<Rightarrow> 'e \<Rightarrow> bool"
    and step :: "'a shown_scheme \<Rightarrow> 'e \<Rightarrow> 'a shown_scheme" and inv :: "'a shown_scheme \<Rightarrow> bool"
    and settle :: "nat \<Rightarrow> reply \<Rightarrow> 'e" +
  assumes starts_empty: "start s \<Longrightarrow> \<not> truthy (sh_held s)"
    and close_forgets: "offers s e \<Longrightarrow> sh_open s \<Longrightarrow> \<not> sh_open (step s e) \<Longrightarrow> \<not> truthy (sh_held (step s e))"
    and brought_by_answer: "offers s e \<Longrightarrow> \<forall>i r. e \<noteq> settle i r \<Longrightarrow> truthy (sh_held (step s e)) \<Longrightarrow> truthy (sh_held s)"
    and answer_open: "i < length (flights s) \<Longrightarrow> sh_open (step s (settle i r)) = sh_open s"
    and settle_only: "offers s (settle i r) \<Longrightarrow> i < length (flights s)"
begin

lemma held_behind_closed:
  assumes "reachable start offers step s" "\<not> sh_open s" "truthy (sh_held s)"
  shows "\<exists>t i r. reachable start offers step t \<and> \<not> sh_open t \<and> i < length (flights t) \<and> \<not> truthy (sh_held t) \<and>
    truthy (sh_held (step t (settle i r)))"
  using assms
proof (induction rule: reachable.induct)
  case (initial s)
  then show ?case using starts_empty by blast
next
  case (event s e)
  have closed: "\<not> sh_open s" using close_forgets [OF event.hyps(2)] event.prems by blast
  show ?case
  proof (cases "truthy (sh_held s)")
    case True
    with closed event.IH show ?thesis by blast
  next
    case False
    then obtain i r where "e = settle i r" using brought_by_answer [OF event.hyps(2)] event.prems by blast
    moreover from this have "i < length (flights s)" using settle_only event.hyps(2) by blast
    ultimately show ?thesis using False closed event.hyps(1) event.prems by blast
  qed
qed

lemma forgotten: "forgotten_on_close start offers step settle"
  unfolding forgotten_on_close_def using close_forgets held_behind_closed by blast

end

section \<open>Lemmas\<close>

lemma shown_frame [simp]:
  "sh_open (call_api f c s) = sh_open s" "sh_held (call_api f c s) = sh_held s"
  "sh_open (arrive i r s) = sh_open s" "sh_held (arrive i r s) = sh_held s"
  "sh_open (start_pending s) = sh_open s" "sh_held (start_pending s) = sh_held s"
  "sh_open (fail_with b e s) = sh_open s" "sh_held (fail_with b e s) = sh_held s"
  "sh_open (emit x s) = sh_open s" "sh_held (emit x s) = sh_held s"
  by (simp_all add: form_defs)

lemma copy_step_sel [simp]:
  "flights (copy_step t s e) = flights s" "pending (copy_step t s e) = pending s"
  "sh_open (copy_step t s e) = sh_open s" "sh_held (copy_step t s e) = sh_held s"
  "calls (effects (copy_step t s e)) = calls (effects s)"
  by (cases e; simp)+

lemma copy_held_sel [simp]:
  "flights (copy_held t s e) = flights s" "pending (copy_held t s e) = pending s"
  "sh_open (copy_held t s e) = sh_open s" "sh_held (copy_held t s e) = sh_held s"
  "calls (effects (copy_held t s e)) = calls (effects s)"
  by (simp_all add: copy_held_def)

lemma close_shown_sel [simp]:
  "flights (close_shown s) = flights s" "pending (close_shown s) = pending s" "effects (close_shown s) = effects s"
  "\<not> sh_open (close_shown s)" "sh_held (close_shown s) = Some JNull"
  by (simp_all add: close_shown_def)

lemma held_view_inert [simp]: "editable (held_view a b c d x y) n = False"
  by (simp add: held_view_def)

definition recovery_inv :: "string \<Rightarrow> recovery \<Rightarrow> bool" where
  "recovery_inv mid s = (one_flight s \<and> list_all (only True (recovery_call mid)) (calls (effects s)))"

lemma recovery_issue_offered: "recovery_offers origin who s RecoveryIssue \<Longrightarrow> \<not> pending s"
  by (auto simp: recovery_view_def held_view_def split: if_splits)

lemma recovery_settle_sel [simp]:
  "\<not> pending (recovery_settle r s)" "flights (recovery_settle r s) = flights s"
  "calls (effects (recovery_settle r s)) = calls (effects s)" "sh_open (recovery_settle r s) = sh_open s"
  by (simp_all add: recovery_settle_def split: sum.splits)

lemma recovery_inv_step:
  assumes "recovery_inv mid s" "recovery_offers origin who s e"
  shows "recovery_inv mid (recovery_step origin mid s e)"
proof (cases e)
  case (RecoverySettled i r)
  with assms show ?thesis by (simp add: recovery_inv_def one_flight_def split: if_splits)
next
  case RecoveryIssue
  with assms(2) have "\<not> pending s" using recovery_issue_offered by simp
  with RecoveryIssue assms(1) show ?thesis by (simp add: recovery_inv_def one_flight_def recovery_issue_def only_def)
qed (use assms(1) in \<open>simp_all add: recovery_inv_def one_flight_def split: if_splits\<close>)

interpretation recovering: shown_once recovery_start "recovery_offers origin who" "recovery_step origin mid" "recovery_inv mid"
    RecoverySettled for origin who mid
proof unfold_locales
  show "recovery_start s \<Longrightarrow> recovery_inv mid s" for s by (simp add: recovery_start_def recovery_inv_def one_flight_def)
  show "recovery_start s \<Longrightarrow> \<not> truthy (sh_held s)" for s by (simp add: recovery_start_def)
  fix s e assume o: "recovery_offers origin who s e"
  show "recovery_inv mid s \<Longrightarrow> recovery_inv mid (recovery_step origin mid s e)" by (rule recovery_inv_step [OF _ o])
  show "sh_open s \<Longrightarrow> \<not> sh_open (recovery_step origin mid s e) \<Longrightarrow> \<not> truthy (sh_held (recovery_step origin mid s e))"
    by (cases e) (auto simp: recovery_issue_def split: if_splits)
  show "\<forall>i r. e \<noteq> RecoverySettled i r \<Longrightarrow> truthy (sh_held (recovery_step origin mid s e)) \<Longrightarrow> truthy (sh_held s)"
    by (cases e) (auto simp: recovery_issue_def split: if_splits)
qed (auto simp: recovery_inv_def)

definition invites :: "api_call \<Rightarrow> bool" where
  "invites c = (\<exists>n m rl t. c = invite_call n m rl t)"

lemma invites_call [simp]: "invites (invite_call n m rl t)"
  by (auto simp: invites_def)

definition invite_inv :: "invite \<Rightarrow> bool" where
  "invite_inv s = (one_flight s \<and> list_all invites (calls (effects s)))"

lemma roles_pressable: "pressable (map (\<lambda>(v, l, d). Press l (InviteRole v) False) ROLES) e \<longleftrightarrow> (\<exists>v \<in> fst ` set ROLES. e = InviteRole v)"
  by (auto simp: ROLES_def)

lemma invite_submit_offered: "invite_offers s InviteSubmit \<Longrightarrow> \<not> pending s"
  by (auto simp: invite_view_def held_view_def roles_pressable split: if_splits option.splits)

lemma invite_settle_sel [simp]:
  "\<not> pending (invite_settle r s)" "flights (invite_settle r s) = flights s"
  "calls (effects (invite_settle r s)) = calls (effects s)" "sh_open (invite_settle r s) = sh_open s"
  by (simp_all add: invite_settle_def split: sum.splits)

lemma invite_close_sel [simp]:
  "flights (invite_close s) = flights s" "pending (invite_close s) = pending s" "effects (invite_close s) = effects s"
  "\<not> sh_open (invite_close s)" "sh_held (invite_close s) = Some JNull"
  by (simp_all add: invite_close_def)

lemma invite_member_submit_sel [simp]:
  "sh_open (invite_member_submit D s) = sh_open s" "sh_held (invite_member_submit D s) = sh_held s"
  by (simp_all add: invite_member_submit_def split: sum.splits)

lemma invite_inv_step:
  assumes "invite_inv s" "invite_offers s e"
  shows "invite_inv (invite_step D s e)"
proof (cases e)
  case (InviteSettled i r)
  with assms show ?thesis by (simp add: invite_inv_def one_flight_def split: if_splits)
next
  case InviteSubmit
  with assms(2) have "\<not> pending s" using invite_submit_offered by simp
  with InviteSubmit assms(1) show ?thesis
    by (simp add: invite_inv_def one_flight_def invite_member_submit_def split: sum.splits)
qed (use assms(1) in \<open>simp_all add: invite_inv_def one_flight_def split: if_splits\<close>)

interpretation offering: shown_once invite_start invite_offers "invite_step D" invite_inv InviteSettled for D
proof unfold_locales
  show "invite_start s \<Longrightarrow> invite_inv s" for s by (simp add: invite_start_def invite_inv_def one_flight_def)
  show "invite_start s \<Longrightarrow> \<not> truthy (sh_held s)" for s by (simp add: invite_start_def)
  fix s e assume o: "invite_offers s e"
  show "invite_inv s \<Longrightarrow> invite_inv (invite_step D s e)" by (rule invite_inv_step [OF _ o])
  show "sh_open s \<Longrightarrow> \<not> sh_open (invite_step D s e) \<Longrightarrow> \<not> truthy (sh_held (invite_step D s e))"
    by (cases e) (auto split: if_splits)
  show "\<forall>i r. e \<noteq> InviteSettled i r \<Longrightarrow> truthy (sh_held (invite_step D s e)) \<Longrightarrow> truthy (sh_held s)"
    by (cases e) (auto split: if_splits)
qed (auto simp: invite_inv_def)

subsection \<open>The token dialog\<close>

text \<open>The picker is a record over the same base as the dialog, so the fields of the base need their own frame rules.\<close>

lemma nested_frame [simp]:
  "flights (td_picker_update g s) = flights s" "effects (td_picker_update g s) = effects s"
  "pending (td_picker_update g s) = pending s" "problem (td_picker_update g s) = problem s"
  "td_picker (flights_update a s) = td_picker s" "td_picker (effects_update b s) = td_picker s"
  "td_picker (pending_update c s) = td_picker s" "td_picker (problem_update d s) = td_picker s"
  by (cases s; simp)+

lemma token_frame [simp]:
  "td_picker (call_api f c s) = td_picker s" "td_env (call_api f c s) = td_env s"
  "td_picker (arrive i r s) = td_picker s" "td_env (arrive i r s) = td_env s"
  "td_picker (start_pending s) = td_picker s" "td_env (start_pending s) = td_env s"
  "td_picker (fail_with b e s) = td_picker s" "td_env (fail_with b e s) = td_env s"
  "td_picker (emit x s) = td_picker s" "td_env (emit x s) = td_env s"
  by (simp_all add: form_defs)

lemma token_copy_sel [simp]: "td_picker (copy_held t s e) = td_picker s" "td_env (copy_held t s e) = td_env s"
  by (cases e; simp add: copy_held_def)+

definition asks_token :: "string \<Rightarrow> api_call \<Rightarrow> bool" where
  "asks_token pid c = (\<exists>ident n eid ks t. c = token_call pid ident n eid ks t)"

lemma asks_token_call [simp]: "asks_token pid (token_call pid ident n eid ks t)"
  unfolding asks_token_def by blast

lemma token_close_sel [simp]:
  "flights (token_close s) = flights s" "pending (token_close s) = pending s" "effects (token_close s) = effects s"
  "\<not> sh_open (token_close s)" "sh_held (token_close s) = Some JNull" "td_env (token_close s) = td_env s"
  "td_picker (token_close s) = (td_picker s)\<lparr>kp_selected := []\<rparr>"
  by (simp_all add: token_close_def close_shown_def)

lemma token_settle_sel [simp]:
  "\<not> pending (token_settle r s)" "flights (token_settle r s) = flights s"
  "calls (effects (token_settle r s)) = calls (effects s)" "sh_open (token_settle r s) = sh_open s"
  "td_picker (token_settle r s) = td_picker s" "td_env (token_settle r s) = td_env s"
  by (simp_all add: token_settle_def split: sum.splits)

lemma token_submit_sel [simp]:
  "sh_open (token_submit D pid s) = sh_open s" "sh_held (token_submit D pid s) = sh_held s"
  "td_picker (token_submit D pid s) = td_picker s" "td_env (token_submit D pid s) = td_env s"
  by (simp_all add: token_submit_def split: sum.splits)

lemma with_picker_sel [simp]:
  "flights (with_picker s t) = flights t" "pending (with_picker s t) = pending t" "effects (with_picker s t) = effects t"
  "sh_open (with_picker s t) = sh_open t" "sh_held (with_picker s t) = sh_held t" "problem (with_picker s t) = problem t"
  "td_env (with_picker s t) = td_env t" "form_shown (with_picker s t) = form_shown t"
  by (simp_all add: with_picker_def form_shown_def)

lemma picker_event_step_sel [simp]:
  "sh_open (picker_event_step D pid s e) = sh_open s" "sh_held (picker_event_step D pid s e) = sh_held s"
  "td_env (picker_event_step D pid s e) = td_env s"
  by (simp_all add: picker_event_step_def)

text \<open>The dialog asks for one token at a time.\<close>

definition asking_inv :: "string \<Rightarrow> new_token \<Rightarrow> bool" where
  "asking_inv pid s = (one_flight s \<and> list_all (asks_token pid) (calls (effects s)))"

lemma asking_submit: "asking_inv pid s \<Longrightarrow> \<not> pending s \<Longrightarrow> asking_inv pid (token_submit D pid s)"
  by (simp add: asking_inv_def one_flight_def token_submit_def split: sum.splits)

lemma asking_cong: "flights t = flights s \<Longrightarrow> pending t = pending s \<Longrightarrow> effects t = effects s \<Longrightarrow> asking_inv pid t = asking_inv pid s"
  by (simp add: asking_inv_def one_flight_def)

lemma options_pressable [simp]:
  "pressable (map (\<lambda>x. Press (l x) (TokenIdentity (ni_id x)) False) ids) e \<longleftrightarrow> (\<exists>x \<in> set ids. e = TokenIdentity (ni_id x))"
  "pressable (map (\<lambda>v. Press (m v) (TokenEnv (ne_id v)) False) envs) e \<longleftrightarrow> (\<exists>v \<in> set envs. e = TokenEnv (ne_id v))"
  by (auto simp: pressable_def)

lemma token_view_pressable:
  "pressable (token_view envs ids s) e \<Longrightarrow>
     e = TokenOpenChange (\<not> sh_open s) \<or> e = TokenClose \<or> e = TokenCopy CopyPress \<or>
     form_shown s \<and> (e = TokenSubmit \<and> \<not> pending s \<or> (\<exists>x. e = TokenIdentity x) \<or> (\<exists>v \<in> set envs. e = TokenEnv (ne_id v)) \<or> (\<exists>d. e = TokenPicker d))"
  by (auto simp: token_view_def form_shown_def held_view_def pressable_map_elem split: if_splits)

lemma token_submit_offered: "token_offers envs ids s TokenSubmit \<Longrightarrow> \<not> pending s"
  using token_view_pressable [of envs ids s TokenSubmit] by auto

lemma asking_picker:
  assumes "asking_inv pid s"
  shows "asking_inv pid (picker_event_step D pid s d)"
proof (cases "d = PickerEnter \<and> picker_enter (td_picker s) = None")
  case True
  then show ?thesis using asking_submit [OF assms] assms by (simp add: picker_event_step_def)
next
  case False
  then have "picker_event_step D pid s d = s\<lparr>td_picker := picker_step (td_picker s) d\<rparr>"
    unfolding picker_event_step_def by (rule if_not_P)
  with assms show ?thesis by (simp add: asking_inv_def one_flight_def)
qed

lemma asking_inv_change:
  assumes "asking_inv pid s" "token_offers envs ids s e"
  shows "asking_inv pid (token_change D pid s e)"
proof (cases e)
  case (TokenSettled i r)
  with assms(1) show ?thesis by (simp add: asking_inv_def one_flight_def split: if_splits)
next
  case TokenSubmit
  with assms(2) have "\<not> pending s" using token_submit_offered by simp
  with TokenSubmit assms(1) show ?thesis by (simp add: asking_submit)
next
  case (TokenPicker d)
  with assms(1) show ?thesis by (simp add: asking_picker)
next
  case (TokenOpenChange b)
  with assms(1) show ?thesis by (cases b) (simp_all add: asking_inv_def one_flight_def)
next
  case TokenClose
  with assms(1) show ?thesis by (simp add: asking_inv_def one_flight_def)
qed (use assms(1) in \<open>simp_all add: asking_inv_def one_flight_def\<close>)

lemma asking_inv_step: "asking_inv pid s \<Longrightarrow> token_offers envs ids s e \<Longrightarrow> asking_inv pid (token_step D pid s e)"
  using asking_inv_change [of pid s envs ids e D] asking_cong [of "token_step D pid s e" "token_change D pid s e" pid]
  by (simp add: token_step_def)

interpretation minting: shown_once "token_start envs" "token_offers envs ids" "token_step D pid" "asking_inv pid" TokenSettled
  for envs ids D pid
proof unfold_locales
  show "token_start envs s \<Longrightarrow> asking_inv pid s" for s by (simp add: token_start_def asking_inv_def one_flight_def)
  show "token_start envs s \<Longrightarrow> \<not> truthy (sh_held s)" for s by (simp add: token_start_def)
  fix s e assume o: "token_offers envs ids s e"
  show "asking_inv pid s \<Longrightarrow> asking_inv pid (token_step D pid s e)" by (rule asking_inv_step [OF _ o])
  show "sh_open s \<Longrightarrow> \<not> sh_open (token_step D pid s e) \<Longrightarrow> \<not> truthy (sh_held (token_step D pid s e))"
    by (cases e) (auto simp: token_step_def split: if_splits)
  show "\<forall>i r. e \<noteq> TokenSettled i r \<Longrightarrow> truthy (sh_held (token_step D pid s e)) \<Longrightarrow> truthy (sh_held s)"
    by (cases e) (auto simp: token_step_def split: if_splits)
qed (auto simp: asking_inv_def token_step_def)

subsection \<open>The picker inside the token dialog\<close>

text \<open>
  While the form is on screen its picker is a picker for the environment chosen in the dialog; while it is
  not, no load of it can change anything.
\<close>

definition narrowed :: "new_token \<Rightarrow> bool" where
  "narrowed s = (list_all loads_keys (calls (effects (td_picker s))) \<and>
     (if form_shown s then picker_inv (td_picker s) \<and> kp_env (td_picker s) = td_env s else live (td_picker s) = []))"

lemma kp_env_step: "\<forall>e. d \<noteq> PickerEnv e \<Longrightarrow> kp_env (picker_step p d) = kp_env p"
  by (cases d) (auto simp: picker_settle_def toggle_key_def picker_backspace_def picker_enter_def split: sum.splits option.splits list.splits if_splits)

lemma load_keys_env [simp]: "kp_env (load_keys e p) = e"
  by (simp add: load_keys_def Let_def)

lemma unmounted [simp]: "live (unmount_picker p) = []" "effects (unmount_picker p) = effects p"
  by (simp_all add: unmount_picker_def live_def)

lemma mount_picker_inv [simp]:
  "list_all loads_keys (calls (effects p)) \<Longrightarrow> picker_inv (mount_picker e p)"
  "kp_env (mount_picker e p) = e"
  unfolding mount_picker_def by (simp_all add: load_keys_inv picker_fresh_def)

lemma picker_inv_calls: "picker_inv p \<Longrightarrow> list_all loads_keys (calls (effects p))"
  by (simp add: picker_inv_def)

lemma narrowed_with_picker:
  assumes "narrowed s" "list_all loads_keys (calls (effects (td_picker t)))"
    "form_shown t \<Longrightarrow> form_shown s \<Longrightarrow> td_env t = td_env s \<Longrightarrow> picker_inv (td_picker t) \<and> kp_env (td_picker t) = td_env s"
    "\<not> form_shown t \<Longrightarrow> \<not> form_shown s \<Longrightarrow> live (td_picker t) = []"
  shows "narrowed (with_picker s t)"
proof -
  have n: "list_all loads_keys (calls (effects (td_picker (with_picker s t))))"
    using assms(2) picker_inv_calls [OF load_keys_inv [OF assms(2)]] picker_inv_calls [OF mount_picker_inv(1) [OF assms(2)]]
    by (simp add: with_picker_def)
  show ?thesis
  proof (cases "form_shown t")
    case True
    then have "picker_inv (td_picker (with_picker s t)) \<and> kp_env (td_picker (with_picker s t)) = td_env t"
      using assms(2,3) load_keys_inv by (simp add: with_picker_def)
    with n True show ?thesis by (simp add: narrowed_def)
  next
    case False
    then have "live (td_picker (with_picker s t)) = []" using assms(4) by (simp add: with_picker_def)
    with n False show ?thesis by (simp add: narrowed_def)
  qed
qed

lemma narrowed_same:
  assumes "narrowed s" "td_picker t = td_picker s"
  shows "narrowed (with_picker s t)"
  by (rule narrowed_with_picker [OF assms(1)]) (use assms in \<open>auto simp: narrowed_def\<close>)

lemma form_shown_cong: "sh_open t = sh_open s \<Longrightarrow> sh_held t = sh_held s \<Longrightarrow> form_shown t = form_shown s"
  by (simp add: form_shown_def)

lemma narrowed_picker:
  assumes "narrowed s" "token_offers envs ids s (TokenPicker d)"
  shows "narrowed (with_picker s (picker_event_step D pid s d))"
proof (cases "d = PickerEnter \<and> picker_enter (td_picker s) = None")
  case True
  with assms(1) show ?thesis by (intro narrowed_same) (simp_all add: picker_event_step_def)
next
  case False
  let ?p = "td_picker s" and ?q = "picker_step (td_picker s) d"
  have t: "picker_event_step D pid s d = s\<lparr>td_picker := ?q\<rparr>" unfolding picker_event_step_def by (rule if_not_P [OF False])
  have env: "\<forall>e. d \<noteq> PickerEnv e" using assms(2) by auto
  have shown: "form_shown (s\<lparr>td_picker := ?q\<rparr>) = form_shown s" by (simp add: form_shown_def)
  have offered: "picker_offers ?p d \<and> form_shown s \<or> (\<exists>i r. d = PickerSettled i r \<and> i < length (flights ?p))"
    using assms(2) by (cases d) auto
  show ?thesis unfolding t
  proof (cases "form_shown s")
    case True
    then have p: "picker_inv ?p" "kp_env ?p = td_env s" using assms(1) by (simp_all add: narrowed_def)
    have "picker_offers ?p d" using offered by auto
    then have q: "picker_inv ?q" by (rule picker_inv_step [OF p(1)])
    show "narrowed (with_picker s (s\<lparr>td_picker := ?q\<rparr>))"
      by (rule narrowed_with_picker [OF assms(1)])
        (use q True in \<open>simp_all add: shown kp_env_step [OF env] p picker_inv_calls\<close>)
  next
    case False
    then obtain i r where d: "d = PickerSettled i r" "i < length (flights ?p)" using offered by auto
    have l: "live ?p = []" "list_all loads_keys (calls (effects ?p))" using assms(1) False by (simp_all add: narrowed_def)
    then have "\<not> ft_live (flights ?p ! i)" using d(2) by (auto simp: live_def filter_empty_conv)
    then have q: "?q = arrive i r ?p" using d by (simp add: picker_settle_stale)
    have "live (arrive i r ?p) = []" using l(1) by (auto simp: live_def filter_empty_conv dest: in_set_takeD in_set_dropD)
    then show "narrowed (with_picker s (s\<lparr>td_picker := ?q\<rparr>))"
      by (intro narrowed_with_picker [OF assms(1)]) (use l False in \<open>simp_all add: shown q\<close>)
  qed
qed

lemma narrowed_close:
  assumes "narrowed s"
  shows "narrowed (with_picker s (token_close s))"
  by (rule narrowed_with_picker [OF assms])
    (use assms in \<open>simp_all add: narrowed_def form_shown_def live_def split: if_splits\<close>)

lemma narrowed_step:
  assumes "narrowed s" "token_offers envs ids s e"
  shows "narrowed (token_step D pid s e)"
  unfolding token_step_def
proof (cases e)
  case (TokenPicker d)
  with assms narrowed_picker show "narrowed (with_picker s (token_change D pid s e))" by simp
next
  case (TokenOpenChange b)
  with assms(1) narrowed_close show "narrowed (with_picker s (token_change D pid s e))"
    by (cases b) (simp_all add: narrowed_same)
next
  case TokenClose
  with assms(1) narrowed_close show "narrowed (with_picker s (token_change D pid s e))" by simp
qed (use assms(1) in \<open>simp_all add: narrowed_same\<close>)

interpretation narrowing: component "token_start envs" "token_offers envs ids" "token_step D pid" narrowed for envs ids D pid
proof unfold_locales
  show "token_start envs s \<Longrightarrow> narrowed s" for s
    by (simp add: token_start_def narrowed_def form_shown_def picker_fresh_def live_def)
qed (rule narrowed_step)

section \<open>Properties\<close>

text \<open>A credential shown once.  Whichever of the three dialogs: every way of closing it forgets the credential
  it showed, and a request is never lost under it.  And if a credential is held behind a closed dialog, it
  came with an answer that arrived after the dialog had been closed, so no credential that was ever on
  screen survives the closing.\<close>

theorem closing_forgets_the_credential:
  "forgotten_on_close recovery_start (recovery_offers origin who) (recovery_step origin mid) RecoverySettled \<and>
   forgotten_on_close invite_start invite_offers (invite_step D) InviteSettled \<and>
   forgotten_on_close (token_start envs) (token_offers envs ids) (token_step D pid) TokenSettled"
  by (intro conjI) (rule recovering.forgotten offering.forgotten minting.forgotten)+

text \<open>The late credential.  Close the token dialog while its request is under way: the token the answer
  brings is held all the same, although its comment says it is held only until the dialog closes, and whoever
  opens the dialog next is shown that token instead of the form.\<close>

theorem late_token_is_shown_next_time:
  assumes "form_shown s" "flights s = [()]" "then_ok (apiResult r) (\<lambda>j. result_field j ''token'') = Inr v" "truthy v"
  shows "let t = foldl (token_step D pid) s [TokenClose, TokenSettled 0 r, TokenOpenChange True] in
    sh_held t = v \<and> sh_open t \<and> Note (js_string v) \<in> set (token_view envs ids t) \<and> \<not> editable (token_view envs ids t) ''token-name''"
proof -
  let ?a = "token_step D pid s TokenClose"
  let ?b = "token_step D pid ?a (TokenSettled 0 r)"
  have a: "flights ?a = [()]" using assms(2) by (simp add: token_step_def)
  have b: "sh_held ?b = v" using assms(3) a by (simp add: token_step_def [of D pid ?a] token_settle_def)
  have "sh_held (token_step D pid ?b (TokenOpenChange True)) = v" "sh_open (token_step D pid ?b (TokenOpenChange True))"
    using b by (simp_all add: token_step_def [of D pid ?b])
  then show ?thesis using assms(4) by (simp add: Let_def token_view_def held_view_def)
qed

definition late_demo :: new_token where
  "late_demo = \<lparr>flights = [()], effects = [], pending = True, problem = None, sh_open = True, sh_held = Some JNull,
     sh_copied = False, sh_writes = 0, sh_timers = 0, td_name = ''ci'', td_identity = ''i1'', td_env = ''e1'', td_expires = [],
     td_picker = picker_fresh []\<rparr>"

definition minted_reply :: reply where
  "minted_reply = Reply 200 (Some (JObj [(''token'', JStr ''wdr_1'')]))"

lemma minted_reply_token: "then_ok (apiResult minted_reply) (\<lambda>j. result_field j ''token'') = Inr (Some (JStr ''wdr_1''))"
  by (simp add: minted_reply_def apiResult_def reply_ok_def payload_of_def result_field_def)

theorem late_token_is_shown_next_time_witness:
  "sh_held (foldl (token_step D pid) late_demo [TokenClose, TokenSettled 0 minted_reply, TokenOpenChange True]) = Some (JStr ''wdr_1'')"
  using late_token_is_shown_next_time [of late_demo minted_reply "Some (JStr ''wdr_1'')" D pid]
  by (simp add: late_demo_def form_shown_def minted_reply_token Let_def del: foldl.simps token_change.simps)

text \<open>The date the field of a form holds, as a request carries it: none, or the instant it names.\<close>

definition date_sent :: "dates \<Rightarrow> string \<Rightarrow> string \<Rightarrow> bool" where
  "date_sent D typed t = (if typed = [] then t = [] else (\<exists>d. dt_parse D typed = Some d \<and> t = dt_iso D d))"

text \<open>The token a form on screen describes: the identity, name and environment chosen, the keys selected, the date.\<close>

definition token_described :: "dates \<Rightarrow> new_token \<Rightarrow> json \<Rightarrow> bool" where
  "token_described D s b = (\<exists>t. date_sent D (td_expires s) t \<and>
     b = JObj [(''identityId'', JStr (td_identity s)), (''name'', JStr (td_name s)), (''environmentId'', JStr (td_env s)),
       (''capabilities'', JArr [JStr ''USE_SECRET'']), (''secretKeys'', JArr (map JStr (kp_selected (td_picker s)))),
       (''expiresAt'', JStr t)])"

lemma date_sent_iso: "date_sent D typed t \<longleftrightarrow> expiry_iso D typed = Inr t"
  by (auto simp: date_sent_def expiry_iso_Inr)

lemma token_submit_calls:
  "calls (effects (token_submit D pid s)) = calls (effects s) \<and> (\<forall>t. \<not> date_sent D (td_expires s) t) \<or>
   (\<exists>b. token_described D s b \<and> calls (effects (token_submit D pid s)) = calls (effects s) @ [post_call (''/api/projects/'' @ pid @ ''/tokens'') b])"
  by (cases "expiry_iso D (td_expires s)")
    (auto simp: date_sent_iso token_submit_def token_described_def token_call_def secretKeys_def)

lemma token_step_calls:
  assumes "token_offers envs ids s e"
  shows "calls (effects (token_step D pid s e)) = calls (effects s) \<or>
    \<not> pending s \<and> form_shown s \<and> (\<exists>b. token_described D s b \<and>
      calls (effects (token_step D pid s e)) = calls (effects s) @ [post_call (''/api/projects/'' @ pid @ ''/tokens'') b])"
proof (cases e)
  case TokenSubmit
  with assms have "\<not> pending s" "form_shown s" using token_view_pressable [of envs ids s TokenSubmit] by auto
  with TokenSubmit token_submit_calls [of D pid s] show ?thesis by (auto simp: token_step_def)
next
  case (TokenPicker d)
  show ?thesis
  proof (cases "d = PickerEnter \<and> picker_enter (td_picker s) = None \<and> \<not> pending s")
    case True
    with assms TokenPicker have "form_shown s" by simp
    with True TokenPicker token_submit_calls [of D pid s] show ?thesis by (auto simp: token_step_def picker_event_step_def)
  next
    case False
    then have "effects (picker_event_step D pid s d) = effects s" by (auto simp: picker_event_step_def)
    with TokenPicker show ?thesis by (simp add: token_step_def)
  qed
next
  case (TokenOpenChange b)
  then show ?thesis by (cases b) (simp_all add: token_step_def)
qed (simp_all add: token_step_def)

text \<open>C30: What a token is asked for.  Whatever a person does with the token dialog, a step makes no request, or one, from the
  form on screen with none under way: to the tokens of the dialog's own project, for using secrets and nothing else, with the identity,
  name, environment and date of the form and exactly the keys selected in its picker; pressing the button makes that request whenever
  the date can be read.  There is one request at a time.  While the form is on screen its picker is the one of the
  environment chosen, and when that environment's list has loaded without an error the keys selected are keys of that environment (while it
  loads, or when it could not be loaded, the selection is the one made before); behind a closed form no load can change it.\<close>

theorem tokens_are_asked_for_narrowly:
  assumes "reachable (token_start envs) (token_offers envs ids) (token_step D pid) s"
  shows "(\<forall>e. token_offers envs ids s e \<longrightarrow>
      calls (effects (token_step D pid s e)) = calls (effects s) \<or>
      \<not> pending s \<and> form_shown s \<and> (\<exists>b. token_described D s b \<and>
        calls (effects (token_step D pid s e)) = calls (effects s) @ [post_call (''/api/projects/'' @ pid @ ''/tokens'') b])) \<and>
    (\<forall>t. date_sent D (td_expires s) t \<longrightarrow> (\<exists>b. token_described D s b \<and>
      calls (effects (token_step D pid s TokenSubmit)) = calls (effects s) @ [post_call (''/api/projects/'' @ pid @ ''/tokens'') b])) \<and>
    one_flight s \<and>
    (form_shown s \<longrightarrow> kp_env (td_picker s) = td_env s \<and>
      (\<not> pending (td_picker s) \<and> problem (td_picker s) = None \<and> td_env s \<noteq> [] \<longrightarrow>
        set (kp_selected (td_picker s)) \<subseteq> set (kp_keys (td_picker s)))) \<and>
    (\<not> form_shown s \<longrightarrow> (\<forall>i r. i < length (flights (td_picker s)) \<longrightarrow>
      kp_selected (td_picker (token_step D pid s (TokenPicker (PickerSettled i r)))) = kp_selected (td_picker s)))"
proof -
  have "one_flight s" using assms by (auto dest: minting.always simp: asking_inv_def)
  have n: "narrowed s" using assms by (rule narrowing.always)
  have press: "\<exists>b. token_described D s b \<and>
      calls (effects (token_step D pid s TokenSubmit)) = calls (effects s) @ [post_call (''/api/projects/'' @ pid @ ''/tokens'') b]"
    if "date_sent D (td_expires s) t" for t
    using that token_submit_calls [of D pid s] by (auto simp: token_step_def)
  have shown: "form_shown s \<longrightarrow> kp_env (td_picker s) = td_env s \<and>
      (\<not> pending (td_picker s) \<and> problem (td_picker s) = None \<and> td_env s \<noteq> [] \<longrightarrow>
        set (kp_selected (td_picker s)) \<subseteq> set (kp_keys (td_picker s)))"
    using n by (auto simp: narrowed_def picker_inv_def)
  have "kp_selected (td_picker (token_step D pid s (TokenPicker (PickerSettled i r)))) = kp_selected (td_picker s)"
    if "\<not> form_shown s" "i < length (flights (td_picker s))" for i r
  proof -
    have "\<not> ft_live (flights (td_picker s) ! i)" using n that by (auto simp: narrowed_def live_def filter_empty_conv)
    with that show ?thesis
      by (auto simp: token_step_def picker_event_step_def picker_settle_stale with_picker_def form_shown_def)
  qed
  with press shown \<open>one_flight s\<close> token_step_calls [of envs ids s _ D pid] show ?thesis by blast
qed

definition demo_envs :: "named_env list" where
  "demo_envs = [\<lparr>ne_id = ''e1'', ne_name = ''Staging''\<rparr>, \<lparr>ne_id = ''e2'', ne_name = ''Production''\<rparr>]"

definition token_initial :: new_token where
  "token_initial = \<lparr>flights = [], effects = [], pending = False, problem = None, sh_open = False, sh_held = Some JNull,
     sh_copied = False, sh_writes = 0, sh_timers = 0, td_name = [], td_identity = [], td_env = ''e1'', td_expires = [],
     td_picker = picker_fresh []\<rparr>"

definition token_opened :: "dates \<Rightarrow> string \<Rightarrow> new_token" where
  "token_opened D pid = token_step D pid token_initial (TokenOpenChange True)"

lemma token_initial_start: "token_start demo_envs token_initial"
  by (simp add: token_start_def token_initial_def first_env_def demo_envs_def)

lemma token_opened_reachable: "reachable (token_start demo_envs) (token_offers demo_envs []) (token_step D pid) (token_opened D pid)"
  unfolding token_opened_def
  by (rule reachable.event [where s = token_initial], rule reachable.initial, rule token_initial_start) (simp add: token_view_def token_initial_def)

lemma token_opened_eval: "form_shown (token_opened D pid)" "td_env (token_opened D pid) = ''e1''"
    "td_picker (token_opened D pid) = load_keys ''e1'' (picker_fresh [])" "effects (token_opened D pid) = []" "\<not> pending (token_opened D pid)"
    "td_expires (token_opened D pid) = []" "flights (token_opened D pid) = []"
  by (simp_all add: token_opened_def token_initial_def token_step_def with_picker_def form_shown_def mount_picker_def picker_fresh_def)

definition demo_machine :: "named_identity list" where
  "demo_machine = [\<lparr>ni_id = ''i1'', ni_name = ''CI'', ni_actorType = ''CI''\<rparr>]"

text \<open>A token being narrowed: the dialog opens, its list arrives, one key is chosen, a name and an identity are given.\<close>

definition narrowing_events :: "token_event list" where
  "narrowing_events = [TokenOpenChange True, TokenPicker (PickerSettled 0 other_keys), TokenPicker PickerOpen,
     TokenPicker (PickerToggle ''API_KEY''), TokenName ''ci'', TokenIdentity ''i1'']"

definition narrowed_demo :: "dates \<Rightarrow> string \<Rightarrow> new_token" where
  "narrowed_demo D pid = foldl (token_step D pid) token_initial narrowing_events"

lemma toggled_key: "trim [] = []" "key_matches p = kp_keys p" if "kp_query p = []" for p
  using that by (simp_all add: key_matches_def toLowerCase_def)

lemma query_frame:
  "kp_query (arrive i r p) = kp_query p" "kp_query (call_api f c p) = kp_query p" "kp_query (start_pending p) = kp_query p"
  "kp_open (arrive i r p) = kp_open p" "kp_open (call_api f c p) = kp_open p" "kp_open (start_pending p) = kp_open p"
  by (simp_all add: form_defs)

lemma narrowed_demo_legal: "legal (token_offers demo_envs demo_machine) (token_step D pid) token_initial narrowing_events"
  using other_keys_listed
  by (simp add: narrowing_events_def token_initial_def token_step_def with_picker_def form_shown_def mount_picker_def picker_fresh_def
      load_keys_def picker_event_step_def picker_settle_def token_view_def picker_view_def picker_control_def toggled_key query_frame demo_machine_def Let_def
      pressable_map_elem)

lemma narrowed_demo_reachable: "reachable (token_start demo_envs) (token_offers demo_envs demo_machine) (token_step D pid) (narrowed_demo D pid)"
  unfolding narrowed_demo_def
  by (rule legal_reachable [OF reachable.initial narrowed_demo_legal]) (rule token_initial_start)

lemma narrowed_demo_eval:
  "form_shown (narrowed_demo D pid)" "td_env (narrowed_demo D pid) = ''e1''" "td_name (narrowed_demo D pid) = ''ci''"
  "td_identity (narrowed_demo D pid) = ''i1''" "td_expires (narrowed_demo D pid) = []" "effects (narrowed_demo D pid) = []"
  "kp_selected (td_picker (narrowed_demo D pid)) = [''API_KEY'']" "\<not> pending (narrowed_demo D pid)"
  using other_keys_listed
  by (simp_all add: narrowed_demo_def narrowing_events_def token_initial_def token_step_def with_picker_def form_shown_def mount_picker_def
      picker_fresh_def load_keys_def picker_event_step_def picker_settle_def toggle_key_def Let_def)

theorem tokens_are_asked_for_narrowly_witness:
  "calls (effects (token_step demo_dates ''p1'' (narrowed_demo demo_dates ''p1'') TokenSubmit)) = [post_call ''/api/projects/p1/tokens''
     (JObj [(''identityId'', JStr ''i1''), (''name'', JStr ''ci''), (''environmentId'', JStr ''e1''),
       (''capabilities'', JArr [JStr ''USE_SECRET'']), (''secretKeys'', JArr [JStr ''API_KEY'']), (''expiresAt'', JStr [])])]"
proof -
  have "date_sent demo_dates (td_expires (narrowed_demo demo_dates ''p1'')) []" by (simp add: date_sent_def narrowed_demo_eval)
  then obtain b where "token_described demo_dates (narrowed_demo demo_dates ''p1'') b"
      "calls (effects (token_step demo_dates ''p1'' (narrowed_demo demo_dates ''p1'') TokenSubmit)) = [post_call ''/api/projects/p1/tokens'' b]"
    using tokens_are_asked_for_narrowly [OF narrowed_demo_reachable [of demo_dates "''p1''"]] by (auto simp: narrowed_demo_eval)
  then show ?thesis by (auto simp: token_described_def narrowed_demo_eval date_sent_def)
qed

text \<open>C32: The narrowing that is lost.  Narrow a token to some keys, then choose an environment that has none of them.  Before, the
  button asks for a token for the keys selected; once the list of the new environment is there it asks for one for an empty list of keys,
  which means every secret the identity is granted there.  Neither the form nor the picker reports a problem: the chips of the keys are
  gone and the picker shows its placeholder (while its input is empty), or that the environment has no secrets.
  The note below the picker on what choosing none means is there before and after alike.\<close>

theorem switching_environment_widens_the_token:
  assumes "form_shown s" "td_env s \<noteq> e" "e \<noteq> []" "date_sent D (td_expires s) t" "kp_selected (td_picker s) \<noteq> []"
    and "then_ok (apiResult r) listed_keys = Inr ks" "set (kp_selected (td_picker s)) \<inter> set ks = {}"
  shows "let u = foldl (token_step D pid) s [TokenEnv e, TokenPicker (PickerSettled (length (flights (td_picker s))) r)];
      asks = (\<lambda>v eid keys. calls (effects (token_step D pid v TokenSubmit)) = calls (effects v) @
        [post_call (''/api/projects/'' @ pid @ ''/tokens'') (JObj [(''identityId'', JStr (td_identity s)), (''name'', JStr (td_name s)),
          (''environmentId'', JStr eid), (''capabilities'', JArr [JStr ''USE_SECRET'']),
          (''secretKeys'', JArr (map JStr keys)), (''expiresAt'', JStr t)])]) in
    asks s (td_env s) (kp_selected (td_picker s)) \<and> asks u e [] \<and>
    none_note \<in> set (token_view envs ids s) \<and> none_note \<in> set (token_view envs ids u) \<and>
    problem (td_picker u) = None \<and> problem u = problem s \<and> picker_view (td_picker u) =
      (if ks = [] then [Note ''This environment has no secrets yet.''] else
        [Field ''Filter secrets'' (kp_query (td_picker s))] @
        (if kp_query (td_picker s) = [] then [Note ''All granted secrets''] else []) @ [Press ''Open'' PickerOpen False] @
        (if kp_open (td_picker s) then
           (if key_matches (td_picker u) = [] then [Note ''No secret matches that.'']
            else map (\<lambda>k. Press k (PickerToggle k) False) (key_matches (td_picker u))) else []))"
proof -
  let ?i = "length (flights (td_picker s))" and ?p = "load_keys e (td_picker s)"
  let ?a = "token_step D pid s (TokenEnv e)"
  let ?u = "token_step D pid ?a (TokenPicker (PickerSettled ?i r))"
  have date: "expiry_iso D (td_expires s) = Inr t" using assms(4) by (simp add: date_sent_iso)
  have shown: "form_shown (s\<lparr>td_env := e\<rparr>)" using assms(1) by (simp add: form_shown_def)
  have a: "?a = s\<lparr>td_env := e, td_picker := ?p\<rparr>" using assms(1,2) shown by (simp add: token_step_def with_picker_def)
  have fp: "flights ?p = map (\<lambda>f. f\<lparr>ft_live := False\<rparr>) (flights (td_picker s)) @ [\<lparr>ft_env = e, ft_selected = kp_selected (td_picker s), ft_live = True\<rparr>]"
    "problem ?p = None" "kp_query ?p = kp_query (td_picker s)" "kp_open ?p = kp_open (td_picker s)"
    using assms(3) by (simp_all add: load_keys_def Let_def query_frame)
  let ?q = "picker_step ?p (PickerSettled ?i r)"
  have q: "?q = picker_settle \<lparr>ft_env = e, ft_selected = kp_selected (td_picker s), ft_live = True\<rparr> r (arrive ?i r ?p)"
    using fp by (simp add: nth_append)
  have sel: "kp_selected ?q = []" "problem ?q = None" "\<not> pending ?q" "kp_keys ?q = ks"
      "kp_query ?q = kp_query (td_picker s)" "kp_open ?q = kp_open (td_picker s)"
    unfolding q using assms(6,7) fp by (simp_all add: picker_settle_def filter_empty_conv disjoint_iff query_frame)
  define q where "q = ?q"
  note sel = sel [folded q_def]
  have settled: "picker_event_step D pid (s\<lparr>td_env := e, td_picker := ?p\<rparr>) (PickerSettled ?i r) = s\<lparr>td_env := e, td_picker := q\<rparr>"
    by (simp del: picker_step.simps add: picker_event_step_def q_def)
  have u: "?u = s\<lparr>td_env := e, td_picker := q\<rparr>"
    unfolding a unfolding token_step_def unfolding token_change.simps settled using assms(1) by (simp add: with_picker_def form_shown_def)
  have standing: "none_note \<in> set (token_view envs ids v)" if "form_shown v" for v
    using that by (simp add: token_view_def form_shown_def)
  have "form_shown (s\<lparr>td_env := e, td_picker := q\<rparr>)" using assms(1) by (simp add: form_shown_def)
  then show ?thesis
    unfolding Let_def foldl.simps u
    using sel date standing [OF assms(1)] standing
    by (simp add: token_step_def token_submit_def token_call_def secretKeys_def picker_view_def picker_control_def)
qed

definition widened_demo :: new_token where
  "widened_demo = \<lparr>flights = [], effects = [], pending = False, problem = None, sh_open = True, sh_held = Some JNull,
     sh_copied = False, sh_writes = 0, sh_timers = 0, td_name = ''ci'', td_identity = ''i1'', td_env = ''e1'', td_expires = [],
     td_picker = picker_demo\<rparr>"

theorem switching_environment_widens_the_token_witness:
  "let u = foldl (token_step demo_dates ''p1'') widened_demo [TokenEnv ''e2'', TokenPicker (PickerSettled 0 other_keys)] in
   calls (effects (token_step demo_dates ''p1'' widened_demo TokenSubmit)) = [post_call ''/api/projects/p1/tokens''
     (JObj [(''identityId'', JStr ''i1''), (''name'', JStr ''ci''), (''environmentId'', JStr ''e1''),
       (''capabilities'', JArr [JStr ''USE_SECRET'']), (''secretKeys'', JArr [JStr ''DB_URL'']), (''expiresAt'', JStr [])])] \<and>
   Note ''All granted secrets'' \<in> set (picker_view (td_picker u))"
  using switching_environment_widens_the_token [of widened_demo "''e2''" demo_dates "[]" other_keys "[''API_KEY'']" "''p1''"]
  by (simp add: other_keys_listed Let_def widened_demo_def picker_demo_def picker_fresh_def form_shown_def date_sent_def
      del: picker_step.simps foldl.simps token_change.simps)

end
