(* ===== verification/NewAccess.thy ===== *)
theory NewAccess imports OneTime begin

text \<open>
  The two dialogs that make new access: granting it (web/components/grant-access-dialog.tsx) and creating a
  machine identity that could be granted some (create-identity-dialog.tsx).
\<close>

section \<open>Granting access\<close>

text \<open>A flight holds \<open>canReveal\<close> as it was when the form was sent.\<close>

record grant_dialog = "bool form" +
  gd_open :: bool
  gd_subject :: string
  gd_env :: string
  gd_use :: bool
  gd_reveal :: bool
  gd_expires :: string
  gd_reason :: string

datatype grant_event =
    GrantOpenChange bool
  | GrantSubject string
  | GrantEnv string
  | GrantUse bool
  | GrantReveal bool
  | GrantExpiry string
  | GrantReason string
  | GrantSubmit
  | GrantSettled nat reply

record person =
  pe_userId :: string
  pe_name :: string
  pe_email :: string
  pe_role :: string

definition grant_start :: "named_env list \<Rightarrow> grant_dialog \<Rightarrow> bool" where
  "grant_start envs s = (s = \<lparr>flights = [], effects = [], pending = False, problem = None, gd_open = False, gd_subject = [],
     gd_env = first_env envs, gd_use = True, gd_reveal = False, gd_expires = [], gd_reason = []\<rparr>)"

text \<open>\<open>const [subjectType, subjectId] = subject.split(":")\<close>, \<open>None\<close> when either is missing or empty.\<close>

definition subject_parts :: "string \<Rightarrow> (string \<times> string) option" where
  "subject_parts subject = (case split_on (CHR '':'') subject of
     (c # cs) # (d # ds) # rest \<Rightarrow> Some (c # cs, d # ds)
   | _ \<Rightarrow> None)"

definition chosen_capabilities :: "grant_dialog \<Rightarrow> string list" where
  "chosen_capabilities s = (if gd_use s then [''USE_SECRET''] else []) @ (if gd_reveal s then [''READ_SECRET''] else [])"

definition grant_call :: "string \<Rightarrow> string \<Rightarrow> string \<Rightarrow> string \<Rightarrow> string list \<Rightarrow> string \<Rightarrow> string \<Rightarrow> api_call" where
  "grant_call pid ty i eid caps t why = post_call (''/api/projects/'' @ pid @ ''/access'')
     (obj [(''subjectType'', Some (JStr ty)), (''subjectId'', Some (JStr i)), (''environmentId'', Some (JStr eid)),
       (''capabilities'', Some (JArr (map JStr caps))), (''expiresAt'', Some (JStr t)), (''reason'', Some (JStr why))])"

definition grant_submit :: "dates \<Rightarrow> string \<Rightarrow> grant_dialog \<Rightarrow> grant_dialog" where
  "grant_submit D pid s =
     (case subject_parts (gd_subject s) of
        None \<Rightarrow> s\<lparr>problem := Some ''Choose who this grant is for.''\<rparr>
      | Some (ty, i) \<Rightarrow>
          if chosen_capabilities s = [] then s\<lparr>problem := Some ''Choose at least one capability.''\<rparr>
          else if gd_reveal s \<and> trim (gd_reason s) = [] then
            s\<lparr>problem := Some ''Give a reason when granting permission to see values.''\<rparr>
          else (case expiry_iso D (gd_expires s) of
              Inl e \<Rightarrow> (fail_with ''Could not grant access.'' e (start_pending s))\<lparr>pending := False\<rparr>
            | Inr t \<Rightarrow> call_api (gd_reveal s)
                (grant_call pid ty i (gd_env s) (chosen_capabilities s) t (trim (gd_reason s))) (start_pending s)))"

definition grant_toast :: "bool \<Rightarrow> string" where
  "grant_toast canReveal = (if canReveal
     then ''Access granted, including permission to see values. This is recorded in the audit trail.''
     else ''Access granted. The value stays hidden.'')"

definition grant_settle :: "bool \<Rightarrow> reply \<Rightarrow> grant_dialog \<Rightarrow> grant_dialog" where
  "grant_settle canReveal r s =
     (case apiResult r of
        Inl e \<Rightarrow> fail_with ''Could not grant access.'' e s
      | Inr j \<Rightarrow> emit Refreshes (emit (Toasts (grant_toast canReveal)) (s\<lparr>gd_open := False, gd_reason := [], gd_reveal := False\<rparr>)))
     \<lparr>pending := False\<rparr>"

fun grant_step :: "dates \<Rightarrow> string \<Rightarrow> grant_dialog \<Rightarrow> grant_event \<Rightarrow> grant_dialog" where
  "grant_step D pid s (GrantOpenChange next) = s\<lparr>gd_open := next\<rparr>"
| "grant_step D pid s (GrantSubject v) = s\<lparr>gd_subject := v\<rparr>"
| "grant_step D pid s (GrantEnv v) = s\<lparr>gd_env := v\<rparr>"
| "grant_step D pid s (GrantUse b) = s\<lparr>gd_use := b\<rparr>"
| "grant_step D pid s (GrantReveal b) = s\<lparr>gd_reveal := b\<rparr>"
| "grant_step D pid s (GrantExpiry t) = s\<lparr>gd_expires := t\<rparr>"
| "grant_step D pid s (GrantReason t) = s\<lparr>gd_reason := t\<rparr>"
| "grant_step D pid s GrantSubmit = grant_submit D pid s"
| "grant_step D pid s (GrantSettled i r) = (if i < length (flights s) then grant_settle (flights s ! i) r (arrive i r s) else s)"

definition subject_choices :: "person list \<Rightarrow> named_identity list \<Rightarrow> string list" where
  "subject_choices ms ids = map (\<lambda>m. ''USER:'' @ pe_userId m) ms @ map (\<lambda>x. ''MACHINE:'' @ ni_id x) ids"

definition grant_view :: "named_env list \<Rightarrow> named_identity list \<Rightarrow> person list \<Rightarrow> grant_dialog \<Rightarrow> grant_event elem list" where
  "grant_view envs ids ms s = (if \<not> gd_open s then [Press ''Grant access'' (GrantOpenChange True) False] else
     map (\<lambda>m. Press (pe_name m @ '' '' @ [middot] @ '' '' @ pe_email m) (GrantSubject (''USER:'' @ pe_userId m)) False) ms @
     map (\<lambda>x. Press (ni_name x @ '' '' @ [middot] @ '' '' @ readable_kind (ni_actorType x)) (GrantSubject (''MACHINE:'' @ ni_id x)) False) ids @
     map (\<lambda>v. Press (ne_name v) (GrantEnv (ne_id v)) False) envs @
     [Press ''Can use'' (GrantUse (\<not> gd_use s)) False, Press ''Can see'' (GrantReveal (\<not> gd_reveal s)) False] @
     (if gd_reveal s then [Note ''This lets a person read the credential itself. Prefer a time limit, and say why: both appear in the audit trail.''] else []) @
     [Field ''grant-expiry'' (gd_expires s), Field ''grant-reason'' (gd_reason s)] @ problem_note s @
     [Press ''Cancel'' (GrantOpenChange False) False, Press ''Grant access'' GrantSubmit (pending s),
      Press ''Close'' (GrantOpenChange False) False])"

fun grant_offers :: "named_env list \<Rightarrow> named_identity list \<Rightarrow> person list \<Rightarrow> grant_dialog \<Rightarrow> grant_event \<Rightarrow> bool" where
  "grant_offers envs ids ms s (GrantExpiry t) = editable (grant_view envs ids ms s) ''grant-expiry''"
| "grant_offers envs ids ms s (GrantReason t) = editable (grant_view envs ids ms s) ''grant-reason''"
| "grant_offers envs ids ms s (GrantSettled i r) = (i < length (flights s))"
| "grant_offers envs ids ms s e = pressable (grant_view envs ids ms s) e"

section \<open>Creating an identity\<close>

text \<open>A flight holds the name as it was when the form was sent.\<close>

record new_identity = "string form" +
  nd_open :: bool
  nd_name :: string
  nd_actorType :: string
  nd_expires :: string

datatype new_identity_event =
    NewIdOpenChange bool
  | NewIdName string
  | NewIdKind string
  | NewIdExpiry string
  | NewIdSubmit
  | NewIdSettled nat reply

definition KINDS :: "(string \<times> string \<times> string) list" where
  "KINDS = [(''WORKLOAD'', ''Workload'', ''A running application: an API, a worker, a container.''),
     (''CI'', ''CI pipeline'', ''A build or deploy job.''),
     (''AI_AGENT'', ''AI agent'', ''A coding agent session. Give it development scope and an expiry.''),
     (''SERVICE'', ''Service'', ''Anything else that runs unattended.'')]"

definition newid_start :: "new_identity \<Rightarrow> bool" where
  "newid_start s = (s = \<lparr>flights = [], effects = [], pending = False, problem = None, nd_open = False, nd_name = [],
     nd_actorType = ''WORKLOAD'', nd_expires = []\<rparr>)"

definition isAgent :: "new_identity \<Rightarrow> bool" where
  "isAgent s = (nd_actorType s = ''AI_AGENT'')"

definition newid_call :: "string \<Rightarrow> string \<Rightarrow> string \<Rightarrow> api_call" where
  "newid_call n k t = post_call ''/api/identities''
     (obj [(''name'', Some (JStr n)), (''actorType'', Some (JStr k)), (''expiresAt'', Some (JStr t))])"

definition newid_submit :: "dates \<Rightarrow> new_identity \<Rightarrow> new_identity" where
  "newid_submit D s =
     (case expiry_iso D (nd_expires s) of
        Inl e \<Rightarrow> (fail_with ''Could not create this identity.'' e (start_pending s))\<lparr>pending := False\<rparr>
      | Inr t \<Rightarrow> call_api (nd_name s) (newid_call (nd_name s) (nd_actorType s) t) (start_pending s))"

definition newid_toast :: "string \<Rightarrow> string" where
  "newid_toast n = n @ '' created. It holds no access until you grant it some.''"

definition newid_settle :: "string \<Rightarrow> reply \<Rightarrow> new_identity \<Rightarrow> new_identity" where
  "newid_settle n r s =
     (case apiResult r of
        Inl e \<Rightarrow> fail_with ''Could not create this identity.'' e s
      | Inr j \<Rightarrow> emit Refreshes (emit (Toasts (newid_toast n)) (s\<lparr>nd_open := False, nd_name := [], nd_expires := []\<rparr>)))
     \<lparr>pending := False\<rparr>"

fun newid_step :: "dates \<Rightarrow> new_identity \<Rightarrow> new_identity_event \<Rightarrow> new_identity" where
  "newid_step D s (NewIdOpenChange next) = s\<lparr>nd_open := next\<rparr>"
| "newid_step D s (NewIdName t) = s\<lparr>nd_name := t\<rparr>"
| "newid_step D s (NewIdKind k) = s\<lparr>nd_actorType := k\<rparr>"
| "newid_step D s (NewIdExpiry t) = s\<lparr>nd_expires := t\<rparr>"
| "newid_step D s NewIdSubmit = newid_submit D s"
| "newid_step D s (NewIdSettled i r) = (if i < length (flights s) then newid_settle (flights s ! i) r (arrive i r s) else s)"

definition kind_card :: "string \<times> string \<times> string \<Rightarrow> new_identity_event elem list" where
  "kind_card k = (case k of (v, l, h) \<Rightarrow> [Press l (NewIdKind v) False, Note h])"

definition newid_view :: "new_identity \<Rightarrow> new_identity_event elem list" where
  "newid_view s = (if \<not> nd_open s then [Press ''New identity'' (NewIdOpenChange True) False] else
     [Field ''identity-name'' (nd_name s)] @ concat (map kind_card KINDS) @
     [Field ''identity-expiry'' (nd_expires s)] @
     (if isAgent s then [Note ''An agent session should end by itself. When this passes, every token issued to this identity stops working: no cleanup needed.''] else []) @
     problem_note s @
     [Press ''Cancel'' (NewIdOpenChange False) False, Press ''Create identity'' NewIdSubmit (pending s),
      Press ''Close'' (NewIdOpenChange False) False])"

fun newid_offers :: "new_identity \<Rightarrow> new_identity_event \<Rightarrow> bool" where
  "newid_offers s (NewIdName t) = editable (newid_view s) ''identity-name''"
| "newid_offers s (NewIdExpiry t) = editable (newid_view s) ''identity-expiry''"
| "newid_offers s (NewIdSettled i r) = (i < length (flights s))"
| "newid_offers s e = pressable (newid_view s) e"

section \<open>Lemmas\<close>

lemma grant_frame [simp]:
  "gd_subject (call_api f c s) = gd_subject s" "gd_subject (arrive i r s) = gd_subject s" "gd_subject (start_pending s) = gd_subject s"
  "gd_subject (fail_with b e s) = gd_subject s" "gd_subject (emit x s) = gd_subject s"
  "gd_open (call_api f c s) = gd_open s" "gd_open (arrive i r s) = gd_open s" "gd_open (start_pending s) = gd_open s"
  "gd_open (fail_with b e s) = gd_open s" "gd_open (emit x s) = gd_open s"
  by (simp_all add: form_defs)

text \<open>A grant as the dialog may ask for it.\<close>

definition asks_grant :: "string \<Rightarrow> string list \<Rightarrow> api_call \<Rightarrow> bool" where
  "asks_grant pid choices c = (\<exists>v ty i eid caps t why. v \<in> set choices \<and> subject_parts v = Some (ty, i) \<and>
     c = grant_call pid ty i eid caps t why \<and> caps \<noteq> [] \<and> distinct caps \<and> set caps \<subseteq> {''USE_SECRET'', ''READ_SECRET''} \<and>
     (''READ_SECRET'' \<in> set caps \<longrightarrow> trim why \<noteq> []))"

definition grant_inv :: "string \<Rightarrow> string list \<Rightarrow> grant_dialog \<Rightarrow> bool" where
  "grant_inv pid choices s = (one_flight s \<and> (gd_subject s = [] \<or> gd_subject s \<in> set choices) \<and>
     list_all (asks_grant pid choices) (calls (effects s)))"

lemma chosen_capabilities_props:
  "distinct (chosen_capabilities s)" "set (chosen_capabilities s) \<subseteq> {''USE_SECRET'', ''READ_SECRET''}"
  "''READ_SECRET'' \<in> set (chosen_capabilities s) \<longleftrightarrow> gd_reveal s"
  by (cases "gd_use s"; cases "gd_reveal s"; simp add: chosen_capabilities_def)+

lemma asks_grant_call:
  assumes "gd_subject s \<in> set choices" "subject_parts (gd_subject s) = Some (ty, i)" "chosen_capabilities s \<noteq> []"
    "\<not> (gd_reveal s \<and> trim (gd_reason s) = [])"
  shows "asks_grant pid choices (grant_call pid ty i eid (chosen_capabilities s) t (trim (gd_reason s)))"
proof -
  have "''READ_SECRET'' \<in> set (chosen_capabilities s) \<longrightarrow> trim (trim (gd_reason s)) \<noteq> []"
    using assms(4) unfolding chosen_capabilities_props(3) trim_trim by blast
  then show ?thesis unfolding asks_grant_def using assms(1-3) chosen_capabilities_props(1,2) by blast
qed

lemma subject_parts_Nil [simp]: "subject_parts [] = None"
  by (simp add: subject_parts_def)

lemma grant_submit_inv:
  assumes "grant_inv pid choices s" "\<not> pending s"
  shows "grant_inv pid choices (grant_submit D pid s)"
proof (cases "subject_parts (gd_subject s)")
  case None
  with assms show ?thesis by (simp add: grant_submit_def grant_inv_def one_flight_def)
next
  case (Some p)
  then obtain ty i where p: "subject_parts (gd_subject s) = Some (ty, i)" by (cases p) auto
  then have "gd_subject s \<in> set choices" using assms(1) by (auto simp: grant_inv_def)
  note a = asks_grant_call [OF this p, of pid "gd_env s"]
  show ?thesis
  proof (cases "chosen_capabilities s = [] \<or> gd_reveal s \<and> trim (gd_reason s) = []")
    case True
    with assms p show ?thesis by (auto simp: grant_submit_def grant_inv_def one_flight_def)
  next
    case False
    with assms p a show ?thesis
      by (simp add: grant_submit_def grant_inv_def one_flight_def split: sum.splits)
  qed
qed

lemma grant_settle_sel [simp]:
  "\<not> pending (grant_settle b r s)" "flights (grant_settle b r s) = flights s"
  "calls (effects (grant_settle b r s)) = calls (effects s)" "gd_subject (grant_settle b r s) = gd_subject s"
  by (simp_all add: grant_settle_def split: sum.splits)

lemma press_map [simp]: "pressable (map (\<lambda>x. Press (l x) (f x) False) xs) e \<longleftrightarrow> (\<exists>x \<in> set xs. e = f x)"
  by (auto simp: pressable_def)

lemma editable_press_map [simp]: "editable (map (\<lambda>x. Press (l x) (f x) False) xs) n = False"
  by (auto simp: editable_def)

lemma grant_view_offers:
  "pressable (grant_view envs ids ms s) GrantSubmit \<Longrightarrow> \<not> pending s"
  "pressable (grant_view envs ids ms s) (GrantSubject v) \<Longrightarrow> v \<in> set (subject_choices ms ids)"
  by (auto simp: grant_view_def subject_choices_def split: if_splits)

lemma grant_inv_step:
  assumes "grant_inv pid (subject_choices ms ids) s" "grant_offers envs ids ms s e"
  shows "grant_inv pid (subject_choices ms ids) (grant_step D pid s e)"
proof (cases e)
  case (GrantSettled i r)
  with assms show ?thesis by (simp add: grant_inv_def one_flight_def split: if_splits)
next
  case GrantSubmit
  then have "\<not> pending s" using assms(2) grant_view_offers(1) [of envs ids ms s] by simp
  with GrantSubmit assms(1) show ?thesis by (simp add: grant_submit_inv)
next
  case (GrantSubject v)
  then have "v \<in> set (subject_choices ms ids)" using assms(2) grant_view_offers(2) [of envs ids ms s v] by simp
  with GrantSubject assms(1) show ?thesis by (simp add: grant_inv_def one_flight_def)
qed (use assms(1) in \<open>simp_all add: grant_inv_def one_flight_def\<close>)

interpretation granting: request_form "grant_start envs" "grant_offers envs ids ms" "grant_step D pid"
    "grant_inv pid (subject_choices ms ids)" GrantSettled for envs ids ms D pid
proof unfold_locales
  show "grant_start envs s \<Longrightarrow> grant_inv pid (subject_choices ms ids) s" for s
    by (simp add: grant_start_def grant_inv_def one_flight_def)
  show "grant_inv pid (subject_choices ms ids) s \<Longrightarrow> grant_offers envs ids ms s e \<Longrightarrow>
      grant_inv pid (subject_choices ms ids) (grant_step D pid s e)" for s e
    by (rule grant_inv_step)
qed (auto simp: grant_inv_def)

subsection \<open>The identity dialog\<close>

lemma newid_frame [simp]:
  "nd_actorType (call_api f c s) = nd_actorType s" "nd_actorType (arrive i r s) = nd_actorType s"
  "nd_actorType (start_pending s) = nd_actorType s" "nd_actorType (fail_with b e s) = nd_actorType s"
  "nd_actorType (emit x s) = nd_actorType s"
  by (simp_all add: form_defs)

text \<open>A request for an identity of an offered kind; the flight knows the name that was asked for.\<close>

definition asks_identity :: "api_call \<Rightarrow> bool" where
  "asks_identity c = (\<exists>n k t. c = newid_call n k t \<and> k \<in> fst ` set KINDS)"

definition named_flight :: "new_identity \<Rightarrow> bool" where
  "named_flight s = (pending s \<longrightarrow> (\<exists>n k t cs. flights s = [n] \<and> calls (effects s) = cs @ [newid_call n k t]))"

definition newid_inv :: "new_identity \<Rightarrow> bool" where
  "newid_inv s = (one_flight s \<and> nd_actorType s \<in> fst ` set KINDS \<and> named_flight s \<and> list_all asks_identity (calls (effects s)))"

lemma asks_identity_call [simp]: "k \<in> fst ` set KINDS \<Longrightarrow> asks_identity (newid_call n k t)"
  unfolding asks_identity_def by blast

lemma newid_submit_inv:
  assumes "newid_inv s" "\<not> pending s"
  shows "newid_inv (newid_submit D s)"
proof (cases "expiry_iso D (nd_expires s)")
  case (Inr t)
  have "named_flight (newid_submit D s)"
    using assms Inr by (auto simp: named_flight_def newid_submit_def newid_inv_def one_flight_def)
  with assms Inr show ?thesis by (simp add: newid_inv_def one_flight_def newid_submit_def)
qed (use assms in \<open>simp add: newid_inv_def one_flight_def newid_submit_def named_flight_def\<close>)

lemma newid_settle_sel [simp]:
  "\<not> pending (newid_settle n r s)" "flights (newid_settle n r s) = flights s"
  "calls (effects (newid_settle n r s)) = calls (effects s)" "nd_actorType (newid_settle n r s) = nd_actorType s"
  by (simp_all add: newid_settle_def split: sum.splits)

lemma kind_cards:
  "pressable (concat (map kind_card ks)) e \<longleftrightarrow> (\<exists>v \<in> fst ` set ks. e = NewIdKind v)"
  "editable (concat (map kind_card ks)) n = False"
  by (induction ks) (auto simp: kind_card_def split: prod.splits)

lemma newid_view_offers:
  "pressable (newid_view s) NewIdSubmit \<Longrightarrow> \<not> pending s"
  "pressable (newid_view s) (NewIdKind k) \<Longrightarrow> k \<in> fst ` set KINDS"
  by (auto simp: newid_view_def kind_cards split: if_splits)

lemma newid_inv_step:
  assumes "newid_inv s" "newid_offers s e"
  shows "newid_inv (newid_step D s e)"
proof (cases e)
  case (NewIdSettled i r)
  with assms show ?thesis by (simp add: newid_inv_def one_flight_def named_flight_def split: if_splits)
next
  case NewIdSubmit
  then have "\<not> pending s" using assms(2) newid_view_offers(1) by simp
  with NewIdSubmit assms(1) show ?thesis by (simp add: newid_submit_inv)
next
  case (NewIdKind k)
  then have "k \<in> fst ` set KINDS" using assms(2) newid_view_offers(2) by simp
  with NewIdKind assms(1) show ?thesis by (simp add: newid_inv_def one_flight_def named_flight_def)
qed (use assms(1) in \<open>simp_all add: newid_inv_def one_flight_def named_flight_def\<close>)

interpretation naming: request_form newid_start newid_offers "newid_step D" newid_inv NewIdSettled for D
proof unfold_locales
  show "newid_start s \<Longrightarrow> newid_inv s" for s
    by (simp add: newid_start_def newid_inv_def one_flight_def named_flight_def KINDS_def)
  show "newid_inv s \<Longrightarrow> newid_offers s e \<Longrightarrow> newid_inv (newid_step D s e)" for s e by (rule newid_inv_step)
qed (auto simp: newid_inv_def)

section \<open>Properties\<close>

definition plain_id :: "string \<Rightarrow> bool" where
  "plain_id i = (i \<noteq> [] \<and> CHR '':'' \<notin> set i)"

lemma subject_parts_of:
  assumes "plain_id i"
  shows "subject_parts (''USER:'' @ i) = Some (''USER'', i)" "subject_parts (''MACHINE:'' @ i) = Some (''MACHINE'', i)"
proof -
  have i: "split_on (CHR '':'') i = [i]" "\<exists>d ds. i = d # ds"
    using assms by (simp_all add: plain_id_def split_on_none neq_Nil_conv)
  have "split_on (CHR '':'') (''USER'' @ CHR '':'' # i) = [''USER'', i]" "split_on (CHR '':'') (''MACHINE'' @ CHR '':'' # i) = [''MACHINE'', i]"
    using i(1) split_on_append [of "CHR '':''" "''USER''" i] split_on_append [of "CHR '':''" "''MACHINE''" i] by simp_all
  then show "subject_parts (''USER:'' @ i) = Some (''USER'', i)" "subject_parts (''MACHINE:'' @ i) = Some (''MACHINE'', i)"
    using i(2) by (auto simp: subject_parts_def)
qed

lemma offered_subject:
  assumes "v \<in> set (subject_choices ms ids)" "subject_parts v = Some (ty, i)"
    "\<forall>m \<in> set ms. plain_id (pe_userId m)" "\<forall>x \<in> set ids. plain_id (ni_id x)"
  shows "ty = ''USER'' \<and> i \<in> pe_userId ` set ms \<or> ty = ''MACHINE'' \<and> i \<in> ni_id ` set ids"
proof -
  consider m where "m \<in> set ms" "v = ''USER:'' @ pe_userId m" | x where "x \<in> set ids" "v = ''MACHINE:'' @ ni_id x"
    using assms(1) unfolding subject_choices_def set_append set_map by blast
  then show ?thesis
  proof cases
    case 1
    with assms(2,3) subject_parts_of(1) [of "pe_userId m"] show ?thesis by auto
  next
    case 2
    with assms(2,4) subject_parts_of(2) [of "ni_id x"] show ?thesis by auto
  qed
qed

lemma chosen_subject:
  assumes "v \<in> set (subject_choices ms ids)" "subject_parts v = Some (ty, i)"
    "\<forall>m \<in> set ms. plain_id (pe_userId m)" "\<forall>x \<in> set ids. plain_id (ni_id x)"
  shows "v = ty @ '':'' @ i"
proof -
  consider m where "m \<in> set ms" "v = ''USER:'' @ pe_userId m" | x where "x \<in> set ids" "v = ''MACHINE:'' @ ni_id x"
    using assms(1) unfolding subject_choices_def set_append set_map by blast
  then show ?thesis
  proof cases
    case 1
    with assms(2,3) subject_parts_of(1) [of "pe_userId m"] show ?thesis by auto
  next
    case 2
    with assms(2,4) subject_parts_of(2) [of "ni_id x"] show ?thesis by auto
  qed
qed

lemma subject_kinds: "trim ''USER'' = ''USER''" "trim ''MACHINE'' = ''MACHINE''"
  by code_simp+

text \<open>The grant a form on screen describes: the subject chosen, the environment, what is ticked, the date and the reason.\<close>

definition grant_described :: "dates \<Rightarrow> grant_dialog \<Rightarrow> string \<Rightarrow> string \<Rightarrow> string \<Rightarrow> string list \<Rightarrow> bool" where
  "grant_described D s ty i t caps = (subject_parts (gd_subject s) = Some (ty, i) \<and> date_sent D (gd_expires s) t \<and>
     caps = (if gd_use s then [''USE_SECRET''] else []) @ (if gd_reveal s then [''READ_SECRET''] else []) \<and> caps \<noteq> [] \<and>
     (gd_reveal s \<longrightarrow> trim (gd_reason s) \<noteq> []))"

definition grant_asked :: "grant_dialog \<Rightarrow> string \<Rightarrow> string \<Rightarrow> string \<Rightarrow> string list \<Rightarrow> json" where
  "grant_asked s ty i t caps = JObj [(''subjectType'', JStr ty), (''subjectId'', JStr i), (''environmentId'', JStr (gd_env s)),
     (''capabilities'', JArr (map JStr caps)), (''expiresAt'', JStr t), (''reason'', JStr (trim (gd_reason s)))]"

lemma grant_submit_calls:
  "calls (effects (grant_submit D pid s)) = calls (effects s) \<or>
   (\<exists>ty i t caps. grant_described D s ty i t caps \<and>
     calls (effects (grant_submit D pid s)) = calls (effects s) @ [post_call (''/api/projects/'' @ pid @ ''/access'') (grant_asked s ty i t caps)])"
proof (cases "subject_parts (gd_subject s)")
  case (Some p)
  then obtain ty i where p: "subject_parts (gd_subject s) = Some (ty, i)" by (cases p) auto
  show ?thesis
  proof (cases "chosen_capabilities s = [] \<or> gd_reveal s \<and> trim (gd_reason s) = [] \<or> (\<exists>e. expiry_iso D (gd_expires s) = Inl e)")
    case True
    with p show ?thesis by (auto simp: grant_submit_def)
  next
    case False
    then obtain t where t: "expiry_iso D (gd_expires s) = Inr t" by (cases "expiry_iso D (gd_expires s)") auto
    then have "grant_described D s ty i t (chosen_capabilities s)"
      using False p by (auto simp: grant_described_def date_sent_iso chosen_capabilities_def)
    moreover have "calls (effects (grant_submit D pid s)) =
        calls (effects s) @ [post_call (''/api/projects/'' @ pid @ ''/access'') (grant_asked s ty i t (chosen_capabilities s))]"
      using False p t by (auto simp: grant_submit_def grant_call_def grant_asked_def)
    ultimately show ?thesis by blast
  qed
qed (simp add: grant_submit_def)

lemma grant_step_calls:
  "calls (effects (grant_step D pid s e)) = calls (effects s) \<or>
   (\<exists>ty i t caps. grant_described D s ty i t caps \<and>
     calls (effects (grant_step D pid s e)) = calls (effects s) @ [post_call (''/api/projects/'' @ pid @ ''/access'') (grant_asked s ty i t caps)])"
proof (cases e)
  case GrantSubmit
  with grant_submit_calls show ?thesis by simp
qed simp_all

text \<open>C28: Grants are deliberate.  Every request of the grant dialog names one of the people or machine identities it
  listed, asks for at least one capability and for none but using and seeing, and never asks for seeing without
  a reason that is more than white space.  There is one request at a time, and each ends the pending state
  whatever the answer.\<close>

theorem grants_are_deliberate:
  assumes "reachable (grant_start envs) (grant_offers envs ids ms) (grant_step D pid) s"
    and "\<forall>m \<in> set ms. plain_id (pe_userId m)" "\<forall>x \<in> set ids. plain_id (ni_id x)"
  shows "(\<forall>c \<in> set (calls (effects s)). \<exists>ty i eid caps t why. c = grant_call pid ty i eid caps t why \<and>
      (ty = ''USER'' \<and> i \<in> pe_userId ` set ms \<or> ty = ''MACHINE'' \<and> i \<in> ni_id ` set ids) \<and>
      caps \<noteq> [] \<and> distinct caps \<and> set caps \<subseteq> {''USE_SECRET'', ''READ_SECRET''} \<and>
      (''READ_SECRET'' \<in> set caps \<longrightarrow> trim why \<noteq> [])) \<and>
    one_flight s \<and> (pending s \<longrightarrow> (\<forall>r. \<not> pending (grant_step D pid s (GrantSettled 0 r))))"
proof -
  have inv: "grant_inv pid (subject_choices ms ids) s" using assms(1) by (rule granting.always)
  have one: "\<exists>ty i eid caps t why. c = grant_call pid ty i eid caps t why \<and>
      (ty = ''USER'' \<and> i \<in> pe_userId ` set ms \<or> ty = ''MACHINE'' \<and> i \<in> ni_id ` set ids) \<and>
      caps \<noteq> [] \<and> distinct caps \<and> set caps \<subseteq> {''USE_SECRET'', ''READ_SECRET''} \<and>
      (''READ_SECRET'' \<in> set caps \<longrightarrow> trim why \<noteq> [])" if c: "c \<in> set (calls (effects s))" for c
  proof -
    have "asks_grant pid (subject_choices ms ids) c" using inv c by (simp add: grant_inv_def list_all_iff)
    then obtain v ty i eid caps t why where w: "v \<in> set (subject_choices ms ids)" "subject_parts v = Some (ty, i)"
      "c = grant_call pid ty i eid caps t why" "caps \<noteq> []" "distinct caps" "set caps \<subseteq> {''USE_SECRET'', ''READ_SECRET''}"
      "''READ_SECRET'' \<in> set caps \<longrightarrow> trim why \<noteq> []"
      unfolding asks_grant_def by blast
    from w(3-7) offered_subject [OF w(1,2) assms(2,3)] show ?thesis by blast
  qed
  have "one_flight s" using inv by (simp add: grant_inv_def)
  with one granting.never_stuck [OF assms(1)] show ?thesis by blast
qed

definition grant_ready :: grant_dialog where
  "grant_ready = \<lparr>flights = [], effects = [], pending = False, problem = None, gd_open = True, gd_subject = ''USER:u1'',
     gd_env = ''e1'', gd_use = True, gd_reveal = True, gd_expires = [], gd_reason = ''audit''\<rparr>"

definition demo_people :: "person list" where
  "demo_people = [\<lparr>pe_userId = ''u1'', pe_name = ''Ada'', pe_email = ''ada@x.io'', pe_role = ''DEVELOPER''\<rparr>]"

definition grant_initial :: grant_dialog where
  "grant_initial = grant_ready\<lparr>gd_open := False, gd_subject := [], gd_reveal := False, gd_reason := []\<rparr>"

lemma grant_ready_reachable:
  "reachable (grant_start demo_envs) (grant_offers demo_envs [] demo_people) (grant_step D ''p1'') grant_ready"
proof -
  have i: "reachable (grant_start demo_envs) (grant_offers demo_envs [] demo_people) (grant_step D ''p1'') grant_initial"
    by (rule reachable.initial) (simp add: grant_start_def grant_initial_def grant_ready_def first_env_def demo_envs_def)
  have "foldl (grant_step D ''p1'') grant_initial [GrantOpenChange True, GrantSubject ''USER:u1'', GrantReveal True, GrantReason ''audit''] = grant_ready"
    by (simp add: grant_initial_def grant_ready_def)
  moreover have "legal (grant_offers demo_envs [] demo_people) (grant_step D ''p1'') grant_initial
      [GrantOpenChange True, GrantSubject ''USER:u1'', GrantReveal True, GrantReason ''audit'']"
    by (simp add: grant_initial_def grant_ready_def grant_view_def demo_people_def)
  ultimately show ?thesis using legal_reachable [OF i] by metis
qed

lemma grant_demo_reachable:
  "reachable (grant_start demo_envs) (grant_offers demo_envs [] demo_people) (grant_step D ''p1'') (grant_step D ''p1'' grant_ready GrantSubmit)"
  by (rule reachable.event [OF grant_ready_reachable]) (simp add: grant_ready_def grant_view_def)

theorem grants_are_deliberate_witness:
  "let s = grant_step demo_dates ''p1'' grant_ready GrantSubmit in
    calls (effects s) = [grant_call ''p1'' ''USER'' ''u1'' ''e1'' [''USE_SECRET'', ''READ_SECRET''] [] ''audit''] \<and>
    one_flight s \<and> (\<forall>r. \<not> pending (grant_step demo_dates ''p1'' s (GrantSettled 0 r)))"
proof -
  have t: "trim ''audit'' = ''audit''" by code_simp
  have p: "subject_parts ''USER:u1'' = Some (''USER'', ''u1'')" by code_simp
  have c: "calls (effects (grant_step demo_dates ''p1'' grant_ready GrantSubmit)) = [grant_call ''p1'' ''USER'' ''u1'' ''e1'' [''USE_SECRET'', ''READ_SECRET''] [] ''audit'']"
    "pending (grant_step demo_dates ''p1'' grant_ready GrantSubmit)"
    by (simp_all add: grant_ready_def grant_submit_def p chosen_capabilities_def t expiry_iso_def)
  have "\<forall>m \<in> set demo_people. plain_id (pe_userId m)" "\<forall>x \<in> set []. plain_id (ni_id x)"
    by (simp_all add: demo_people_def plain_id_def)
  note use = grants_are_deliberate [OF grant_demo_reachable [of demo_dates] this]
  show ?thesis unfolding Let_def using c use by blast
qed

text \<open>Identities are announced by the name they were given.  Every request of the identity dialog is for one of the kinds
  on its cards; and while one is under way, whatever is typed meanwhile, success announces exactly the name
  that was sent, closes the dialog and empties its fields.\<close>

theorem identities_are_announced_by_name:
  assumes "reachable newid_start newid_offers (newid_step D) s"
  shows "(\<forall>c \<in> set (calls (effects s)). \<exists>n k t. c = newid_call n k t \<and> k \<in> fst ` set KINDS) \<and> one_flight s \<and>
    (pending s \<longrightarrow> (\<exists>n k t cs. calls (effects s) = cs @ [newid_call n k t] \<and>
      (\<forall>r j. apiResult r = Inr j \<longrightarrow> (let u = newid_step D s (NewIdSettled 0 r) in
        effects u = effects s @ [Toasts (newid_toast n), Refreshes] \<and> \<not> nd_open u \<and> nd_name u = [] \<and> nd_expires u = []))))"
proof -
  have inv: "newid_inv s" using assms by (rule naming.always)
  have quiet: "effects (arrive i r s) = effects s" if "apiResult r = Inr j" for i r j
    using that ends_session_result [of r] by auto
  have "\<exists>n k t cs. calls (effects s) = cs @ [newid_call n k t] \<and>
      (\<forall>r j. apiResult r = Inr j \<longrightarrow> (let u = newid_step D s (NewIdSettled 0 r) in
        effects u = effects s @ [Toasts (newid_toast n), Refreshes] \<and> \<not> nd_open u \<and> nd_name u = [] \<and> nd_expires u = []))" if p: "pending s"
  proof -
    obtain n k t cs where f: "flights s = [n]" and c: "calls (effects s) = cs @ [newid_call n k t]"
      using inv p unfolding newid_inv_def named_flight_def by blast
    have "let u = newid_step D s (NewIdSettled 0 r) in
        effects u = effects s @ [Toasts (newid_toast n), Refreshes] \<and> \<not> nd_open u \<and> nd_name u = [] \<and> nd_expires u = []"
      if "apiResult r = Inr j" for r j
      using that quiet [OF that, of 0] by (simp add: f newid_settle_def Let_def emit_def del: form_sel(15))
    with c show ?thesis by blast
  qed
  with inv show ?thesis by (auto simp: newid_inv_def list_all_iff asks_identity_def)
qed

definition newid_initial :: new_identity where
  "newid_initial = \<lparr>flights = [], effects = [], pending = False, problem = None, nd_open = False, nd_name = [],
     nd_actorType = ''WORKLOAD'', nd_expires = []\<rparr>"

definition newid_events :: "new_identity_event list" where
  "newid_events = [NewIdOpenChange True, NewIdName ''api'', NewIdKind ''CI'', NewIdSubmit, NewIdName ''other'']"

lemma newid_demo:
  "reachable newid_start newid_offers (newid_step D) (foldl (newid_step D) newid_initial newid_events)"
  "calls (effects (foldl (newid_step D) newid_initial newid_events)) = [newid_call ''api'' ''CI'' []]"
  "pending (foldl (newid_step D) newid_initial newid_events)"
proof -
  have "reachable newid_start newid_offers (newid_step D) newid_initial"
    by (rule reachable.initial) (simp add: newid_start_def newid_initial_def)
  moreover have "legal newid_offers (newid_step D) newid_initial newid_events"
    by (simp add: newid_events_def newid_initial_def newid_view_def kind_card_def KINDS_def newid_submit_def expiry_iso_def
        call_api_def start_pending_def)
  ultimately show "reachable newid_start newid_offers (newid_step D) (foldl (newid_step D) newid_initial newid_events)"
    by (rule legal_reachable)
qed (simp_all add: newid_events_def newid_initial_def newid_submit_def expiry_iso_def)

definition created_reply :: reply where
  "created_reply = Reply 201 None"

theorem identities_are_announced_by_name_witness:
  "let u = newid_step D (foldl (newid_step D) newid_initial newid_events) (NewIdSettled 0 created_reply) in
     Toasts ''api created. It holds no access until you grant it some.'' \<in> set (effects u) \<and> \<not> nd_open u"
proof -
  have ok: "apiResult created_reply = Inr JNull" by (simp add: created_reply_def apiResult_def reply_ok_def payload_of_def)
  obtain n k t cs where w: "calls (effects (foldl (newid_step D) newid_initial newid_events)) = cs @ [newid_call n k t]"
    "\<forall>r j. apiResult r = Inr j \<longrightarrow> (let u = newid_step D (foldl (newid_step D) newid_initial newid_events) (NewIdSettled 0 r) in
        effects u = effects (foldl (newid_step D) newid_initial newid_events) @ [Toasts (newid_toast n), Refreshes] \<and> \<not> nd_open u \<and> nd_name u = [] \<and> nd_expires u = [])"
    using identities_are_announced_by_name [OF newid_demo(1) [of D]] newid_demo(3) [of D] by blast
  have "n = ''api''" using w(1) unfolding newid_demo(2) by (auto simp: Cons_eq_append_conv newid_call_def post_call_def)
  then have t: "newid_toast n = ''api created. It holds no access until you grant it some.''" by (simp add: newid_toast_def)
  show ?thesis using w(2) [rule_format, OF ok] unfolding Let_def t by simp
qed

end
