(* ===== verification/Onboarding.thy ===== *)
theory Onboarding imports AccountForms begin

text \<open>
  Organizations and projects: creating a project (web/components/create-project-dialog.tsx), founding a first
  organization (create-first-organization-form.tsx), moving between organizations
  (organization-switcher.tsx) and signing out (sign-out-dialog.tsx).
\<close>

section \<open>Slugs\<close>

definition slug_letter :: "char \<Rightarrow> bool" where
  "slug_letter c = (CHR ''a'' \<le> c \<and> c \<le> CHR ''z'' \<or> CHR ''0'' \<le> c \<and> c \<le> CHR ''9'')"

text \<open>\<open>replace(/[^a-z0-9]+/g, "-")\<close>; \<open>inside\<close>: within a run that has been replaced already.\<close>

fun dash_runs :: "bool \<Rightarrow> string \<Rightarrow> string" where
  "dash_runs inside [] = []"
| "dash_runs inside (c # cs) =
     (if slug_letter c then c # dash_runs False cs
      else if inside then dash_runs True cs
      else CHR ''-'' # dash_runs True cs)"

text \<open>\<open>replace(/^-+|-+$/g, "")\<close>\<close>

definition is_dash :: "char \<Rightarrow> bool" where
  "is_dash c = (c = CHR ''-'')"

definition strip_dashes :: "string \<Rightarrow> string" where
  "strip_dashes s = rev (dropWhile is_dash (rev (dropWhile is_dash s)))"

definition full_slug :: "string \<Rightarrow> string" where
  "full_slug v = strip_dashes (dash_runs False (toLowerCase v))"

definition slug_of :: "string \<Rightarrow> string" where
  "slug_of v = take 63 (full_slug v)"

text \<open>\<open>pattern="[a-z0-9]([a-z0-9-]*[a-z0-9])?"\<close>\<close>

definition slug_pattern :: "string \<Rightarrow> bool" where
  "slug_pattern s = (s \<noteq> [] \<and> slug_letter (hd s) \<and> slug_letter (last s) \<and> list_all (\<lambda>c. slug_letter c \<or> is_dash c) s)"

section \<open>Creating a project\<close>

text \<open>A flight holds the name as it was when the form was sent.\<close>

record new_project = "string form" +
  np_open :: bool
  np_name :: string
  np_slug :: string
  np_slugEdited :: bool

datatype project_event =
    ProjectOpenChange bool
  | ProjectName string
  | ProjectSlug string
  | ProjectSubmit
  | ProjectSettled nat reply

definition project_start :: "new_project \<Rightarrow> bool" where
  "project_start s = (s = \<lparr>flights = [], effects = [], pending = False, problem = None, np_open = False, np_name = [],
     np_slug = [], np_slugEdited = False\<rparr>)"

definition project_name_change :: "string \<Rightarrow> new_project \<Rightarrow> new_project" where
  "project_name_change v s = (let t = s\<lparr>np_name := v\<rparr> in if \<not> np_slugEdited s then t\<lparr>np_slug := slug_of v\<rparr> else t)"

definition project_call :: "string \<Rightarrow> string \<Rightarrow> api_call" where
  "project_call n sl = post_call ''/api/projects'' (obj [(''name'', Some (JStr n)), (''slug'', Some (JStr sl))])"

definition project_submit :: "new_project \<Rightarrow> new_project" where
  "project_submit s = call_api (np_name s) (project_call (np_name s) (np_slug s)) (start_pending s)"

definition project_toast :: "string \<Rightarrow> string" where
  "project_toast n = n @ '' created with development, staging, and production.''"

definition project_settle :: "string \<Rightarrow> reply \<Rightarrow> new_project \<Rightarrow> new_project" where
  "project_settle n r s =
     (case apiResult r of
        Inl e \<Rightarrow> fail_with ''Could not create this project.'' e s
      | Inr j \<Rightarrow>
          let t = emit (Toasts (project_toast n)) (s\<lparr>np_open := False, np_name := [], np_slug := [], np_slugEdited := False\<rparr>)
          in (case result_field j ''id'' of
                Inl e \<Rightarrow> fail_with ''Could not create this project.'' e t
              | Inr v \<Rightarrow> emit Refreshes (emit (Visits (''/projects/'' @ js_string v)) t)))
     \<lparr>pending := False\<rparr>"

fun project_step :: "new_project \<Rightarrow> project_event \<Rightarrow> new_project" where
  "project_step s (ProjectOpenChange next) = s\<lparr>np_open := next\<rparr>"
| "project_step s (ProjectName v) = project_name_change v s"
| "project_step s (ProjectSlug v) = s\<lparr>np_slugEdited := True, np_slug := v\<rparr>"
| "project_step s ProjectSubmit = project_submit s"
| "project_step s (ProjectSettled i r) = (if i < length (flights s) then project_settle (flights s ! i) r (arrive i r s) else s)"

definition project_view :: "new_project \<Rightarrow> project_event elem list" where
  "project_view s = (if \<not> np_open s then [Press ''New project'' (ProjectOpenChange True) False] else
     [Field ''project-name'' (np_name s), Field ''project-slug'' (np_slug s),
      Note (''Used by the CLI: ward run --project '' @ (if np_slug s = [] then ''...'' else np_slug s))] @
     problem_note s @
     [Press ''Cancel'' (ProjectOpenChange False) False, Press ''Create project'' ProjectSubmit (pending s),
      Press ''Close'' (ProjectOpenChange False) False])"

fun project_offers :: "new_project \<Rightarrow> project_event \<Rightarrow> bool" where
  "project_offers s (ProjectName t) = editable (project_view s) ''project-name''"
| "project_offers s (ProjectSlug t) = editable (project_view s) ''project-slug''"
| "project_offers s (ProjectSettled i r) = (i < length (flights s))"
| "project_offers s e = pressable (project_view s) e"

section \<open>Founding an organization\<close>

record first_org = "unit form" +
  fo_name :: string
  fo_slug :: string
  fo_slugEdited :: bool
  fo_fields :: json

datatype org_event = OrgName string | OrgSlug string | OrgSubmit | OrgSettled nat reply

definition org_start :: "first_org \<Rightarrow> bool" where
  "org_start s = (s = \<lparr>flights = [], effects = [], pending = False, problem = None, fo_name = [], fo_slug = [],
     fo_slugEdited = False, fo_fields = JObj []\<rparr>)"

definition org_name_change :: "string \<Rightarrow> first_org \<Rightarrow> first_org" where
  "org_name_change v s = (let t = s\<lparr>fo_name := v\<rparr> in if \<not> fo_slugEdited s then t\<lparr>fo_slug := slug_of v\<rparr> else t)"

definition org_call :: "string \<Rightarrow> string \<Rightarrow> api_call" where
  "org_call n sl = post_call ''/api/organizations'' (obj [(''organizationName'', Some (JStr n)), (''slug'', Some (JStr sl))])"

definition org_submit :: "first_org \<Rightarrow> first_org" where
  "org_submit s = call_api () (org_call (fo_name s) (fo_slug s)) ((start_pending s)\<lparr>fo_fields := JObj []\<rparr>)"

text \<open>On success the page is loaded anew, and the button stays disabled until it is.\<close>

definition org_settle :: "reply \<Rightarrow> first_org \<Rightarrow> first_org" where
  "org_settle r s =
     (case apiResult r of
        Inl e \<Rightarrow> (case failure_details e of
            Some d \<Rightarrow> fail_with ''Could not create the organization.'' e (s\<lparr>fo_fields := d\<rparr>)
          | None \<Rightarrow> fail_with ''Could not create the organization.'' e s)\<lparr>pending := False\<rparr>
      | Inr j \<Rightarrow> emit (Loads ''/projects'') s)"

fun org_step :: "first_org \<Rightarrow> org_event \<Rightarrow> first_org" where
  "org_step s (OrgName v) = org_name_change v s"
| "org_step s (OrgSlug v) = s\<lparr>fo_slugEdited := True, fo_slug := v\<rparr>"
| "org_step s OrgSubmit = org_submit s"
| "org_step s (OrgSettled i r) = (if i < length (flights s) then org_settle r (arrive i r s) else s)"

definition org_view :: "first_org \<Rightarrow> org_event elem list" where
  "org_view s =
     [Field ''organizationName'' (fo_name s)] @ field_note (fo_fields s) ''organizationName'' @
     [Field ''slug'' (fo_slug s)] @ field_note (fo_fields s) ''slug'' @ problem_note s @
     [Press ''Create organization'' OrgSubmit (pending s),
      Note ''You will be its first owner. That lets you administer projects and manage access, and does not by itself let you read any secret value.'']"

fun org_offers :: "first_org \<Rightarrow> org_event \<Rightarrow> bool" where
  "org_offers s (OrgName t) = editable (org_view s) ''organizationName''"
| "org_offers s (OrgSlug t) = editable (org_view s) ''slug''"
| "org_offers s (OrgSettled i r) = (i < length (flights s))"
| "org_offers s e = pressable (org_view s) e"

section \<open>Signing out\<close>

text \<open>\<open>so_open\<close> belongs to the parent: \<open>SignOutAsk\<close> is its menu item.\<close>

record signout = "unit form" +
  so_open :: bool

datatype signout_event = SignOutAsk | SignOutOpenChange bool | SignOut | SignOutSettled nat reply

definition signout_start :: "signout \<Rightarrow> bool" where
  "signout_start s = (s = \<lparr>flights = [], effects = [], pending = False, problem = None, so_open = False\<rparr>)"

definition signout_call :: api_call where
  "signout_call = \<lparr>ac_path = ''/api/auth/logout'', ac_method = ''POST'', ac_body = None\<rparr>"

text \<open>\<open>finally\<close>: whatever the request came to.\<close>

definition signout_settle :: "reply \<Rightarrow> signout \<Rightarrow> signout" where
  "signout_settle r s = emit (Loads ''/login'') (emit (Toasts ''Signed out.'') s)"

fun signout_step :: "signout \<Rightarrow> signout_event \<Rightarrow> signout" where
  "signout_step s SignOutAsk = s\<lparr>so_open := True\<rparr>"
| "signout_step s (SignOutOpenChange next) = (if pending s then s else s\<lparr>so_open := next\<rparr>)"
| "signout_step s SignOut = call_api () signout_call (s\<lparr>pending := True\<rparr>)"
| "signout_step s (SignOutSettled i r) = (if i < length (flights s) then signout_settle r (arrive i r s) else s)"

definition signout_view :: "signout \<Rightarrow> signout_event elem list" where
  "signout_view s = (if \<not> so_open s then [Press ''Sign out'' SignOutAsk False] else
     [Note ''Sign out?'',
      Note ''This session ends now. Nothing is rotated and no runtime loses access; only this browser is signed out.'',
      Press ''Stay signed in'' (SignOutOpenChange False) (pending s), Press ''Sign out'' SignOut (pending s),
      Press ''Close'' (SignOutOpenChange False) False])"

fun signout_offers :: "signout \<Rightarrow> signout_event \<Rightarrow> bool" where
  "signout_offers s (SignOutSettled i r) = (i < length (flights s))"
| "signout_offers s e = pressable (signout_view s) e"

section \<open>Moving between organizations\<close>

text \<open>
  A load of the list holds whether its effect is still the current one.  A membership is the JSON value the
  server listed; \<open>switching\<close> is its slug, \<open>null\<close> when no switch is under way.  \<open>pending\<close> and \<open>problem\<close> are
  not used.
\<close>

datatype switch_flight = ListFetch bool | SwitchTo

record switcher = "switch_flight form" +
  sw_open :: bool
  sw_memberships :: "json list option"
  sw_switching :: jsval

datatype switch_event = SwitchOpen bool | SwitchSelect json | SwitchSettled nat reply

definition switcher_start :: "switcher \<Rightarrow> bool" where
  "switcher_start s = (s = \<lparr>flights = [], effects = [], pending = False, problem = None, sw_open = False,
     sw_memberships = None, sw_switching = Some JNull\<rparr>)"

definition organizations_call :: api_call where
  "organizations_call = \<lparr>ac_path = ''/api/organizations'', ac_method = ''GET'', ac_body = None\<rparr>"

definition switch_call :: "json \<Rightarrow> api_call" where
  "switch_call m = post_call ''/api/organizations/switch'' (obj [(''organization'', optfield (Some m) ''slug'')])"

text \<open>
  \<open>result.organizations ?? []\<close>; the answer's declared type is a list or \<open>null\<close>, anything else counts as a load
  that failed.
\<close>

definition listed_memberships :: "json \<Rightarrow> failure + json list" where
  "listed_memberships j = then_ok (result_field j ''organizations'') (\<lambda>v. case coalesce v (Some (JArr [])) of
     Some (JArr ms) \<Rightarrow> Inr ms
   | _ \<Rightarrow> Inl (Thrown (ErrorValue (exn_message TypeError))))"

definition cancel_load :: "switch_flight \<Rightarrow> switch_flight" where
  "cancel_load f = (case f of ListFetch b \<Rightarrow> ListFetch False | SwitchTo \<Rightarrow> SwitchTo)"

text \<open>The effect on \<open>[open, memberships]\<close>: the cleanup of the previous one, then the new one.\<close>

definition membership_effect :: "switcher \<Rightarrow> switcher" where
  "membership_effect s0 =
     (let s = s0\<lparr>flights := map cancel_load (flights s0)\<rparr> in
      if \<not> sw_open s \<or> sw_memberships s \<noteq> None then s else call_api (ListFetch True) organizations_call s)"

definition set_sw_open :: "bool \<Rightarrow> switcher \<Rightarrow> switcher" where
  "set_sw_open b s = (if b = sw_open s then s else membership_effect (s\<lparr>sw_open := b\<rparr>))"

definition set_memberships :: "json list \<Rightarrow> switcher \<Rightarrow> switcher" where
  "set_memberships ms s = membership_effect (s\<lparr>sw_memberships := Some ms\<rparr>)"

definition select_membership :: "json \<Rightarrow> switcher \<Rightarrow> switcher" where
  "select_membership m s =
     (if truthy (optfield (Some m) ''current'') then set_sw_open False s
      else call_api SwitchTo (switch_call m) (s\<lparr>sw_switching := optfield (Some m) ''slug''\<rparr>))"

definition switch_settle :: "reply \<Rightarrow> switcher \<Rightarrow> switcher" where
  "switch_settle r s =
     (case apiResult r of
        Inr j \<Rightarrow> emit (Loads ''/projects'') s
      | Inl e \<Rightarrow> (emit (ToastsError (failure_message ''Could not switch organization.'' e)) s)\<lparr>sw_switching := Some JNull\<rparr>)"

definition memberships_settle :: "bool \<Rightarrow> reply \<Rightarrow> switcher \<Rightarrow> switcher" where
  "memberships_settle live r s =
     (if \<not> live then s
      else set_memberships (case then_ok (apiResult r) listed_memberships of Inr ms \<Rightarrow> ms | Inl e \<Rightarrow> []) s)"

fun switcher_step :: "switcher \<Rightarrow> switch_event \<Rightarrow> switcher" where
  "switcher_step s (SwitchOpen b) = set_sw_open b s"
| "switcher_step s (SwitchSelect m) = select_membership m s"
| "switcher_step s (SwitchSettled i r) =
     (if i < length (flights s) then
        (case flights s ! i of
           ListFetch live \<Rightarrow> memberships_settle live r (arrive i r s)
         | SwitchTo \<Rightarrow> switch_settle r (arrive i r s))
      else s)"

definition membership_item :: "switcher \<Rightarrow> json \<Rightarrow> switch_event elem list" where
  "membership_item s m =
     [Press (js_string (optfield (Some m) ''name'')) (SwitchSelect m) (sw_switching s \<noteq> Some JNull)] @
     (if truthy (optfield (Some m) ''current'') then [] else [Note (toLowerCase (js_string (optfield (Some m) ''role'')))])"

definition other_organizations :: "json list \<Rightarrow> json list" where
  "other_organizations ms = filter (\<lambda>m. \<not> truthy (optfield (Some m) ''current'')) ms"

definition switcher_view :: "string \<Rightarrow> switcher \<Rightarrow> switch_event elem list" where
  "switcher_view org s =
     [Press (''Organization: '' @ org @ ''. Switch organization'') (SwitchOpen (\<not> sw_open s)) False] @
     (if \<not> sw_open s then []
      else [Note ''Organizations''] @
        (case sw_memberships s of
           None \<Rightarrow> []
         | Some ms \<Rightarrow> concat (map (membership_item s) ms) @
             (if other_organizations ms = [] \<and> ms \<noteq> [] then
                [Note ''You belong to one organization. An owner or admin of another can invite this address to theirs.'']
              else [])))"

text \<open>What the server lists: objects with a slug.\<close>

definition listed_with_slugs :: "reply \<Rightarrow> bool" where
  "listed_with_slugs r = (\<forall>ms. then_ok (apiResult r) listed_memberships = Inr ms \<longrightarrow>
     (\<forall>m \<in> set ms. \<exists>t. optfield (Some m) ''slug'' = Some (JStr t)))"

fun switcher_offers :: "string \<Rightarrow> switcher \<Rightarrow> switch_event \<Rightarrow> bool" where
  "switcher_offers org s (SwitchSettled i r) = (i < length (flights s) \<and> listed_with_slugs r)"
| "switcher_offers org s (SwitchOpen b) = (pressable (switcher_view org s) (SwitchOpen b) \<or> b = False \<and> sw_open s)"
| "switcher_offers org s e = pressable (switcher_view org s) e"

section \<open>The contract of a slug that follows its name\<close>

text \<open>Until the slug is edited by hand it is the name's slug; nothing but an edit of the slug ends that.\<close>

locale following_slug = component start offers step inv
  for start :: "'s \<Rightarrow> bool" and offers :: "'s \<Rightarrow> 'e \<Rightarrow> bool" and step :: "'s \<Rightarrow> 'e \<Rightarrow> 's" and inv :: "'s \<Rightarrow> bool" +
  fixes nam :: "'s \<Rightarrow> string" and slg :: "'s \<Rightarrow> string" and edited :: "'s \<Rightarrow> bool"
  assumes slug_start: "start s \<Longrightarrow> slg s = slug_of (nam s)"
    and slug_step: "inv s \<Longrightarrow> offers s e \<Longrightarrow> \<not> edited s \<longrightarrow> slg s = slug_of (nam s) \<Longrightarrow> \<not> edited (step s e) \<Longrightarrow> slg (step s e) = slug_of (nam (step s e))"
begin

lemma follows: "reachable start offers step s \<Longrightarrow> \<not> edited s \<Longrightarrow> slg s = slug_of (nam s)"
proof (induction rule: reachable.induct)
  case (event s e)
  then show ?case using slug_step [OF always [OF event.hyps(1)] event.hyps(2)] by blast
qed (rule slug_start)

end

section \<open>Lemmas\<close>

lemma dash_not_letter [simp]: "\<not> slug_letter (CHR ''-'')"
  by code_simp

text \<open>What is left of a name: letters, and between them single dashes.\<close>

fun spaced :: "string \<Rightarrow> bool" where
  "spaced [] = True"
| "spaced [c] = (slug_letter c \<or> is_dash c)"
| "spaced (c # d # s) = ((slug_letter c \<or> is_dash c \<and> \<not> is_dash d) \<and> spaced (d # s))"

lemma spaced_Cons: "spaced (c # s) \<longleftrightarrow> spaced s \<and> (slug_letter c \<or> is_dash c \<and> (s = [] \<or> \<not> is_dash (hd s)))"
  by (cases s) auto

lemma dash_runs_head: "dash_runs True s \<noteq> [] \<Longrightarrow> \<not> is_dash (hd (dash_runs True s))"
  by (induction s) (auto simp: is_dash_def split: if_splits)

lemma dash_runs_spaced: "spaced (dash_runs b s)"
  by (induction s arbitrary: b) (auto simp: spaced_Cons is_dash_def dest: dash_runs_head)

lemma spaced_drop: "spaced s \<Longrightarrow> spaced (drop n s)"
  by (induction s arbitrary: n) (auto simp: drop_Cons spaced_Cons split: nat.splits)

lemma spaced_take: "spaced s \<Longrightarrow> spaced (take n s)"
proof (induction s arbitrary: n)
  case (Cons c s)
  then show ?case by (cases n) (auto simp: spaced_Cons neq_Nil_conv take_Cons split: nat.splits)
qed simp

lemma dropWhile_drop: "\<exists>n. dropWhile P xs = drop n xs"
  by (metis dropWhile_eq_drop)

lemma rev_drop_rev: "rev (drop k (rev xs)) = take (length xs - k) xs"
  by (simp add: rev_drop)

lemma strip_dashes_shape:
  "\<exists>n m. strip_dashes s = take m (drop n s)"
proof -
  obtain n where n: "dropWhile is_dash s = drop n s" using dropWhile_drop by blast
  obtain k where k: "dropWhile is_dash (rev (drop n s)) = drop k (rev (drop n s))" using dropWhile_drop by blast
  have "strip_dashes s = take (length (drop n s) - k) (drop n s)" unfolding strip_dashes_def n k by (rule rev_drop_rev)
  then show ?thesis by blast
qed

lemma strip_dashes_ends:
  assumes "strip_dashes s \<noteq> []"
  shows "\<not> is_dash (hd (strip_dashes s)) \<and> \<not> is_dash (last (strip_dashes s))"
proof -
  let ?d = "dropWhile is_dash s"
  have l: "dropWhile is_dash (rev ?d) \<noteq> []" using assms by (simp add: strip_dashes_def)
  from hd_dropWhile [OF l] l have "\<not> is_dash (last (strip_dashes s))" unfolding strip_dashes_def by (simp only: last_rev not_False_eq_True)
  moreover have "\<not> is_dash (hd (strip_dashes s))"
  proof -
    have "?d \<noteq> []" using l by (metis dropWhile.simps(1) rev.simps(1))
    then have h: "\<not> is_dash (hd ?d)" by (rule hd_dropWhile)
    obtain p where "rev ?d = p @ dropWhile is_dash (rev ?d)" by (metis takeWhile_dropWhile_id)
    then have "?d = strip_dashes s @ rev p" unfolding strip_dashes_def by (metis rev_append rev_rev_ident)
    with assms h show ?thesis by (metis hd_append2)
  qed
  ultimately show ?thesis by blast
qed

lemma spaced_chars: "spaced s \<Longrightarrow> list_all (\<lambda>c. slug_letter c \<or> is_dash c) s"
  by (induction s rule: spaced.induct) auto

lemma full_slug_spaced: "spaced (full_slug v)"
  using strip_dashes_shape [of "dash_runs False (toLowerCase v)"] dash_runs_spaced spaced_drop spaced_take
  unfolding full_slug_def by metis

lemma slug_of_spaced: "spaced (slug_of v)"
  unfolding slug_of_def by (rule spaced_take [OF full_slug_spaced])

lemma project_frame [simp]:
  "np_name (call_api f c s) = np_name s" "np_slug (call_api f c s) = np_slug s" "np_slugEdited (call_api f c s) = np_slugEdited s"
  "np_name (arrive i r s) = np_name s" "np_slug (arrive i r s) = np_slug s" "np_slugEdited (arrive i r s) = np_slugEdited s"
  "np_name (start_pending s) = np_name s" "np_slug (start_pending s) = np_slug s" "np_slugEdited (start_pending s) = np_slugEdited s"
  "np_name (fail_with b e s) = np_name s" "np_slug (fail_with b e s) = np_slug s" "np_slugEdited (fail_with b e s) = np_slugEdited s"
  "np_name (emit x s) = np_name s" "np_slug (emit x s) = np_slug s" "np_slugEdited (emit x s) = np_slugEdited s"
  by (simp_all add: form_defs)

lemma org_frame [simp]:
  "fo_name (call_api f c s) = fo_name s" "fo_slug (call_api f c s) = fo_slug s" "fo_slugEdited (call_api f c s) = fo_slugEdited s"
  "fo_name (arrive i r s) = fo_name s" "fo_slug (arrive i r s) = fo_slug s" "fo_slugEdited (arrive i r s) = fo_slugEdited s"
  "fo_name (start_pending s) = fo_name s" "fo_slug (start_pending s) = fo_slug s" "fo_slugEdited (start_pending s) = fo_slugEdited s"
  "fo_name (fail_with b e s) = fo_name s" "fo_slug (fail_with b e s) = fo_slug s" "fo_slugEdited (fail_with b e s) = fo_slugEdited s"
  "fo_name (emit x s) = fo_name s" "fo_slug (emit x s) = fo_slug s" "fo_slugEdited (emit x s) = fo_slugEdited s"
  by (simp_all add: form_defs)

lemma slug_of_Nil [simp]: "slug_of [] = []"
  by (simp add: slug_of_def full_slug_def strip_dashes_def toLowerCase_def)

definition creates_project :: "api_call \<Rightarrow> bool" where
  "creates_project c = (\<exists>n sl. c = project_call n sl)"

lemma creates_project_call [simp]: "creates_project (project_call n sl)"
  unfolding creates_project_def by blast

definition project_inv :: "new_project \<Rightarrow> bool" where
  "project_inv s = (one_flight s \<and> list_all creates_project (calls (effects s)))"

lemma project_settle_sel [simp]:
  "\<not> pending (project_settle n r s)" "flights (project_settle n r s) = flights s"
  "calls (effects (project_settle n r s)) = calls (effects s)"
  by (simp_all add: project_settle_def Let_def split: sum.splits)

lemma project_name_sel [simp]:
  "flights (project_name_change v s) = flights s" "pending (project_name_change v s) = pending s"
  "effects (project_name_change v s) = effects s" "np_slugEdited (project_name_change v s) = np_slugEdited s"
  "np_name (project_name_change v s) = v" "np_slug (project_name_change v s) = (if np_slugEdited s then np_slug s else slug_of v)"
  by (simp_all add: project_name_change_def Let_def)

lemma project_submit_offered: "project_offers s ProjectSubmit \<Longrightarrow> \<not> pending s"
  by (auto simp: project_view_def split: if_splits)

lemma project_inv_step:
  assumes "project_inv s" "project_offers s e"
  shows "project_inv (project_step s e)"
proof (cases e)
  case (ProjectSettled i r)
  with assms show ?thesis by (simp add: project_inv_def one_flight_def split: if_splits)
next
  case ProjectSubmit
  with assms show ?thesis using project_submit_offered [of s] by (simp add: project_inv_def one_flight_def project_submit_def)
qed (use assms(1) in \<open>simp_all add: project_inv_def one_flight_def\<close>)

interpretation projecting: request_form project_start project_offers project_step project_inv ProjectSettled
proof unfold_locales
  show "project_start s \<Longrightarrow> project_inv s" for s by (simp add: project_start_def project_inv_def one_flight_def)
  show "project_inv s \<Longrightarrow> project_offers s e \<Longrightarrow> project_inv (project_step s e)" for s e by (rule project_inv_step)
qed (auto simp: project_inv_def)

interpretation project_slug: following_slug project_start project_offers project_step project_inv np_name np_slug np_slugEdited
proof unfold_locales
  show "project_start s \<Longrightarrow> np_slug s = slug_of (np_name s)" for s by (simp add: project_start_def)
  fix s e assume "\<not> np_slugEdited s \<longrightarrow> np_slug s = slug_of (np_name s)" "\<not> np_slugEdited (project_step s e)"
  then show "np_slug (project_step s e) = slug_of (np_name (project_step s e))"
  proof (cases e)
    case (ProjectSettled i r)
    with \<open>\<not> np_slugEdited s \<longrightarrow> _\<close> \<open>\<not> np_slugEdited (project_step s e)\<close> show ?thesis
      by (auto simp: project_settle_def Let_def split: sum.splits if_splits)
  qed (simp_all add: project_submit_def)
qed

definition org_inv :: "first_org \<Rightarrow> bool" where
  "org_inv s = at_most_one s"

lemma org_settle_sel [simp]:
  "flights (org_settle r s) = flights s" "calls (effects (org_settle r s)) = calls (effects s)"
  "fo_name (org_settle r s) = fo_name s" "fo_slug (org_settle r s) = fo_slug s" "fo_slugEdited (org_settle r s) = fo_slugEdited s"
  by (auto simp: org_settle_def split: sum.splits option.splits)

lemma org_name_sel [simp]:
  "flights (org_name_change v s) = flights s" "pending (org_name_change v s) = pending s"
  "effects (org_name_change v s) = effects s" "fo_slugEdited (org_name_change v s) = fo_slugEdited s"
  "fo_name (org_name_change v s) = v" "fo_slug (org_name_change v s) = (if fo_slugEdited s then fo_slug s else slug_of v)"
  by (simp_all add: org_name_change_def Let_def)

lemma org_submit_offered: "org_offers s OrgSubmit \<Longrightarrow> \<not> pending s"
  by (auto simp: org_view_def split: if_splits)

lemma org_inv_step:
  assumes "org_inv s" "org_offers s e"
  shows "org_inv (org_step s e)"
proof (cases e)
  case (OrgSettled i r)
  with assms show ?thesis using at_most_one_lands [of s i r] by (auto simp: org_inv_def at_most_one_def)
next
  case OrgSubmit
  with assms show ?thesis using org_submit_offered [of s] by (simp add: org_inv_def at_most_one_def org_submit_def)
qed (use assms(1) in \<open>simp_all add: org_inv_def at_most_one_def\<close>)

interpretation org_slug: following_slug org_start org_offers org_step org_inv fo_name fo_slug fo_slugEdited
proof unfold_locales
  show "org_start s \<Longrightarrow> org_inv s" for s by (simp add: org_start_def org_inv_def at_most_one_def)
  show "org_inv s \<Longrightarrow> org_offers s e \<Longrightarrow> org_inv (org_step s e)" for s e by (rule org_inv_step)
  show "org_start s \<Longrightarrow> fo_slug s = slug_of (fo_name s)" for s by (simp add: org_start_def)
  show "\<not> fo_slugEdited s \<longrightarrow> fo_slug s = slug_of (fo_name s) \<Longrightarrow> \<not> fo_slugEdited (org_step s e) \<Longrightarrow>
      fo_slug (org_step s e) = slug_of (fo_name (org_step s e))" for s e
    by (cases e) (auto simp: org_submit_def split: if_splits)
qed

subsection \<open>Signing out and switching\<close>

definition signout_inv :: "signout \<Rightarrow> bool" where
  "signout_inv s = (at_most_one s \<and>
     (if pending s then so_open s \<and> calls (effects s) = [signout_call] \<and> (flights s = [] \<longrightarrow> last (effects s) = Loads ''/login'')
      else effects s = []))"

lemma signout_frame [simp]:
  "so_open (call_api f c s) = so_open s" "so_open (arrive i r s) = so_open s" "so_open (emit x s) = so_open s"
  by (simp_all add: form_defs)

lemma signout_settle_sel [simp]:
  "flights (signout_settle r s) = flights s" "pending (signout_settle r s) = pending s" "so_open (signout_settle r s) = so_open s"
  "effects (signout_settle r s) = effects s @ [Toasts ''Signed out.'', Loads ''/login'']"
  by (simp_all add: signout_settle_def)

lemma signout_offered:
  "signout_offers s SignOut \<Longrightarrow> so_open s \<and> \<not> pending s"
  "signout_offers s SignOutAsk \<Longrightarrow> \<not> so_open s"
  by (auto simp: signout_view_def split: if_splits)

lemma signout_inv_step:
  assumes "signout_inv s" "signout_offers s e"
  shows "signout_inv (signout_step s e)"
proof (cases e)
  case (SignOutSettled i r)
  with assms have i: "i < length (flights s)" by simp
  have "at_most_one s" using assms(1) by (simp add: signout_inv_def)
  from at_most_one_lands [OF this i, of r] have f: "flights (arrive i r s) = []" .
  have "pending s" using \<open>at_most_one s\<close> i by (auto simp: at_most_one_def)
  with assms(1) i f SignOutSettled show ?thesis by (simp add: signout_inv_def at_most_one_def)
next
  case SignOut
  with assms(2) have "so_open s" "\<not> pending s" using signout_offered(1) by simp_all
  with assms(1) SignOut show ?thesis by (simp add: signout_inv_def at_most_one_def)
next
  case SignOutAsk
  with assms(2) have "\<not> so_open s" using signout_offered(2) by simp
  with assms(1) SignOutAsk show ?thesis by (simp add: signout_inv_def at_most_one_def split: if_splits)
qed (use assms(1) in \<open>auto simp: signout_inv_def at_most_one_def\<close>)

interpretation leaving: component signout_start signout_offers signout_step signout_inv
proof unfold_locales
  show "signout_start s \<Longrightarrow> signout_inv s" for s by (simp add: signout_start_def signout_inv_def at_most_one_def)
qed (rule signout_inv_step)

definition slugged :: "json \<Rightarrow> bool" where
  "slugged m = (\<exists>t. optfield (Some m) ''slug'' = Some (JStr t))"

definition moves :: "api_call \<Rightarrow> bool" where
  "moves c = (c = organizations_call \<or> (\<exists>m. slugged m \<and> \<not> truthy (optfield (Some m) ''current'') \<and> c = switch_call m))"

definition live_loads :: "switcher \<Rightarrow> switch_flight list" where
  "live_loads s = filter (\<lambda>f. f = ListFetch True) (flights s)"

definition switches :: "switcher \<Rightarrow> switch_flight list" where
  "switches s = filter (\<lambda>f. f = SwitchTo) (flights s)"

definition switcher_inv :: "switcher \<Rightarrow> bool" where
  "switcher_inv s = (live_loads s = (if sw_open s \<and> sw_memberships s = None then [ListFetch True] else []) \<and>
     length (switches s) \<le> (if sw_switching s = Some JNull then 0 else 1) \<and>
     (\<forall>ms. sw_memberships s = Some ms \<longrightarrow> list_all slugged ms) \<and> list_all moves (calls (effects s)))"

lemma switcher_frame [simp]:
  "sw_open (call_api f c s) = sw_open s" "sw_memberships (call_api f c s) = sw_memberships s" "sw_switching (call_api f c s) = sw_switching s"
  "sw_open (arrive i r s) = sw_open s" "sw_memberships (arrive i r s) = sw_memberships s" "sw_switching (arrive i r s) = sw_switching s"
  "sw_open (emit x s) = sw_open s" "sw_memberships (emit x s) = sw_memberships s" "sw_switching (emit x s) = sw_switching s"
  by (simp_all add: form_defs)

lemma cancelled [simp]:
  "filter (\<lambda>f. f = ListFetch True) (map cancel_load fs) = []"
  "filter (\<lambda>f. f = SwitchTo) (map cancel_load fs) = filter (\<lambda>f. f = SwitchTo) fs"
  by (induction fs) (auto simp: cancel_load_def split: switch_flight.splits)

lemma membership_effect_sel [simp]:
  "sw_open (membership_effect s) = sw_open s" "sw_memberships (membership_effect s) = sw_memberships s"
  "sw_switching (membership_effect s) = sw_switching s" "switches (membership_effect s) = switches s"
  "live_loads (membership_effect s) = (if sw_open s \<and> sw_memberships s = None then [ListFetch True] else [])"
  "list_all moves (calls (effects (membership_effect s))) = list_all moves (calls (effects s))"
  by (auto simp: membership_effect_def Let_def switches_def live_loads_def moves_def)

lemma switch_lands:
  assumes "i < length (flights s)"
  shows "live_loads s = live_loads (arrive i r s) \<or> flights s ! i = ListFetch True"
    "length (switches (arrive i r s)) = length (switches s) - (if flights s ! i = SwitchTo then 1 else 0)"
  by (simp_all add: live_loads_def switches_def filter_split_nth [OF assms])

lemma membership_items:
  "pressable (concat (map (membership_item s) ms)) e \<longleftrightarrow> sw_switching s = Some JNull \<and> (\<exists>m \<in> set ms. e = SwitchSelect m)"
  by (induction ms) (auto simp: membership_item_def)

lemma select_offered:
  "switcher_offers org s (SwitchSelect m) \<Longrightarrow>
     sw_switching s = Some JNull \<and> sw_open s \<and> (\<exists>ms. sw_memberships s = Some ms \<and> m \<in> set ms)"
  by (auto simp: switcher_view_def membership_items split: if_splits option.splits)

lemma set_sw_open_inv: "switcher_inv s \<Longrightarrow> switcher_inv (set_sw_open b s)"
proof (cases "b = sw_open s")
  case False
  assume inv: "switcher_inv s"
  have "switches (s\<lparr>sw_open := b\<rparr>) = switches s" by (simp add: switches_def)
  with inv False show ?thesis by (simp add: switcher_inv_def set_sw_open_def)
qed (simp add: set_sw_open_def)

lemma settled_memberships:
  assumes "listed_with_slugs r"
  shows "list_all slugged (case then_ok (apiResult r) listed_memberships of Inr ms \<Rightarrow> ms | Inl e \<Rightarrow> [])"
  using assms by (cases "then_ok (apiResult r) listed_memberships") (auto simp: listed_with_slugs_def list_all_iff slugged_def)

lemma switcher_inv_step:
  assumes "switcher_inv s" "switcher_offers org s e"
  shows "switcher_inv (switcher_step s e)"
proof (cases e)
  case (SwitchOpen b)
  with assms(1) set_sw_open_inv show ?thesis by simp
next
  case (SwitchSelect m)
  then obtain ms where m: "sw_switching s = Some JNull" "sw_memberships s = Some ms" "m \<in> set ms"
    using assms(2) select_offered [of org s m] by auto
  show ?thesis
  proof (cases "truthy (optfield (Some m) ''current'')")
    case True
    with assms(1) SwitchSelect show ?thesis by (simp add: select_membership_def set_sw_open_inv)
  next
    case False
    have m': "slugged m" using assms(1) m by (auto simp: switcher_inv_def list_all_iff)
    then have "moves (switch_call m)" using False unfolding moves_def by blast
    moreover have "sw_switching (select_membership m s) \<noteq> Some JNull"
      using m' False by (auto simp: select_membership_def slugged_def)
    ultimately show ?thesis using assms(1) m(1) False SwitchSelect
      by (simp add: switcher_inv_def select_membership_def live_loads_def switches_def)
  qed
next
  case (SwitchSettled i r)
  then have i: "i < length (flights s)" and r: "listed_with_slugs r" using assms(2) by simp_all
  note lands = switch_lands [OF i, of r]
  show ?thesis
  proof (cases "flights s ! i")
    case (ListFetch live)
    have n: "length (switches (arrive i r s)) \<le> (if sw_switching s = Some JNull then 0 else 1)"
      using assms(1) lands(2) by (simp add: switcher_inv_def ListFetch split: if_splits)
    show ?thesis
    proof (cases live)
      case True
      have "switches (s'\<lparr>sw_memberships := x\<rparr>) = switches s'" for s' x by (simp add: switches_def)
      with True assms(1) SwitchSettled i ListFetch n settled_memberships [OF r] show ?thesis
        by (simp add: switcher_inv_def memberships_settle_def set_memberships_def)
    next
      case False
      with lands(1) ListFetch have "live_loads (arrive i r s) = live_loads s" by simp
      with False assms(1) SwitchSettled i ListFetch n show ?thesis
        by (simp add: switcher_inv_def memberships_settle_def)
    qed
  next
    case SwitchTo
    then have l: "live_loads (arrive i r s) = live_loads s" and n: "switches (arrive i r s) = []"
      using lands assms(1) by (auto simp: switcher_inv_def split: if_splits)
    have "live_loads (switch_settle r (arrive i r s)) = live_loads s" "switches (switch_settle r (arrive i r s)) = []"
      using l n by (simp_all add: switch_settle_def live_loads_def switches_def split: sum.splits)
    moreover have "calls (effects (switch_settle r (arrive i r s))) = calls (effects s)"
        "sw_open (switch_settle r (arrive i r s)) = sw_open s" "sw_memberships (switch_settle r (arrive i r s)) = sw_memberships s"
      by (simp_all add: switch_settle_def split: sum.splits)
    ultimately show ?thesis using assms(1) SwitchSettled i SwitchTo by (simp add: switcher_inv_def)
  qed
qed

interpretation switching: component switcher_start "switcher_offers org" switcher_step switcher_inv for org
proof unfold_locales
  show "switcher_start s \<Longrightarrow> switcher_inv s" for s
    by (simp add: switcher_start_def switcher_inv_def live_loads_def switches_def)
qed (rule switcher_inv_step)

section \<open>Properties\<close>

text \<open>The slug of a name.  It is made of lower-case letters, digits and single hyphens, has at most 63 characters and begins with
  a letter or digit; and it has the form its input demands exactly when there is something left of
  the name and the cut at 63 characters, if it was made, did not end on a hyphen.  So a name whose 63rd
  character falls on a word boundary is given a slug its own form refuses.\<close>

theorem slugs_of_names:
  "spaced (slug_of v) \<and> length (slug_of v) \<le> 63 \<and> (slug_of v \<noteq> [] \<longrightarrow> slug_letter (hd (slug_of v))) \<and>
   (slug_pattern (slug_of v) \<longleftrightarrow> full_slug v \<noteq> [] \<and> (length (full_slug v) \<le> 63 \<or> full_slug v ! 62 \<noteq> CHR ''-''))"
proof -
  let ?f = "full_slug v"
  have chars: "list_all (\<lambda>c. slug_letter c \<or> is_dash c) (slug_of v)" by (rule spaced_chars [OF slug_of_spaced])
  have ends: "?f \<noteq> [] \<Longrightarrow> \<not> is_dash (hd ?f) \<and> \<not> is_dash (last ?f)" unfolding full_slug_def by (rule strip_dashes_ends)
  have all: "list_all (\<lambda>c. slug_letter c \<or> is_dash c) ?f" by (rule spaced_chars [OF full_slug_spaced])
  have nil: "slug_of v = [] \<longleftrightarrow> ?f = []" by (simp add: slug_of_def)
  have hd: "?f \<noteq> [] \<Longrightarrow> slug_letter (hd (slug_of v))"
    using ends all by (auto simp: slug_of_def list_all_iff)
  have last: "slug_letter (last (slug_of v)) \<longleftrightarrow> length ?f \<le> 63 \<or> ?f ! 62 \<noteq> CHR ''-''" if "?f \<noteq> []"
  proof (cases "length ?f \<le> 63")
    case True
    then show ?thesis using ends [OF that] all that by (auto simp: slug_of_def list_all_iff)
  next
    case False
    then have "take (Suc 62) ?f = take 62 ?f @ [?f ! 62]" by (intro take_Suc_conv_app_nth) simp
    moreover have "slug_of v = take (Suc 62) ?f" by (simp add: slug_of_def)
    ultimately have "last (slug_of v) = ?f ! 62" by simp
    moreover have "?f ! 62 \<in> set ?f" using False by simp
    then have "slug_letter (?f ! 62) \<or> is_dash (?f ! 62)" using all by (simp add: list_all_iff)
    ultimately show ?thesis using False by (auto simp: is_dash_def)
  qed
  show ?thesis using slug_of_spaced chars nil hd last by (auto simp: slug_pattern_def) (simp_all add: slug_of_def)
qed

text \<open>The slug follows the name.  In both forms, as long as nobody has edited the slug it is the slug of the name
  on screen, so the two are sent together as they are shown.\<close>

theorem slug_follows_name:
  "(reachable project_start project_offers project_step s \<and> \<not> np_slugEdited s \<longrightarrow>
      np_slug s = slug_of (np_name s) \<and>
      calls (effects (project_step s ProjectSubmit)) = calls (effects s) @ [project_call (np_name s) (slug_of (np_name s))]) \<and>
   (reachable org_start org_offers org_step t \<and> \<not> fo_slugEdited t \<longrightarrow>
      fo_slug t = slug_of (fo_name t) \<and>
      calls (effects (org_step t OrgSubmit)) = calls (effects t) @ [org_call (fo_name t) (slug_of (fo_name t))])"
  using project_slug.follows [of s] org_slug.follows [of t] by (auto simp: project_submit_def org_submit_def)

definition project_initial :: new_project where
  "project_initial = \<lparr>flights = [], effects = [], pending = False, problem = None, np_open = False, np_name = [],
     np_slug = [], np_slugEdited = False\<rparr>"

definition project_typed :: new_project where
  "project_typed = project_step (project_step project_initial (ProjectOpenChange True)) (ProjectName ''Payments API!'')"

lemma project_typed_reachable: "reachable project_start project_offers project_step project_typed"
  unfolding project_typed_def
  by (intro reachable.event reachable.initial)
    (simp_all add: project_start_def project_initial_def project_view_def)

lemma payments_slug: "slug_of ''Payments API!'' = ''payments-api''"
  by code_simp

theorem slug_follows_name_witness:
  "np_slug project_typed = ''payments-api'' \<and>
   calls (effects (project_step project_typed ProjectSubmit)) = [project_call ''Payments API!'' ''payments-api'']"
proof -
  have p: "\<not> np_slugEdited project_typed" "np_name project_typed = ''Payments API!''" "effects project_typed = []"
    by (simp_all add: project_typed_def project_initial_def)
  have "np_slug project_typed = slug_of (np_name project_typed) \<and>
      calls (effects (project_step project_typed ProjectSubmit)) =
        calls (effects project_typed) @ [project_call (np_name project_typed) (slug_of (np_name project_typed))]"
    using slug_follows_name [of project_typed] project_typed_reachable p(1) by blast
  then show ?thesis unfolding p(2,3) payments_slug by simp
qed

text \<open>Signing out.  The dialog sends one sign-out request however often it is used, it cannot be closed while that is under
  way, and whatever becomes of the request, even when it never reaches the server, the dialog says "Signed
  out." and loads the sign-in page: nothing on screen tells a session that ended from one that did not.\<close>

theorem sign_out_always_leaves:
  assumes "reachable signout_start signout_offers signout_step s"
  shows "length (calls (effects s)) \<le> 1 \<and> (pending s \<longrightarrow> so_open s \<and> calls (effects s) = [signout_call] \<and>
      (flights s \<noteq> [] \<longrightarrow> (\<forall>r. \<exists>xs. effects (signout_step s (SignOutSettled 0 r)) = effects s @ xs @ [Toasts ''Signed out.'', Loads ''/login''] \<and>
        set xs \<subseteq> {Loads ''/login''})) \<and>
      (flights s = [] \<longrightarrow> last (effects s) = Loads ''/login'') \<and> (\<forall>e. signout_offers s e \<longrightarrow> so_open (signout_step s e)))"
proof -
  have inv: "signout_inv s" using assms by (rule leaving.always)
  show ?thesis
  proof (intro conjI impI allI)
    show "length (calls (effects s)) \<le> 1" using inv by (auto simp: signout_inv_def split: if_splits)
  next
    assume "pending s"
    then show "so_open s" "calls (effects s) = [signout_call]" using inv by (simp_all add: signout_inv_def)
  next
    fix r assume "flights s \<noteq> []"
    then have "effects (signout_step s (SignOutSettled 0 r)) =
        effects s @ (if ends_session r then [Loads ''/login''] else []) @ [Toasts ''Signed out.'', Loads ''/login'']" by simp
    then show "\<exists>xs. effects (signout_step s (SignOutSettled 0 r)) = effects s @ xs @ [Toasts ''Signed out.'', Loads ''/login''] \<and>
        set xs \<subseteq> {Loads ''/login''}"
      by (intro exI [of _ "if ends_session r then [Loads ''/login''] else []"]) auto
  next
    assume "pending s" "flights s = []"
    then show "last (effects s) = Loads ''/login''" using inv by (simp add: signout_inv_def)
  next
    fix e assume "pending s" "signout_offers s e"
    then show "so_open (signout_step s e)" using inv by (cases e) (auto simp: signout_inv_def split: if_splits)
  qed
qed

definition signout_asked :: signout where
  "signout_asked = \<lparr>flights = [()], effects = [Calls signout_call], pending = True, problem = None, so_open = True\<rparr>"

lemma signout_asked_reachable: "reachable signout_start signout_offers signout_step signout_asked"
proof -
  let ?s = "\<lparr>flights = [], effects = [], pending = False, problem = None, so_open = False\<rparr> :: signout"
  have "reachable signout_start signout_offers signout_step ?s" by (rule reachable.initial) (simp add: signout_start_def)
  moreover have "legal signout_offers signout_step ?s [SignOutAsk, SignOut]" by (simp add: signout_view_def)
  ultimately have "reachable signout_start signout_offers signout_step (foldl signout_step ?s [SignOutAsk, SignOut])"
    by (rule legal_reachable)
  then show ?thesis by (simp add: signout_asked_def call_api_def)
qed

theorem sign_out_always_leaves_witness:
  "\<exists>xs. effects (signout_step signout_asked (SignOutSettled 0 (Unreachable ''Failed to fetch''))) =
     Calls signout_call # xs @ [Toasts ''Signed out.'', Loads ''/login'']"
  using sign_out_always_leaves [OF signout_asked_reachable] by (auto simp: signout_asked_def simp del: signout_step.simps)

text \<open>Moving between organizations.  At most one switch is under way, and while one is no organization can be
  chosen; every switch asked for is to an organization the server listed that is not the current one.  An
  open menu without a list always has exactly one load under way, so its list cannot be
  lost by closing and opening the menu, and a list that has arrived is never asked for again.\<close>

theorem switching_is_orderly:
  assumes "reachable switcher_start (switcher_offers org) switcher_step s"
  shows "length (filter (\<lambda>f. f = SwitchTo) (flights s)) \<le> 1 \<and>
    (SwitchTo \<in> set (flights s) \<longrightarrow> (\<forall>m. \<not> switcher_offers org s (SwitchSelect m))) \<and>
    (\<forall>c \<in> set (calls (effects s)). c = organizations_call \<or>
      (\<exists>m. slugged m \<and> \<not> truthy (optfield (Some m) ''current'') \<and> c = switch_call m)) \<and>
    filter (\<lambda>f. f = ListFetch True) (flights s) = (if sw_open s \<and> sw_memberships s = None then [ListFetch True] else []) \<and>
    (sw_memberships s \<noteq> None \<longrightarrow> (\<forall>e. sw_memberships (switcher_step s e) \<noteq> None))"
proof -
  have inv: "switcher_inv s" using assms by (rule switching.always)
  have one: "length (switches s) \<le> 1" using inv by (auto simp: switcher_inv_def split: if_splits)
  have free: "\<not> switcher_offers org s (SwitchSelect m)" if "SwitchTo \<in> set (flights s)" for m
  proof
    assume "switcher_offers org s (SwitchSelect m)"
    then have "sw_switching s = Some JNull" using select_offered by blast
    with inv have "switches s = []" by (simp add: switcher_inv_def)
    with that show False by (auto simp: switches_def filter_empty_conv)
  qed
  have kept: "sw_memberships (switcher_step s e) \<noteq> None" if "sw_memberships s \<noteq> None" for e
    using that by (cases e) (auto simp: set_sw_open_def select_membership_def memberships_settle_def set_memberships_def switch_settle_def
        split: switch_flight.splits sum.splits)
  have calls: "\<forall>c \<in> set (calls (effects s)). c = organizations_call \<or>
      (\<exists>m. slugged m \<and> \<not> truthy (optfield (Some m) ''current'') \<and> c = switch_call m)"
    using inv unfolding switcher_inv_def list_all_iff moves_def by blast
  have "live_loads s = (if sw_open s \<and> sw_memberships s = None then [ListFetch True] else [])" using inv by (simp add: switcher_inv_def)
  with one free kept calls show ?thesis unfolding live_loads_def switches_def by blast
qed

text \<open>A list that could not be loaded.  The menu then shows no organization at all, and not, as its comment has it, "only
  this one": the sentence for somebody who belongs to one organization needs a list with an entry.  The list is not
  asked for again either.\<close>

theorem failed_list_shows_nothing:
  assumes "i < length (flights s)" "flights s ! i = ListFetch True" "sw_open s" "then_ok (apiResult r) listed_memberships = Inl e"
  shows "let t = switcher_step s (SwitchSettled i r) in
    switcher_view org t = [Press (''Organization: '' @ org @ ''. Switch organization'') (SwitchOpen False) False, Note ''Organizations''] \<and>
    calls (effects (switcher_step (switcher_step t (SwitchOpen False)) (SwitchOpen True))) = calls (effects s)"
proof -
  have t: "switcher_step s (SwitchSettled i r) = set_memberships [] (arrive i r s)"
    using assms by (simp add: memberships_settle_def)
  have same: "calls (effects (membership_effect u)) = calls (effects u)" if "sw_memberships u \<noteq> None" for u
    using that by (simp add: membership_effect_def Let_def)
  show ?thesis unfolding Let_def t
    by (simp add: switcher_view_def set_memberships_def other_organizations_def assms(3) same set_sw_open_def)
qed

definition menu_open :: switcher where
  "menu_open = \<lparr>flights = [ListFetch True], effects = [Calls organizations_call], pending = False, problem = None, sw_open = True,
     sw_memberships = None, sw_switching = Some JNull\<rparr>"

lemma menu_open_reachable: "reachable switcher_start (switcher_offers org) switcher_step menu_open"
proof -
  let ?s = "\<lparr>flights = [], effects = [], pending = False, problem = None, sw_open = False, sw_memberships = None,
     sw_switching = Some JNull\<rparr> :: switcher"
  have "reachable switcher_start (switcher_offers org) switcher_step (switcher_step ?s (SwitchOpen True))"
    by (rule reachable.event [where s = ?s], rule reachable.initial) (simp_all add: switcher_start_def switcher_view_def)
  then show ?thesis by (simp add: menu_open_def set_sw_open_def membership_effect_def call_api_def)
qed

theorem switching_is_orderly_witness:
  "sw_open menu_open \<and> sw_memberships menu_open = None \<and> filter (\<lambda>f. f = ListFetch True) (flights menu_open) = [ListFetch True]"
  using switching_is_orderly [OF menu_open_reachable] by (simp add: menu_open_def)

theorem failed_list_shows_nothing_witness:
  "switcher_view ''Acme'' (switcher_step menu_open (SwitchSettled 0 (Unreachable ''Failed to fetch''))) =
     [Press ''Organization: Acme. Switch organization'' (SwitchOpen False) False, Note ''Organizations'']"
  using failed_list_shows_nothing [of 0 menu_open "Unreachable ''Failed to fetch''" "Thrown (ErrorValue ''Failed to fetch'')" "''Acme''"]
  by (simp add: menu_open_def apiResult_def Let_def del: switcher_step.simps)

end
