(* ===== verification/PasskeysPanel.thy ===== *)
theory PasskeysPanel imports RowActions begin

text \<open>
  Registering a passkey (web/components/passkeys-panel.tsx): the panel around the passkey rows of
  \<open>RowActions\<close>, whose form runs the registration ceremony, two requests with the authenticator's prompt in
  between.
\<close>

section \<open>Model\<close>

text \<open>
  A handler cut at its awaits: the first request, the prompt (\<open>createCredential\<close> of \<open>Webauthn\<close>, whose outcome
  comes back as an event), the second request.  Each flight holds \<open>nickname\<close> as the handler had captured it.
\<close>

datatype registration = RegisterBegin string | RegisterPrompt string | RegisterFinish string

datatype registered = Replied reply | Attested "thrown + json"

record passkeys_panel = "registration form" +
  pp_adding :: bool
  pp_nickname :: string
  pp_supported :: bool

datatype panel_event =
    PanelMounted bool
  | PanelAdd
  | PanelNickname string
  | PanelRegister
  | PanelCancel
  | PanelSettled nat registered

definition panel_initial :: "passkeys_panel \<Rightarrow> bool" where
  "panel_initial s = (s = \<lparr>flights = [], effects = [], pending = False, problem = None, pp_adding = False, pp_nickname = [],
     pp_supported = True\<rparr>)"

definition register_begin_call :: api_call where
  "register_begin_call = \<lparr>ac_path = ''/api/auth/passkeys/register/begin'', ac_method = ''POST'', ac_body = None\<rparr>"

definition register_finish_call :: "string \<Rightarrow> json \<Rightarrow> api_call" where
  "register_finish_call n credential = post_call ''/api/auth/passkeys/register/finish''
     (obj [(''nickname'', Some (JStr (trim n))), (''credential'', Some credential)])"

text \<open>What \<open>describePasskeyError\<close> sees of an error of \<open>apiFetch\<close>: an \<open>Error\<close> with its message.\<close>

definition thrown_of :: "failure \<Rightarrow> thrown" where
  "thrown_of e = (case e of ApiError st c m d \<Rightarrow> ErrorValue m | Thrown t \<Rightarrow> t)"

text \<open>What an await of \<open>register\<close> ends with: the value, or what is thrown.\<close>

definition await_result :: "registered \<Rightarrow> thrown + json" where
  "await_result out = (case out of
     Replied r \<Rightarrow> (case apiResult r of Inl e \<Rightarrow> Inl (thrown_of e) | Inr j \<Rightarrow> Inr j)
   | Attested p \<Rightarrow> p)"

definition register_failed :: "thrown \<Rightarrow> passkeys_panel \<Rightarrow> passkeys_panel" where
  "register_failed e s = s\<lparr>problem := Some (describePasskeyError e), pending := False\<rparr>"

definition registered_toast :: "string \<Rightarrow> string" where
  "registered_toast n = trim n @ '' added. You'll be asked for it when you sign in.''"

fun register_resume :: "registration \<Rightarrow> registered \<Rightarrow> passkeys_panel \<Rightarrow> passkeys_panel" where
  "register_resume (RegisterBegin n) out s = (case await_result out of
     Inl e \<Rightarrow> register_failed e s
   | Inr options \<Rightarrow> s\<lparr>flights := flights s @ [RegisterPrompt n]\<rparr>)"
| "register_resume (RegisterPrompt n) out s = (case await_result out of
     Inl e \<Rightarrow> register_failed e s
   | Inr credential \<Rightarrow> call_api (RegisterFinish n) (register_finish_call n credential) s)"
| "register_resume (RegisterFinish n) out s = (case await_result out of
     Inl e \<Rightarrow> register_failed e s
   | Inr j \<Rightarrow> (emit Refreshes ((emit (Toasts (registered_toast n)) s)\<lparr>pp_nickname := [], pp_adding := False\<rparr>))\<lparr>pending := False\<rparr>)"

definition register :: "passkeys_panel \<Rightarrow> passkeys_panel" where
  "register s = call_api (RegisterBegin (pp_nickname s)) register_begin_call (start_pending s)"

definition land :: "nat \<Rightarrow> registered \<Rightarrow> passkeys_panel \<Rightarrow> passkeys_panel" where
  "land i out s = (case out of
     Replied r \<Rightarrow> arrive i r s
   | Attested p \<Rightarrow> s\<lparr>flights := take i (flights s) @ drop (Suc i) (flights s)\<rparr>)"

fun passkeys_step :: "passkeys_panel \<Rightarrow> panel_event \<Rightarrow> passkeys_panel" where
  "passkeys_step s (PanelMounted b) = s\<lparr>pp_supported := b\<rparr>"
| "passkeys_step s PanelAdd = s\<lparr>pp_adding := True\<rparr>"
| "passkeys_step s (PanelNickname t) = s\<lparr>pp_nickname := t\<rparr>"
| "passkeys_step s PanelRegister = register s"
| "passkeys_step s PanelCancel = s\<lparr>pp_adding := False, problem := None\<rparr>"
| "passkeys_step s (PanelSettled i out) =
     (if i < length (flights s) then register_resume (flights s ! i) out (land i out s) else s)"

definition passkeys_view :: "bool \<Rightarrow> passkey list \<Rightarrow> passkeys_panel \<Rightarrow> panel_event elem list" where
  "passkeys_view enabled ps s =
     (if \<not> enabled then [Note ''Passkeys are off on this deployment'']
      else (if ps = [] then [Note ''No passkeys''] else []) @
        (if \<not> pp_supported s then [Note ''This browser can't create passkeys.'']
         else if pp_adding s then
           [Field ''nickname'' (pp_nickname s)] @ problem_note s @
           [Press ''Continue'' PanelRegister (pending s), Press ''Cancel'' PanelCancel (pending s)]
         else [Press ''Add passkey'' PanelAdd False]))"

text \<open>A request ends with an answer, the prompt with what the authenticator did.\<close>

definition fits :: "registration \<Rightarrow> registered \<Rightarrow> bool" where
  "fits f out = (case f of RegisterPrompt n \<Rightarrow> (\<exists>p. out = Attested p) | _ \<Rightarrow> (\<exists>r. out = Replied r))"

fun passkeys_offers :: "bool \<Rightarrow> passkey list \<Rightarrow> passkeys_panel \<Rightarrow> panel_event \<Rightarrow> bool" where
  "passkeys_offers enabled ps s (PanelNickname t) = editable (passkeys_view enabled ps s) ''nickname''"
| "passkeys_offers enabled ps s (PanelSettled i out) = (i < length (flights s) \<and> fits (flights s ! i) out)"
| "passkeys_offers enabled ps s (PanelMounted b) = True"
| "passkeys_offers enabled ps s e = pressable (passkeys_view enabled ps s) e"

section \<open>Lemmas\<close>

lemma panel_frame [simp]:
  "pp_adding (call_api f c s) = pp_adding s" "pp_adding (arrive i r s) = pp_adding s" "pp_adding (emit x s) = pp_adding s"
  "pp_adding (start_pending s) = pp_adding s"
  "pp_nickname (call_api f c s) = pp_nickname s" "pp_nickname (arrive i r s) = pp_nickname s" "pp_nickname (emit x s) = pp_nickname s"
  "pp_nickname (start_pending s) = pp_nickname s"
  by (simp_all add: form_defs)

lemma land_sel [simp]:
  "flights (land i out s) = take i (flights s) @ drop (Suc i) (flights s)" "pending (land i out s) = pending s"
  "pp_adding (land i out s) = pp_adding s" "calls (effects (land i out s)) = calls (effects s)"
  "problem (land i out s) = problem s" "pp_nickname (land i out s) = pp_nickname s"
  by (simp_all add: land_def split: registered.splits)

definition registers :: "api_call \<Rightarrow> bool" where
  "registers c = (c = register_begin_call \<or> (\<exists>n cr. c = register_finish_call n cr))"

lemma registers_simps [simp]: "registers register_begin_call" "registers (register_finish_call n cr)"
  unfolding registers_def by blast+

text \<open>One ceremony at a time, with its form on screen.\<close>

definition panel_inv :: "passkeys_panel \<Rightarrow> bool" where
  "panel_inv s = (one_flight s \<and> (pending s \<longrightarrow> pp_adding s) \<and> list_all registers (calls (effects s)))"

lemma passkeys_view_offers:
  "pressable (passkeys_view enabled ps s) e \<longleftrightarrow> enabled \<and> pp_supported s \<and>
     (if pp_adding s then (e = PanelRegister \<or> e = PanelCancel) \<and> \<not> pending s else e = PanelAdd)"
  by (auto simp: passkeys_view_def)

lemma register_resume_inv:
  assumes "panel_inv s" "i < length (flights s)"
  shows "panel_inv (register_resume (flights s ! i) out (land i out s))"
proof -
  have i: "i = 0" "pending s" "length (flights s) = 1" "pp_adding s"
    using assms by (auto simp: panel_inv_def one_flight_def split: if_splits)
  have c: "list_all registers (calls (effects s))" using assms(1) by (simp add: panel_inv_def)
  define t where "t = land i out s"
  have t: "flights t = []" "pending t" "pp_adding t" "list_all registers (calls (effects t))"
    using i c by (simp_all add: t_def)
  show ?thesis unfolding t_def [symmetric]
    using t by (cases "flights s ! i") (simp_all add: panel_inv_def one_flight_def register_failed_def split: sum.splits)
qed

lemma panel_inv_step:
  assumes "panel_inv s" "passkeys_offers enabled ps s e"
  shows "panel_inv (passkeys_step s e)"
proof (cases e)
  case (PanelSettled i out)
  with assms register_resume_inv show ?thesis by simp
next
  case PanelRegister
  with assms show ?thesis by (simp add: panel_inv_def one_flight_def register_def passkeys_view_offers split: if_splits)
next
  case PanelCancel
  with assms show ?thesis by (simp add: panel_inv_def one_flight_def passkeys_view_offers split: if_splits)
qed (use assms(1) in \<open>simp_all add: panel_inv_def one_flight_def\<close>)

interpretation enrolling: component panel_initial "passkeys_offers enabled ps" passkeys_step panel_inv for enabled ps
proof unfold_locales
  show "panel_initial s \<Longrightarrow> panel_inv s" for s by (simp add: panel_initial_def panel_inv_def one_flight_def)
qed (rule panel_inv_step)
section \<open>Properties\<close>

text \<open>How many settlings a ceremony still needs at most.\<close>

definition remaining :: "passkeys_panel \<Rightarrow> nat" where
  "remaining s = (case flights s of RegisterBegin n # fs \<Rightarrow> 3 | RegisterPrompt n # fs \<Rightarrow> 2 | RegisterFinish n # fs \<Rightarrow> 1 | [] \<Rightarrow> 0)"

definition settle_next :: "passkeys_panel \<Rightarrow> registered \<Rightarrow> passkeys_panel" where
  "settle_next s out = (if pending s then passkeys_step s (PanelSettled 0 out) else s)"

lemma idle_stays: "\<not> pending s \<Longrightarrow> foldl settle_next s outs = s"
  by (induction outs arbitrary: s) (simp_all add: settle_next_def)

lemma settle_next_progress:
  assumes "panel_inv s" "pending s"
  shows "panel_inv (settle_next s out) \<and> (pending (settle_next s out) \<longrightarrow> remaining (settle_next s out) < remaining s)"
proof -
  have l: "length (flights s) = 1" using assms by (simp add: panel_inv_def one_flight_def)
  then obtain f where f: "flights s = [f]" by (metis One_nat_def length_0_conv length_Suc_conv)
  have "panel_inv (register_resume (flights s ! 0) out (land 0 out s))" by (rule register_resume_inv [OF assms(1)]) (simp add: f)
  moreover have "pending (register_resume f out (land 0 out s)) \<longrightarrow> remaining (register_resume f out (land 0 out s)) < remaining s"
    by (cases f) (simp_all add: f remaining_def register_failed_def split: sum.splits)
  ultimately show ?thesis using assms(2) by (simp add: settle_next_def f)
qed

lemma settles_within: "panel_inv s \<Longrightarrow> remaining s \<le> length outs \<Longrightarrow> \<not> pending (foldl settle_next s outs)"
proof (induction outs arbitrary: s)
  case Nil
  then show ?case by (auto simp: panel_inv_def one_flight_def remaining_def split: list.splits registration.splits if_splits)
next
  case (Cons out outs)
  show ?case
  proof (cases "pending s")
    case True
    note p = settle_next_progress [OF Cons.prems(1) True, of out]
    show ?thesis
    proof (cases "pending (settle_next s out)")
      case True
      with p Cons show ?thesis by simp
    qed (simp add: idle_stays)
  next
    case False
    then have "settle_next s out = s" by (simp add: settle_next_def)
    with False show ?thesis by (simp add: idle_stays)
  qed
qed

lemma remaining_le: "remaining s \<le> 3"
  by (simp add: remaining_def split: list.splits registration.splits)

text \<open>A passkey is registered by a whole ceremony.  The panel asks to register a credential only in the step in which the
  authenticator has just returned it, and sends it unchanged with the name that was typed when the form was
  sent; every other request is the opening one.  And a ceremony ends: whatever the server and the authenticator answer, after at most three
  answers the form is idle again.\<close>

theorem passkeys_come_from_a_ceremony:
  assumes "reachable panel_initial (passkeys_offers enabled ps) passkeys_step s"
  shows "(\<forall>e c. passkeys_offers enabled ps s e \<and> c \<in> set (drop (length (calls (effects s))) (calls (effects (passkeys_step s e)))) \<longrightarrow>
      e = PanelRegister \<and> c = register_begin_call \<or>
      (\<exists>n cr. e = PanelSettled 0 (Attested (Inr cr)) \<and> flights s = [RegisterPrompt n] \<and> c = register_finish_call n cr)) \<and>
    one_flight s \<and> (\<forall>outs. length outs = 3 \<longrightarrow> \<not> pending (foldl settle_next s outs))"
proof -
  have inv: "panel_inv s" using assms by (rule enrolling.always)
  have sent: "e = PanelRegister \<and> c = register_begin_call \<or>
      (\<exists>n cr. e = PanelSettled 0 (Attested (Inr cr)) \<and> flights s = [RegisterPrompt n] \<and> c = register_finish_call n cr)"
    if o: "passkeys_offers enabled ps s e" and c: "c \<in> set (drop (length (calls (effects s))) (calls (effects (passkeys_step s e))))" for e c
  proof (cases e)
    case (PanelSettled i out)
    then have "i < length (flights s)" "fits (flights s ! i) out" using o by simp_all
    moreover from this have "i = 0 \<and> length (flights s) = 1" using inv by (auto simp: panel_inv_def one_flight_def split: if_splits)
    ultimately obtain f where f: "flights s = [f]" "i = 0" "fits f out" by (metis One_nat_def length_0_conv length_Suc_conv nth_Cons_0)
    show ?thesis
    proof (cases f)
      case (RegisterPrompt n)
      then obtain p where "out = Attested p" using f(3) by (auto simp: fits_def)
      with c f PanelSettled RegisterPrompt show ?thesis
        by (cases p) (simp_all add: await_result_def register_failed_def)
    qed (use c f PanelSettled in \<open>simp_all add: register_failed_def split: sum.splits\<close>)
  qed (use c in \<open>simp_all add: register_def\<close>)
  have "\<not> pending (foldl settle_next s outs)" if "length outs = 3" for outs
    using settles_within [OF inv, of outs] remaining_le [of s] that by simp
  with sent inv show ?thesis unfolding panel_inv_def by blast
qed

definition prompting :: passkeys_panel where
  "prompting = \<lparr>flights = [RegisterPrompt '' key ''], effects = [Calls register_begin_call], pending = True, problem = None,
     pp_adding = True, pp_nickname = '' key '', pp_supported = True\<rparr>"

lemma prompting_reachable: "reachable panel_initial (passkeys_offers True []) passkeys_step prompting"
proof -
  let ?s = "\<lparr>flights = [], effects = [], pending = False, problem = None, pp_adding = False, pp_nickname = [],
     pp_supported = True\<rparr> :: passkeys_panel"
  let ?es = "[PanelAdd, PanelNickname '' key '', PanelRegister, PanelSettled 0 (Replied (Reply 200 (Some (JObj []))))]"
  have "reachable panel_initial (passkeys_offers True []) passkeys_step ?s" by (rule reachable.initial) (simp add: panel_initial_def)
  moreover have "legal (passkeys_offers True []) passkeys_step ?s ?es"
    by (simp add: passkeys_view_def register_def fits_def call_api_def start_pending_def)
  ultimately have "reachable panel_initial (passkeys_offers True []) passkeys_step (foldl passkeys_step ?s ?es)" by (rule legal_reachable)
  then show ?thesis
    by (simp add: prompting_def register_def await_result_def apiResult_def reply_ok_def payload_of_def land_def arrive_def ends_session_def
        call_api_def start_pending_def)
qed

theorem passkeys_come_from_a_ceremony_witness:
  "calls (effects (passkeys_step prompting (PanelSettled 0 (Attested (Inr (JObj [])))))) =
     [register_begin_call, register_finish_call '' key '' (JObj [])] \<and>
   \<not> pending (foldl settle_next prompting [Attested (Inr (JObj [])), Replied (Reply 200 None), Attested (Inl OtherThrown)])"
proof -
  have "\<not> pending (foldl settle_next prompting [Attested (Inr (JObj [])), Replied (Reply 200 None), Attested (Inl OtherThrown)])"
    using passkeys_come_from_a_ceremony [OF prompting_reachable] by (simp del: foldl.simps)
  then show ?thesis by (simp add: prompting_def await_result_def land_def del: foldl.simps)
qed

end
