(* ===== verification/Pages.thy ===== *)
theory Pages imports ResourceRoutes AccessView SecretsTable begin

text \<open>
  The server-rendered pages (web/app, the page and layout modules): which of them a browser is given, which
  requests they make of the core API and what they hand to the components they render.  The markup around
  those components is left out.  A page runs in the same process as the routes, over the same state.
\<close>

section \<open>What a page comes to\<close>

text \<open>
  \<open>redirect\<close> and \<open>notFound\<close> end a page; an exception that leaves it is shown by the error page of its
  segment.
\<close>

datatype 'a page = Redirects string | NotFound | Renders 'a

text \<open>
  \<open>Promise.all\<close>: both are started whatever becomes of the first; of two failures the one listed first is
  thrown.
\<close>

definition attempt :: "'a bff \<Rightarrow> (exn + 'a) bff" where
  "attempt m = (\<lambda>sv w. case m sv w of (r, w') \<Rightarrow> (Inr r, w'))"

definition both :: "'a bff \<Rightarrow> 'b bff \<Rightarrow> ('a \<times> 'b) bff" where
  "both m n = seq (attempt m) (\<lambda>a. seq (attempt n) (\<lambda>b. lift_ok (then_ok a (\<lambda>x. then_ok b (\<lambda>y. Inr (x, y))))))"

text \<open>\<open>v ?? []\<close>, and the array methods on it, which throw on anything but an array.\<close>

definition or_empty :: "jsval \<Rightarrow> json" where
  "or_empty v = the (coalesce v (Some (JArr [])))"

definition array_of :: "json \<Rightarrow> exn + json list" where
  "array_of j = (case j of JArr xs \<Rightarrow> Inr xs | _ \<Rightarrow> Inl TypeError)"

text \<open>\<open>x.k\<close> in a callback, which throws on \<open>null\<close>.\<close>

definition member_of :: "json \<Rightarrow> string \<Rightarrow> exn + jsval" where
  "member_of x k = (if x = JNull then Inl TypeError else Inr (field x k))"

fun find_ok :: "('a \<Rightarrow> exn + bool) \<Rightarrow> 'a list \<Rightarrow> exn + 'a option" where
  "find_ok P [] = Inr None"
| "find_ok P (x # xs) = then_ok (P x) (\<lambda>b. if b then Inr (Some x) else find_ok P xs)"

definition filter_ok :: "('a \<Rightarrow> exn + bool) \<Rightarrow> 'a list \<Rightarrow> exn + 'a list" where
  "filter_ok P xs = then_ok (map_ok P xs) (\<lambda>bs. Inr (map fst (filter snd (zip xs bs))))"

text \<open>\<open>list.find((e) => e.slug === slug)\<close> and \<open>list.filter((i) => i.active)\<close>\<close>

definition by_slug :: "string \<Rightarrow> json list \<Rightarrow> exn + json option" where
  "by_slug slug = find_ok (\<lambda>x. then_ok (member_of x ''slug'') (\<lambda>v. Inr (v = Some (JStr slug))))"

definition only_active :: "json \<Rightarrow> exn + json list" where
  "only_active j = then_ok (array_of j) (filter_ok (\<lambda>x. then_ok (member_of x ''active'') (\<lambda>v. Inr (truthy v))))"

text \<open>\<open>const { name } = await callCoreApi(path)\<close>, with \<open>name ?? []\<close> where it is used.\<close>

definition listing :: "string \<Rightarrow> string \<Rightarrow> json bff" where
  "listing path name = seq (callCoreApi path get_options) (\<lambda>r. seq (getprop r name) (\<lambda>v. ret (or_empty v)))"

section \<open>The gates\<close>

text \<open>
  \<open>try { user = await callCoreApi("/auth/session") } catch\<close>: a session the core API does not accept is sent to
  sign-in.
\<close>

definition session_or_login :: "(string + jsval) bff" where
  "session_or_login = seq getSessionToken (\<lambda>token.
     if \<not> truthy token then ret (Inl ''/login'')
     else try_catch (seq (callCoreApi ''/auth/session'' get_options) (\<lambda>user. ret (Inr user)))
       (\<lambda>e. if e = NotAuthenticatedError then ret (Inl ''/login'') else throw e))"

text \<open>The project tree of the sidebar; a failure costs the tree and not the shell.\<close>

definition sidebar_projects :: "json bff" where
  "sidebar_projects = try_catch (listing ''/projects'' ''projects'') (\<lambda>e. ret (JArr []))"

definition dashboard_layout :: "(jsval \<times> json) page bff" where
  "dashboard_layout = seq session_or_login (\<lambda>s. case s of
       Inl path \<Rightarrow> ret (Redirects path)
     | Inr user \<Rightarrow> seq (getprop user ''organizationId'') (\<lambda>org.
         if \<not> truthy org then ret (Redirects ''/welcome'')
         else seq sidebar_projects (\<lambda>projects. ret (Renders (user, projects)))))"

definition welcome_page :: "unit page bff" where
  "welcome_page = seq session_or_login (\<lambda>s. case s of
       Inl path \<Rightarrow> ret (Redirects path)
     | Inr user \<Rightarrow> seq (getprop user ''organizationId'') (\<lambda>org.
         if truthy org then ret (Redirects ''/projects'') else ret (Renders ())))"

text \<open>It renders the problem with the configuration, or the form.\<close>

definition login_page :: "string option page bff" where
  "login_page = seq configurationProblem (\<lambda>problem.
     let ok = (case problem of Some (c # cs) \<Rightarrow> False | _ \<Rightarrow> True) in
     if ok then seq getSessionToken (\<lambda>token. if truthy token then ret (Redirects ''/projects'') else ret (Renders None))
     else ret (Renders problem))"

definition signup_page :: "unit page bff" where
  "signup_page = seq getSessionToken (\<lambda>token. if truthy token then ret (Redirects ''/projects'') else ret (Renders ()))"

text \<open>The guard of a project: a project of another organization is one that does not exist.\<close>

definition project_layout :: "string \<Rightarrow> unit page bff" where
  "project_layout pid =
     try_catch (seq (callCoreApi (''/projects/'' @ pid) get_options) (\<lambda>p. ret (Renders ())))
       (\<lambda>e. case e of CoreApiError status k m d \<Rightarrow> if status = 404 then ret NotFound else throw e | _ \<Rightarrow> throw e)"

section \<open>The pages of a project\<close>

definition projects_page :: "json page bff" where
  "projects_page = seq (listing ''/projects'' ''projects'') (\<lambda>l. ret (Renders l))"

definition project_path :: "string \<Rightarrow> string" where
  "project_path pid = ''/projects/'' @ pid"

definition environments_path :: "string \<Rightarrow> string" where
  "environments_path pid = project_path pid @ ''/environments''"

text \<open>\<open>list.find(development) ?? list[0]\<close>\<close>

definition landing_environment :: "json list \<Rightarrow> exn + json option" where
  "landing_environment xs = then_ok (by_slug ''development'' xs) (\<lambda>f. Inr (case f of
       Some x \<Rightarrow> Some x | None \<Rightarrow> (case xs of x # _ \<Rightarrow> Some x | [] \<Rightarrow> None)))"

definition project_page :: "string \<Rightarrow> jsval page bff" where
  "project_page pid = seq (listing (environments_path pid) ''environments'') (\<lambda>l.
     seq (lift_ok (then_ok (array_of l) landing_environment)) (\<lambda>target.
     if \<not> truthy target then seq (callCoreApi (project_path pid) get_options) (\<lambda>project. ret (Renders project))
     else ret (Redirects (environments_path pid @ ''/'' @ js_string (optfield target ''id'')))))"

record environment_view =
  ev_environments :: json
  ev_selected :: json
  ev_secrets :: json
  ev_grants :: json
  ev_project_slug :: jsval
  ev_environment_slug :: jsval
  ev_runtime_url :: "string option"

text \<open>
  \<open>(env ? environments?.find(slug === env) : undefined)?.id ?? environmentId\<close>: a slug that names no environment
  falls back to the one of the route.
\<close>

definition selected_environment :: "jsval \<Rightarrow> string option \<Rightarrow> string \<Rightarrow> exn + json" where
  "selected_environment environments env eid =
     (case env of
        Some (c # cs) \<Rightarrow>
          if nullish environments then Inr (JStr eid)
          else then_ok (then_ok (array_of (the environments)) (by_slug (c # cs)))
            (\<lambda>f. Inr (the (coalesce (optfield f ''id'') (Some (JStr eid)))))
      | _ \<Rightarrow> Inr (JStr eid))"

definition environment_page :: "string \<Rightarrow> string \<Rightarrow> string option \<Rightarrow> environment_view page bff" where
  "environment_page pid eid env =
     seq (both (callCoreApi (project_path pid) get_options) (callCoreApi (environments_path pid) get_options)) (\<lambda>(project, answered).
     seq (getprop answered ''environments'') (\<lambda>environments.
     seq (lift_ok (selected_environment environments env eid)) (\<lambda>here.
     seq (callCoreApi (''/environments/'' @ json_string here @ ''/secrets'') get_options) (\<lambda>l.
     seq (getprop l ''secrets'') (\<lambda>secrets.
     seq (try_catch (listing (project_path pid @ ''/access'') ''grants'') (\<lambda>e. ret (JArr []))) (\<lambda>grants.
     seq (getprop project ''slug'') (\<lambda>pslug.
     seq (getprop l ''environment'') (\<lambda>environment.
     seq (getprop environment ''slug'') (\<lambda>eslug.
     seq (asks cliRuntimeUrl) (\<lambda>runtimeUrl.
     ret (Renders \<lparr>ev_environments = or_empty environments, ev_selected = here, ev_secrets = or_empty secrets,
       ev_grants = grants, ev_project_slug = pslug, ev_environment_slug = eslug, ev_runtime_url = runtimeUrl\<rparr>)))))))))))"

text \<open>
  Who can reach a secret, over the grants as the type of the page has them: for each secret who may use it and
  who may read it, and until when.
\<close>

definition applies :: "string \<Rightarrow> grant list \<Rightarrow> string \<Rightarrow> grant list" where
  "applies env grants sid = filter (\<lambda>g. (gr_secretId g = None \<or> gr_secretId g = Some sid) \<and>
     (gr_environmentId g = None \<or> gr_environmentId g = Some env)) grants"

definition granted_subject :: "grant \<Rightarrow> subject" where
  "granted_subject g = \<lparr>sj_name = gr_subjectName g, sj_kind = gr_subjectKind g\<rparr>"

definition secret_reach :: "string \<Rightarrow> grant list \<Rightarrow> string \<Rightarrow> subject list \<times> (subject \<times> string option) list" where
  "secret_reach env grants sid =
     (map granted_subject (filter gr_canUse (applies env grants sid)),
      map (\<lambda>g. (granted_subject g, gr_expiresAt g)) (filter gr_canReveal (applies env grants sid)))"

definition reach_map :: "string \<Rightarrow> grant list \<Rightarrow> string list \<Rightarrow> (string \<times> (subject list \<times> (subject \<times> string option) list)) list" where
  "reach_map env grants sids = new_map (map (\<lambda>sid. (sid, secret_reach env grants sid)) sids)"

definition usable_count :: "string \<Rightarrow> grant list \<Rightarrow> string list \<Rightarrow> nat" where
  "usable_count env grants sids =
     length (filter (\<lambda>sid. case map_of (reach_map env grants sids) sid of Some r \<Rightarrow> fst r \<noteq> [] | None \<Rightarrow> False) sids)"

definition readable_count :: "string \<Rightarrow> grant list \<Rightarrow> string list \<Rightarrow> nat" where
  "readable_count env grants sids =
     length (filter (\<lambda>sid. case map_of (reach_map env grants sids) sid of Some r \<Rightarrow> snd r \<noteq> [] | None \<Rightarrow> False) sids)"

text \<open>The access screen: one grid per environment; an environment whose secrets cannot be listed has none.\<close>

record access_view =
  av_environments :: json
  av_identities :: "json list"
  av_members :: "json list"
  av_grids :: "(json \<times> json) list"
  av_grants :: json

fun each :: "('a \<Rightarrow> 'b bff) \<Rightarrow> 'a list \<Rightarrow> 'b list bff" where
  "each f [] = ret []"
| "each f (x # xs) = seq (f x) (\<lambda>y. seq (each f xs) (\<lambda>ys. ret (y # ys)))"

definition environment_secrets :: "json \<Rightarrow> (json \<times> json) bff" where
  "environment_secrets environment = try_catch
     (seq (getprop (Some environment) ''id'') (\<lambda>i.
      seq (listing (''/environments/'' @ js_string i @ ''/secrets'') ''secrets'') (\<lambda>secrets. ret (environment, secrets))))
     (\<lambda>e. ret (environment, JArr []))"

definition access_page :: "string \<Rightarrow> access_view page bff" where
  "access_page pid =
     seq (both (callCoreApi (project_path pid) get_options) (both (callCoreApi (project_path pid @ ''/access'') get_options)
       (both (callCoreApi (environments_path pid) get_options)
       (both (callCoreApi ''/identities'' get_options) (callCoreApi ''/members'' get_options)))))
       (\<lambda>(project, grants, environments, identities, members).
     seq (getprop environments ''environments'') (\<lambda>es.
     seq (lift_ok (array_of (or_empty es))) (\<lambda>environmentList.
     seq (each environment_secrets environmentList) (\<lambda>perEnvironment.
     seq (getprop identities ''identities'') (\<lambda>ids.
     seq (lift_ok (only_active (or_empty ids))) (\<lambda>activeIdentities.
     seq (getprop members ''members'') (\<lambda>ms.
     seq (lift_ok (only_active (or_empty ms))) (\<lambda>activeMembers.
     seq (getprop grants ''grants'') (\<lambda>gs.
     ret (Renders \<lparr>av_environments = or_empty es, av_identities = activeIdentities, av_members = activeMembers,
       av_grids = perEnvironment, av_grants = or_empty gs\<rparr>))))))))))"

text \<open>The grids are drawn when any of them has a secret.\<close>

definition shows_grids :: "access_view \<Rightarrow> bool" where
  "shows_grids v = list_ex (\<lambda>(environment, secrets). case secrets of JArr (x # xs) \<Rightarrow> True | _ \<Rightarrow> False) (av_grids v)"

text \<open>What the dialog that makes a token is given, and the tokens.\<close>

definition tokens_page :: "string \<Rightarrow> (json \<times> json list \<times> json) page bff" where
  "tokens_page pid =
     seq (both (callCoreApi (project_path pid) get_options) (both (callCoreApi (project_path pid @ ''/tokens'') get_options)
       (both (callCoreApi (environments_path pid) get_options) (callCoreApi ''/identities'' get_options))))
       (\<lambda>(project, tokens, environments, identities).
     seq (getprop environments ''environments'') (\<lambda>es.
     seq (getprop identities ''identities'') (\<lambda>ids.
     seq (lift_ok (only_active (or_empty ids))) (\<lambda>active.
     seq (getprop tokens ''tokens'') (\<lambda>ts. ret (Renders (or_empty es, active, or_empty ts)))))))"

definition project_audit_page :: "string \<Rightarrow> json page bff" where
  "project_audit_page pid =
     seq (both (callCoreApi (project_path pid) get_options) (callCoreApi (project_path pid @ ''/audit?limit=100'') get_options))
       (\<lambda>(project, answered). seq (getprop answered ''events'') (\<lambda>events. ret (Renders (or_empty events))))"

section \<open>The pages of the organization\<close>

definition audit_page :: "json page bff" where
  "audit_page = seq (listing ''/audit?limit=100'' ''events'') (\<lambda>events. ret (Renders events))"

definition identities_page :: "json page bff" where
  "identities_page = seq (listing ''/identities'' ''identities'') (\<lambda>l. ret (Renders l))"

record members_view =
  mv_members :: json
  mv_me :: jsval
  mv_can_recover :: bool
  mv_outstanding :: "json list"

definition members_page :: "members_view page bff" where
  "members_page =
     seq (both (callCoreApi ''/members'' get_options) (both (callCoreApi ''/members/invitations'' get_options)
       (callCoreApi ''/auth/session'' get_options))) (\<lambda>(m, i, user).
     seq (getprop m ''members'') (\<lambda>members.
     seq (getprop i ''invitations'') (\<lambda>invitations.
     seq (lift_ok (then_ok (array_of (or_empty invitations))
       (filter_ok (\<lambda>x. then_ok (member_of x ''status'') (\<lambda>v. Inr (v = Some (JStr ''PENDING''))))))) (\<lambda>outstanding.
     seq (getprop user ''id'') (\<lambda>me.
     seq (getprop user ''role'') (\<lambda>role.
     ret (Renders \<lparr>mv_members = or_empty members, mv_me = me, mv_can_recover = (role = Some (JStr ''OWNER'')),
       mv_outstanding = outstanding\<rparr>)))))))"

text \<open>The account, with the role in lower case, the passkeys and how many recovery codes remain.\<close>

record settings_view =
  tv_fields :: "(string \<times> jsval) list"
  tv_role :: string
  tv_passkeys :: jsval
  tv_enabled :: jsval
  tv_remaining :: jsval

definition settings_page :: "settings_view page bff" where
  "settings_page =
     seq (both (callCoreApi ''/auth/session'' get_options) (both (callCoreApi ''/auth/passkeys'' get_options)
       (callCoreApi ''/auth/recovery-codes'' get_options))) (\<lambda>(user, passkeys, recovery).
     seq (getprop user ''name'') (\<lambda>name.
     seq (getprop user ''email'') (\<lambda>email.
     seq (getprop user ''organization'') (\<lambda>organization.
     seq (getprop user ''role'') (\<lambda>role.
     seq (case role of Some (JStr r) \<Rightarrow> ret (toLowerCase r) | _ \<Rightarrow> throw TypeError) (\<lambda>lower.
     seq (getprop passkeys ''passkeys'') (\<lambda>ps.
     seq (getprop passkeys ''enabled'') (\<lambda>on.
     seq (getprop recovery ''remaining'') (\<lambda>n.
     ret (Renders \<lparr>tv_fields = [(''Name'', name), (''Email'', email), (''Organization'', organization)],
       tv_role = lower, tv_passkeys = ps, tv_enabled = on, tv_remaining = n\<rparr>))))))))))"

section \<open>Lemmas\<close>

lemma attempt_eval: "attempt m sv w = (Inr (fst (m sv w)), snd (m sv w))"
  by (simp add: attempt_def split: prod.splits)

lemma both_Inr:
  "both m n sv w = (Inr (a, b), w') \<longleftrightarrow> (\<exists>v. m sv w = (Inr a, v) \<and> n sv v = (Inr b, w'))"
  by (cases "m sv w"; cases "n sv (snd (m sv w))"; cases "fst (m sv w)"; cases "fst (n sv (snd (m sv w)))")
    (auto simp: both_def seq_eval attempt_eval bff_simps)

lemma getSessionToken_eval: "getSessionToken sv w = (Inr (call_token get_options (w_jar w)), w)"
  using own_token_eval [of get_options sv w] by (simp add: own_token_def get_options_def no_options_def)

text \<open>What a page does to the state: nothing to the cookies, and the core API is only read.\<close>

definition only_reads :: "world \<Rightarrow> world \<Rightarrow> bool" where
  "only_reads w w' = (w_jar w' = w_jar w \<and>
     (\<exists>rs. w_sent w' = w_sent w @ rs \<and> list_all (\<lambda>r. cr_method r = ''GET'' \<and> cr_body r = None) rs))"

interpretation reads: world_preorder only_reads
  by unfold_locales (fastforce simp: only_reads_def)+

lemma reads_both: "keeps only_reads m \<Longrightarrow> keeps only_reads n \<Longrightarrow> keeps only_reads (both m n)"
  unfolding both_def
  by (intro reads.keeps_rules) (simp_all add: keeps_def attempt_eval)

lemma reads_call: "keeps only_reads (callCoreApi path get_options)"
  by (auto simp: keeps_def only_reads_def callCoreApi_eval Let_def get_options_def no_options_def upstream_def split: sum.splits)

lemma reads_connection: "keeps only_reads connection_of" "keeps only_reads getSessionToken"
  by (simp_all add: keeps_def only_reads_def connection_of_eval getSessionToken_eval)

lemmas page_rules = reads.keeps_rules reads_both reads_call reads_connection

lemma reads_listing: "keeps only_reads (listing path name)"
  unfolding listing_def by (intro page_rules)

lemma reads_session_or_login: "keeps only_reads session_or_login"
  unfolding session_or_login_def by (intro page_rules)

lemma reads_each: "(\<And>x. keeps only_reads (f x)) \<Longrightarrow> keeps only_reads (each f xs)"
  by (induction xs) (auto intro!: page_rules)

lemma reads_configuration: "keeps only_reads configurationProblem"
  unfolding configurationProblem_def by (intro page_rules)

lemma reads_sum: "(\<And>a. keeps only_reads (f a)) \<Longrightarrow> (\<And>b. keeps only_reads (g b)) \<Longrightarrow> keeps only_reads (case_sum f g s)"
  by (cases s) auto

lemma reads_prod: "(\<And>a b. keeps only_reads (f a b)) \<Longrightarrow> keeps only_reads (case_prod f p)"
  by (cases p) auto

lemma reads_string:
  "(\<And>r. keeps only_reads (f r)) \<Longrightarrow> keeps only_reads m \<Longrightarrow> keeps only_reads (case j of JStr r \<Rightarrow> f r | _ \<Rightarrow> m)"
  by (cases j) auto

lemmas page_reads = reads_string reads_listing reads_session_or_login reads_configuration page_rules reads_sum reads_prod

text \<open>A signed-in browser and a core API that gives every request the same answer.\<close>

definition answered :: "exn + jsval \<Rightarrow> server \<Rightarrow> world \<Rightarrow> bool" where
  "answered r sv w = (truthy (call_token get_options (w_jar w)) \<and> (\<exists>c. conn_result sv w = Inr c) \<and>
     (\<forall>n rq. answer_result False (sv_fetch sv n rq) = r))"

lemma answered_call:
  assumes "answered r sv w" "relative_path path"
  shows "\<exists>v. callCoreApi path get_options sv w = (r, v) \<and> answered r sv v"
proof -
  from assms obtain c where c: "conn_result sv w = Inr c" by (auto simp: answered_def)
  have a: "authorization get_options (w_jar w) = Inr (Some (bearer (call_token get_options (w_jar w))))"
    using assms(1) by (simp add: answered_def authorization_def get_options_def no_options_def)
  have "\<not> co_anonymous get_options" by (simp add: get_options_def no_options_def)
  then show ?thesis
    using assms c a
    by (auto simp: callCoreApi_eval Let_def answered_def conn_result_def conn_world_def split: option.splits)
qed

lemma demo_answered: "answered (answer_result False a) (demo_answers a) demo_world"
proof -
  have "truthy (call_token get_options (w_jar demo_world))"
    by (simp add: call_token_def get_options_def no_options_def demo_world_def cookie_get_def)
  then show ?thesis by (simp add: answered_def demo_answers_conn) (simp add: demo_answers_def)
qed

text \<open>Looking at any page of the dashboard changes nothing: whatever the core API answers, building the page sets
  and clears no cookie and sends the core API only reads, without a body.\<close>

theorem pages_only_read:
  "keeps only_reads dashboard_layout \<and> keeps only_reads welcome_page \<and> keeps only_reads login_page \<and>
   keeps only_reads signup_page \<and> keeps only_reads (project_layout pid) \<and> keeps only_reads projects_page \<and>
   keeps only_reads (project_page pid) \<and> keeps only_reads (environment_page pid eid env) \<and>
   keeps only_reads (access_page pid) \<and> keeps only_reads (tokens_page pid) \<and>
   keeps only_reads (project_audit_page pid) \<and> keeps only_reads audit_page \<and> keeps only_reads identities_page \<and>
   keeps only_reads members_page \<and> keeps only_reads settings_page"
proof (intro conjI)
  show "keeps only_reads dashboard_layout"
    unfolding dashboard_layout_def sidebar_projects_def by (intro page_reads)
  show "keeps only_reads welcome_page" unfolding welcome_page_def by (intro page_reads)
  show "keeps only_reads login_page" unfolding login_page_def Let_def by (intro page_reads)
  show "keeps only_reads signup_page" unfolding signup_page_def by (intro page_reads)
  show "keeps only_reads (project_layout pid)"
    unfolding project_layout_def by (intro page_reads) (auto split: exn.split intro: page_reads)
  show "keeps only_reads projects_page" unfolding projects_page_def by (intro page_reads)
  show "keeps only_reads (project_page pid)" unfolding project_page_def by (intro page_reads)
  show "keeps only_reads (environment_page pid eid env)" unfolding environment_page_def by (intro page_reads)
  have "keeps only_reads (environment_secrets e)" for e
    unfolding environment_secrets_def by (intro page_reads)
  then show "keeps only_reads (access_page pid)" unfolding access_page_def by (intro page_reads reads_each)
  show "keeps only_reads (tokens_page pid)" unfolding tokens_page_def by (intro page_reads)
  show "keeps only_reads (project_audit_page pid)" unfolding project_audit_page_def by (intro page_reads)
  show "keeps only_reads audit_page" unfolding audit_page_def by (intro page_reads)
  show "keeps only_reads identities_page" unfolding identities_page_def by (intro page_reads)
  show "keeps only_reads members_page" unfolding members_page_def by (intro page_reads)
  show "keeps only_reads settings_page" unfolding settings_page_def by (intro page_reads)
qed

text \<open>C26: The dashboard renders for nobody without a session the core API has just accepted: its shell is drawn
  only when the browser sent a session cookie and the core API answered the session request made for this very page
  with a user who belongs to an organization.  Without the cookie nothing is sent and the answer is the way to
  sign-in.\<close>

theorem dashboard_needs_a_session:
  "(dashboard_layout sv w = (Inr (Renders (user, projects)), w') \<longrightarrow>
      truthy (call_token get_options (w_jar w)) \<and> truthy (optfield user ''organizationId'') \<and>
      (\<exists>v. callCoreApi ''/auth/session'' get_options sv w = (Inr user, v))) \<and>
   (\<not> truthy (call_token get_options (w_jar w)) \<longrightarrow> dashboard_layout sv w = (Inr (Redirects ''/login''), w))"
proof (intro conjI impI)
  assume r: "dashboard_layout sv w = (Inr (Renders (user, projects)), w')"
  then obtain s v where s: "session_or_login sv w = (Inr s, v)"
    by (auto simp: dashboard_layout_def seq_Inr_iff)
  from r s obtain u where u: "s = Inr u" "truthy (optfield u ''organizationId'')" "u = user"
    by (cases s) (auto simp: dashboard_layout_def seq_Inr_iff bff_simps split: if_splits)
  from s u have t: "truthy (call_token get_options (w_jar w))"
    by (auto simp: session_or_login_def seq_eval getSessionToken_eval bff_simps split: if_splits)
  with s u have "try_catch (seq (callCoreApi ''/auth/session'' get_options) (\<lambda>user. ret (Inr user)))
       (\<lambda>e. if e = NotAuthenticatedError then ret (Inl ''/login'') else throw e) sv w = (Inr (Inr user :: string + jsval), v)"
    by (simp add: session_or_login_def seq_eval getSessionToken_eval)
  then have "\<exists>v. callCoreApi ''/auth/session'' get_options sv w = (Inr user, v)"
    by (cases "callCoreApi ''/auth/session'' get_options sv w")
      (auto simp: try_catch_eval seq_eval bff_simps split: sum.splits if_splits)
  with t u show "truthy (call_token get_options (w_jar w))" "truthy (optfield user ''organizationId'')"
      "\<exists>v. callCoreApi ''/auth/session'' get_options sv w = (Inr user, v)" by auto
next
  assume "\<not> truthy (call_token get_options (w_jar w))"
  then show "dashboard_layout sv w = (Inr (Redirects ''/login''), w)"
    by (simp add: dashboard_layout_def session_or_login_def seq_eval getSessionToken_eval bff_simps)
qed

definition demo_session :: json where
  "demo_session = JObj [(''organizationId'', JStr ''o1''), (''projects'', JArr [])]"

section \<open>Where a browser ends up\<close>

text \<open>
  A browser that follows redirects, over the pages they lead to: at most \<open>n\<close> steps, and the page it stops at.
\<close>

definition visit :: "string \<Rightarrow> unit page bff" where
  "visit path =
     (if path = ''/login'' then seq login_page (\<lambda>p. ret (case p of Redirects q \<Rightarrow> Redirects q | NotFound \<Rightarrow> NotFound | Renders x \<Rightarrow> Renders ()))
      else if path = ''/signup'' then signup_page
      else if path = ''/welcome'' then welcome_page
      else seq dashboard_layout (\<lambda>p. ret (case p of Redirects q \<Rightarrow> Redirects q | NotFound \<Rightarrow> NotFound | Renders x \<Rightarrow> Renders ())))"

fun browse :: "nat \<Rightarrow> string \<Rightarrow> string option bff" where
  "browse 0 path = ret None"
| "browse (Suc n) path = seq (visit path) (\<lambda>p. case p of Redirects q \<Rightarrow> browse n q | NotFound \<Rightarrow> ret (Some path) | Renders x \<Rightarrow> ret (Some path))"

lemma demo_dashboard:
  "\<exists>w'. dashboard_layout (demo_answers (CoreResponse 200 None (Some demo_session))) demo_world =
     (Inr (Renders (Some demo_session, JArr [])), w')"
proof -
  let ?sv = "demo_answers (CoreResponse 200 None (Some demo_session))"
  have r: "answer_result False (CoreResponse 200 None (Some demo_session)) = Inr (Some demo_session)"
    by (simp add: answer_result_def answer_def bff_simps)
  obtain v where v: "callCoreApi ''/auth/session'' get_options ?sv demo_world = (Inr (Some demo_session), v)"
      "answered (Inr (Some demo_session)) ?sv v"
    using answered_call [OF demo_answered [of "CoreResponse 200 None (Some demo_session)", unfolded r], of "''/auth/session''"]
    by (auto simp: relative_path_def startsWith_def)
  obtain u where u: "callCoreApi ''/projects'' get_options ?sv v = (Inr (Some demo_session), u)"
    using answered_call [OF v(2), of "''/projects''"] by (auto simp: relative_path_def startsWith_def)
  have t: "truthy (call_token get_options (w_jar demo_world))"
    using demo_answered by (simp add: answered_def)
  have f: "truthy (field demo_session ''organizationId'')"
      "coalesce (field demo_session ''projects'') (Some (JArr [])) = Some (JArr [])"
      "\<not> nullish (Some demo_session)"
    by code_simp+
  show ?thesis
    by (simp add: dashboard_layout_def session_or_login_def sidebar_projects_def listing_def seq_eval try_catch_eval
        getSessionToken_eval t v u bff_simps f or_empty_def)
qed

theorem dashboard_needs_a_session_witness:
  "let sv = demo_answers (CoreResponse 200 None (Some demo_session)) in
     (\<exists>w'. dashboard_layout sv demo_world = (Inr (Renders (Some demo_session, JArr [])), w')) \<and>
     truthy (call_token get_options (w_jar demo_world)) \<and>
     (\<exists>v. callCoreApi ''/auth/session'' get_options sv demo_world = (Inr (Some demo_session), v)) \<and>
     dashboard_layout sv (demo_world\<lparr>w_jar := Map.empty\<rparr>) = (Inr (Redirects ''/login''), demo_world\<lparr>w_jar := Map.empty\<rparr>)"
proof -
  let ?sv = "demo_answers (CoreResponse 200 None (Some demo_session))"
  obtain w' where r: "dashboard_layout ?sv demo_world = (Inr (Renders (Some demo_session, JArr [])), w')"
    using demo_dashboard by blast
  have "\<not> truthy (call_token get_options (w_jar (demo_world\<lparr>w_jar := Map.empty\<rparr>)))"
    by (simp add: call_token_def get_options_def no_options_def cookie_get_def)
  with r show ?thesis
    using dashboard_needs_a_session [of ?sv demo_world "Some demo_session" "JArr []" w']
      dashboard_needs_a_session [of ?sv "demo_world\<lparr>w_jar := Map.empty\<rparr>" "Some demo_session" "JArr []" w']
    unfolding Let_def by blast
qed

text \<open>C27: A session the core API no longer accepts never reaches the sign-in page.  With a session cookie that the
  core API refuses, the dashboard sends the browser to sign-in, sign-in sees the cookie and sends it back to the
  dashboard, and nothing on the way clears the cookie: however many redirects the browser follows from either page, it
  is given none.\<close>

theorem stale_session_never_reaches_sign_in:
  assumes "answered (Inl NotAuthenticatedError) sv w" "path = ''/login'' \<or> path = ''/projects''"
  shows "\<exists>w'. browse n path sv w = (Inr None, w')"
  using assms
proof (induction n arbitrary: path w)
  case (Suc n)
  define v where "v = conn_world sv w"
  obtain c where c: "conn_result sv w = Inr c" using Suc.prems(1) by (auto simp: answered_def)
  have v: "answered (Inl NotAuthenticatedError) sv v" using Suc.prems(1) by (simp add: v_def answered_def)
  obtain u where u: "callCoreApi ''/auth/session'' get_options sv w = (Inl NotAuthenticatedError, u)"
      "answered (Inl NotAuthenticatedError) sv u"
    using answered_call [OF Suc.prems(1), of "''/auth/session''"] by (auto simp: relative_path_def startsWith_def)
  have t: "truthy (call_token get_options (w_jar w))" "truthy (call_token get_options (w_jar v))"
    using Suc.prems(1) v by (simp_all add: answered_def)
  have "visit ''/login'' sv w = (Inr (Redirects ''/projects''), v)"
    by (simp add: visit_def login_page_def configurationProblem_def seq_eval try_catch_eval c v_def [symmetric] bff_simps
        getSessionToken_eval t)
  moreover have "visit ''/projects'' sv w = (Inr (Redirects ''/login''), u)"
    by (simp add: visit_def dashboard_layout_def session_or_login_def seq_eval try_catch_eval u(1) bff_simps
        getSessionToken_eval t)
  ultimately show ?case
    using Suc.prems(2) Suc.IH [OF v, of "''/projects''"] Suc.IH [OF u(2), of "''/login''"]
    by (auto simp: seq_eval)
qed (simp add: bff_simps)

theorem stale_session_never_reaches_sign_in_witness:
  "\<exists>w'. browse 50 ''/projects'' (demo_answers (CoreResponse 401 None None)) demo_world = (Inr None, w')"
proof -
  have r: "answer_result False (CoreResponse 401 None None) = Inl NotAuthenticatedError"
    by code_simp
  show ?thesis
    using stale_session_never_reaches_sign_in [OF demo_answered [of "CoreResponse 401 None None", unfolded r]] by blast
qed

section \<open>The dots and the grid\<close>

text \<open>A cell of the access grid of an environment: the secret it is for and what its row's subject may do.\<close>

definition grid_cells :: "string comparator \<Rightarrow> environ \<Rightarrow> secret_ref list \<Rightarrow> AccessView.grant list \<Rightarrow> (string \<times> bool \<times> bool) list" where
  "grid_cells collate env secrets grants = (case access_grid collate env secrets grants of
     None \<Rightarrow> [] | Some g \<Rightarrow> concat (map (\<lambda>row. zip (map sr_id secrets) (gw_cells row)) (gd_rows g)))"

lemma grid_cells_reach:
  "(k, c) \<in> set (grid_cells collate env secrets grants) \<longleftrightarrow>
   k \<in> sr_id ` set secrets \<and> (\<exists>sj \<in> set (subjects collate env grants). c = reaches env grants (gs_id sj) k)"
proof -
  have z: "zip (map sr_id secrets) (gw_cells (grid_row_of env secrets grants sj)) =
      map (\<lambda>sc. (sr_id sc, reaches env grants (gs_id sj) (sr_id sc))) secrets" for sj
    by (simp add: grid_row_of_def Let_def zip_map_map zip_same_conv_map)
  show ?thesis
    by (cases "secrets = [] \<or> subjects collate env grants = []")
      (auto simp: grid_cells_def access_grid_def z)
qed

lemma some_subject:
  "(\<exists>sj \<in> set (subjects collate env grants). fst (reaches env grants (gs_id sj) k)) \<longleftrightarrow> (\<exists>g \<in> set grants. covers g (en_id env) k \<and> gr_canUse g)"
  "(\<exists>sj \<in> set (subjects collate env grants). snd (reaches env grants (gs_id sj) k)) \<longleftrightarrow> (\<exists>g \<in> set grants. covers g (en_id env) k \<and> gr_canReveal g)"
proof -
  have m: "gr_subjectId g \<in> gs_id ` set (subjects collate env grants)" if "g \<in> set grants" "covers g (en_id env) k" for g
    using that by (auto simp: subjects_ids(2) applicable_def covers_def)
  show "(\<exists>sj \<in> set (subjects collate env grants). fst (reaches env grants (gs_id sj) k)) \<longleftrightarrow> (\<exists>g \<in> set grants. covers g (en_id env) k \<and> gr_canUse g)"
    using m by (fastforce simp: reaches_policy may_use_def)
  show "(\<exists>sj \<in> set (subjects collate env grants). snd (reaches env grants (gs_id sj) k)) \<longleftrightarrow> (\<exists>g \<in> set grants. covers g (en_id env) k \<and> gr_canReveal g)"
    using m by (fastforce simp: reaches_policy may_read_def)
qed

lemma new_map_of: "map_of (new_map (map (\<lambda>k. (k, f k)) ks)) k = (if k \<in> set ks then Some (f k) else None)"
proof (induction ks rule: rev_induct)
  case (snoc x xs)
  then show ?case by (auto simp: new_map_snoc update_conv')
qed (simp add: new_map_def)

lemma secret_reach_cases:
  "fst (secret_reach e grants k) \<noteq> [] \<longleftrightarrow> (\<exists>g \<in> set grants. covers g e k \<and> gr_canUse g)"
  "snd (secret_reach e grants k) \<noteq> [] \<longleftrightarrow> (\<exists>g \<in> set grants. covers g e k \<and> gr_canReveal g)"
  by (auto simp: secret_reach_def applies_def covers_def filter_empty_conv)

text \<open>The secrets page and the access screen agree.  Over the same grants and secrets of an environment, the
  number of usable secrets the toolbar announces is the number of secrets with a filled use mark in some row of the
  access grid, and the number of readable ones the number with a filled read mark, although the two screens compute
  them by different routes and the grid merges the grants of a subject.\<close>

theorem table_and_grid_agree:
  "usable_count (en_id env) grants (map sr_id secrets) =
     length (filter (\<lambda>sc. \<exists>u r. (sr_id sc, u, r) \<in> set (grid_cells collate env secrets grants) \<and> u) secrets) \<and>
   readable_count (en_id env) grants (map sr_id secrets) =
     length (filter (\<lambda>sc. \<exists>u r. (sr_id sc, u, r) \<in> set (grid_cells collate env secrets grants) \<and> r) secrets)"
proof -
  have s: "(\<exists>u r. (sr_id sc, u, r) \<in> set (grid_cells collate env secrets grants) \<and> u) \<longleftrightarrow>
       (\<exists>g \<in> set grants. covers g (en_id env) (sr_id sc) \<and> gr_canUse g)"
     "(\<exists>u r. (sr_id sc, u, r) \<in> set (grid_cells collate env secrets grants) \<and> r) \<longleftrightarrow>
       (\<exists>g \<in> set grants. covers g (en_id env) (sr_id sc) \<and> gr_canReveal g)" if "sc \<in> set secrets" for sc
    unfolding some_subject [where collate = collate, symmetric] grid_cells_reach
    using that by (metis image_eqI prod.collapse fst_conv, metis image_eqI prod.collapse snd_conv)
  have m: "map_of (reach_map (en_id env) grants (map sr_id secrets)) (sr_id sc) = Some (secret_reach (en_id env) grants (sr_id sc))"
    if "sc \<in> set secrets" for sc
    using that unfolding reach_map_def new_map_of by simp
  have n: "usable_count (en_id env) grants (map sr_id secrets) =
       length (filter (\<lambda>sc. \<exists>g \<in> set grants. covers g (en_id env) (sr_id sc) \<and> gr_canUse g) secrets)"
     "readable_count (en_id env) grants (map sr_id secrets) =
       length (filter (\<lambda>sc. \<exists>g \<in> set grants. covers g (en_id env) (sr_id sc) \<and> gr_canReveal g) secrets)"
    unfolding usable_count_def readable_count_def
    by (simp_all add: filter_map comp_def m secret_reach_cases cong: filter_cong)
  show ?thesis
    unfolding n using filter_cong [OF refl s(1), of secrets] filter_cong [OF refl s(2), of secrets] by presburger
qed

end
