(* ===== verification/Toasts.thy ===== *)
theory Toasts imports Ui "HOL-Library.AList" begin

text \<open>
  Toasts (web/components/motion/animated-toast-stack.tsx and web/components/ui/toast.tsx): the queue, the timer of each
  toast, what is drawn, and the two-method interface the rest of the application uses.  The browser's timeouts are
  explicit: a call of \<open>setTimeout\<close> adds a pending timeout with a fresh handle, \<open>clearTimeout\<close> drops it, and only a
  pending one can fire.  Titles are text; icons, actions, animation and the portal are left out.
\<close>

section \<open>The queue\<close>

datatype toast_status = NeutralStatus | InfoStatus | LoadingStatus | SuccessStatus | ErrorStatus

record toast =
  to_id :: string
  to_title :: string
  to_description :: "string option"
  to_status :: "toast_status option"
  to_duration :: int
  to_dismissible :: bool
  to_created :: int

text \<open>What a caller passes; \<open>None\<close> is a property that is not given.\<close>

record toast_input =
  ti_id :: "string option"
  ti_title :: "string option"
  ti_description :: "string option"
  ti_status :: "toast_status option"
  ti_duration :: "int option"
  ti_dismissible :: "bool option"

text \<open>A timeout the browser will run: its handle, when it is due and the toast its callback is about.\<close>

record timeout =
  tm_handle :: nat
  tm_due :: int
  tm_toast :: string

record stack =
  sk_toasts :: "toast list"
  sk_timers :: "(string \<times> nat \<times> string) list"
  sk_timeouts :: "timeout list"
  sk_next :: nat
  sk_seed :: nat

definition or_else :: "'a option \<Rightarrow> 'a \<Rightarrow> 'a" where
  "or_else v d = (case v of Some x \<Rightarrow> x | None \<Rightarrow> d)"

definition toast_id :: "int \<Rightarrow> nat \<Rightarrow> string" where
  "toast_id now seed = ''toast-'' @ show_int now @ ''-'' @ show_nat seed"

definition createToast :: "toast_input \<Rightarrow> int \<Rightarrow> int \<Rightarrow> nat \<Rightarrow> toast" where
  "createToast i defaultDuration now seed =
     \<lparr>to_id = or_else (ti_id i) (toast_id now seed), to_title = or_else (ti_title i) [],
      to_description = ti_description i, to_status = ti_status i,
      to_duration = or_else (ti_duration i) defaultDuration,
      to_dismissible = or_else (ti_dismissible i) True, to_created = now\<rparr>"

text \<open>\<open>next.slice(-limit)\<close>, where \<open>slice(-0)\<close> is the whole list.\<close>

definition slice_last :: "nat \<Rightarrow> 'a list \<Rightarrow> 'a list" where
  "slice_last n xs = (if n = 0 then xs else drop (length xs - n) xs)"

definition dismissToast :: "string \<Rightarrow> stack \<Rightarrow> stack" where
  "dismissToast i s = s\<lparr>sk_toasts := filter (\<lambda>t. to_id t \<noteq> i) (sk_toasts s)\<rparr>"

definition clearToasts :: "stack \<Rightarrow> stack" where
  "clearToasts s = s\<lparr>sk_toasts := []\<rparr>"

definition showToast :: "int \<Rightarrow> nat option \<Rightarrow> int \<Rightarrow> toast_input \<Rightarrow> stack \<Rightarrow> stack" where
  "showToast defaultDuration limit now i s =
     (let toast = createToast i defaultDuration now (sk_seed s); all = sk_toasts s @ [toast] in
      s\<lparr>sk_toasts := (case limit of Some n \<Rightarrow> slice_last n all | None \<Rightarrow> all),
        sk_seed := (if ti_id i = None then Suc (sk_seed s) else sk_seed s)\<rparr>)"

definition patched :: "int \<Rightarrow> toast_input \<Rightarrow> toast \<Rightarrow> toast" where
  "patched now patch t =
     \<lparr>to_id = to_id t, to_title = or_else (ti_title patch) (to_title t),
      to_description = (if ti_description patch = None then to_description t else ti_description patch),
      to_status = (if ti_status patch = None then to_status t else ti_status patch),
      to_duration = or_else (ti_duration patch) (to_duration t),
      to_dismissible = or_else (ti_dismissible patch) (to_dismissible t),
      to_created = (if ti_duration patch = None then to_created t else now)\<rparr>"

definition updateToast :: "int \<Rightarrow> string \<Rightarrow> toast_input \<Rightarrow> stack \<Rightarrow> stack" where
  "updateToast now i patch s = s\<lparr>sk_toasts := map (\<lambda>t. if to_id t = i then patched now patch t else t) (sk_toasts s)\<rparr>"

section \<open>The timers\<close>

definition clearTimeout :: "nat \<Rightarrow> timeout list \<Rightarrow> timeout list" where
  "clearTimeout h = filter (\<lambda>p. tm_handle p \<noteq> h)"

text \<open>The first loop of the effect: timers of toasts that are gone.\<close>

definition sweep :: "stack \<Rightarrow> stack" where
  "sweep s = (let active = map to_id (sk_toasts s) in
     s\<lparr>sk_timeouts := foldl (\<lambda>ps (i, h, sig). if i \<in> set active then ps else clearTimeout h ps) (sk_timeouts s) (sk_timers s),
       sk_timers := filter (\<lambda>(i, _). i \<in> set active) (sk_timers s)\<rparr>)"

definition signature_of :: "toast \<Rightarrow> string" where
  "signature_of t = show_int (to_created t) @ '':'' @ show_int (to_duration t)"

text \<open>One turn of the second loop: a toast without its timer, or with one for other times, is given one.\<close>

definition arm :: "int \<Rightarrow> stack \<Rightarrow> toast \<Rightarrow> stack" where
  "arm now s t =
     (let existing = map_of (sk_timers s) (to_id t) in
      if to_duration t \<le> 0 then
        (case existing of
           Some (h, sig) \<Rightarrow> s\<lparr>sk_timeouts := clearTimeout h (sk_timeouts s), sk_timers := AList.delete (to_id t) (sk_timers s)\<rparr>
         | None \<Rightarrow> s)
      else if map_option snd existing = Some (signature_of t) then s
      else
        (let cleared = (case existing of Some (h, sig) \<Rightarrow> clearTimeout h (sk_timeouts s) | None \<Rightarrow> sk_timeouts s);
             elapsed = now - to_created t; remaining = max (to_duration t - elapsed) 0 in
         s\<lparr>sk_timeouts := cleared @ [\<lparr>tm_handle = sk_next s, tm_due = now + remaining, tm_toast = to_id t\<rparr>],
           sk_timers := AList.update (to_id t) (sk_next s, signature_of t) (sk_timers s), sk_next := Suc (sk_next s)\<rparr>))"

definition timer_effect :: "int \<Rightarrow> stack \<Rightarrow> stack" where
  "timer_effect now s = foldl (arm now) (sweep s) (sk_toasts s)"

text \<open>A timeout fires: its callback forgets the timer and dismisses the toast.\<close>

definition timer_fires :: "timeout \<Rightarrow> stack \<Rightarrow> stack" where
  "timer_fires p s = dismissToast (tm_toast p)
     (s\<lparr>sk_timeouts := clearTimeout (tm_handle p) (sk_timeouts s), sk_timers := AList.delete (tm_toast p) (sk_timers s)\<rparr>)"

text \<open>The cleanup when the provider goes away.\<close>

definition stack_unmounts :: "stack \<Rightarrow> stack" where
  "stack_unmounts s = s\<lparr>sk_timeouts := foldl (\<lambda>ps (i, h, sig). clearTimeout h ps) (sk_timeouts s) (sk_timers s), sk_timers := []\<rparr>"

section \<open>What is drawn\<close>

definition visible_toasts :: "nat \<Rightarrow> stack \<Rightarrow> toast list" where
  "visible_toasts maxVisible s = slice_last maxVisible (sk_toasts s)"

text \<open>A toast is dragged off when it was moved more than 72 pixels or faster than 520 pixels a second.\<close>

definition drag_dismisses :: "toast \<Rightarrow> int \<Rightarrow> int \<Rightarrow> bool" where
  "drag_dismisses t offset velocity = (to_dismissible t \<and> (\<bar>offset\<bar> > 72 \<or> \<bar>velocity\<bar> > 520))"

definition toast_item :: "toast \<Rightarrow> string elem list" where
  "toast_item t = [Note (to_title t)] @
     (case to_description t of Some (c # cs) \<Rightarrow> [Note (c # cs)] | _ \<Rightarrow> []) @
     (if to_dismissible t then [Press ''Dismiss toast'' (to_id t) False] else [])"

section \<open>The provider\<close>

definition SUCCESS_MS :: int where "SUCCESS_MS = 4000"
definition ERROR_MS :: int where "ERROR_MS = 8000"

text \<open>A notice is an error or a success, and its text.\<close>

type_synonym says = "bool \<times> string"

definition lifetime :: "bool \<Rightarrow> int" where
  "lifetime e = (if e then ERROR_MS else SUCCESS_MS)"

definition notice_input :: "says \<Rightarrow> toast_input" where
  "notice_input n = \<lparr>ti_id = None, ti_title = Some (snd n), ti_description = None,
     ti_status = Some (if fst n then ErrorStatus else SuccessStatus), ti_duration = Some (lifetime (fst n)),
     ti_dismissible = None\<rparr>"

definition say :: "int \<Rightarrow> says \<Rightarrow> stack \<Rightarrow> stack" where
  "say now n = showToast SUCCESS_MS None now (notice_input n)"

definition shown :: "stack \<Rightarrow> toast list" where
  "shown = visible_toasts 3"

definition empty_stack :: stack where
  "empty_stack = \<lparr>sk_toasts = [], sk_timers = [], sk_timeouts = [], sk_next = 0, sk_seed = 0\<rparr>"

text \<open>
  What happens to the provider: a handler raises notices, a person dismisses a toast that is drawn (with its button or
  by dragging it off), or a timeout that is due fires.  After each the effect runs, at a time of its own.
\<close>

datatype toaster_event = Raises int "says list" | Dismisses string | RunsOut int string

inductive toaster_step :: "toaster_event \<Rightarrow> stack \<Rightarrow> stack \<Rightarrow> bool" where
  raises: "toaster_step (Raises now ns) s (timer_effect later (fold (say now) ns s))"
| dismisses: "t \<in> set (shown s) \<Longrightarrow> pressable (toast_item t) (to_id t) \<or> drag_dismisses t offset velocity \<Longrightarrow>
    toaster_step (Dismisses (to_id t)) s (timer_effect later (dismissToast (to_id t) s))"
| runs_out: "p \<in> set (sk_timeouts s) \<Longrightarrow> tm_due p \<le> now \<Longrightarrow>
    toaster_step (RunsOut now (tm_toast p)) s (timer_effect later (timer_fires p s))"

inductive_cases toaster_stepE: "toaster_step e s s'"

lemmas toaster_cases [consumes 1, case_names raises dismisses runs_out] = toaster_stepE

section \<open>Lemmas\<close>

lemma toast_id_inj: "toast_id a k = toast_id b l \<Longrightarrow> k = l"
proof -
  have last: "takeWhile (\<lambda>c. c \<noteq> CHR ''-'') (rev (x @ ''-'' @ show_nat n)) = rev (show_nat n)" for x n
  proof -
    have "c \<noteq> CHR ''-''" if "c \<in> set (rev (show_nat n))" for c
      using that show_nat_digits [of c n] by (auto simp: is_digit_def less_eq_char_def)
    note takeWhile_append2 [of "rev (show_nat n)" "\<lambda>c. c \<noteq> CHR ''-''" "CHR ''-'' # rev x", OF this]
    then show ?thesis by simp
  qed
  assume "toast_id a k = toast_id b l"
  then have "rev (show_nat k) = rev (show_nat l)"
    unfolding toast_id_def using last [of "''toast-'' @ show_int a" k] last [of "''toast-'' @ show_int b" l] by (metis append_assoc)
  then show ?thesis by (simp add: show_nat_inj)
qed

text \<open>
  The timers and the pending timeouts follow the toasts: \<open>zs\<close> lists each toast with its timeout, in the order they
  were shown.
\<close>

definition entry :: "toast \<times> timeout \<Rightarrow> string \<times> nat \<times> string" where
  "entry z = (to_id (fst z), tm_handle (snd z), signature_of (fst z))"

definition linked :: "(toast \<times> timeout) list \<Rightarrow> stack \<Rightarrow> bool" where
  "linked zs s = (sk_timers s = map entry zs \<and> sk_timeouts s = map snd zs \<and>
     distinct (map (\<lambda>z. to_id (fst z)) zs) \<and> distinct (map (\<lambda>z. tm_handle (snd z)) zs) \<and>
     (\<forall>z \<in> set zs. tm_toast (snd z) = to_id (fst z) \<and> tm_handle (snd z) < sk_next s \<and>
        to_created (fst z) + to_duration (fst z) \<le> tm_due (snd z) \<and> 0 < to_duration (fst z)))"

lemma clear_all:
  "foldl (\<lambda>ps (i, h, sig). if i \<in> A then ps else clearTimeout h ps) ps es =
     filter (\<lambda>p. \<forall>(i, h, sig) \<in> set es. i \<notin> A \<longrightarrow> tm_handle p \<noteq> h) ps"
proof (induction es arbitrary: ps)
  case (Cons e es)
  obtain i h sig where e: "e = (i, h, sig)" by (cases e)
  show ?case by (cases "i \<in> A") (simp_all add: e Cons.IH clearTimeout_def conj_commute)
qed simp

lemma sweep_linked:
  assumes "linked zs s" and "\<And>z. z \<in> set zs \<Longrightarrow> to_id (fst z) \<in> to_id ` set (sk_toasts s) \<longleftrightarrow> P z"
  shows "linked (filter P zs) (sweep s)"
proof -
  have t: "sk_timers (sweep s) = map entry (filter P zs)"
    using assms by (simp add: linked_def sweep_def Let_def filter_map comp_def entry_def split_beta cong: filter_cong)
  define Q where "Q p = (\<forall>(i, h, sig) \<in> set (map entry zs). i \<notin> to_id ` set (sk_toasts s) \<longrightarrow> tm_handle p \<noteq> h)" for p :: timeout
  have h: "Q (snd z) = P z" if "z \<in> set zs" for z
  proof -
    have d: "tm_handle (snd z) = tm_handle (snd y) \<longleftrightarrow> y = z" if "y \<in> set zs" for y
      using assms(1) that \<open>z \<in> set zs\<close> by (auto simp: linked_def distinct_map inj_on_def)
    show ?thesis using that assms(2) d by (auto simp: entry_def Q_def)
  qed
  have "sk_timeouts (sweep s) = filter Q (map snd zs)"
    using assms(1) by (simp add: sweep_def Let_def clear_all linked_def Q_def [abs_def])
  also have "\<dots> = map snd (filter (\<lambda>z. Q (snd z)) zs)" by (simp add: filter_map comp_def)
  also have "filter (\<lambda>z. Q (snd z)) zs = filter P zs" by (rule filter_cong [OF refl h])
  finally have p: "sk_timeouts (sweep s) = map snd (filter P zs)" .
  have n: "sk_next (sweep s) = sk_next s" by (simp add: sweep_def Let_def)
  from assms(1) show ?thesis
    unfolding linked_def t p n by (auto intro: distinct_map_filter)
qed

lemma arm_known:
  assumes "linked zs s" "t \<in> fst ` set zs"
  shows "arm now s t = s"
proof -
  from assms(2) obtain p where p: "(t, p) \<in> set zs" by auto
  have "distinct (map fst (map entry zs))" using assms(1) by (simp add: linked_def comp_def entry_def)
  moreover have "(to_id t, tm_handle p, signature_of t) \<in> set (map entry zs)" using p by (force simp: entry_def)
  ultimately have "map_of (sk_timers s) (to_id t) = Some (tm_handle p, signature_of t)"
    using assms(1) by (simp add: linked_def)
  moreover have "0 < to_duration t" using assms(1) p by (auto simp: linked_def)
  ultimately show ?thesis by (simp add: arm_def)
qed

lemma arm_new:
  assumes "linked zs s" "to_id t \<notin> (\<lambda>z. to_id (fst z)) ` set zs" "0 < to_duration t"
  shows "\<exists>p. linked (zs @ [(t, p)]) (arm now s t)"
proof -
  have n: "map_of (map entry zs) (to_id t) = None" using assms(2) by (force simp: map_of_eq_None_iff entry_def)
  have u: "AList.update (to_id t) (sk_next s, signature_of t) (map entry zs) =
      map entry zs @ [(to_id t, sk_next s, signature_of t)]"
    using assms(2) by (induction zs) (auto simp: entry_def)
  have h: "sk_next s \<notin> (\<lambda>z. tm_handle (snd z)) ` set zs" using assms(1) by (auto simp: linked_def)
  let ?p = "\<lparr>tm_handle = sk_next s, tm_due = now + max (to_duration t - (now - to_created t)) 0, tm_toast = to_id t\<rparr>"
  have "linked (zs @ [(t, ?p)]) (arm now s t)"
    using assms n u h by (auto simp: linked_def arm_def Let_def entry_def less_Suc_eq)
  then show ?thesis by blast
qed

lemma arm_toasts: "sk_toasts (arm now s t) = sk_toasts s" "sk_seed (arm now s t) = sk_seed s"
  by (simp_all add: arm_def Let_def split: option.splits)

lemma arms_new:
  assumes "linked zs s" "distinct (map to_id ts)" "to_id ` set ts \<inter> (\<lambda>z. to_id (fst z)) ` set zs = {}"
    and "\<forall>t \<in> set ts. 0 < to_duration t"
  shows "\<exists>ns. map fst ns = ts \<and> linked (zs @ ns) (foldl (arm now) s ts)"
  using assms
proof (induction ts arbitrary: zs s)
  case (Cons t ts)
  then obtain p where p: "linked (zs @ [(t, p)]) (arm now s t)"
    using arm_new [of zs s t now] by auto
  have "to_id ` set ts \<inter> (\<lambda>z. to_id (fst z)) ` set (zs @ [(t, p)]) = {}" using Cons.prems(2,3) by auto
  with Cons.IH [OF p] Cons.prems obtain ns where "map fst ns = ts" "linked ((zs @ [(t, p)]) @ ns) (foldl (arm now) (arm now s t) ts)"
    by auto
  then show ?case by (intro exI [of _ "(t, p) # ns"]) simp
qed simp

lemma arms_known: "linked zs s \<Longrightarrow> set ts \<subseteq> fst ` set zs \<Longrightarrow> foldl (arm now) s ts = s"
  by (induction ts) (simp_all add: arm_known)

lemma effect_toasts: "sk_toasts (timer_effect now s) = sk_toasts s" "sk_seed (timer_effect now s) = sk_seed s"
proof -
  have "sk_toasts (foldl (arm now) s ts) = sk_toasts s \<and> sk_seed (foldl (arm now) s ts) = sk_seed s" for s ts
    by (induction ts arbitrary: s) (simp_all add: arm_toasts)
  then show "sk_toasts (timer_effect now s) = sk_toasts s" "sk_seed (timer_effect now s) = sk_seed s"
    by (simp_all add: timer_effect_def sweep_def Let_def)
qed

text \<open>The effect after a change that kept some of the toasts and added others.\<close>

lemma effect_linked:
  assumes "linked zs s" "sk_toasts s = map fst (filter P zs) @ new" "distinct (map to_id new)"
    and "to_id ` set new \<inter> (\<lambda>z. to_id (fst z)) ` set zs = {}" "\<forall>t \<in> set new. 0 < to_duration t"
  shows "\<exists>ns. map fst ns = new \<and> linked (filter P zs @ ns) (timer_effect now s)"
proof -
  have "linked (filter P zs) (sweep s)"
  proof (rule sweep_linked [OF assms(1)])
    fix z assume z: "z \<in> set zs"
    have "to_id (fst y) = to_id (fst z) \<longleftrightarrow> y = z" if "y \<in> set zs" for y
      using assms(1) that z by (auto simp: linked_def distinct_map inj_on_def)
    then have "to_id (fst z) \<in> (\<lambda>y. to_id (fst y)) ` set (filter P zs) \<longleftrightarrow> P z"
      unfolding image_iff using z by (metis (no_types, lifting) mem_Collect_eq set_filter)
    moreover have "to_id (fst z) \<notin> to_id ` set new" using assms(4) z by blast
    moreover have "to_id ` set (sk_toasts s) = (\<lambda>y. to_id (fst y)) ` set (filter P zs) \<union> to_id ` set new"
      by (simp add: assms(2) image_Un image_image)
    ultimately show "(to_id (fst z) \<in> to_id ` set (sk_toasts s)) = P z" by blast
  qed
  then have f: "foldl (arm now) (sweep s) (map fst (filter P zs)) = sweep s" "linked (filter P zs) (sweep s)"
    by (simp_all add: arms_known)
  have d: "to_id ` set new \<inter> (\<lambda>z. to_id (fst z)) ` set (filter P zs) = {}" using assms(4) by auto
  show ?thesis
    using arms_new [OF f(2) assms(3) d assms(5), of now] f(1) by (simp add: timer_effect_def assms(2))
qed

section \<open>What the provider promises\<close>

text \<open>
  A run of a labelled step relation, and one relation simulated by another: every step taken where the invariant holds
  keeps it and is, seen through \<open>abs\<close>, a step of the specification.
\<close>

inductive run :: "('e \<Rightarrow> 's \<Rightarrow> 's \<Rightarrow> bool) \<Rightarrow> 'e list \<Rightarrow> 's \<Rightarrow> 's \<Rightarrow> bool" for step where
  stays: "run step [] s s"
| goes: "run step es s t \<Longrightarrow> step e t u \<Longrightarrow> run step (es @ [e]) s u"

inductive_simps run_snoc: "run step (es @ [e]) s u"
inductive_simps run_nil: "run step [] s u"

locale simulation =
  fixes cstep :: "'e \<Rightarrow> 'c \<Rightarrow> 'c \<Rightarrow> bool" and cinit :: 'c
    and astep :: "'e \<Rightarrow> 'a \<Rightarrow> 'a \<Rightarrow> bool" and abs :: "'c \<Rightarrow> 'a" and inv :: "'c \<Rightarrow> bool"
  assumes starts: "inv cinit"
    and keeps_inv: "inv s \<Longrightarrow> cstep e s s' \<Longrightarrow> inv s'"
    and simulates: "inv s \<Longrightarrow> cstep e s s' \<Longrightarrow> astep e (abs s) (abs s')"
begin

lemma run_inv: "run cstep es s t \<Longrightarrow> s = cinit \<Longrightarrow> inv t"
  by (induction rule: run.induct) (auto intro: starts keeps_inv)

lemma run_refines: "run cstep es s t \<Longrightarrow> s = cinit \<Longrightarrow> run astep es (abs cinit) (abs t)"
proof (induction rule: run.induct)
  case (goes es s t e u)
  then show ?case using run_inv simulates by (metis run.goes)
qed (simp add: run.stays)

end

text \<open>The specification: notices with a deadline.  One is taken away by its reader, or by time once its deadline is past.\<close>

record notice =
  nt_id :: string
  nt_text :: string
  nt_error :: bool
  nt_until :: int

fun notices_step :: "toaster_event \<Rightarrow> notice list \<Rightarrow> notice list \<Rightarrow> bool" where
  "notices_step (Raises now ns) N N' =
     (\<exists>new. N' = N @ new \<and> map (\<lambda>n. (nt_error n, nt_text n)) new = ns \<and> distinct (map nt_id N') \<and>
        (\<forall>n \<in> set new. nt_until n = now + (if nt_error n then 8000 else 4000)))"
| "notices_step (Dismisses i) N N' = (i \<in> nt_id ` set N \<and> N' = filter (\<lambda>n. nt_id n \<noteq> i) N)"
| "notices_step (RunsOut now i) N N' =
     ((\<exists>n \<in> set N. nt_id n = i \<and> nt_until n \<le> now) \<and> N' = filter (\<lambda>n. nt_id n \<noteq> i) N)"

definition notice_of :: "toast \<Rightarrow> notice" where
  "notice_of t = \<lparr>nt_id = to_id t, nt_text = to_title t, nt_error = (to_status t = Some ErrorStatus),
     nt_until = to_created t + to_duration t\<rparr>"

definition notices :: "stack \<Rightarrow> notice list" where
  "notices s = map notice_of (sk_toasts s)"

definition numbered :: "nat \<Rightarrow> toast list \<Rightarrow> bool" where
  "numbered n ts = (distinct (map to_id ts) \<and> (\<forall>t \<in> set ts. \<exists>now. \<exists>k < n. to_id t = toast_id now k))"

definition toaster_inv :: "stack \<Rightarrow> bool" where
  "toaster_inv s = (numbered (sk_seed s) (sk_toasts s) \<and> (\<exists>zs. linked zs s \<and> sk_toasts s = map fst zs))"

text \<open>The toasts of one handler's notices.\<close>

fun raised :: "int \<Rightarrow> nat \<Rightarrow> says list \<Rightarrow> toast list" where
  "raised now seed [] = []"
| "raised now seed (n # ns) = createToast (notice_input n) SUCCESS_MS now seed # raised now (Suc seed) ns"

lemma fold_say:
  "fold (say now) ns s = s\<lparr>sk_toasts := sk_toasts s @ raised now (sk_seed s) ns, sk_seed := sk_seed s + length ns\<rparr>"
proof (induction ns arbitrary: s)
  case (Cons n ns)
  have "say now n s = s\<lparr>sk_toasts := sk_toasts s @ [createToast (notice_input n) SUCCESS_MS now (sk_seed s)], sk_seed := Suc (sk_seed s)\<rparr>"
    by (simp add: say_def showToast_def Let_def notice_input_def)
  then show ?case by (simp add: Cons.IH)
qed simp

lemma created_notice:
  "to_id (createToast (notice_input n) d now k) = toast_id now k"
  "to_title (createToast (notice_input n) d now k) = snd n"
  "to_created (createToast (notice_input n) d now k) = now"
  "to_dismissible (createToast (notice_input n) d now k)"
  "to_status (createToast (notice_input n) d now k) = Some ErrorStatus \<longleftrightarrow> fst n"
  "to_duration (createToast (notice_input n) d now k) = (if fst n then 8000 else 4000)"
  by (simp_all add: createToast_def notice_input_def or_else_def lifetime_def ERROR_MS_def SUCCESS_MS_def)

lemma raised_sel: "t \<in> set (raised now seed ns) \<Longrightarrow>
    (\<exists>k. seed \<le> k \<and> k < seed + length ns \<and> to_id t = toast_id now k) \<and> 0 < to_duration t \<and> to_dismissible t \<and>
    to_created t = now \<and> to_duration t = (if to_status t = Some ErrorStatus then 8000 else 4000)"
proof (induction ns arbitrary: seed)
  case (Cons n ns)
  show ?case
  proof (cases "t \<in> set (raised now (Suc seed) ns)")
    case True
    then obtain k where "Suc seed \<le> k" "k < Suc seed + length ns" "to_id t = toast_id now k" using Cons.IH by blast
    then have "\<exists>k \<ge> seed. k < seed + length (n # ns) \<and> to_id t = toast_id now k" by (intro exI [of _ k]) simp
    with True Cons.IH show ?thesis by blast
  next
    case False
    with Cons.prems have "t = createToast (notice_input n) SUCCESS_MS now seed" by simp
    then show ?thesis by (auto simp: created_notice)
  qed
qed simp

lemma raised_ids: "map to_id (raised now seed ns) = map (toast_id now) [seed ..< seed + length ns]"
  by (induction ns arbitrary: seed) (simp_all add: created_notice upt_conv_Cons del: upt_Suc)

lemma raised_says: "map (\<lambda>t. (to_status t = Some ErrorStatus, to_title t)) (raised now seed ns) = ns"
  by (induction ns arbitrary: seed) (simp_all add: created_notice)

lemma numbered_raised: "numbered n ts \<Longrightarrow> numbered (n + length ns) (ts @ raised now n ns)"
proof -
  assume n: "numbered n ts"
  have "distinct (map to_id (raised now n ns))"
    unfolding raised_ids by (auto simp: distinct_map inj_on_def dest: toast_id_inj)
  moreover have "to_id ` set ts \<inter> to_id ` set (raised now n ns) = {}"
    using n raised_sel [of _ now n ns] by (fastforce simp: numbered_def dest: toast_id_inj)
  moreover have "\<exists>now. \<exists>k < n + length ns. to_id t = toast_id now k" if "t \<in> set ts \<or> t \<in> set (raised now n ns)" for t
    using that n raised_sel [of t now n ns] by (auto simp: numbered_def) (meson trans_less_add1)
  ultimately show ?thesis using n unfolding numbered_def by simp
qed

lemma numbered_filter: "numbered n ts \<Longrightarrow> numbered n (filter P ts)"
  by (auto simp: numbered_def intro: distinct_map_filter)

lemma linked_ids: "linked zs s \<Longrightarrow> y \<in> set zs \<Longrightarrow> z \<in> set zs \<Longrightarrow> to_id (fst y) = to_id (fst z) \<longleftrightarrow> y = z"
  "linked zs s \<Longrightarrow> y \<in> set zs \<Longrightarrow> z \<in> set zs \<Longrightarrow> tm_handle (snd y) = tm_handle (snd z) \<longleftrightarrow> y = z"
  by (auto simp: linked_def distinct_map inj_on_def)

lemma fires_linked:
  assumes "linked zs s" "z \<in> set zs"
  shows "linked (filter (\<lambda>y. to_id (fst y) \<noteq> to_id (fst z)) zs) (timer_fires (snd z) s)"
proof -
  have t: "tm_toast (snd z) = to_id (fst z)" using assms by (auto simp: linked_def)
  have d: "AList.delete (to_id (fst z)) (map entry zs) = map entry (filter (\<lambda>y. to_id (fst y) \<noteq> to_id (fst z)) zs)"
    by (simp add: AList.delete_eq filter_map comp_def entry_def split_beta eq_commute [of "to_id (fst z)"])
  have "filter (\<lambda>y. tm_handle (snd y) \<noteq> tm_handle (snd z)) zs = filter (\<lambda>y. to_id (fst y) \<noteq> to_id (fst z)) zs"
    using linked_ids [OF assms(1) _ assms(2)] by (auto intro!: filter_cong)
  then have c: "clearTimeout (tm_handle (snd z)) (map snd zs) = map snd (filter (\<lambda>y. to_id (fst y) \<noteq> to_id (fst z)) zs)"
    by (simp add: clearTimeout_def filter_map comp_def)
  show ?thesis
    using assms(1) unfolding linked_def timer_fires_def dismissToast_def t by (auto simp: d c intro: distinct_map_filter)
qed

text \<open>One step, seen as a change of the list of toasts followed by the effect.\<close>

lemma toaster_step_toasts:
  assumes "toaster_step e s s'" "toaster_inv s"
  shows "toaster_inv s' \<and> notices_step e (notices s) (notices s')"
proof -
  from assms(2) obtain zs where zs: "linked zs s" "sk_toasts s = map fst zs" and n: "numbered (sk_seed s) (sk_toasts s)"
    by (auto simp: toaster_inv_def)
  have ids: "nt_id ` set (notices s) = to_id ` set (sk_toasts s)" by (simp add: notices_def image_image notice_of_def)
  have gone: "map notice_of (filter (\<lambda>t. to_id t \<noteq> i) ts) = filter (\<lambda>n. nt_id n \<noteq> i) (map notice_of ts)" for i ts
    by (simp add: filter_map comp_def notice_of_def)
  show ?thesis
    using assms(1)
  proof (cases rule: toaster_cases)
    case (raises now ns later)
    let ?new = "raised now (sk_seed s) ns" and ?u = "fold (say now) ns s"
    have l: "linked zs ?u" "sk_toasts ?u = map fst (filter (\<lambda>_. True) zs) @ ?new" "sk_seed ?u = sk_seed s + length ns"
      using zs by (simp_all add: fold_say linked_def)
    have nn: "numbered (sk_seed s + length ns) (sk_toasts s @ ?new)" by (rule numbered_raised [OF n])
    then have "distinct (map to_id ?new)" "to_id ` set ?new \<inter> (\<lambda>z. to_id (fst z)) ` set zs = {}"
      using zs(2) by (auto simp: numbered_def)
    from effect_linked [OF l(1,2) this] raised_sel obtain ps where
      "map fst ps = ?new" "linked (zs @ ps) (timer_effect later ?u)" by fastforce
    then have "toaster_inv s'"
      unfolding toaster_inv_def raises(2) effect_toasts l(2,3) using nn zs(2) by (auto intro!: exI [of _ "zs @ ps"])
    moreover have "notices s' = notices s @ map notice_of ?new"
      by (simp add: notices_def raises(2) effect_toasts fold_say)
    moreover have "map (\<lambda>n. (nt_error n, nt_text n)) (map notice_of ?new) = ns"
      using raised_says [of now "sk_seed s" ns] by (simp add: notice_of_def comp_def)
    moreover have "distinct (map nt_id (notices s @ map notice_of ?new))"
      using nn by (simp add: numbered_def notices_def notice_of_def comp_def image_image)
    moreover have "\<forall>n \<in> set (map notice_of ?new). nt_until n = now + (if nt_error n then 8000 else 4000)"
      using raised_sel [of _ now "sk_seed s" ns] by (auto simp: notice_of_def)
    ultimately show ?thesis unfolding raises(1) notices_step.simps
      by (intro conjI exI [of _ "map notice_of ?new"]) (simp_all only: )
  next
    case (dismisses t offset velocity later)
    let ?u = "dismissToast (to_id t) s"
    have l: "linked zs ?u" "sk_toasts ?u = map fst (filter (\<lambda>z. to_id (fst z) \<noteq> to_id t) zs) @ []"
      using zs by (simp_all add: dismissToast_def linked_def filter_map comp_def)
    from effect_linked [OF l] have "linked (filter (\<lambda>z. to_id (fst z) \<noteq> to_id t) zs) (timer_effect later ?u)" by simp
    moreover have "numbered (sk_seed ?u) (sk_toasts ?u)" using n by (simp add: dismissToast_def numbered_filter)
    ultimately have "toaster_inv s'"
      unfolding toaster_inv_def dismisses(2) effect_toasts using l(2) by auto
    moreover have "t \<in> set (sk_toasts s)"
      using dismisses(3) by (auto simp: shown_def visible_toasts_def slice_last_def dest: in_set_dropD)
    ultimately show ?thesis
      unfolding dismisses(1) notices_step.simps ids
      by (simp add: notices_def dismisses(2) effect_toasts dismissToast_def gone)
  next
    case (runs_out p now later)
    then obtain z where z: "z \<in> set zs" "p = snd z" using zs(1) by (auto simp: linked_def)
    have t: "tm_toast p = to_id (fst z)" "to_created (fst z) + to_duration (fst z) \<le> tm_due p"
      using zs(1) z by (auto simp: linked_def)
    let ?u = "timer_fires p s" and ?zs = "filter (\<lambda>y. to_id (fst y) \<noteq> to_id (fst z)) zs"
    have l: "linked ?zs ?u" using fires_linked [OF zs(1) z(1)] z(2) by simp
    have s: "sk_toasts ?u = filter (\<lambda>x. to_id x \<noteq> to_id (fst z)) (sk_toasts s)" "sk_seed ?u = sk_seed s"
      by (simp_all add: timer_fires_def dismissToast_def t)
    have u: "sk_toasts ?u = map fst (filter (\<lambda>_. True) ?zs) @ []" by (simp add: s zs(2) filter_map comp_def)
    from effect_linked [OF l u] have "linked ?zs (timer_effect later ?u)" by simp
    moreover have "numbered (sk_seed ?u) (sk_toasts ?u)" using n by (simp add: s numbered_filter)
    ultimately have "toaster_inv s'"
      unfolding toaster_inv_def runs_out(2) effect_toasts using u by auto
    moreover have "notice_of (fst z) \<in> set (notices s)" using z zs(2) by (auto simp: notices_def)
    then have "\<exists>n \<in> set (notices s). nt_id n = to_id (fst z) \<and> nt_until n \<le> now"
      using t runs_out(4) by (intro bexI [of _ "notice_of (fst z)"]) (auto simp: notice_of_def)
    ultimately show ?thesis
      unfolding runs_out(1) notices_step.simps
      by (simp add: notices_def runs_out(2) effect_toasts s gone t)
  qed
qed

interpretation toaster: simulation toaster_step empty_stack notices_step notices toaster_inv
proof unfold_locales
  show "toaster_inv empty_stack" by (auto simp: toaster_inv_def numbered_def linked_def empty_stack_def)
  show "toaster_inv s'" if "toaster_inv s" "toaster_step e s s'" for s e s'
    using toaster_step_toasts that by blast
  show "notices_step e (notices s) (notices s')" if "toaster_inv s" "toaster_step e s s'" for s e s'
    using toaster_step_toasts that by blast
qed

text \<open>C23: The toasts implement a list of notices with deadlines.  Every run of the provider, with its timers, handles
  and signatures, is a run of the specification: notices are appended in the order they are raised, each with its own
  id; an error stays until eight seconds after it was raised and a success until four, unless its reader takes it away;
  and nothing else is ever removed.\<close>

theorem toasts_implement_notices:
  assumes "run toaster_step es empty_stack s"
  shows "run notices_step es [] (notices s)"
  using toaster.run_refines [OF assms refl] by (simp add: notices_def empty_stack_def)

definition demo_says :: "says list" where
  "demo_says = [(False, ''Saved.''), (True, ''No.'')]"

definition demo_said :: stack where
  "demo_said = timer_effect 0 (fold (say 0) demo_says empty_stack)"

lemma demo_runs: "run toaster_step ([] @ [Raises 0 demo_says]) empty_stack demo_said"
proof (rule run.goes)
  show "run toaster_step [] empty_stack empty_stack" by (rule run.stays)
  show "toaster_step (Raises 0 demo_says) empty_stack demo_said" unfolding demo_said_def by (rule toaster_step.raises)
qed

theorem toasts_implement_notices_witness:
  "run notices_step [Raises 0 demo_says] [] (notices demo_said) \<and> map nt_text (notices demo_said) = [''Saved.'', ''No.'']"
proof -
  have r: "run notices_step ([] @ [Raises 0 demo_says]) [] (notices demo_said)"
    by (rule toasts_implement_notices [OF demo_runs])
  then have "map (\<lambda>n. (nt_error n, nt_text n)) (notices demo_said) = demo_says"
    unfolding run_snoc by (auto simp: run_nil)
  then have "map snd (map (\<lambda>n. (nt_error n, nt_text n)) (notices demo_said)) = map snd demo_says" by (rule arg_cong)
  then have "map nt_text (notices demo_said) = map snd demo_says" by (simp add: comp_def)
  with r show ?thesis by (simp add: demo_says_def)
qed

primrec run_out :: "nat \<Rightarrow> stack \<Rightarrow> stack" where
  "run_out 0 s = s"
| "run_out (Suc n) s = (case sk_timeouts s of [] \<Rightarrow> s
     | p # ps \<Rightarrow> run_out n (timer_effect (tm_due p) (timer_fires p s)))"

text \<open>C24: No toast outstays its welcome and none leaks a timer.  In every reachable state each toast has exactly one
  pending timeout, the timeouts are those of the toasts and no others, and letting the due timeouts fire, one after the
  other, empties the stack after as many firings as there are toasts.\<close>

theorem every_toast_runs_out:
  assumes "run toaster_step es empty_stack s"
  shows "map tm_toast (sk_timeouts s) = map to_id (sk_toasts s) \<and> distinct (map to_id (sk_toasts s)) \<and>
    sk_toasts (run_out (length (sk_toasts s)) s) = []"
proof -
  have inv: "toaster_inv s" using toaster.run_inv [OF assms refl] .
  then obtain zs where zs: "linked zs s" "sk_toasts s = map fst zs" by (auto simp: toaster_inv_def)
  have "map tm_toast (map snd zs) = map to_id (map fst zs)" using zs(1) by (auto simp: linked_def)
  moreover have "sk_toasts (run_out (length (sk_toasts s)) s) = []"
    using inv
  proof (induction "length (sk_toasts s)" arbitrary: s)
    case 0
    then show ?case by simp
  next
    case (Suc n)
    then obtain zs where zs: "linked zs s" "sk_toasts s = map fst zs" by (auto simp: toaster_inv_def)
    with Suc.hyps(2) obtain z ys where z: "zs = z # ys" by (cases zs) auto
    let ?u = "timer_effect (tm_due (snd z)) (timer_fires (snd z) s)"
    have "toaster_step (RunsOut (tm_due (snd z)) (tm_toast (snd z))) s ?u"
      using zs z by (intro toaster_step.runs_out) (auto simp: linked_def)
    then have "toaster_inv ?u" using toaster_step_toasts Suc.prems by blast
    moreover have "filter (\<lambda>t. to_id t \<noteq> to_id (fst z)) (map fst ys) = map fst ys"
      using zs(1) z by (auto simp: linked_def filter_id_conv image_iff)
    then have "length (sk_toasts ?u) = n"
      using zs z Suc.hyps(2) by (simp add: effect_toasts timer_fires_def dismissToast_def linked_def)
    ultimately have "sk_toasts (run_out n ?u) = []" using Suc.hyps(1) [of ?u] by simp
    moreover have "sk_timeouts s = snd z # map snd ys" using zs z by (simp add: linked_def)
    ultimately show ?case by (simp flip: Suc.hyps(2))
  qed
  moreover have "distinct (map to_id (sk_toasts s))" using inv by (auto simp: toaster_inv_def numbered_def)
  ultimately show ?thesis using zs by (simp add: linked_def)
qed

theorem every_toast_runs_out_witness:
  "sk_toasts (run_out 2 demo_said) = []"
proof -
  have "length (sk_toasts demo_said) = 2" unfolding demo_said_def effect_toasts fold_say by (simp add: demo_says_def empty_stack_def)
  with every_toast_runs_out [OF demo_runs] show ?thesis by simp
qed

end
