(* ===== verification/AuditTrail.thy ===== *)
theory AuditTrail imports Ui "HOL-Library.List_Lexorder" begin

text \<open>
  The audit trail (web/components/audit-table.tsx) with the filter bar it shares (web/components/ui/filter-bar.tsx), and
  the time stamps of every list (web/lib/format.ts and web/components/ui/relative-time.tsx).  A JavaScript number that is
  a time is an \<open>int\<close> of milliseconds; the localised wording of \<open>Intl\<close> is left to the platform and the model gives what
  it is asked to word.
\<close>

section \<open>Times\<close>

text \<open>
  \<open>date\<close> is \<open>new Date(value).getTime()\<close>, \<open>None\<close> for NaN.  \<open>Math.round\<close> takes the nearest integer, a half up.
\<close>

definition math_round_div :: "int \<Rightarrow> int \<Rightarrow> int" where
  "math_round_div a b = (2 * a + b) div (2 * b)"

datatype relative = NeverYet | NoDate | Counted int string | JustNow | UnderAMinute

definition relative_units :: "(string \<times> int) list" where
  "relative_units = [(''day'', 86400), (''hour'', 3600), (''minute'', 60)]"

fun pick_unit :: "bool \<Rightarrow> int \<Rightarrow> (string \<times> int) list \<Rightarrow> relative option" where
  "pick_unit past magnitude [] = None"
| "pick_unit past magnitude ((u, len) # us) =
     (if magnitude \<ge> len then Some (Counted (if past then - (magnitude div len) else magnitude div len) u)
      else pick_unit past magnitude us)"

definition formatRelative :: "(string \<Rightarrow> int option) \<Rightarrow> int \<Rightarrow> string option \<Rightarrow> relative" where
  "formatRelative date now value = (case value of
     Some (c # cs) \<Rightarrow>
       (case date (c # cs) of
          None \<Rightarrow> NoDate
        | Some t \<Rightarrow>
            let seconds = math_round_div (t - now) 1000; past = seconds < 0; magnitude = \<bar>seconds\<bar> in
            (case pick_unit past magnitude relative_units of
               Some r \<Rightarrow> r
             | None \<Rightarrow> if past then JustNow else UnderAMinute))
   | _ \<Rightarrow> NeverYet)"

text \<open>\<open>formatDate\<close>: the instant to be worded, or a dash.\<close>

definition formatDate :: "(string \<Rightarrow> int option) \<Rightarrow> string option \<Rightarrow> int option" where
  "formatDate date value = (case value of Some (c # cs) \<Rightarrow> date (c # cs) | _ \<Rightarrow> None)"

text \<open>
  The element: its text, when it was computed, and the interval that keeps it current.  The interval calls back every
  60000 ms while the element is mounted with a value.
\<close>

datatype relative_text = Fallback string | Relative relative

record relative_time =
  rt_value :: "string option"
  rt_text :: relative_text
  rt_at :: int
  rt_next_tick :: "int option"

datatype relative_event = EffectRuns int "string option" | TickRuns int | Unmounts

definition given :: "string option \<Rightarrow> bool" where
  "given v = (case v of Some (c # cs) \<Rightarrow> True | _ \<Rightarrow> False)"

definition relative_update :: "(string \<Rightarrow> int option) \<Rightarrow> int \<Rightarrow> relative_time \<Rightarrow> relative_time" where
  "relative_update date now s = s\<lparr>rt_text := Relative (formatRelative date now (rt_value s)), rt_at := now\<rparr>"

definition relative_mount :: "(string \<Rightarrow> int option) \<Rightarrow> string \<Rightarrow> int \<Rightarrow> string option \<Rightarrow> relative_time" where
  "relative_mount date fallback now value =
     \<lparr>rt_value = value, rt_text = (if given value then Relative (formatRelative date now value) else Fallback fallback),
      rt_at = now, rt_next_tick = None\<rparr>"

text \<open>An interval fires at its time or later, and its next time is one period after.\<close>

fun relative_step :: "(string \<Rightarrow> int option) \<Rightarrow> string \<Rightarrow> relative_event \<Rightarrow> relative_time \<Rightarrow> relative_time" where
  "relative_step date fallback (EffectRuns now v) s =
     (if \<not> given v then s\<lparr>rt_value := v, rt_text := Fallback fallback, rt_at := now, rt_next_tick := None\<rparr>
      else (relative_update date now (s\<lparr>rt_value := v\<rparr>))\<lparr>rt_next_tick := Some (now + 60000)\<rparr>)"
| "relative_step date fallback (TickRuns now) s =
     (case rt_next_tick s of
        Some due \<Rightarrow> if due \<le> now then (relative_update date now s)\<lparr>rt_next_tick := Some (now + 60000)\<rparr> else s
      | None \<Rightarrow> s)"
| "relative_step date fallback Unmounts s = s\<lparr>rt_next_tick := None\<rparr>"

section \<open>The filter bar\<close>

text \<open>\<open>/\<close> takes the focus to the search unless the person is typing somewhere.\<close>

definition slash_focuses :: "string \<Rightarrow> bool \<Rightarrow> bool" where
  "slash_focuses key typing = (key = ''/'' \<and> \<not> typing)"

definition filter_search :: "string \<Rightarrow> string \<Rightarrow> (string \<Rightarrow> 'e) \<Rightarrow> 'e elem list" where
  "filter_search placeholder value onChange =
     [Field placeholder value] @ (if value \<noteq> [] then [Press ''Clear search'' (onChange []) False] else [Note ''/''])"

definition filter_select_label :: "string \<Rightarrow> string \<Rightarrow> (string \<times> string) list \<Rightarrow> string" where
  "filter_select_label label value options =
     (case find (\<lambda>opt. fst opt = value) options of Some opt \<Rightarrow> snd opt | None \<Rightarrow> ''All '' @ label)"

definition filter_select :: "string \<Rightarrow> string \<Rightarrow> (string \<times> string) list \<Rightarrow> (string \<Rightarrow> 'e) \<Rightarrow> 'e elem list" where
  "filter_select label value options onChange =
     [Note (filter_select_label label value options), Press (''All '' @ label) (onChange []) False] @
     map (\<lambda>opt. Press (snd opt) (onChange (fst opt)) False) options"

definition filter_reset :: "bool \<Rightarrow> 'e \<Rightarrow> 'e elem list" where
  "filter_reset shown onReset = (if shown then [Press ''Reset'' onReset False] else [])"

section \<open>The trail\<close>

record audit_event =
  ae_id :: string
  ae_occurredAt :: string
  ae_eventType :: string
  ae_outcome :: string
  ae_actorType :: string
  ae_actor :: string
  ae_secretKey :: string
  ae_reason :: string

definition DESCRIPTIONS :: "(string \<times> string) list" where
  "DESCRIPTIONS = [
     (''SECRET_CREATED'', ''Secret created''), (''SECRET_ROTATED'', ''Secret rotated''),
     (''SECRET_ROLLED_BACK'', ''Rolled back''), (''SECRET_REVOKED'', ''Version revoked''),
     (''SECRET_EXPIRY_CHANGED'', ''Expiry changed''), (''SECRET_DELETED'', ''Secret deleted''),
     (''SECRET_USED'', ''Used by a runtime''), (''SECRET_REVEAL_REQUESTED'', ''Reveal requested''),
     (''SECRET_REVEALED'', ''Value revealed''), (''TOKEN_CREATED'', ''Token created''),
     (''TOKEN_REVOKED'', ''Token revoked''), (''RUNTIME_AUTHENTICATED'', ''Runtime signed in''),
     (''ACCESS_GRANTED'', ''Access granted''), (''ACCESS_REVOKED'', ''Access revoked''),
     (''ACCESS_DENIED'', ''Access denied''), (''IDENTITY_CREATED'', ''Identity created''),
     (''IDENTITY_DISABLED'', ''Identity disabled''), (''USER_INVITED'', ''Member added''),
     (''USER_REMOVED'', ''Member removed''), (''PROJECT_CREATED'', ''Project created''),
     (''ENVIRONMENT_CREATED'', ''Environment created''), (''LOGIN'', ''Signed in''),
     (''LOGIN_FAILED'', ''Sign-in failed''), (''LOGOUT'', ''Signed out''),
     (''DECRYPTION_FAILED'', ''Decryption failed''), (''RATE_LIMITED'', ''Rate limited'')]"

definition NOTABLE :: "string list" where
  "NOTABLE = [''SECRET_REVEALED'', ''SECRET_REVEAL_REQUESTED'', ''ACCESS_GRANTED'']"

definition OUTCOME_OPTIONS :: "(string \<times> string) list" where
  "OUTCOME_OPTIONS = [(''SUCCESS'', ''Success''), (''DENIED'', ''Denied''), (''FAILURE'', ''Failure'')]"

definition description :: "string \<Rightarrow> string" where
  "description ty = (case map_of DESCRIPTIONS ty of Some d \<Rightarrow> d | None \<Rightarrow> ty)"

text \<open>The types that occur, once each, sorted by code units, with their descriptions.\<close>

definition type_options :: "audit_event list \<Rightarrow> (string \<times> string) list" where
  "type_options events = map (\<lambda>ty. (ty, description ty)) (sort (remdups (map ae_eventType events)))"

record audit_table =
  at_query :: string
  at_outcome :: string
  at_type :: string

definition audit_start :: audit_table where
  "audit_start = \<lparr>at_query = [], at_outcome = [], at_type = []\<rparr>"

definition audit_matches :: "audit_table \<Rightarrow> audit_event \<Rightarrow> bool" where
  "audit_matches s e =
     (let needle = toLowerCase (trim (at_query s)) in
      if at_outcome s \<noteq> [] \<and> ae_outcome e \<noteq> at_outcome s then False
      else if at_type s \<noteq> [] \<and> ae_eventType e \<noteq> at_type s then False
      else if needle = [] then True
      else includes_str (toLowerCase (ae_actor e)) needle \<or> includes_str (toLowerCase (ae_secretKey e)) needle \<or>
        includes_str (toLowerCase (description (ae_eventType e))) needle)"

definition audit_filtered :: "audit_event list \<Rightarrow> audit_table \<Rightarrow> audit_event list" where
  "audit_filtered events s = filter (audit_matches s) events"

definition filters_active :: "audit_table \<Rightarrow> bool" where
  "filters_active s = (at_query s \<noteq> [] \<or> at_outcome s \<noteq> [] \<or> at_type s \<noteq> [])"

datatype audit_ui = QueryTyped string | TypePicked string | OutcomePicked string | FiltersReset

fun audit_step :: "audit_ui \<Rightarrow> audit_table \<Rightarrow> audit_table" where
  "audit_step (QueryTyped q) s = s\<lparr>at_query := q\<rparr>"
| "audit_step (TypePicked v) s = s\<lparr>at_type := v\<rparr>"
| "audit_step (OutcomePicked v) s = s\<lparr>at_outcome := v\<rparr>"
| "audit_step FiltersReset s = s\<lparr>at_query := [], at_outcome := [], at_type := []\<rparr>"

text \<open>A row: whether it is tinted, its lines and the tone and word of its outcome.\<close>

record audit_row =
  ar_tinted :: bool
  ar_title :: string
  ar_line :: string
  ar_who :: string
  ar_key :: "string option"
  ar_reason :: "string option"
  ar_tone :: string
  ar_outcome :: string

definition audit_row_of :: "audit_event \<Rightarrow> audit_row" where
  "audit_row_of e =
     \<lparr>ar_tinted = List.member NOTABLE (ae_eventType e), ar_title = ae_eventType e, ar_line = description (ae_eventType e),
      ar_who = (if ae_actor e \<noteq> [] then ae_actor e else '' '') @ [CHR '' '', CHR 0xB7, CHR '' ''] @
        replace_first (CHR ''_'') '' '' (toLowerCase (ae_actorType e)),
      ar_key = (if ae_secretKey e \<noteq> [] then Some (ae_secretKey e) else None),
      ar_reason = (if ae_reason e \<noteq> [] then Some (ae_reason e) else None),
      ar_tone = (if ae_outcome e = ''SUCCESS'' then ''ready'' else if ae_outcome e = ''DENIED'' then ''pending'' else ''error''),
      ar_outcome = toLowerCase (ae_outcome e)\<rparr>"

definition audit_bar :: "audit_event list \<Rightarrow> audit_table \<Rightarrow> audit_ui elem list" where
  "audit_bar events s =
     filter_search (''Search events'' @ [ellipsis]) (at_query s) QueryTyped @
     filter_select ''Actions'' (at_type s) (type_options events) TypePicked @
     filter_select ''Results'' (at_outcome s) OUTCOME_OPTIONS OutcomePicked @
     filter_reset (filters_active s) FiltersReset @
     [Note (show_nat (length (audit_filtered events s)) @ '' of '' @ show_nat (length events))]"

datatype audit_view = NothingRecorded | NothingMatches "audit_ui elem list" | Trail "audit_ui elem list" "audit_row list"

definition audit_table_view :: "audit_event list \<Rightarrow> audit_table \<Rightarrow> audit_view" where
  "audit_table_view events s =
     (if events = [] then NothingRecorded
      else if audit_filtered events s = [] then NothingMatches (audit_bar events s)
      else Trail (audit_bar events s) (map audit_row_of (audit_filtered events s)))"

section \<open>Lemmas\<close>

lemma math_round_1000: "- 500 \<le> a - 1000 * math_round_div a 1000 \<and> a - 1000 * math_round_div a 1000 < 500"
proof -
  have "2 * a + 1000 = (2 * a + 1000) div 2000 * 2000 + (2 * a + 1000) mod 2000" by simp
  moreover have "0 \<le> (2 * a + 1000) mod 2000" "(2 * a + 1000) mod 2000 < 2000" by simp_all
  moreover have "math_round_div a 1000 = (2 * a + 1000) div 2000" by (simp add: math_round_div_def)
  ultimately show ?thesis by linarith
qed

text \<open>A relative time tells the truth to the precision it shows.  Whenever a count is shown, it is of the coarsest of
  days, hours and minutes that fits, it is at least one, an hour count is below twenty-four and a minute count below
  sixty, its sign says whether the moment is past, and the moment lies within the count and the next one, to half a
  second.\<close>

theorem relative_time_is_tight:
  assumes "formatRelative date now value = Counted n u" "date (the value) = Some t"
  shows "\<exists>len. (u, len) \<in> set relative_units \<and> 1 \<le> \<bar>n\<bar> \<and> (u = ''hour'' \<longrightarrow> \<bar>n\<bar> < 24) \<and> (u = ''minute'' \<longrightarrow> \<bar>n\<bar> < 60) \<and>
    (n < 0 \<longleftrightarrow> t < now) \<and> \<bar>n\<bar> * len * 1000 - 500 \<le> \<bar>t - now\<bar> \<and> \<bar>t - now\<bar> \<le> (\<bar>n\<bar> + 1) * len * 1000"
proof -
  define s where "s = math_round_div (t - now) 1000"
  obtain c cs where v: "value = Some (c # cs)"
    using assms(1) by (auto simp: formatRelative_def split: option.splits list.splits)
  with assms have p: "pick_unit (s < 0) \<bar>s\<bar> relative_units = Some (Counted n u)"
    by (auto simp: formatRelative_def Let_def s_def split: option.splits if_splits)
  have r: "- 500 \<le> t - now - 1000 * s" "t - now - 1000 * s < 500"
    using math_round_1000 [of "t - now"] by (simp_all add: s_def)
  have step: "\<exists>len. (u, len) \<in> set relative_units \<and> 1 \<le> \<bar>n\<bar> \<and> (u = ''hour'' \<longrightarrow> \<bar>n\<bar> < 24) \<and> (u = ''minute'' \<longrightarrow> \<bar>n\<bar> < 60) \<and>
      \<bar>n\<bar> = \<bar>s\<bar> div len \<and> 60 \<le> len \<and> len \<le> \<bar>s\<bar> \<and> n = (if s < 0 then - (\<bar>s\<bar> div len) else \<bar>s\<bar> div len)"
  proof -
    consider "86400 \<le> \<bar>s\<bar>" | "\<bar>s\<bar> < 86400" "3600 \<le> \<bar>s\<bar>" | "\<bar>s\<bar> < 3600" "60 \<le> \<bar>s\<bar>"
      using p by (fastforce simp: relative_units_def split: if_splits)
    then show ?thesis
    proof cases
      case 1
      with p show ?thesis by (auto simp: relative_units_def intro!: exI [of _ 86400])
    next
      case 2
      with p show ?thesis by (auto simp: relative_units_def intro!: exI [of _ 3600])
    next
      case 3
      with p show ?thesis by (auto simp: relative_units_def intro!: exI [of _ 60])
    qed
  qed
  then obtain len where l: "(u, len) \<in> set relative_units" "1 \<le> \<bar>n\<bar>" "u = ''hour'' \<longrightarrow> \<bar>n\<bar> < 24" "u = ''minute'' \<longrightarrow> \<bar>n\<bar> < 60"
      "\<bar>n\<bar> = \<bar>s\<bar> div len" "60 \<le> len" "len \<le> \<bar>s\<bar>" "n = (if s < 0 then - (\<bar>s\<bar> div len) else \<bar>s\<bar> div len)"
    by blast
  have d: "\<bar>n\<bar> * len \<le> \<bar>s\<bar>" "\<bar>s\<bar> + 1 \<le> (\<bar>n\<bar> + 1) * len"
  proof -
    have e: "\<bar>s\<bar> = \<bar>s\<bar> div len * len + \<bar>s\<bar> mod len" by simp
    moreover have m: "0 \<le> \<bar>s\<bar> mod len" "\<bar>s\<bar> mod len < len" using l(6) by simp_all
    ultimately show "\<bar>n\<bar> * len \<le> \<bar>s\<bar>" unfolding l(5) by linarith
    show "\<bar>s\<bar> + 1 \<le> (\<bar>n\<bar> + 1) * len" using e m unfolding l(5) distrib_right by linarith
  qed
  have near: "\<bar>t - now\<bar> \<le> 1000 * \<bar>s\<bar> + 500" "1000 * \<bar>s\<bar> - 500 \<le> \<bar>t - now\<bar>" using r by arith+
  have "\<bar>n\<bar> * len * 1000 \<le> 1000 * \<bar>s\<bar>" "1000 * \<bar>s\<bar> + 1000 \<le> (\<bar>n\<bar> + 1) * len * 1000" using d by simp_all
  with near have "\<bar>n\<bar> * len * 1000 - 500 \<le> \<bar>t - now\<bar> \<and> \<bar>t - now\<bar> \<le> (\<bar>n\<bar> + 1) * len * 1000" by linarith
  moreover have "n = (if s < 0 then - \<bar>n\<bar> else \<bar>n\<bar>)" unfolding l(5) by (rule l(8))
  then have "n < 0 \<longleftrightarrow> s < 0" using l(2) by (auto split: if_splits)
  moreover have "s \<le> - 60 \<or> 60 \<le> s" using l(6,7) by linarith
  then have "s < 0 \<longleftrightarrow> t < now" using r by linarith
  ultimately show ?thesis using l(1-4) by blast
qed

theorem relative_time_is_tight_witness:
  "\<exists>len. (''hour'', len) \<in> set relative_units \<and> 2 * len * 1000 - 500 \<le> 7300000"
proof -
  have "formatRelative (\<lambda>_. Some 0) 7300000 (Some ''then'') = Counted (-2) ''hour''"
    by code_simp
  from relative_time_is_tight [OF this refl] show ?thesis by auto
qed

text \<open>A mounted element and the interval behind it, over a clock that does not run backwards.\<close>

fun relative_runs :: "(string \<Rightarrow> int option) \<Rightarrow> string \<Rightarrow> int \<Rightarrow> relative_event list \<Rightarrow> relative_time \<Rightarrow> bool" where
  "relative_runs date fallback clock [] s = True"
| "relative_runs date fallback clock (EffectRuns now v # es) s =
     (clock \<le> now \<and> relative_runs date fallback now es (relative_step date fallback (EffectRuns now v) s))"
| "relative_runs date fallback clock (TickRuns now # es) s =
     (clock \<le> now \<and> relative_runs date fallback now es (relative_step date fallback (TickRuns now) s))"
| "relative_runs date fallback clock (Unmounts # es) s =
     relative_runs date fallback clock es (relative_step date fallback Unmounts s)"

definition honest :: "(string \<Rightarrow> int option) \<Rightarrow> string \<Rightarrow> relative_time \<Rightarrow> bool" where
  "honest date fallback s =
     (rt_text s = (if given (rt_value s) then Relative (formatRelative date (rt_at s) (rt_value s)) else Fallback fallback) \<and>
      (case rt_next_tick s of Some due \<Rightarrow> given (rt_value s) \<and> due = rt_at s + 60000 | None \<Rightarrow> True))"

text \<open>A time on screen is never more than a minute stale.  In any run of the element, what it shows is the wording of
  its value at the moment it was last computed (or the fallback when there is no value), and while the interval runs,
  the next computation is due a minute after that moment, so before it is due the text is less than a minute old; an
  element without a value, or taken away, runs no interval.\<close>

theorem relative_text_is_fresh:
  "honest date fallback (fold (relative_step date fallback) es (relative_mount date fallback now value)) \<and>
   rt_next_tick (fold (relative_step date fallback) (es @ [Unmounts]) (relative_mount date fallback now value)) = None"
proof -
  have step: "honest date fallback (relative_step date fallback e s)" if "honest date fallback s" for e s
    using that by (cases e) (auto simp: honest_def relative_update_def split: option.splits)
  have "honest date fallback (fold (relative_step date fallback) es s)" if "honest date fallback s" for s
    using that by (induction es arbitrary: s) (simp_all add: step)
  moreover have "honest date fallback (relative_mount date fallback now value)"
    by (simp add: honest_def relative_mount_def)
  ultimately show ?thesis by simp
qed

section \<open>Filters\<close>

lemma offered_types: "fst ` set (type_options events) = ae_eventType ` set events"
  by (simp add: type_options_def image_image)

lemma blank_needle [simp]: "toLowerCase [] = []"
  by (simp add: toLowerCase_def)

text \<open>The filters of the trail hide nothing that was not asked for.  From the resting filters every event is listed;
  the action filter offers exactly the event types that occur, each once and in order; choosing one lists exactly the
  events of that type, in their order, and at least one; a filter added to others only takes events away; and Reset,
  offered exactly while some filter is set, brings everything back.\<close>

theorem audit_filters:
  "audit_filtered events audit_start = events \<and>
   sorted (map fst (type_options events)) \<and> distinct (map fst (type_options events)) \<and>
   fst ` set (type_options events) = ae_eventType ` set events \<and>
   (v \<in> fst ` set (type_options events) \<and> v \<noteq> [] \<longrightarrow>
      audit_filtered events (audit_step (TypePicked v) audit_start) = filter (\<lambda>e. ae_eventType e = v) events \<and>
      audit_filtered events (audit_step (TypePicked v) audit_start) \<noteq> []) \<and>
   subseq (audit_filtered events s) events \<and>
   (at_type s = [] \<longrightarrow> subseq (audit_filtered events (audit_step (TypePicked v) s)) (audit_filtered events s)) \<and>
   (at_outcome s = [] \<longrightarrow> subseq (audit_filtered events (audit_step (OutcomePicked v) s)) (audit_filtered events s)) \<and>
   (pressable (filter_reset (filters_active s) FiltersReset) FiltersReset \<longleftrightarrow> s \<noteq> audit_start) \<and>
   audit_filtered events (audit_step FiltersReset s) = events"
proof (intro conjI impI)
  show "audit_filtered events audit_start = events"
    by (simp add: audit_filtered_def audit_matches_def [abs_def] audit_start_def Let_def)
  show "audit_filtered events (audit_step FiltersReset s) = events"
    by (simp add: audit_filtered_def audit_matches_def [abs_def] Let_def)
  show "sorted (map fst (type_options events))" "distinct (map fst (type_options events))"
    by (simp_all add: type_options_def comp_def)
  show "fst ` set (type_options events) = ae_eventType ` set events" by (rule offered_types)
  assume v: "v \<in> fst ` set (type_options events) \<and> v \<noteq> []"
  show f: "audit_filtered events (audit_step (TypePicked v) audit_start) = filter (\<lambda>e. ae_eventType e = v) events"
    using v by (simp add: audit_filtered_def audit_matches_def [abs_def] audit_start_def Let_def)
  show "audit_filtered events (audit_step (TypePicked v) audit_start) \<noteq> []"
    unfolding f using v by (auto simp: offered_types filter_empty_conv)
next
  show "subseq (audit_filtered events s) events" by (simp add: audit_filtered_def)
  have n: "audit_filtered events (audit_step (TypePicked v) s) = filter (\<lambda>e. v = [] \<or> ae_eventType e = v) (audit_filtered events s)"
    if "at_type s = []"
  proof -
    have "audit_matches (audit_step (TypePicked v) s) e = (audit_matches s e \<and> (v = [] \<or> ae_eventType e = v))" for e
      using that by (simp add: audit_matches_def Let_def)
    then show ?thesis unfolding audit_filtered_def filter_filter by (intro filter_cong refl)
  qed
  show "subseq (audit_filtered events (audit_step (TypePicked v) s)) (audit_filtered events s)" if "at_type s = []"
    unfolding n [OF that] by simp
  have m: "audit_filtered events (audit_step (OutcomePicked v) s) = filter (\<lambda>e. v = [] \<or> ae_outcome e = v) (audit_filtered events s)"
    if "at_outcome s = []"
  proof -
    have "audit_matches (audit_step (OutcomePicked v) s) e = (audit_matches s e \<and> (v = [] \<or> ae_outcome e = v))" for e
      using that by (simp add: audit_matches_def Let_def)
    then show ?thesis unfolding audit_filtered_def filter_filter by (intro filter_cong refl)
  qed
  show "subseq (audit_filtered events (audit_step (OutcomePicked v) s)) (audit_filtered events s)" if "at_outcome s = []"
    unfolding m [OF that] by simp
  show "pressable (filter_reset (filters_active s) FiltersReset) FiltersReset \<longleftrightarrow> s \<noteq> audit_start"
    by (cases s) (simp add: filter_reset_def filters_active_def audit_start_def)
qed

definition demo_event :: "string \<Rightarrow> string \<Rightarrow> audit_event" where
  "demo_event i ty = \<lparr>ae_id = i, ae_occurredAt = ''now'', ae_eventType = ty, ae_outcome = ''SUCCESS'', ae_actorType = ''HUMAN'',
     ae_actor = ''ada'', ae_secretKey = ''KEY'', ae_reason = []\<rparr>"

theorem audit_filters_witness:
  "audit_filtered [demo_event ''1'' ''LOGIN'', demo_event ''2'' ''LOGOUT''] (audit_step (TypePicked ''LOGIN'') audit_start) =
     [demo_event ''1'' ''LOGIN'']"
proof -
  have "''LOGIN'' \<in> fst ` set (type_options [demo_event ''1'' ''LOGIN'', demo_event ''2'' ''LOGOUT''])"
    unfolding offered_types by (simp add: demo_event_def)
  with audit_filters [of "[demo_event ''1'' ''LOGIN'', demo_event ''2'' ''LOGOUT'']" "''LOGIN''"]
  have "audit_filtered [demo_event ''1'' ''LOGIN'', demo_event ''2'' ''LOGOUT''] (audit_step (TypePicked ''LOGIN'') audit_start) =
      filter (\<lambda>e. ae_eventType e = ''LOGIN'') [demo_event ''1'' ''LOGIN'', demo_event ''2'' ''LOGOUT'']" by blast
  then show ?thesis by (simp add: demo_event_def)
qed

text \<open>Reading is tinted, revoking is not.  A row of the trail is tinted for a reveal, a request for one and a grant, and
  for no other event it has words for: an event that takes access away, or refuses it, looks like any other row.\<close>

theorem tinted_rows:
  "(ar_tinted (audit_row_of e) \<longleftrightarrow> ae_eventType e \<in> {''SECRET_REVEALED'', ''SECRET_REVEAL_REQUESTED'', ''ACCESS_GRANTED''}) \<and>
   \<not> ar_tinted (audit_row_of (e\<lparr>ae_eventType := ''ACCESS_REVOKED''\<rparr>)) \<and>
   description ''ACCESS_REVOKED'' = ''Access revoked''"
proof (intro conjI)
  show "ar_tinted (audit_row_of e) \<longleftrightarrow> ae_eventType e \<in> {''SECRET_REVEALED'', ''SECRET_REVEAL_REQUESTED'', ''ACCESS_GRANTED''}"
    by (auto simp: audit_row_of_def NOTABLE_def)
  show "\<not> ar_tinted (audit_row_of (e\<lparr>ae_eventType := ''ACCESS_REVOKED''\<rparr>))"
    by (simp add: audit_row_of_def NOTABLE_def)
  show "description ''ACCESS_REVOKED'' = ''Access revoked''" by code_simp
qed

text \<open>
  A chosen type that no longer occurs, after the events were fetched again: the filter reads \<open>All Actions\<close> and hides
  every event.
\<close>

lemma all_actions_can_hide_all:
  "filter_select_label ''Actions'' ''LOGIN'' (type_options [demo_event ''2'' ''LOGOUT'']) = ''All Actions'' \<and>
   audit_filtered [demo_event ''2'' ''LOGOUT''] (audit_step (TypePicked ''LOGIN'') audit_start) = []"
  by (simp add: type_options_def demo_event_def filter_select_label_def audit_filtered_def audit_matches_def audit_start_def Let_def)

end
