(* ===== verification/Gestures.thy ===== *)
theory Gestures imports Ui begin

text \<open>
  Pointer gestures (web/lib/touch.ts and web/lib/hooks) and the tooltip built from them
  (web/components/motion/tooltip.tsx).  A browser event is the data its handlers read; elements are named, and what is
  inside what is a parameter of a scope.
\<close>

section \<open>Hover\<close>

record pointer =
  pt_id :: nat
  pt_type :: string
  pt_buttons :: nat

definition isHoveringPointer :: "pointer \<Rightarrow> bool" where
  "isHoveringPointer p = (pt_type p \<noteq> ''touch'' \<and> pt_buttons p = 0)"

text \<open>The pointers that arrived in contact.\<close>

type_synonym hover = "nat list"

definition hover_enter :: "pointer \<Rightarrow> hover \<Rightarrow> bool \<times> hover" where
  "hover_enter p contact =
     (if isHoveringPointer p then (True, removeAll (pt_id p) contact) else (False, List.insert (pt_id p) contact))"

definition hover_leave :: "pointer \<Rightarrow> hover \<Rightarrow> bool \<times> hover" where
  "hover_leave p contact =
     (let arrivedInContact = List.member contact (pt_id p) in
      (\<not> arrivedInContact \<and> pt_type p \<noteq> ''touch'', removeAll (pt_id p) contact))"

datatype boundary = Enters pointer | Leaves pointer

fun boundary_step :: "boundary \<Rightarrow> hover \<Rightarrow> bool \<times> hover" where
  "boundary_step (Enters p) c = hover_enter p c"
| "boundary_step (Leaves p) c = hover_leave p c"

definition hover_after :: "boundary list \<Rightarrow> hover" where
  "hover_after es = fold (\<lambda>e c. snd (boundary_step e c)) es []"

section \<open>Taps\<close>

text \<open>The record of the gesture behind a click: the kind of pointer and what the surface showed.\<close>

type_synonym 's tap = "(string \<times> 's) option"

definition tap_start :: "string \<Rightarrow> 's \<Rightarrow> 's tap \<Rightarrow> 's tap" where
  "tap_start pointerType state r = Some (pointerType, state)"

definition tap_take :: "'s tap \<Rightarrow> 's tap \<times> 's tap" where
  "tap_take r = (r, None)"

definition tap_drop :: "'s tap \<Rightarrow> 's tap" where
  "tap_drop r = None"

section \<open>Dismissal\<close>

text \<open>
  One open overlay: whether it consumes the gesture that dismisses it, whether Escape dismisses it, and which targets it
  counts as inside itself.
\<close>

record 't scope =
  sp_id :: nat
  sp_consume :: bool
  sp_escape :: bool
  sp_inside :: "'t \<Rightarrow> bool"

text \<open>The open scopes, in the order they were opened, and the gestures whose click is to be swallowed.\<close>

record 't dismiss =
  dm_open :: "'t scope list"
  dm_armed :: "nat list"

definition claimedByAnotherScope :: "'t scope list \<Rightarrow> 't scope \<Rightarrow> 't \<Rightarrow> bool" where
  "claimedByAnotherScope scopes self target = list_ex (\<lambda>s. sp_id s \<noteq> sp_id self \<and> sp_inside s target) scopes"

text \<open>
  The events of the window, numbered; a pointer goes down on a target or on none.  A pointerdown first releases what an
  earlier gesture armed (its listeners were there before), then each open scope answers it.
\<close>

datatype 't window_event = PointerDown nat "'t option" | PointerCancel nat | KeyDown string | ClickEvent

definition scope_arms :: "'t scope list \<Rightarrow> 't \<Rightarrow> 't scope \<Rightarrow> bool" where
  "scope_arms scopes target s = (\<not> sp_inside s target \<and> sp_consume s \<and> \<not> claimedByAnotherScope scopes s target)"

fun window_step :: "'t window_event \<Rightarrow> 't dismiss \<Rightarrow> (nat list \<times> bool) \<times> 't dismiss" where
  "window_step (PointerDown n target) d =
     (case target of
        None \<Rightarrow> (([], False), d\<lparr>dm_armed := filter (\<lambda>m. m = n) (dm_armed d)\<rparr>)
      | Some t \<Rightarrow>
          ((map sp_id (filter (\<lambda>s. \<not> sp_inside s t) (dm_open d)), False),
           d\<lparr>dm_armed := filter (\<lambda>m. m = n) (dm_armed d) @ map (\<lambda>_. n) (filter (scope_arms (dm_open d) t) (dm_open d))\<rparr>))"
| "window_step (PointerCancel n) d = (([], False), d\<lparr>dm_armed := filter (\<lambda>m. m = n) (dm_armed d)\<rparr>)"
| "window_step (KeyDown key) d =
     ((if key = ''Escape'' then map sp_id (filter sp_escape (dm_open d)) else [], False), d\<lparr>dm_armed := []\<rparr>)"
| "window_step ClickEvent d = (([], dm_armed d \<noteq> []), d\<lparr>dm_armed := []\<rparr>)"

text \<open>An overlay opens, or is taken away once its dismissal has run.\<close>

definition scope_opens :: "'t scope \<Rightarrow> 't dismiss \<Rightarrow> 't dismiss" where
  "scope_opens s d = d\<lparr>dm_open := dm_open d @ [s]\<rparr>"

definition scope_closes :: "nat \<Rightarrow> 't dismiss \<Rightarrow> 't dismiss" where
  "scope_closes i d = d\<lparr>dm_open := filter (\<lambda>s. sp_id s \<noteq> i) (dm_open d)\<rparr>"

datatype 't dismiss_event = Window "'t window_event" | Opens "'t scope" | Closes nat

fun dismiss_step :: "'t dismiss_event \<Rightarrow> 't dismiss \<Rightarrow> 't dismiss" where
  "dismiss_step (Window e) d = snd (window_step e d)"
| "dismiss_step (Opens s) d = scope_opens s d"
| "dismiss_step (Closes i) d = scope_closes i d"

section \<open>The tooltip\<close>

text \<open>
  \<open>tp_timer\<close> is the pending timeout of \<open>show\<close>, by when it is due; \<open>lastHiddenAt\<close> is shared by every tooltip of the page.
\<close>

record tooltip =
  tp_open :: bool
  tp_timer :: "int option"
  tp_hover :: hover
  tp_tap :: "bool tap"
  tp_lastHiddenAt :: int

definition WARM_WINDOW_MS :: int where "WARM_WINDOW_MS = 300"

definition tooltip_show :: "int \<Rightarrow> int \<Rightarrow> tooltip \<Rightarrow> tooltip" where
  "tooltip_show delay now s =
     (let warm = now - tp_lastHiddenAt s < WARM_WINDOW_MS in
      s\<lparr>tp_timer := Some (now + (if warm then 0 else delay))\<rparr>)"

definition tooltip_hide :: "int \<Rightarrow> tooltip \<Rightarrow> tooltip" where
  "tooltip_hide now s =
     s\<lparr>tp_timer := None, tp_lastHiddenAt := (if tp_open s then now else tp_lastHiddenAt s), tp_open := False\<rparr>"

definition toggleOnTap :: "int \<Rightarrow> tooltip \<Rightarrow> tooltip" where
  "toggleOnTap now s =
     (case tap_take (tp_tap s) of (gesture, r) \<Rightarrow>
       (case gesture of
          None \<Rightarrow> s\<lparr>tp_tap := r\<rparr>
        | Some (pointerType, state) \<Rightarrow>
            if pointerType = ''mouse'' then s\<lparr>tp_tap := r\<rparr>
            else if state then tooltip_hide now (s\<lparr>tp_tap := r\<rparr>)
            else s\<lparr>tp_tap := r, tp_timer := None, tp_open := True\<rparr>))"

datatype tooltip_event =
    TipEnter pointer | TipLeave pointer | TipFocus | TipBlur | TipDown pointer | TipCancel | TipKey string | TipClick
  | TipTimer | OutsideDown | OutsideKey string

text \<open>Escape and a pointerdown outside are heard while the tooltip is open; a key on the anchor is heard by both.\<close>

definition tooltip_key :: "int \<Rightarrow> string \<Rightarrow> tooltip \<Rightarrow> tooltip" where
  "tooltip_key now key s = (if tp_open s \<and> key = ''Escape'' then tooltip_hide now s else s)"

fun tooltip_step :: "int \<Rightarrow> int \<Rightarrow> tooltip_event \<Rightarrow> tooltip \<Rightarrow> tooltip" where
  "tooltip_step delay now (TipEnter p) s =
     (case hover_enter p (tp_hover s) of (started, h) \<Rightarrow>
       if started then tooltip_show delay now (s\<lparr>tp_hover := h\<rparr>) else s\<lparr>tp_hover := h\<rparr>)"
| "tooltip_step delay now (TipLeave p) s =
     (case hover_leave p (tp_hover s) of (ended, h) \<Rightarrow>
       if ended then tooltip_hide now (s\<lparr>tp_hover := h\<rparr>) else s\<lparr>tp_hover := h\<rparr>)"
| "tooltip_step delay now TipFocus s = tooltip_show delay now s"
| "tooltip_step delay now TipBlur s = tooltip_hide now s"
| "tooltip_step delay now (TipDown p) s = s\<lparr>tp_tap := tap_start (pt_type p) (tp_open s) (tp_tap s)\<rparr>"
| "tooltip_step delay now TipCancel s = s\<lparr>tp_tap := tap_drop (tp_tap s)\<rparr>"
| "tooltip_step delay now (TipKey key) s = tooltip_key now key (s\<lparr>tp_tap := tap_drop (tp_tap s)\<rparr>)"
| "tooltip_step delay now TipClick s = toggleOnTap now s"
| "tooltip_step delay now TipTimer s =
     (case tp_timer s of Some due \<Rightarrow> if due \<le> now then s\<lparr>tp_timer := None, tp_open := True\<rparr> else s | None \<Rightarrow> s)"
| "tooltip_step delay now OutsideDown s = (if tp_open s then tooltip_hide now s else s)"
| "tooltip_step delay now (OutsideKey key) s = tooltip_key now key s"

section \<open>Lemmas\<close>

fun boundary_pointer :: "boundary \<Rightarrow> pointer" where
  "boundary_pointer (Enters p) = p"
| "boundary_pointer (Leaves p) = p"

text \<open>The last boundary a pointer crossed was an enter in contact.\<close>

definition in_contact :: "boundary list \<Rightarrow> nat \<Rightarrow> bool" where
  "in_contact es i = (case find (\<lambda>e. pt_id (boundary_pointer e) = i) (rev es) of
     Some (Enters q) \<Rightarrow> \<not> isHoveringPointer q | _ \<Rightarrow> False)"

lemma hover_after_snoc: "hover_after (es @ [e]) = snd (boundary_step e (hover_after es))"
  by (simp add: hover_after_def)

lemma hover_after_contact: "i \<in> set (hover_after es) \<longleftrightarrow> in_contact es i"
proof (induction es rule: rev_induct)
  case Nil
  then show ?case by (simp add: hover_after_def in_contact_def)
next
  case (snoc e es)
  then show ?case
    by (cases e) (auto simp: hover_after_snoc hover_enter_def hover_leave_def Let_def in_contact_def)
qed

lemma leave_ends: "fst (hover_leave p (hover_after es)) \<longleftrightarrow> pt_type p \<noteq> ''touch'' \<and> \<not> in_contact es (pt_id p)"
  by (auto simp: hover_leave_def Let_def hover_after_contact)

text \<open>A leave ends exactly the hover its enter began.  Over any crossings of a surface by any pointers, a leave counts as
  the end of a hover unless the pointer is a finger or the same pointer's last crossing was an arrival in contact,
  whatever buttons the leave itself reports.\<close>

theorem leave_ends_what_enter_began:
  "fst (boundary_step (Leaves p) (hover_after es)) \<longleftrightarrow> pt_type p \<noteq> ''touch'' \<and> \<not> in_contact es (pt_id p)"
  by (simp add: leave_ends)

definition dismiss_run :: "'t dismiss_event list \<Rightarrow> 't dismiss" where
  "dismiss_run es = fold dismiss_step es \<lparr>dm_open = [], dm_armed = []\<rparr>"

fun event_number :: "'t dismiss_event \<Rightarrow> nat list" where
  "event_number (Window (PointerDown n t)) = [n]"
| "event_number (Window (PointerCancel n)) = [n]"
| "event_number e = []"

fun is_window :: "'t dismiss_event \<Rightarrow> bool" where
  "is_window (Window e) = True"
| "is_window e = False"

text \<open>The last thing the person did was a pointerdown that some open scope, and no other, had to swallow.\<close>

definition swallow_owed :: "'t dismiss_event list \<Rightarrow> bool" where
  "swallow_owed es = (case dropWhile (\<lambda>e. \<not> is_window e) (rev es) of
     Window (PointerDown n (Some t)) # before \<Rightarrow>
       (let d = dismiss_run (rev before) in list_ex (scope_arms (dm_open d) t) (dm_open d))
   | _ \<Rightarrow> False)"

lemma armed_numbers: "set (dm_armed (dismiss_run es)) \<subseteq> set (concat (map event_number es))"
proof (induction es rule: rev_induct)
  case (snoc e es)
  have r: "dismiss_run (es @ [e]) = dismiss_step e (dismiss_run es)" by (simp add: dismiss_run_def)
  show ?case
  proof (cases e)
    case (Window w)
    then show ?thesis using snoc.IH r by (cases w) (auto split: option.splits)
  qed (use snoc.IH r in \<open>auto simp: scope_opens_def scope_closes_def\<close>)
qed (simp add: dismiss_run_def)

lemma swallow_owed_snoc:
  "\<not> is_window e \<Longrightarrow> swallow_owed (es @ [e]) = swallow_owed es"
  by (simp add: swallow_owed_def)

text \<open>A dismissal swallows the click of its own gesture and no other.  Over any opening and closing of overlays and any
  events of the window, a click is swallowed exactly when the last thing the person did was a pointer going down outside
  an overlay that consumes, on nothing that another open overlay claims; one click is swallowed at most, and after a key
  press, a cancelled gesture or a new one nothing is owed.\<close>

theorem dismissal_swallows_one_click:
  assumes "distinct (concat (map event_number es))"
  shows "(snd (fst (window_step ClickEvent (dismiss_run es))) \<longleftrightarrow> swallow_owed es) \<and>
    \<not> snd (fst (window_step ClickEvent (dismiss_run (es @ [Window ClickEvent])))) \<and>
    \<not> snd (fst (window_step ClickEvent (dismiss_run (es @ [Window (KeyDown key)]))))"
proof -
  have r: "dismiss_run (xs @ [e]) = dismiss_step e (dismiss_run xs)" for xs :: "'a dismiss_event list" and e
    by (simp add: dismiss_run_def)
  have "dm_armed (dismiss_run es) \<noteq> [] \<longleftrightarrow> swallow_owed es"
    using assms
  proof (induction es rule: rev_induct)
    case Nil
    then show ?case by (simp add: dismiss_run_def swallow_owed_def)
  next
    case (snoc e es)
    have fresh: "filter (\<lambda>m. m = n) (dm_armed (dismiss_run es)) = []" if "event_number e = [n]" for n
      using that snoc.prems armed_numbers [of es] by (auto simp: filter_empty_conv)
    show ?case
    proof (cases e)
      case (Window w)
      then show ?thesis
        using fresh by (cases w)
          (auto simp: r swallow_owed_def Let_def list_ex_iff filter_empty_conv split: option.splits)
    next
      case (Opens s)
      then show ?thesis using snoc by (simp add: r swallow_owed_snoc scope_opens_def)
    next
      case (Closes i)
      then show ?thesis using snoc by (simp add: r swallow_owed_snoc scope_closes_def)
    qed
  qed
  then show ?thesis by (simp add: r)
qed

definition demo_scope :: "nat scope" where
  "demo_scope = \<lparr>sp_id = 0, sp_consume = True, sp_escape = True, sp_inside = (\<lambda>t. t = 0)\<rparr>"

theorem dismissal_swallows_one_click_witness:
  "snd (fst (window_step ClickEvent (dismiss_run [Opens demo_scope, Window (PointerDown 7 (Some 1)), Closes 0]))) \<and>
   \<not> snd (fst (window_step ClickEvent (dismiss_run [Opens demo_scope, Window (PointerDown 7 (Some 0)), Closes 0])))"
  using dismissal_swallows_one_click [of "[Opens demo_scope, Window (PointerDown 7 (Some 1)), Closes 0]"]
    dismissal_swallows_one_click [of "[Opens demo_scope, Window (PointerDown 7 (Some 0)), Closes 0]"]
  by (simp add: swallow_owed_def dismiss_run_def scope_opens_def scope_arms_def demo_scope_def claimedByAnotherScope_def)

section \<open>What a label does\<close>

definition tooltip_run :: "int \<Rightarrow> (int \<times> tooltip_event) list \<Rightarrow> tooltip" where
  "tooltip_run delay es = fold (\<lambda>(now, e). tooltip_step delay now e) es
     \<lparr>tp_open = False, tp_timer = None, tp_hover = [], tp_tap = None, tp_lastHiddenAt = 0\<rparr>"

fun tip_boundary :: "tooltip_event \<Rightarrow> boundary list" where
  "tip_boundary (TipEnter p) = [Enters p]"
| "tip_boundary (TipLeave p) = [Leaves p]"
| "tip_boundary e = []"

definition crossings :: "(int \<times> tooltip_event) list \<Rightarrow> boundary list" where
  "crossings es = concat (map (\<lambda>(now, e). tip_boundary e) es)"

text \<open>The tap a click would spend.\<close>

fun tap_of :: "tooltip_event \<Rightarrow> string option option" where
  "tap_of (TipDown p) = Some (Some (pt_type p))"
| "tap_of TipCancel = Some None"
| "tap_of (TipKey k) = Some None"
| "tap_of TipClick = Some None"
| "tap_of e = None"

definition tap_due :: "(int \<times> tooltip_event) list \<Rightarrow> string option" where
  "tap_due es = (case List.map_filter (\<lambda>(now, e). tap_of e) (rev es) of r # rs \<Rightarrow> r | [] \<Rightarrow> None)"

lemma tooltip_run_snoc: "tooltip_run delay (es @ [(now, e)]) = tooltip_step delay now e (tooltip_run delay es)"
  by (simp add: tooltip_run_def)

lemma toggle_sel [simp]: "tp_hover (toggleOnTap now s) = tp_hover s" "tp_tap (toggleOnTap now s) = None"
  "tp_hover (tooltip_key now k s) = tp_hover s" "tp_tap (tooltip_key now k s) = tp_tap s"
  by (auto simp: toggleOnTap_def tap_take_def tooltip_hide_def tooltip_key_def split: option.splits)

lemma tooltip_hover: "tp_hover (tooltip_run delay es) = hover_after (crossings es)"
proof (induction es rule: rev_induct)
  case (snoc x es)
  obtain now e where x: "x = (now, e)" by (cases x)
  have c: "crossings (es @ [x]) = crossings es @ tip_boundary e" by (simp add: crossings_def x)
  show ?case
    unfolding c unfolding x tooltip_run_snoc
    by (cases e) (auto simp: snoc.IH hover_after_snoc tooltip_show_def tooltip_hide_def Let_def split: prod.splits option.splits)
qed (simp add: tooltip_run_def crossings_def hover_after_def)

lemma tooltip_tap: "map_option fst (tp_tap (tooltip_run delay es)) = tap_due es"
proof (induction es rule: rev_induct)
  case (snoc x es)
  obtain now e where x: "x = (now, e)" by (cases x)
  have c: "tap_due (es @ [x]) = (case tap_of e of Some r \<Rightarrow> r | None \<Rightarrow> tap_due es)"
    by (simp add: tap_due_def x map_filter_simps split: option.splits)
  show ?case
    unfolding c unfolding x tooltip_run_snoc
    by (cases e) (auto simp: snoc.IH tooltip_show_def tooltip_hide_def Let_def tap_start_def tap_drop_def split: prod.splits option.splits)
qed (simp add: tooltip_run_def tap_due_def map_filter_simps)

text \<open>A label never gets stuck and never answers the wrong hand.  After any events, a pointer that is not a finger and
  did not arrive pressing closes the label and cancels its timer by leaving, as does losing the focus; a click that no tap
  stands behind, because a key was pressed, the gesture was cancelled or spent, or it was the mouse's, changes nothing
  that is shown; and a finger's or pen's click turns the label over from what its tap started against.\<close>

theorem labels_let_go:
  "(pt_type p \<noteq> ''touch'' \<and> \<not> in_contact (crossings es) (pt_id p) \<longrightarrow>
      \<not> tp_open (tooltip_run delay (es @ [(now, TipLeave p)])) \<and> tp_timer (tooltip_run delay (es @ [(now, TipLeave p)])) = None) \<and>
   \<not> tp_open (tooltip_run delay (es @ [(now, TipBlur)])) \<and> tp_timer (tooltip_run delay (es @ [(now, TipBlur)])) = None \<and>
   (tap_due es \<in> {None, Some ''mouse''} \<longrightarrow>
      tp_open (tooltip_run delay (es @ [(now, TipClick)])) = tp_open (tooltip_run delay es) \<and>
      tp_timer (tooltip_run delay (es @ [(now, TipClick)])) = tp_timer (tooltip_run delay es)) \<and>
   (pt_type p \<noteq> ''mouse'' \<longrightarrow>
      tp_open (tooltip_run delay (es @ [(t, TipDown p), (now, TipClick)])) = (\<not> tp_open (tooltip_run delay es)))"
proof (intro conjI)
  show "pt_type p \<noteq> ''touch'' \<and> \<not> in_contact (crossings es) (pt_id p) \<longrightarrow>
      \<not> tp_open (tooltip_run delay (es @ [(now, TipLeave p)])) \<and> tp_timer (tooltip_run delay (es @ [(now, TipLeave p)])) = None"
    using leave_ends [of p "crossings es"]
    by (auto simp: tooltip_run_snoc tooltip_hover tooltip_hide_def split: prod.splits)
  show "\<not> tp_open (tooltip_run delay (es @ [(now, TipBlur)]))" "tp_timer (tooltip_run delay (es @ [(now, TipBlur)])) = None"
    by (simp_all add: tooltip_run_snoc tooltip_hide_def)
  show "tap_due es \<in> {None, Some ''mouse''} \<longrightarrow>
      tp_open (tooltip_run delay (es @ [(now, TipClick)])) = tp_open (tooltip_run delay es) \<and>
      tp_timer (tooltip_run delay (es @ [(now, TipClick)])) = tp_timer (tooltip_run delay es)"
    using tooltip_tap [of delay es] by (auto simp: tooltip_run_snoc toggleOnTap_def tap_take_def split: option.splits)
  show "pt_type p \<noteq> ''mouse'' \<longrightarrow>
      tp_open (tooltip_run delay (es @ [(t, TipDown p), (now, TipClick)])) = (\<not> tp_open (tooltip_run delay es))"
    using tooltip_run_snoc [of delay "es @ [(t, TipDown p)]" now TipClick]
    by (auto simp: tooltip_run_snoc toggleOnTap_def tap_take_def tap_start_def tooltip_hide_def)
qed

theorem labels_let_go_witness:
  "\<not> tp_open (tooltip_run 120 [(0, TipEnter \<lparr>pt_id = 1, pt_type = ''mouse'', pt_buttons = 0\<rparr>), (200, TipTimer),
      (300, TipLeave \<lparr>pt_id = 1, pt_type = ''mouse'', pt_buttons = 1\<rparr>)]) \<and>
   tp_open (tooltip_run 120 [(0, TipDown \<lparr>pt_id = 2, pt_type = ''pen'', pt_buttons = 1\<rparr>), (50, TipClick)])"
proof -
  have c: "\<not> in_contact (crossings [(0, TipEnter \<lparr>pt_id = 1, pt_type = ''mouse'', pt_buttons = 0\<rparr>), (200, TipTimer)]) 1"
    by code_simp
  show ?thesis
    using labels_let_go [of "\<lparr>pt_id = 1, pt_type = ''mouse'', pt_buttons = 1\<rparr>"
        "[(0, TipEnter \<lparr>pt_id = 1, pt_type = ''mouse'', pt_buttons = 0\<rparr>), (200, TipTimer)]" 120 300 0]
      labels_let_go [of "\<lparr>pt_id = 2, pt_type = ''pen'', pt_buttons = 1\<rparr>" "[]" 120 50 0] c
    by (simp add: tooltip_run_def)
qed

end
