(* ===== verification/DocsPages.thy ===== *)
theory DocsPages imports Docs begin

text \<open>
  The documentation pages (web/app/(public)/docs, web/components/docs): which pages exist, what a page offers to go
  to, and what a link or a heading of a document becomes.  Parsing markdown is left to the renderer, whose tree is what
  these functions are given.
\<close>

section \<open>Model\<close>

text \<open>\<open>generateStaticParams\<close> and the catch-all parameter, whose segments the page joins again.\<close>

definition generateStaticParams :: "string list list" where
  "generateStaticParams = map (\<lambda>d. split_on (CHR ''/'') (slug d)) ALL_DOCS"

definition generateMetadata :: "string list \<Rightarrow> (string \<times> string) option" where
  "generateMetadata segments = (case findDoc (join ''/'' segments) of
     None \<Rightarrow> None | Some meta \<Rightarrow> Some (doc_title meta, doc_summary meta))"

text \<open>A page: its document, the contents rail when it is shown, and the two links at the end.\<close>

record doc_page =
  dp_doc :: LoadedDoc
  dp_rail :: "Heading list option"
  dp_previous :: "(string \<times> string) option"
  dp_next :: "(string \<times> string) option"

definition doc_rail :: "Heading list \<Rightarrow> Heading list" where
  "doc_rail hs = (if length hs > 20 then filter (\<lambda>h. heading_level h = Two) hs else hs)"

definition doc_link :: "DocMeta \<Rightarrow> string \<times> string" where
  "doc_link d = (''/docs/'' @ slug d, doc_title d)"

text \<open>\<open>None\<close> where \<open>notFound()\<close> is called.\<close>

definition DocPage :: "string \<Rightarrow> (string \<Rightarrow> string option) \<Rightarrow> string list \<Rightarrow> exn + doc_page option" where
  "DocPage docs_root readFile segments = then_ok (loadDoc docs_root readFile (join ''/'' segments)) (\<lambda>r. case r of
     None \<Rightarrow> Inr None
   | Some d \<Rightarrow>
       let n = docNeighbours (slug (ld_meta d)); rail = doc_rail (ld_headings d) in
       Inr (Some \<lparr>dp_doc = d, dp_rail = (if length rail > 2 then Some rail else None),
         dp_previous = map_option doc_link (previous_doc n), dp_next = map_option doc_link (next_doc n)\<rparr>))"

text \<open>The sidebar and the index: every document, with its address, and the sidebar's mark on the page shown.\<close>

definition docs_nav :: "string \<Rightarrow> (string \<times> (string \<times> string \<times> bool) list) list" where
  "docs_nav pathname = map (\<lambda>s. (section_title s,
     map (\<lambda>d. (doc_title d, ''/docs/'' @ slug d, pathname = ''/docs/'' @ slug d)) (docs s))) DOC_SECTIONS"

definition docs_index :: "(string \<times> string \<times> (string \<times> string \<times> string) list) list" where
  "docs_index = map (\<lambda>s. (section_title s, blurb s,
     map (\<lambda>d. (''/docs/'' @ slug d, doc_title d, doc_summary d)) (docs s))) DOC_SECTIONS"

subsection \<open>Links\<close>

definition FILE_TO_SLUG :: "(string \<times> string) list" where
  "FILE_TO_SLUG = rev (map (\<lambda>d. (doc_file d, slug d)) ALL_DOCS)"

text \<open>\<open>s.replace(/\/[^/]+$/, "")\<close>\<close>

definition drop_last_segment :: "string \<Rightarrow> string" where
  "drop_last_segment s =
     (let seg = rev (takeWhile (\<lambda>c. c \<noteq> CHR ''/'') (rev s)) in
      if seg \<noteq> [] \<and> length seg < length s then take (length s - length seg - 1) s else s)"

definition resolve_segment :: "string list \<Rightarrow> string \<Rightarrow> string list" where
  "resolve_segment stack segment =
     (if segment = ''.'' \<or> segment = [] then stack
      else if segment = ''..'' then butlast stack
      else stack @ [segment])"

text \<open>The document a path names, seen from a file.\<close>

definition path_stack :: "string \<Rightarrow> string \<Rightarrow> string list" where
  "path_stack fromFile path =
     (let directory = (if CHR ''/'' \<in> set fromFile then drop_last_segment fromFile else []);
          segments = split_on (CHR ''/'') (if directory \<noteq> [] then directory @ ''/'' @ path else path)
      in foldl resolve_segment [] segments)"

definition resolve_path :: "string \<Rightarrow> string \<Rightarrow> string option" where
  "resolve_path fromFile path = map_of FILE_TO_SLUG (join ''/'' (path_stack fromFile path))"

definition resolveDocHref :: "string \<Rightarrow> string \<Rightarrow> string option" where
  "resolveDocHref href fromFile =
     (let parts = split_on (CHR ''#'') href;
          fragment = (case parts of p # h # _ \<Rightarrow> h | _ \<Rightarrow> [])
      in case resolve_path fromFile (hd parts) of
           Some (c # cs) \<Rightarrow> Some (''/docs/'' @ (c # cs) @ (if fragment \<noteq> [] then ''#'' @ fragment else []))
         | _ \<Rightarrow> None)"

datatype link = NoLink | SamePage string | Outside string | DocLink string | PathText

definition http_url :: "string \<Rightarrow> bool" where
  "http_url href = (startsWith href ''http://'' \<or> startsWith href ''https://'')"

definition link_of :: "string \<Rightarrow> string option \<Rightarrow> link" where
  "link_of file href = (case href of
     Some (c # cs) \<Rightarrow>
       let h = c # cs in
       if startsWith h ''#'' then SamePage h
       else if http_url h then Outside h
       else (case resolveDocHref h file of Some i \<Rightarrow> DocLink i | None \<Rightarrow> PathText)
   | _ \<Rightarrow> NoLink)"

subsection \<open>Headings\<close>

text \<open>A rendered heading: text, or an element around more.\<close>

datatype react_node = TextNode string | ArrayNode "react_node list" | ElementNode react_node | NothingNode

fun textOf :: "react_node \<Rightarrow> string" where
  "textOf (TextNode s) = s"
| "textOf (ArrayNode ns) = concat (map textOf ns)"
| "textOf (ElementNode n) = textOf n"
| "textOf NothingNode = []"

definition heading_anchor :: "react_node \<Rightarrow> string" where
  "heading_anchor children = slugifyHeading (textOf children)"

section \<open>Lemmas\<close>

text \<open>A heading as its author writes it: text, code spans and emphasis; what is in the file and what the renderer makes.\<close>

datatype inline = Plain string | CodeSpan string | Emphasis "inline list" | Strong "inline list"

fun source_of :: "inline \<Rightarrow> string" where
  "source_of (Plain s) = s"
| "source_of (CodeSpan s) = [CHR 0x60] @ s @ [CHR 0x60]"
| "source_of (Emphasis xs) = ''*'' @ concat (map source_of xs) @ ''*''"
| "source_of (Strong xs) = ''**'' @ concat (map source_of xs) @ ''**''"

fun tree_of :: "inline \<Rightarrow> react_node" where
  "tree_of (Plain s) = TextNode s"
| "tree_of (CodeSpan s) = ElementNode (TextNode s)"
| "tree_of (Emphasis xs) = ElementNode (ArrayNode (map tree_of xs))"
| "tree_of (Strong xs) = ElementNode (ArrayNode (map tree_of xs))"

definition slug_text :: "string \<Rightarrow> string" where
  "slug_text s = filter slug_keeps (map latin1_lower s)"

lemma slug_text_append: "slug_text (a @ b) = slug_text a @ slug_text b" "slug_text [] = []"
  by (simp_all add: slug_text_def)

lemma slug_text_concat: "slug_text (concat xss) = concat (map slug_text xss)"
  by (induction xss) (simp_all add: slug_text_append)

lemma slug_marks: "slug_text [CHR 0x60] = []" "slug_text ''*'' = []" "slug_text ''**'' = []"
  by code_simp+

lemma slug_text_strip: "slug_text (strip_marks s) = slug_text s"
proof (induction s)
  case (Cons c s)
  have c: "slug_text (c # t) = slug_text [c] @ slug_text t" for t by (simp add: slug_text_def)
  have m: "slug_text [c] = []" if "c = CHR 0x60 \<or> c = CHR ''*''" using that slug_marks by auto
  show ?case
  proof (cases "c = CHR 0x60 \<or> c = CHR ''*''")
    case True
    then have "strip_marks (c # s) = strip_marks s" by (auto simp: strip_marks_def)
    then show ?thesis using c [of s] m [OF True] Cons by simp
  next
    case False
    then have "strip_marks (c # s) = c # strip_marks s" by (simp add: strip_marks_def)
    then show ?thesis using c [of s] c [of "strip_marks s"] Cons by simp
  qed
qed (simp add: strip_marks_def)

lemma slug_text_source: "slug_text (source_of x) = slug_text (textOf (tree_of x))"
  by (induction x) (simp_all add: slug_text_append slug_text_concat slug_marks comp_def del: append.simps cong: map_cong)

text \<open>A link of the contents rail hits the heading it names.  For any heading written with text, code spans and
  emphasis, the id the rail computes from the line of the file is the id the page gives the heading it renders, although
  one strips the marks from the source and the other flattens the rendered tree.\<close>

theorem rail_links_hit_headings:
  "slugifyHeading (strip_marks (concat (map source_of xs))) = heading_anchor (ArrayNode (map tree_of xs))"
proof -
  have "slug_text (strip_marks (concat (map source_of xs))) = slug_text (textOf (ArrayNode (map tree_of xs)))"
    unfolding slug_text_strip by (simp add: slug_text_concat slug_text_source comp_def)
  then show ?thesis by (simp add: heading_anchor_def slugifyHeading_def slug_text_def)
qed

section \<open>Relative links\<close>

text \<open>How one document of the repository writes the path of another: up to the root, then down.\<close>

definition relative_path_to :: "string \<Rightarrow> string \<Rightarrow> string" where
  "relative_path_to fromFile toFile = concat (replicate (length (split_on (CHR ''/'') fromFile) - 1) ''../'') @ toFile"

lemma all_files: "map (\<lambda>d. (doc_file d, slug d)) ALL_DOCS =
    [(''using-warder.md'', ''using-warder''), (''developer-guide.md'', ''developer-guide''),
     (''security/threat-model.md'', ''security/threat-model''), (''security/limitations.md'', ''security/limitations''),
     (''security/audit.md'', ''security/audit'')]"
  by (simp add: ALL_DOCS_def DOC_SECTIONS_def)

lemma relative_stacks:
  "list_all (\<lambda>(f, s). list_all (\<lambda>(g, t). path_stack f (relative_path_to f g) = split_on (CHR ''/'') g \<and>
     CHR ''#'' \<notin> set (relative_path_to f g))
    [(''using-warder.md'', ''using-warder''), (''developer-guide.md'', ''developer-guide''),
     (''security/threat-model.md'', ''security/threat-model''), (''security/limitations.md'', ''security/limitations''),
     (''security/audit.md'', ''security/audit'')])
    [(''using-warder.md'', ''using-warder''), (''developer-guide.md'', ''developer-guide''),
     (''security/threat-model.md'', ''security/threat-model''), (''security/limitations.md'', ''security/limitations''),
     (''security/audit.md'', ''security/audit'')]"
  by code_simp

lemma file_slug: "d \<in> set ALL_DOCS \<Longrightarrow> map_of FILE_TO_SLUG (doc_file d) = Some (slug d) \<and> slug d \<noteq> []"
proof -
  assume d: "d \<in> set ALL_DOCS"
  have "distinct (map fst FILE_TO_SLUG)" unfolding FILE_TO_SLUG_def all_files by simp
  moreover have "(doc_file d, slug d) \<in> set FILE_TO_SLUG" using d by (auto simp: FILE_TO_SLUG_def)
  moreover have "slug d \<in> set (map slug ALL_DOCS)" using d by simp
  then have "slug d \<noteq> []" unfolding all_docs_slugs by auto
  ultimately show ?thesis by simp
qed

lemma file_slugs: "map_of FILE_TO_SLUG f = Some s \<Longrightarrow> \<exists>d \<in> set ALL_DOCS. s = slug d"
  unfolding FILE_TO_SLUG_def by (drule map_of_SomeD) auto

lemma resolve_relative:
  assumes "a \<in> set ALL_DOCS" "b \<in> set ALL_DOCS"
  shows "resolve_path (doc_file a) (relative_path_to (doc_file a) (doc_file b)) = Some (slug b) \<and>
    slug b \<noteq> [] \<and> CHR ''#'' \<notin> set (relative_path_to (doc_file a) (doc_file b))"
proof -
  have "(doc_file d, slug d) \<in> set (map (\<lambda>d. (doc_file d, slug d)) ALL_DOCS)" if "d \<in> set ALL_DOCS" for d
    using that by auto
  note m = this [unfolded all_files]
  have "path_stack (doc_file a) (relative_path_to (doc_file a) (doc_file b)) = split_on (CHR ''/'') (doc_file b) \<and>
      CHR ''#'' \<notin> set (relative_path_to (doc_file a) (doc_file b))"
    using relative_stacks m [OF assms(1)] m [OF assms(2)] unfolding list_all_iff by fast
  then show ?thesis using file_slug [OF assms(2)] by (simp add: resolve_path_def join_split_on)
qed

text \<open>C35: Relative links between the documents work, and lead nowhere else.  The path one document of the manifest writes to
  another, with or without a fragment, becomes the address of that document's page with the same fragment; and whatever
  path a document writes, a link made of it leads to a page of the manifest, so climbing out of the docs folder or naming
  an unpublished file gives no link at all.\<close>

theorem relative_links_resolve:
  assumes "a \<in> set ALL_DOCS" "b \<in> set ALL_DOCS"
  shows "resolveDocHref (relative_path_to (doc_file a) (doc_file b)) (doc_file a) = Some (''/docs/'' @ slug b) \<and>
    (h \<noteq> [] \<and> CHR ''#'' \<notin> set h \<longrightarrow>
      resolveDocHref (relative_path_to (doc_file a) (doc_file b) @ ''#'' @ h) (doc_file a) = Some (''/docs/'' @ slug b @ ''#'' @ h)) \<and>
    (\<forall>href g u. resolveDocHref href g = Some u \<longrightarrow> (\<exists>d \<in> set ALL_DOCS. \<exists>f. u = ''/docs/'' @ slug d @ f \<and> (f = [] \<or> hd f = CHR ''#'')))"
proof (intro conjI impI allI)
  note r = resolve_relative [OF assms]
  then obtain c cs where s: "slug b = c # cs" by (cases "slug b") auto
  show "resolveDocHref (relative_path_to (doc_file a) (doc_file b)) (doc_file a) = Some (''/docs/'' @ slug b)"
    using r s by (simp add: resolveDocHref_def Let_def split_on_none)
  assume h: "h \<noteq> [] \<and> CHR ''#'' \<notin> set h"
  have "split_on (CHR ''#'') (relative_path_to (doc_file a) (doc_file b) @ CHR ''#'' # h) = [relative_path_to (doc_file a) (doc_file b), h]"
    using r h by (simp only: split_on_append) (simp add: split_on_none)
  then show "resolveDocHref (relative_path_to (doc_file a) (doc_file b) @ ''#'' @ h) (doc_file a) = Some (''/docs/'' @ slug b @ ''#'' @ h)"
    using r s h by (simp add: resolveDocHref_def Let_def)
next
  fix href g u assume "resolveDocHref href g = Some u"
  then obtain c cs f where "resolve_path g (hd (split_on (CHR ''#'') href)) = Some (c # cs)" "u = ''/docs/'' @ (c # cs) @ f"
      "f = [] \<or> hd f = CHR ''#''"
    by (auto simp: resolveDocHref_def Let_def split: option.splits list.splits if_splits)
  moreover from this(1) obtain d where "d \<in> set ALL_DOCS" "c # cs = slug d"
    using file_slugs unfolding resolve_path_def Let_def by blast
  ultimately show "\<exists>d \<in> set ALL_DOCS. \<exists>f. u = ''/docs/'' @ slug d @ f \<and> (f = [] \<or> hd f = CHR ''#'')" by metis
qed

theorem relative_links_resolve_witness:
  "\<exists>a b. a \<in> set ALL_DOCS \<and> b \<in> set ALL_DOCS \<and>
     resolveDocHref (relative_path_to (doc_file a) (doc_file b) @ ''#tokens'') (doc_file a) = Some ''/docs/using-warder#tokens''"
proof -
  have d: "ALL_DOCS ! 0 \<in> set ALL_DOCS" "ALL_DOCS ! 2 \<in> set ALL_DOCS" "slug (ALL_DOCS ! 0) = ''using-warder''"
    by (simp_all add: ALL_DOCS_def DOC_SECTIONS_def)
  from relative_links_resolve [OF d(2,1), of "''tokens''"] d show ?thesis
    by (intro exI [of _ "ALL_DOCS ! 2"] exI [of _ "ALL_DOCS ! 0"]) simp
qed

text \<open>Every address the documentation hands out has its page.  The parameters a page is built from join to the slug
  they came from, so the page of every document exists as soon as its file can be read; the sidebar and the index list
  the documents of the manifest, each once and in reading order; and the sidebar marks exactly the document shown.\<close>

theorem every_listed_page_exists:
  assumes "\<And>f. rd f \<noteq> None"
  shows "map (join ''/'') generateStaticParams = map slug ALL_DOCS \<and>
    (\<forall>p \<in> set generateStaticParams. \<exists>d. DocPage root rd p = Inr (Some d) \<and> slug (ld_meta (dp_doc d)) = join ''/'' p) \<and>
    map (\<lambda>(t, u, m). u) (concat (map snd (docs_nav pathname))) = map (\<lambda>d. ''/docs/'' @ slug d) ALL_DOCS \<and>
    map (\<lambda>(u, t, s). u) (concat (map (snd \<circ> snd) docs_index)) = map (\<lambda>d. ''/docs/'' @ slug d) ALL_DOCS \<and>
    (\<forall>d \<in> set ALL_DOCS. map (\<lambda>(t, u, m). u) (filter (\<lambda>(t, u, m). m) (concat (map snd (docs_nav (''/docs/'' @ slug d))))) = [''/docs/'' @ slug d])"
proof (intro conjI ballI)
  show j: "map (join ''/'') generateStaticParams = map slug ALL_DOCS" by code_simp
  fix p assume "p \<in> set generateStaticParams"
  then have "join ''/'' p \<in> set (map slug ALL_DOCS)" unfolding j [symmetric] by simp
  then obtain m where m: "findDoc (join ''/'' p) = Some m"
    by (cases "findDoc (join ''/'' p)") (auto simp: findDoc_def find_None_iff)
  then have "slug m = join ''/'' p" using findDoc_Some by blast
  then show "\<exists>d. DocPage root rd p = Inr (Some d) \<and> slug (ld_meta (dp_doc d)) = join ''/'' p"
    using assms [of "root @ ''/'' @ doc_file m"] m by (auto simp: DocPage_def loadDoc_def Let_def)
next
  show "map (\<lambda>(t, u, m). u) (concat (map snd (docs_nav pathname))) = map (\<lambda>d. ''/docs/'' @ slug d) ALL_DOCS"
    by (simp add: docs_nav_def ALL_DOCS_def map_concat comp_def)
  show "map (\<lambda>(u, t, s). u) (concat (map (snd \<circ> snd) docs_index)) = map (\<lambda>d. ''/docs/'' @ slug d) ALL_DOCS"
    by (simp add: docs_index_def ALL_DOCS_def map_concat comp_def)
next
  fix d assume "d \<in> set ALL_DOCS"
  moreover have "list_all (\<lambda>d. map (\<lambda>(t, u, m). u) (filter (\<lambda>(t, u, m). m) (concat (map snd (docs_nav (''/docs/'' @ slug d))))) = [''/docs/'' @ slug d]) ALL_DOCS"
    by code_simp
  ultimately show "map (\<lambda>(t, u, m). u) (filter (\<lambda>(t, u, m). m) (concat (map snd (docs_nav (''/docs/'' @ slug d))))) = [''/docs/'' @ slug d]"
    unfolding list_all_iff by blast
qed

theorem every_listed_page_exists_witness:
  "\<exists>d. DocPage ''docs'' (\<lambda>f. Some []) [''security'', ''audit''] = Inr (Some d) \<and> slug (ld_meta (dp_doc d)) = ''security/audit''"
proof -
  have "[''security'', ''audit''] \<in> set generateStaticParams" by code_simp
  with every_listed_page_exists [of "\<lambda>f. Some []" "''docs''" "[]"] show ?thesis by fastforce
qed

end
