(* ===== verification/Navigation.thy ===== *)
theory Navigation imports Pages begin

text \<open>
  Finding one's way in the dashboard: which entries of the sidebar are lit (web/components/app-sidebar.tsx and
  nav-link.tsx), switching environments through the query string (web/components/environment-switcher.tsx) and the
  commands a secrets page hands out (web/components/run-command.tsx and motion/action-swap.tsx).
\<close>

section \<open>The sidebar\<close>

text \<open>\<open>pathname === href || pathname.startsWith(`${href}/`)\<close>\<close>

definition nav_active :: "string \<Rightarrow> string \<Rightarrow> bool" where
  "nav_active pathname href = (pathname = href \<or> startsWith pathname (href @ ''/''))"

definition ORGANIZATION :: "(string \<times> string) list" where
  "ORGANIZATION = [(''/identities'', ''Identities''), (''/audit'', ''Audit''), (''/members'', ''Members'')]"

definition SUPPORT :: "(string \<times> string) list" where
  "SUPPORT = [(''/docs'', ''Docs''), (''/settings'', ''Settings'')]"

definition PROJECT_SECTIONS :: "(string \<times> string) list" where
  "PROJECT_SECTIONS = [('''', ''Secrets''), (''/access'', ''Access''), (''/tokens'', ''Tokens''), (''/audit'', ''Audit'')]"

definition openProjectId :: "string \<Rightarrow> string option" where
  "openProjectId pathname =
     (if startsWith pathname ''/projects/'' then
        (case split_on (CHR ''/'') pathname of a # b # c # r \<Rightarrow> Some c | _ \<Rightarrow> None)
      else None)"

definition project_base :: "string \<Rightarrow> string" where
  "project_base i = ''/projects/'' @ i"

definition section_active :: "string \<Rightarrow> string \<Rightarrow> string \<Rightarrow> bool" where
  "section_active pathname i segment =
     (if segment = [] then pathname = project_base i \<or> includes_str pathname ''/environments/''
      else startsWith pathname (project_base i @ segment))"

text \<open>
  What is lit: the organization's entries, and for each project whether its tree is open and which of its sections are lit.
  A project that is not open shows no sections.
\<close>

record sidebar_view =
  sb_all_projects :: bool
  sb_projects :: "(string \<times> bool \<times> string list) list"
  sb_entries :: "string list"

definition app_sidebar :: "string \<Rightarrow> string list \<Rightarrow> sidebar_view" where
  "app_sidebar pathname projects =
     \<lparr>sb_all_projects = (if projects = [] then nav_active pathname ''/projects'' else pathname = ''/projects''),
      sb_projects = map (\<lambda>i. (i, openProjectId pathname = Some i,
        if openProjectId pathname = Some i
        then map snd (filter (\<lambda>(segment, label). section_active pathname i segment) PROJECT_SECTIONS) else [])) projects,
      sb_entries = map snd (filter (\<lambda>(href, label). nav_active pathname href) (ORGANIZATION @ SUPPORT))\<rparr>"

section \<open>Switching environments\<close>

text \<open>\<open>URLSearchParams.set\<close>: the first pair of the name takes the value, the others go.\<close>

fun params_set :: "string \<Rightarrow> string \<Rightarrow> (string \<times> string) list \<Rightarrow> (string \<times> string) list" where
  "params_set k v [] = [(k, v)]"
| "params_set k v (p # ps) = (if fst p = k then (k, v) # filter (\<lambda>q. fst q \<noteq> k) ps else p # params_set k v ps)"

definition switch_to :: "string \<Rightarrow> (string \<times> string) list \<Rightarrow> string \<Rightarrow> string" where
  "switch_to pathname params slug = pathname @ ''?'' @ params_toString (params_set ''env'' slug params)"

definition current_environment :: "environ list \<Rightarrow> string \<Rightarrow> environ option" where
  "current_environment es currentId = (case find (\<lambda>e. en_id e = currentId) es of
     Some e \<Rightarrow> Some e | None \<Rightarrow> (case es of e # r \<Rightarrow> Some e | [] \<Rightarrow> None))"

text \<open>The tabs: each environment's name and whether it is the one selected, and what pressing it replaces the address with.\<close>

definition environment_switcher :: "string \<Rightarrow> (string \<times> string) list \<Rightarrow> environ list \<Rightarrow> string \<Rightarrow> (string \<times> bool \<times> string) list option" where
  "environment_switcher pathname params es currentId = (case current_environment es currentId of
     None \<Rightarrow> None
   | Some current \<Rightarrow> Some (map (\<lambda>e. (en_name e, en_slug current = en_slug e, switch_to pathname params (en_slug e))) es))"

section \<open>The commands\<close>

definition run_command :: "string \<Rightarrow> string" where
  "run_command environment = (if environment = ''development'' then ''ward run -- npm run dev''
     else ''ward run --env '' @ environment @ '' -- npm run dev'')"

definition init_command :: "string \<Rightarrow> string \<Rightarrow> string option \<Rightarrow> string" where
  "init_command project environment runtimeUrl =
     ''ward init --project '' @ project @ '' --env '' @ environment @
     (case runtimeUrl of Some (c # cs) \<Rightarrow> '' --url '' @ (c # cs) | _ \<Rightarrow> [])"

definition login_command :: string where "login_command = ''ward login''"

text \<open>
  A button that swaps between items: pressing it shows the next one and reports it.  \<open>items\<close> are their ids; the id kept is
  the button's own.
\<close>

definition swap_index :: "string list \<Rightarrow> string \<Rightarrow> nat" where
  "swap_index items current = (case List.find (\<lambda>i. items ! i = current) [0 ..< length items] of Some i \<Rightarrow> i | None \<Rightarrow> 0)"

definition swap_press :: "string list \<Rightarrow> string \<Rightarrow> string" where
  "swap_press items current = items ! (Suc (swap_index items current) mod length items)"

definition CTA_ITEMS :: "string list" where "CTA_ITEMS = [''copy'', ''copied'']"

text \<open>
  The panel of three snippets: the item each button shows, the label last copied, the clipboard writes and timeouts under
  way, and what was handed to the clipboard.
\<close>

record run_panel =
  rn_marks :: "(string \<times> string) list"
  rn_copied :: "string option"
  rn_writes :: "string list"
  rn_timers :: nat
  rn_clipboard :: "string list"

definition run_start :: run_panel where
  "run_start = \<lparr>rn_marks = [(''init'', ''copy''), (''login'', ''copy''), (''run'', ''copy'')], rn_copied = None,
     rn_writes = [], rn_timers = 0, rn_clipboard = []\<rparr>"

datatype run_event = SnippetPress string | SnippetWritten nat bool | SnippetTimer

definition snippet_commands :: "string \<Rightarrow> string \<Rightarrow> string option \<Rightarrow> (string \<times> string) list" where
  "snippet_commands project environment runtimeUrl =
     [(''init'', init_command project environment runtimeUrl), (''login'', login_command), (''run'', run_command environment)]"

fun run_step :: "(string \<times> string) list \<Rightarrow> run_event \<Rightarrow> run_panel \<Rightarrow> run_panel" where
  "run_step commands (SnippetPress l) s =
     (case map_of commands l of
        None \<Rightarrow> s
      | Some c \<Rightarrow> s\<lparr>rn_marks := map (\<lambda>(m, v). (m, if m = l then swap_press CTA_ITEMS v else v)) (rn_marks s),
          rn_clipboard := rn_clipboard s @ [c], rn_writes := rn_writes s @ [l]\<rparr>)"
| "run_step commands (SnippetWritten i ok) s =
     (if i < length (rn_writes s) \<and> ok
      then s\<lparr>rn_copied := Some (rn_writes s ! i), rn_timers := Suc (rn_timers s)\<rparr> else s)"
| "run_step commands SnippetTimer s =
     (if rn_timers s = 0 then s else s\<lparr>rn_timers := rn_timers s - 1, rn_copied := None\<rparr>)"

section \<open>Lemmas\<close>

lemma params_set_env: "filter (\<lambda>q. fst q = k) (params_set k v ps) = [(k, v)]"
proof (induction ps)
  case (Cons p ps)
  have "filter (\<lambda>q. fst q = k) (filter (\<lambda>q. fst q \<noteq> k) ps) = []" by (simp add: filter_empty_conv)
  with Cons show ?case by simp
qed simp

lemma params_set_others: "filter (\<lambda>q. fst q \<noteq> k) (params_set k v ps) = filter (\<lambda>q. fst q \<noteq> k) ps"
  by (induction ps) auto

lemma params_set_nonempty: "params_set k v ps \<noteq> []"
  by (cases ps) auto

definition environ_json :: "environ \<Rightarrow> json" where
  "environ_json e = JObj [(''id'', JStr (en_id e)), (''name'', JStr (en_name e)), (''slug'', JStr (en_slug e))]"

lemma by_slug_environ:
  assumes "distinct (map en_slug es)" "e \<in> set es"
  shows "by_slug (en_slug e) (map environ_json es) = Inr (Some (environ_json e))"
proof -
  have m: "member_of (environ_json d) ''slug'' = Inr (Some (JStr (en_slug d)))" for d
    by (simp add: member_of_def environ_json_def)
  show ?thesis
    using assms unfolding by_slug_def by (induction es) (auto simp: m)
qed

lemma find_environ:
  assumes "distinct (map en_id es)" "e \<in> set es"
  shows "find (\<lambda>d. en_id d = en_id e) es = Some e"
  using assms by (induction es) auto

text \<open>C33: Pressing the tab of an environment shows that environment.  On any page with the switcher, whichever environment it shows, the
  address the tab replaces the page with is the page's own path with a query that reads back as the parameters the page had with exactly
  one \<open>env\<close>, that environment's slug, whatever the slug is made of; over the environments of the project the page then selects that
  environment's id; and the switcher of the new page lights that tab and no other.\<close>

theorem switching_lands_there:
  assumes "distinct (map en_slug es)" "distinct (map en_id es)" "k < length es" "en_slug (es ! k) \<noteq> []"
  shows "(\<exists>ts. environment_switcher pathname params es currentId = Some ts \<and> length ts = length es \<and>
      (\<exists>lit ps. ts ! k = (en_name (es ! k), lit, pathname @ ''?'' @ params_toString ps) \<and>
        query_pairs (params_toString ps) = map Some ps \<and>
        filter (\<lambda>q. fst q = ''env'') ps = [(''env'', en_slug (es ! k))] \<and>
        filter (\<lambda>q. fst q \<noteq> ''env'') ps = filter (\<lambda>q. fst q \<noteq> ''env'') params)) \<and>
    selected_environment (Some (JArr (map environ_json es))) (Some (en_slug (es ! k))) routeId = Inr (JStr (en_id (es ! k))) \<and>
    (\<exists>ts. environment_switcher pathname params' es (en_id (es ! k)) = Some ts \<and> map (\<lambda>(n, lit, u). lit) ts = map (\<lambda>d. d = es ! k) es)"
    (is "?url \<and> ?page \<and> ?tabs")
proof (intro conjI)
  have e: "es ! k \<in> set es" using assms(3) by simp
  have "current_environment es currentId \<noteq> None"
    using assms(3) by (cases es) (simp_all add: current_environment_def split: option.split)
  then obtain current where "current_environment es currentId = Some current" by blast
  then have "environment_switcher pathname params es currentId =
      Some (map (\<lambda>e. (en_name e, en_slug current = en_slug e, switch_to pathname params (en_slug e))) es)"
    by (simp add: environment_switcher_def)
  then show ?url
    using assms(3) query_pairs_toString [OF params_set_nonempty] params_set_env params_set_others
    by (intro exI [of _ "map (\<lambda>e. (en_name e, en_slug current = en_slug e, switch_to pathname params (en_slug e))) es"] conjI
        exI [of _ "en_slug current = en_slug (es ! k)"] exI [of _ "params_set ''env'' (en_slug (es ! k)) params"])
      (simp_all add: switch_to_def)
  obtain c cs where s: "en_slug (es ! k) = c # cs" using assms(4) by (cases "en_slug (es ! k)") auto
  have "optfield (Some (environ_json (es ! k))) ''id'' = Some (JStr (en_id (es ! k)))" by (simp add: environ_json_def)
  then show ?page
    using by_slug_environ [OF assms(1) e] s by (simp add: selected_environment_def array_of_def nullish_def coalesce_def)
  have i: "en_slug (es ! k) = en_slug d \<longleftrightarrow> d = es ! k" if "d \<in> set es" for d
    using assms(1) e that by (auto simp: distinct_map inj_on_def)
  show ?tabs
    using find_environ [OF assms(2) e] i
    by (auto simp: environment_switcher_def current_environment_def comp_def split_beta)
qed

definition demo_environs :: "environ list" where
  "demo_environs = [\<lparr>en_id = ''e1'', en_name = ''Development'', en_slug = ''development''\<rparr>,
     \<lparr>en_id = ''e2'', en_name = ''Q and A'', en_slug = ''q&a''\<rparr>]"

theorem switching_lands_there_witness:
  "environment_switcher ''/projects/p'' [(''env'', ''development''), (''tab'', ''x'')] demo_environs ''e1'' =
     Some [(''Development'', True, ''/projects/p?env=development&tab=x''), (''Q and A'', False, ''/projects/p?env=q%26a&tab=x'')] \<and>
   selected_environment (Some (JArr (map environ_json demo_environs))) (Some ''q&a'') ''e1'' = Inr (JStr ''e2'')"
proof -
  have "environment_switcher ''/projects/p'' [(''env'', ''development''), (''tab'', ''x'')] demo_environs ''e1'' =
     Some [(''Development'', True, ''/projects/p?env=development&tab=x''), (''Q and A'', False, ''/projects/p?env=q%26a&tab=x'')]"
    by code_simp
  moreover have "distinct (map en_slug demo_environs)" "distinct (map en_id demo_environs)" "1 < length demo_environs"
      "en_slug (demo_environs ! 1) \<noteq> []" "en_slug (demo_environs ! 1) = ''q&a''" "en_id (demo_environs ! 1) = ''e2''"
    by (simp_all add: demo_environs_def)
  ultimately show ?thesis using switching_lands_there [of demo_environs 1 _ _ _ "''e1''"] by metis
qed

subsection \<open>One place is lit\<close>

lemma openProjectId_page:
  assumes "CHR ''/'' \<notin> set p" "rest = [] \<or> hd rest = CHR ''/''"
  shows "openProjectId (project_base p @ rest) = Some p"
proof -
  have "split_on (CHR ''/'') (''/projects/'' @ p @ rest) = [] # ''projects'' # split_on (CHR ''/'') (p @ rest)" by simp
  moreover have "\<exists>r. split_on (CHR ''/'') (p @ rest) = p # r"
    using assms split_on_append [of "CHR ''/''" p "tl rest"] split_on_none [OF assms(1)]
    by (cases rest) auto
  ultimately show ?thesis
    by (auto simp: openProjectId_def project_base_def startsWith_def)
qed

lemma includes_segment:
  assumes "includes_str s (CHR ''/'' # m @ [CHR ''/''])" "CHR ''/'' \<notin> set m"
  shows "m \<in> set (butlast (tl (split_on (CHR ''/'') s)))"
proof -
  obtain u v where s: "s = u @ (CHR ''/'' # m @ [CHR ''/'']) @ v"
    using assms(1) by (auto simp: includes_str_def sublist_def)
  have "split_on (CHR ''/'') s = split_on (CHR ''/'') u @ [m] @ split_on (CHR ''/'') v"
    using split_on_append [of "CHR ''/''" u "m @ CHR ''/'' # v"] split_on_append [of "CHR ''/''" m v] split_on_none [OF assms(2)]
    by (simp add: s)
  then show ?thesis by (cases "split_on (CHR ''/'') u") (auto simp: butlast_append)
qed

lemma section_page_segments:
  assumes "CHR ''/'' \<notin> set p" "(segment, label) \<in> set PROJECT_SECTIONS"
  shows "butlast (tl (split_on (CHR ''/'') (project_base p @ segment))) = (if segment = [] then [''projects''] else [''projects'', p])"
proof -
  have "split_on (CHR ''/'') (''/projects/'' @ p @ t) = [] # ''projects'' # split_on (CHR ''/'') (p @ t)" for t by simp
  moreover have "split_on (CHR ''/'') (p @ CHR ''/'' # t) = p # split_on (CHR ''/'') t" for t
    using split_on_append [of "CHR ''/''" p t] split_on_none [OF assms(1)] by simp
  ultimately show ?thesis
    using assms(2) split_on_none [OF assms(1)] by (auto simp: PROJECT_SECTIONS_def project_base_def)
qed

lemma section_lit_iff:
  assumes "CHR ''/'' \<notin> set p" "p \<noteq> ''environments''"
    "(segment, label) \<in> set PROJECT_SECTIONS" "(segment', label') \<in> set PROJECT_SECTIONS"
  shows "section_active (project_base p @ segment) p segment' \<longleftrightarrow> segment' = segment"
proof (cases "segment' = []")
  case True
  have "\<not> includes_str (project_base p @ segment) ''/environments/''"
    using includes_segment [of "project_base p @ segment" "''environments''"] section_page_segments [OF assms(1,3)] assms(2)
    by (auto split: if_splits)
  with True show ?thesis by (auto simp: section_active_def)
next
  case False
  then show ?thesis
    using assms(3,4) by (auto simp: section_active_def PROJECT_SECTIONS_def startsWith_def)
qed

lemma lit_sections:
  assumes "\<And>segment' label'. (segment', label') \<in> set PROJECT_SECTIONS \<Longrightarrow> section_active pathname p segment' \<longleftrightarrow> segment' = segment"
    "(segment, label) \<in> set PROJECT_SECTIONS"
  shows "map snd (filter (\<lambda>(segment', label'). section_active pathname p segment') PROJECT_SECTIONS) = [label]"
proof -
  have "filter (\<lambda>(segment', label'). section_active pathname p segment') PROJECT_SECTIONS =
      filter (\<lambda>(segment', label'). segment' = segment) PROJECT_SECTIONS"
    using assms(1) by (intro filter_cong) auto
  with assms(2) show ?thesis by (auto simp: PROJECT_SECTIONS_def)
qed

lemma no_entry_lit:
  "filter (\<lambda>(href, label). nav_active (project_base p @ rest) href) (ORGANIZATION @ SUPPORT) = []"
  by (simp add: ORGANIZATION_def SUPPORT_def nav_active_def project_base_def startsWith_def)

text \<open>The sidebar marks one place.  On each of the four pages of a project, and on the page of one of its environments, the
  tree of that project alone is open, exactly the section of the page is lit in it (Secrets for an environment), and neither an
  entry of the organization nor "All projects" is lit.\<close>

theorem one_place_is_lit:
  assumes "CHR ''/'' \<notin> set p" "p \<noteq> ''environments''" "(segment, label) \<in> set PROJECT_SECTIONS"
    "pathname = project_base p @ segment \<or> pathname = project_base p @ ''/environments/'' @ e \<and> segment = []"
    "projects \<noteq> []"
  shows "app_sidebar pathname projects =
    \<lparr>sb_all_projects = False, sb_projects = map (\<lambda>i. (i, i = p, if i = p then [label] else [])) projects, sb_entries = []\<rparr>"
proof -
  obtain rest where r: "pathname = project_base p @ rest" "rest = [] \<or> hd rest = CHR ''/''"
    using assms(3,4) by (auto simp: PROJECT_SECTIONS_def)
  have o: "openProjectId pathname = Some i \<longleftrightarrow> i = p" for i
    using openProjectId_page [OF assms(1) r(2)] r(1) by auto
  have "section_active pathname p segment' \<longleftrightarrow> segment' = segment" if "(segment', label') \<in> set PROJECT_SECTIONS" for segment' label'
    using assms(4)
  proof
    assume "pathname = project_base p @ segment"
    then show ?thesis using section_lit_iff [OF assms(1-3) that] by simp
  next
    assume e: "pathname = project_base p @ ''/environments/'' @ e \<and> segment = []"
    then have "includes_str pathname ''/environments/''" unfolding includes_str_def by (metis sublist_appendI)
    with e that show ?thesis by (auto simp: section_active_def PROJECT_SECTIONS_def startsWith_def)
  qed
  note lit = lit_sections [OF this assms(3)]
  have "pathname \<noteq> ''/projects''" by (simp add: r(1) project_base_def)
  with lit o assms(5) no_entry_lit [of p rest] r(1) show ?thesis by (simp add: app_sidebar_def)
qed

theorem one_place_is_lit_witness:
  "app_sidebar ''/projects/p1/environments/e2'' [''p0'', ''p1''] =
    \<lparr>sb_all_projects = False, sb_projects = [(''p0'', False, []), (''p1'', True, [''Secrets''])], sb_entries = []\<rparr>"
  using one_place_is_lit [of "''p1''" "[]" "''Secrets''" "''/projects/p1/environments/e2''" "''e2''" "[''p0'', ''p1'']"]
  by (simp add: project_base_def PROJECT_SECTIONS_def)

subsection \<open>The mark of a snippet\<close>

abbreviation snippet_labels :: "string list" where
  "snippet_labels \<equiv> [''init'', ''login'', ''run'']"

definition presses_of :: "string \<Rightarrow> run_event list \<Rightarrow> nat" where
  "presses_of l es = count_list es (SnippetPress l)"

definition mark_after :: "nat \<Rightarrow> string" where
  "mark_after n = (if even n then ''copy'' else ''copied'')"

lemma CTA_press [simp]: "swap_press CTA_ITEMS ''copy'' = ''copied''" "swap_press CTA_ITEMS ''copied'' = ''copy''"
  by (simp_all add: swap_press_def swap_index_def CTA_ITEMS_def upt_rec)

lemma mark_after_Suc [simp]: "swap_press CTA_ITEMS (mark_after n) = mark_after (Suc n)"
  by (simp add: mark_after_def)

lemma snippet_none: "map_of (snippet_commands p e u) l = None \<longleftrightarrow> l \<notin> set snippet_labels"
  by (simp add: snippet_commands_def)

lemma run_step_marks:
  assumes "rn_marks s = map (\<lambda>l. (l, mark_after (f l))) snippet_labels"
  shows "rn_marks (run_step (snippet_commands p e u) ev s) =
    map (\<lambda>l. (l, mark_after (f l + (if ev = SnippetPress l then 1 else 0)))) snippet_labels"
proof (cases ev)
  case (SnippetPress l)
  with assms show ?thesis
    using snippet_none [of p e u l] by (cases "map_of (snippet_commands p e u) l") auto
qed (use assms in auto)

text \<open>The mark on a snippet's button counts presses, not copies: after any sequence of presses, clipboard answers and timeouts
  it reads "copied" exactly after an odd number of presses of that button, whether or not the clipboard took the text and
  however long ago.\<close>

theorem copy_mark_is_parity:
  "rn_marks (fold (run_step (snippet_commands p e u)) es run_start) =
    map (\<lambda>l. (l, if even (presses_of l es) then ''copy'' else ''copied'')) snippet_labels"
proof -
  have "rn_marks (fold (run_step (snippet_commands p e u)) es s) = map (\<lambda>l. (l, mark_after (f l + presses_of l es))) snippet_labels"
    if "rn_marks s = map (\<lambda>l. (l, mark_after (f l))) snippet_labels" for s f
    using that
  proof (induction es arbitrary: s f)
    case (Cons ev es)
    from Cons.IH [OF run_step_marks [OF Cons.prems]] show ?case by (simp add: presses_of_def add.commute add.left_commute)
  qed (simp add: presses_of_def)
  from this [of run_start "\<lambda>l. 0"] show ?thesis by (simp add: run_start_def mark_after_def)
qed

end
