(* ===== verification/Controllable.thy ===== *)
theory Controllable imports Main begin

text \<open>
  The contract of a controllable value.  A widget of components/motion takes a value as an optional prop: given, the owner
  holds it and the widget only reports changes; absent, the widget holds it itself and reports them as well.
  \<open>current\<close> and \<open>change\<close> take the prop first; nothing may have been chosen yet.
\<close>

locale controllable =
  fixes current :: "'v option \<Rightarrow> 's \<Rightarrow> 'v option" and change :: "'v option \<Rightarrow> 'v \<Rightarrow> 's \<Rightarrow> 's" and reports :: "'s \<Rightarrow> 'v list"
  assumes controlled: "current (Some v) s = Some v"
    and adopted: "current None (change None v s) = Some v"
    and reported: "reports (change c v s) = reports s @ [v]"
begin

text \<open>An owner that adopts each report as the prop of the next rendering.\<close>

fun owned :: "'v \<Rightarrow> 'v list \<Rightarrow> 's \<Rightarrow> 'v \<times> 's" where
  "owned v [] s = (v, s)"
| "owned v (x # xs) s = owned x xs (change (Some v) x s)"

lemma owned_last: "fst (owned v xs s) = last (v # xs)"
  by (induction xs arbitrary: v s) auto

lemma owned_reports: "reports (snd (owned v xs s)) = reports s @ xs"
  by (induction xs arbitrary: v s) (simp_all add: reported)

lemma own_reports: "reports (fold (change None) xs s) = reports s @ xs"
  by (induction xs arbitrary: s) (simp_all add: reported)

lemma own_last: "current None s = Some v \<Longrightarrow> current None (fold (change None) xs s) = Some (last (v # xs))"
proof (induction xs arbitrary: v s)
  case (Cons x xs)
  then show ?case using Cons.IH [of "change None x s" x] adopted by simp
qed simp

text \<open>It makes no difference who holds the value, as long as the owner adopts what is reported.\<close>

lemma owner_agrees:
  assumes "current None s = Some v"
  shows "(case owned v xs t of (w, u) \<Rightarrow> current (Some w) u) = current None (fold (change None) xs s) \<and>
    drop (length (reports t)) (reports (snd (owned v xs t))) = drop (length (reports s)) (reports (fold (change None) xs s))"
  using own_last [OF assms, of xs] owned_last [of v xs t]
  by (simp add: controlled owned_reports own_reports split_beta)

end

end
