(* ===== verification/Sidebar.thy ===== *)
theory Sidebar imports Navigation Controllable begin

text \<open>
  The sidebar's behaviour (web/components/motion/animated-sidebar.tsx) around the entries of \<open>Navigation\<close>: whether it is
  open, its keyboard shortcut, what choosing an entry does to it, and the sheet it becomes on a narrow window, which holds
  the page's scroll position and keeps the focus.  Widths, springs and colours are left out.
\<close>

section \<open>The elements of the sheet\<close>

text \<open>
  An element as the selector of the focus trap and the browser see it: its tag, its \<open>disabled\<close> and \<open>tabindex\<close> attributes,
  and whether it is rendered at all (a \<open>display: none\<close> element is not).
\<close>

datatype tag = Anchor bool | Control | Generic

record 'i element =
  el_id :: 'i
  el_tag :: tag
  el_disabled :: bool
  el_tabindex :: "int option"
  el_rendered :: bool

definition FOCUSABLE_SELECTOR :: "'i element \<Rightarrow> bool" where
  "FOCUSABLE_SELECTOR e =
     ((case el_tag e of Anchor href \<Rightarrow> href | Control \<Rightarrow> \<not> el_disabled e | Generic \<Rightarrow> False) \<or>
      (\<exists>t. el_tabindex e = Some t \<and> t \<noteq> -1))"

text \<open>
  The browser's part: which elements \<open>focus()\<close> can focus, and which the Tab key stops at.
\<close>

definition can_focus :: "'i element \<Rightarrow> bool" where
  "can_focus e = (el_rendered e \<and> (case el_tag e of
     Anchor href \<Rightarrow> href \<or> el_tabindex e \<noteq> None
   | Control \<Rightarrow> \<not> el_disabled e
   | Generic \<Rightarrow> el_tabindex e \<noteq> None))"

definition tab_stop :: "'i element \<Rightarrow> bool" where
  "tab_stop e = (can_focus e \<and> (\<forall>t. el_tabindex e = Some t \<longrightarrow> 0 \<le> t))"

datatype 'i focus = OnPanel | On 'i | Outside

definition focus_on :: "'i element \<Rightarrow> 'i focus \<Rightarrow> 'i focus" where
  "focus_on e f = (if can_focus e then On (el_id e) else f)"

text \<open>Where Tab and Shift+Tab go by themselves: the next stop in the order of the document, or out of the panel.\<close>

definition after_element :: "'i \<Rightarrow> 'i element list \<Rightarrow> 'i element list" where
  "after_element i els = tl (dropWhile (\<lambda>e. el_id e \<noteq> i) els)"

definition first_stop :: "'i element list \<Rightarrow> 'i focus" where
  "first_stop els = (case filter tab_stop els of [] \<Rightarrow> Outside | e # r \<Rightarrow> On (el_id e))"

fun browser_tab :: "bool \<Rightarrow> 'i element list \<Rightarrow> 'i focus \<Rightarrow> 'i focus" where
  "browser_tab shift els (On i) = first_stop (after_element i (if shift then rev els else els))"
| "browser_tab shift els OnPanel = (if shift then Outside else first_stop els)"
| "browser_tab shift els Outside = Outside"

text \<open>The panel's answer to a Tab.\<close>

definition sheet_tab :: "bool \<Rightarrow> 'i element list \<Rightarrow> 'i focus \<Rightarrow> 'i focus" where
  "sheet_tab shift els f = (case filter FOCUSABLE_SELECTOR els of
     [] \<Rightarrow> OnPanel
   | e # r \<Rightarrow>
       (let the_first = e; the_last = last (e # r) in
        if shift \<and> f = On (el_id the_first) then focus_on the_last f
        else if \<not> shift \<and> f = On (el_id the_last) then focus_on the_first f
        else browser_tab shift els f))"

text \<open>What the frame after the sheet has opened focuses.\<close>

definition sheet_focus :: "'i element list \<Rightarrow> 'i focus \<Rightarrow> 'i focus" where
  "sheet_focus els f = (case filter FOCUSABLE_SELECTOR els of [] \<Rightarrow> OnPanel | e # r \<Rightarrow> focus_on e f)"

section \<open>The provider\<close>

text \<open>
  The styles of the body the sheet changes; \<open>sd_lock\<close> is what the effect of the open sheet has remembered, \<open>sd_frame\<close>
  whether its animation frame is still to come.  \<open>sd_reports\<close> is what the two change callbacks were called with.
\<close>

record body_style =
  bd_position :: string
  bd_top :: string
  bd_left :: string
  bd_right :: string
  bd_overflow :: string

datatype report = OpenChange bool | OpenMobileChange bool

datatype 'i place = AtTrigger | AtPage | InSheet "'i focus"

record 'i sidebar =
  sd_open :: bool
  sd_openMobile :: bool
  sd_isMobile :: bool
  sd_lock :: "(body_style \<times> int) option"
  sd_frame :: bool
  sd_body :: body_style
  sd_scrollY :: int
  sd_focus :: "'i place"
  sd_reports :: "report list"

text \<open>The props \<open>open\<close> and \<open>openMobile\<close> where the owner controls them.\<close>

record controlled =
  ct_open :: "bool option"
  ct_openMobile :: "bool option"

definition desktopOpen :: "controlled \<Rightarrow> 'i sidebar \<Rightarrow> bool" where
  "desktopOpen P s = (case ct_open P of Some b \<Rightarrow> b | None \<Rightarrow> sd_open s)"

definition mobileOpen :: "controlled \<Rightarrow> 'i sidebar \<Rightarrow> bool" where
  "mobileOpen P s = (case ct_openMobile P of Some b \<Rightarrow> b | None \<Rightarrow> sd_openMobile s)"

definition setOpen :: "controlled \<Rightarrow> bool \<Rightarrow> 'i sidebar \<Rightarrow> 'i sidebar" where
  "setOpen P b s = (if ct_open P = None then s\<lparr>sd_open := b\<rparr> else s)\<lparr>sd_reports := sd_reports s @ [OpenChange b]\<rparr>"

definition setOpenMobile :: "controlled \<Rightarrow> bool \<Rightarrow> 'i sidebar \<Rightarrow> 'i sidebar" where
  "setOpenMobile P b s =
     (if ct_openMobile P = None then s\<lparr>sd_openMobile := b\<rparr> else s)\<lparr>sd_reports := sd_reports s @ [OpenMobileChange b]\<rparr>"

definition toggleSidebar :: "controlled \<Rightarrow> 'i sidebar \<Rightarrow> 'i sidebar" where
  "toggleSidebar P s =
     (if sd_isMobile s then setOpenMobile P (\<not> mobileOpen P s) s else setOpen P (\<not> desktopOpen P s) s)"

definition handleShortcut :: "controlled \<Rightarrow> string \<Rightarrow> bool \<Rightarrow> bool \<Rightarrow> 'i sidebar \<Rightarrow> 'i sidebar" where
  "handleShortcut P k meta ctrl s = (if toLowerCase k = ''b'' \<and> (meta \<or> ctrl) then toggleSidebar P s else s)"

definition close_sidebar :: "controlled \<Rightarrow> 'i sidebar \<Rightarrow> 'i sidebar" where
  "close_sidebar P s = (if sd_isMobile s then setOpenMobile P False s else setOpen P False s)"

section \<open>The panel and its entries\<close>

datatype collapsible = Offcanvas | Icon | NoCollapse

definition panel_collapsed :: "controlled \<Rightarrow> collapsible \<Rightarrow> 'i sidebar \<Rightarrow> bool" where
  "panel_collapsed P c s = (\<not> sd_isMobile s \<and> c \<noteq> NoCollapse \<and> \<not> desktopOpen P s)"

text \<open>A submenu is there when its entry is open and the panel is not collapsed.\<close>

definition submenu_shown :: "controlled \<Rightarrow> collapsible \<Rightarrow> bool \<Rightarrow> 'i sidebar \<Rightarrow> bool" where
  "submenu_shown P c opened s = (opened \<and> \<not> panel_collapsed P c s)"

text \<open>
  Choosing an entry: \<open>closeOnSelect\<close> as given, or absent; \<open>ariaExpanded\<close> is given for an entry that holds a submenu.
\<close>

definition menu_select :: "controlled \<Rightarrow> collapsible \<Rightarrow> bool \<Rightarrow> bool option \<Rightarrow> bool option \<Rightarrow> 'i sidebar \<Rightarrow> 'i sidebar" where
  "menu_select P c off closeOnSelect ariaExpanded s =
     (if off then s
      else let shouldClose = (case closeOnSelect of Some b \<Rightarrow> b | None \<Rightarrow> ariaExpanded = None);
               t = (if sd_isMobile s \<and> shouldClose then setOpenMobile P False s else s) in
        if ariaExpanded \<noteq> None \<and> panel_collapsed P c s \<and> \<not> sd_isMobile s then setOpen P True t else t)"

definition sub_select :: "controlled \<Rightarrow> bool \<Rightarrow> bool \<Rightarrow> 'i sidebar \<Rightarrow> 'i sidebar" where
  "sub_select P off closeOnSelect s =
     (if off then s else if sd_isMobile s \<and> closeOnSelect then setOpenMobile P False s else s)"

section \<open>The effect of the open sheet\<close>

text \<open>\<open>${n}px\<close>, negated; a scroll offset is not negative.\<close>

definition locked_style :: "int \<Rightarrow> body_style" where
  "locked_style y = \<lparr>bd_position = ''fixed'', bd_top = ''-'' @ show_int y @ ''px'', bd_left = ''0'', bd_right = ''0'',
     bd_overflow = ''hidden''\<rparr>"

definition sheet_open :: "controlled \<Rightarrow> 'i sidebar \<Rightarrow> bool" where
  "sheet_open P s = (sd_isMobile s \<and> mobileOpen P s)"

definition lock_scroll :: "'i sidebar \<Rightarrow> 'i sidebar" where
  "lock_scroll s = s\<lparr>sd_lock := Some (sd_body s, sd_scrollY s), sd_body := locked_style (sd_scrollY s), sd_frame := True\<rparr>"

definition release_scroll :: "body_style \<times> int \<Rightarrow> 'i sidebar \<Rightarrow> 'i sidebar" where
  "release_scroll l s = s\<lparr>sd_lock := None, sd_body := fst l, sd_scrollY := snd l, sd_frame := False, sd_focus := AtTrigger\<rparr>"

text \<open>The effect runs when the sheet has opened, its cleanup when it has closed or gone.\<close>

definition sheet_effect :: "controlled \<Rightarrow> 'i sidebar \<Rightarrow> 'i sidebar" where
  "sheet_effect P s = (case sd_lock s of
     None \<Rightarrow> if sheet_open P s then lock_scroll s else s
   | Some l \<Rightarrow> if sheet_open P s then s else release_scroll l s)"

text \<open>
  What can happen: the trigger or the rail is pressed, a key goes down, the close button or the backdrop is pressed, Escape
  or Tab in the sheet, an entry is chosen, the window crosses the width of the media query, the frame comes, the
  reader scrolls, and the browser moves the scroll position of a locked page, which it puts anywhere.
\<close>

datatype 'i sidebar_event =
    Trigger
  | Shortcut string bool bool
  | CloseSidebar
  | Backdrop
  | SheetEscape
  | SheetTab bool
  | MenuSelect bool "bool option" "bool option"
  | SubSelect bool bool
  | Viewport bool
  | Frame
  | Scrolls int

fun sidebar_change :: "controlled \<Rightarrow> collapsible \<Rightarrow> 'i element list \<Rightarrow> 'i sidebar \<Rightarrow> 'i sidebar_event \<Rightarrow> 'i sidebar" where
  "sidebar_change P c els s Trigger = toggleSidebar P s"
| "sidebar_change P c els s (Shortcut k meta ctrl) = handleShortcut P k meta ctrl s"
| "sidebar_change P c els s CloseSidebar = close_sidebar P s"
| "sidebar_change P c els s Backdrop = setOpenMobile P False s"
| "sidebar_change P c els s SheetEscape = setOpenMobile P False s"
| "sidebar_change P c els s (SheetTab shift) =
     (case sd_focus s of InSheet f \<Rightarrow> s\<lparr>sd_focus := (case sheet_tab shift els f of Outside \<Rightarrow> AtPage | g \<Rightarrow> InSheet g)\<rparr> | _ \<Rightarrow> s)"
| "sidebar_change P c els s (MenuSelect off closing expanded) = menu_select P c off closing expanded s"
| "sidebar_change P c els s (SubSelect off closing) = sub_select P off closing s"
| "sidebar_change P c els s (Viewport narrow) = s\<lparr>sd_isMobile := narrow\<rparr>"
| "sidebar_change P c els s Frame =
     s\<lparr>sd_frame := False, sd_focus := (case sheet_focus els Outside of Outside \<Rightarrow> sd_focus s | g \<Rightarrow> InSheet g)\<rparr>"
| "sidebar_change P c els s (Scrolls y) = s\<lparr>sd_scrollY := y\<rparr>"

definition sidebar_step :: "controlled \<Rightarrow> collapsible \<Rightarrow> 'i element list \<Rightarrow> 'i sidebar \<Rightarrow> 'i sidebar_event \<Rightarrow> 'i sidebar" where
  "sidebar_step P c els s e = sheet_effect P (sidebar_change P c els s e)"

definition sidebar_start :: "body_style \<Rightarrow> 'i sidebar \<Rightarrow> bool" where
  "sidebar_start b s = (sd_open s \<and> \<not> sd_openMobile s \<and> \<not> sd_isMobile s \<and> sd_lock s = None \<and> \<not> sd_frame s \<and>
     sd_body s = b \<and> sd_focus s = AtPage \<and> sd_reports s = [])"

fun sidebar_offers :: "controlled \<Rightarrow> 'i sidebar \<Rightarrow> 'i sidebar_event \<Rightarrow> bool" where
  "sidebar_offers P s Backdrop = sheet_open P s"
| "sidebar_offers P s SheetEscape = sheet_open P s"
| "sidebar_offers P s (SheetTab shift) = sheet_open P s"
| "sidebar_offers P s Frame = sd_frame s"
| "sidebar_offers P s _ = True"

section \<open>Lemmas\<close>

lemma setters [simp]:
  "sd_isMobile (setOpen P b s) = sd_isMobile s" "sd_isMobile (setOpenMobile P b s) = sd_isMobile s"
  "sd_lock (setOpen P b s) = sd_lock s" "sd_lock (setOpenMobile P b s) = sd_lock s"
  "sd_body (setOpen P b s) = sd_body s" "sd_body (setOpenMobile P b s) = sd_body s"
  "sd_scrollY (setOpen P b s) = sd_scrollY s" "sd_scrollY (setOpenMobile P b s) = sd_scrollY s"
  "mobileOpen P (setOpen P b s) = mobileOpen P s" "desktopOpen P (setOpenMobile P b s) = desktopOpen P s"
  by (auto simp: setOpen_def setOpenMobile_def mobileOpen_def desktopOpen_def split: option.split)

lemma opened [simp]:
  "ct_open P = None \<Longrightarrow> desktopOpen P (setOpen P b s) = b"
  "ct_openMobile P = None \<Longrightarrow> mobileOpen P (setOpenMobile P b s) = b"
  by (simp_all add: setOpen_def setOpenMobile_def mobileOpen_def desktopOpen_def)

definition openings :: "report list \<Rightarrow> bool list" where
  "openings = List.map_filter (\<lambda>r. case r of OpenChange b \<Rightarrow> Some b | OpenMobileChange b \<Rightarrow> None)"

definition mobile_openings :: "report list \<Rightarrow> bool list" where
  "mobile_openings = List.map_filter (\<lambda>r. case r of OpenChange b \<Rightarrow> None | OpenMobileChange b \<Rightarrow> Some b)"

text \<open>Both open states are controllable values: the provider may leave them to its owner.\<close>

interpretation rail_open: controllable "\<lambda>c s. Some (desktopOpen \<lparr>ct_open = c, ct_openMobile = m\<rparr> s)"
  "\<lambda>c. setOpen \<lparr>ct_open = c, ct_openMobile = m\<rparr>" "\<lambda>s. openings (sd_reports s)" for m
  by unfold_locales (simp_all add: desktopOpen_def setOpen_def openings_def List.map_filter_def)

interpretation sheet_opening: controllable "\<lambda>c s. Some (mobileOpen \<lparr>ct_open = d, ct_openMobile = c\<rparr> s)"
  "\<lambda>c. setOpenMobile \<lparr>ct_open = d, ct_openMobile = c\<rparr>" "\<lambda>s. mobile_openings (sd_reports s)" for d
  by unfold_locales (simp_all add: mobileOpen_def setOpenMobile_def mobile_openings_def List.map_filter_def)

lemmas sidebar_ops = toggleSidebar_def handleShortcut_def close_sidebar_def menu_select_def sub_select_def Let_def

text \<open>Only the reader moves the page, and only the effect touches the body's styles.\<close>

lemma change_keeps:
  "sd_lock (sidebar_change P c els s e) = sd_lock s" "sd_body (sidebar_change P c els s e) = sd_body s"
  "sd_scrollY (sidebar_change P c els s e) = (case e of Scrolls y \<Rightarrow> y | _ \<Rightarrow> sd_scrollY s)"
  by (cases e; simp add: sidebar_ops split: place.split)+

lemma effect_view [simp]:
  "sheet_open P (sheet_effect P s) = sheet_open P s" "sd_isMobile (sheet_effect P s) = sd_isMobile s"
  "desktopOpen P (sheet_effect P s) = desktopOpen P s" "mobileOpen P (sheet_effect P s) = mobileOpen P s"
  by (auto simp: sheet_effect_def sheet_open_def desktopOpen_def mobileOpen_def lock_scroll_def release_scroll_def split: option.split)

text \<open>Where the reader is on the page: the scroll position, or while the sheet holds the page the one it will be put back to.\<close>

definition reading_at :: "'i sidebar \<Rightarrow> int" where
  "reading_at s = (case sd_lock s of None \<Rightarrow> sd_scrollY s | Some l \<Rightarrow> snd l)"

definition lock_inv :: "controlled \<Rightarrow> body_style \<Rightarrow> 'i sidebar \<Rightarrow> bool" where
  "lock_inv P b s = ((sd_lock s \<noteq> None) = sheet_open P s \<and>
     (case sd_lock s of None \<Rightarrow> sd_body s = b | Some l \<Rightarrow> fst l = b \<and> sd_body s = locked_style (snd l)))"

lemma lock_inv_effect:
  assumes "lock_inv P b s" "sd_lock t = sd_lock s" "sd_body t = sd_body s"
  shows "lock_inv P b (sheet_effect P t) \<and> reading_at (sheet_effect P t) = (case sd_lock s of None \<Rightarrow> sd_scrollY t | Some l \<Rightarrow> snd l)"
proof -
  have "sheet_open P (sheet_effect P t) = sheet_open P t" by simp
  with assms show ?thesis
    by (cases "sd_lock s") (auto simp: lock_inv_def reading_at_def sheet_effect_def lock_scroll_def release_scroll_def split: if_splits)
qed

interpretation sheet: component "sidebar_start b" "sidebar_offers P" "sidebar_step P c els" "lock_inv P b" for b P c els
proof
  show "lock_inv P b s" if "sidebar_start b s" for s
    using that by (simp add: sidebar_start_def lock_inv_def sheet_open_def)
  show "lock_inv P b (sidebar_step P c els s e)" if "lock_inv P b s" for s e
    using lock_inv_effect [OF that change_keeps(1,2)] by (simp add: sidebar_step_def)
qed

text \<open>C36: The sheet gives the page back as it found it.  However the sidebar is used, on windows however wide, the page is held
  exactly while the sheet is open, the styles of the body are otherwise those it had before, and the reader's place in the page
  is moved by the reader's own scrolling and by nothing else: opening and closing the sheet, turning the device under it
  and whatever the browser does to the position of the held page all leave it where it was.\<close>

theorem place_is_kept:
  assumes "reachable (sidebar_start b) (sidebar_offers P) (sidebar_step P c els) s"
  shows "(sd_lock s \<noteq> None \<longleftrightarrow> sheet_open P s) \<and> (\<not> sheet_open P s \<longrightarrow> sd_body s = b) \<and>
    reading_at (sidebar_step P c els s e) = (case e of Scrolls y \<Rightarrow> if sheet_open P s then reading_at s else y | _ \<Rightarrow> reading_at s)"
proof -
  have inv: "lock_inv P b s" using sheet.always [OF assms] .
  have "reading_at (sidebar_step P c els s e) = (case sd_lock s of None \<Rightarrow> (case e of Scrolls y \<Rightarrow> y | _ \<Rightarrow> sd_scrollY s) | Some l \<Rightarrow> snd l)"
    using lock_inv_effect [OF inv change_keeps(1,2) [of P c els s e]] unfolding sidebar_step_def change_keeps(3) by blast
  with inv show ?thesis by (cases e; cases "sd_lock s") (auto simp: lock_inv_def reading_at_def)
qed

definition demo_body :: body_style where
  "demo_body = \<lparr>bd_position = [], bd_top = [], bd_left = [], bd_right = [], bd_overflow = []\<rparr>"

definition demo_sidebar :: "nat sidebar" where
  "demo_sidebar = \<lparr>sd_open = True, sd_openMobile = False, sd_isMobile = False, sd_lock = None, sd_frame = False,
     sd_body = demo_body, sd_scrollY = 0, sd_focus = AtPage, sd_reports = []\<rparr>"

definition own_state :: controlled where "own_state = \<lparr>ct_open = None, ct_openMobile = None\<rparr>"

text \<open>On a phone: scroll to 640, open the sheet, let the browser lose the position, and close with Escape.\<close>

definition demo_sheet :: "nat sidebar" where
  "demo_sheet = foldl (sidebar_step own_state Icon []) demo_sidebar [Viewport True, Scrolls 640, Trigger, Scrolls 0]"

lemma demo_sheet_reachable:
  "reachable (sidebar_start demo_body) (sidebar_offers own_state) (sidebar_step own_state Icon []) demo_sheet"
  unfolding demo_sheet_def
  by (rule legal_reachable [OF reachable.initial]) (simp_all add: sidebar_start_def demo_sidebar_def)

theorem place_is_kept_witness:
  "sd_lock demo_sheet = Some (demo_body, 640) \<and> sd_scrollY demo_sheet = 0 \<and>
   reading_at (sidebar_step own_state Icon [] demo_sheet SheetEscape) = 640"
proof -
  have d: "sd_lock demo_sheet = Some (demo_body, 640)" "sd_scrollY demo_sheet = 0"
    by (simp_all add: demo_sheet_def demo_sidebar_def own_state_def sidebar_step_def sheet_effect_def sheet_open_def
        mobileOpen_def setOpenMobile_def lock_scroll_def toggleSidebar_def)
  then have "reading_at demo_sheet = 640" by (simp add: reading_at_def)
  with d place_is_kept [OF demo_sheet_reachable, of SheetEscape] show ?thesis by simp
qed

subsection \<open>The focus\<close>

lemma filter_after:
  assumes "distinct (map el_id els)" "e \<in> set els" "P e"
  shows "filter P (after_element (el_id e) els) = tl (dropWhile (\<lambda>x. el_id x \<noteq> el_id e) (filter P els))"
  using assms unfolding after_element_def
proof (induction els)
  case (Cons x xs)
  then show ?case by (cases "el_id x = el_id e") (auto simp: image_iff)
qed simp

lemma after_nth:
  assumes "distinct (map el_id ys)" "i < length ys"
  shows "tl (dropWhile (\<lambda>x. el_id x \<noteq> el_id (ys ! i)) ys) = drop (Suc i) ys"
  using assms
proof (induction ys arbitrary: i)
  case (Cons y ys)
  show ?case
  proof (cases i)
    case (Suc j)
    with Cons.prems have "el_id (ys ! j) \<in> el_id ` set ys" by simp
    with Suc Cons.prems have "el_id y \<noteq> el_id (ys ! j)" by auto
    with Suc Cons show ?thesis by simp
  qed simp
qed simp

lemma stops_after:
  assumes "distinct (map el_id els)" "i < length (filter tab_stop els)"
  shows "filter tab_stop (after_element (el_id (filter tab_stop els ! i)) els) = drop (Suc i) (filter tab_stop els)"
proof -
  have m: "filter tab_stop els ! i \<in> set els" "tab_stop (filter tab_stop els ! i)"
    using nth_mem [OF assms(2)] by simp_all
  have "distinct (map el_id (filter tab_stop els))" using assms(1) by (rule distinct_map_filter)
  from after_nth [OF this assms(2)] show ?thesis using filter_after [of els _ tab_stop, OF assms(1) m] by simp
qed

lemma first_stop_drop:
  "filter tab_stop els = ys \<Longrightarrow> first_stop els = (case ys of [] \<Rightarrow> Outside | y # r \<Rightarrow> On (el_id y))"
  by (simp add: first_stop_def)

lemma drop_case:
  "(case drop j ys of [] \<Rightarrow> d | y # r \<Rightarrow> f y) = (if j < length ys then f (ys ! j) else d)"
  by (cases "j < length ys") (simp_all add: Cons_nth_drop_Suc [symmetric])

lemma tab_forward:
  assumes "distinct (map el_id els)" "i < length (filter tab_stop els)"
  shows "browser_tab False els (On (el_id (filter tab_stop els ! i))) =
    (if Suc i < length (filter tab_stop els) then On (el_id (filter tab_stop els ! Suc i)) else Outside)"
  using first_stop_drop [OF stops_after [OF assms]] by (simp add: drop_case)

lemma tab_backward:
  assumes "distinct (map el_id els)" "i < length (filter tab_stop els)"
  shows "browser_tab True els (On (el_id (filter tab_stop els ! i))) =
    (if 0 < i then On (el_id (filter tab_stop els ! (i - 1))) else Outside)"
proof -
  let ?ys = "filter tab_stop els" and ?n = "length (filter tab_stop els)"
  have r: "filter tab_stop (rev els) = rev ?ys" by (simp add: rev_filter)
  have j: "?n - Suc i < ?n" using assms(2) by simp
  have e: "rev ?ys ! (?n - Suc i) = ?ys ! i" using assms(2) by (simp add: rev_nth)
  have "filter tab_stop (after_element (el_id (?ys ! i)) (rev els)) = drop (Suc (?n - Suc i)) (rev ?ys)"
    using stops_after [of "rev els" "?n - Suc i"] assms(1) j unfolding r by (simp add: rev_map [symmetric] e)
  from first_stop_drop [OF this] have "browser_tab True els (On (el_id (?ys ! i))) =
      (if Suc (?n - Suc i) < ?n then On (el_id (rev ?ys ! Suc (?n - Suc i))) else Outside)"
    by (simp add: drop_case)
  moreover have "Suc (?n - Suc i) < ?n \<longleftrightarrow> 0 < i" using assms(2) by auto
  moreover have "rev ?ys ! Suc (?n - Suc i) = ?ys ! (i - 1)" if "0 < i"
    using that assms(2) by (simp add: rev_nth Suc_diff_Suc)
  ultimately show ?thesis by simp
qed

lemma on_stop_inj:
  assumes "distinct (map el_id ys)" "i < length ys" "j < length ys"
  shows "el_id (ys ! i) = el_id (ys ! j) \<longleftrightarrow> i = j"
  using nth_eq_iff_index_eq [OF assms(1), of i j] assms(2,3) by simp

lemma sheet_tab_eq:
  assumes "filter FOCUSABLE_SELECTOR els = ys" "ys \<noteq> []"
  shows "sheet_tab shift els f =
    (if shift \<and> f = On (el_id (hd ys)) then focus_on (last ys) f
     else if \<not> shift \<and> f = On (el_id (last ys)) then focus_on (hd ys) f else browser_tab shift els f)"
  using assms by (cases ys) (simp_all add: sheet_tab_def Let_def)

text \<open>The trap goes round.  When everything the panel's selector finds can take the focus from the Tab key, Tab moves from each
  such element to the next and from the last to the first, Shift+Tab the other way round, and neither ever leaves the sheet.\<close>

theorem focus_goes_round:
  assumes "distinct (map el_id els)" "\<forall>e \<in> set els. FOCUSABLE_SELECTOR e \<longleftrightarrow> tab_stop e" "i < length (filter tab_stop els)"
  shows "(let stops = filter tab_stop els; n = length stops; at = (\<lambda>i. On (el_id (stops ! i))) in
    sheet_tab False els (at i) = at (Suc i mod n) \<and> sheet_tab True els (at i) = at ((i + n - 1) mod n))"
proof -
  define ys where "ys = filter tab_stop els"
  have f: "filter FOCUSABLE_SELECTOR els = ys" unfolding ys_def by (rule filter_cong) (use assms(2) in simp_all)
  have i: "i < length ys" using assms(3) by (simp add: ys_def)
  then have ne: "ys \<noteq> []" by auto
  have d: "distinct (map el_id ys)" unfolding ys_def using assms(1) by (rule distinct_map_filter)
  have stop: "can_focus y" if "y \<in> set ys" for y using that by (simp add: ys_def tab_stop_def)
  have foc: "can_focus (ys ! j)" if "j < length ys" for j by (rule stop) (rule nth_mem [OF that])
  note inj = on_stop_inj [OF d i]
  note tabs = tab_forward [OF assms(1,3), folded ys_def] tab_backward [OF assms(1,3), folded ys_def]
  note eq = sheet_tab_eq [OF f ne, unfolded hd_conv_nth [OF ne] last_conv_nth [OF ne]]
  have fwd: "sheet_tab False els (On (el_id (ys ! i))) = On (el_id (ys ! (Suc i mod length ys)))"
  proof (cases "i = length ys - 1")
    case True
    then have "Suc i = length ys" using i by simp
    then have "Suc i mod length ys = 0" by simp
    with True foc [of 0] ne show ?thesis by (simp add: eq focus_on_def)
  next
    case False
    then have s: "Suc i < length ys" using i by simp
    with False inj [of "length ys - 1"] ne tabs(1) show ?thesis by (simp add: eq)
  qed
  have bwd: "sheet_tab True els (On (el_id (ys ! i))) = On (el_id (ys ! ((i + length ys - 1) mod length ys)))"
  proof (cases "i = 0")
    case True
    with foc [of "length ys - 1"] ne show ?thesis by (simp add: eq focus_on_def)
  next
    case False
    then have "i + length ys - 1 = (i - 1) + length ys" by simp
    moreover have "((i - 1) + length ys) mod length ys = i - 1" using i by (simp only: mod_add_self2) simp
    ultimately have m: "(i + length ys - 1) mod length ys = i - 1" by (simp only:)
    have "el_id (ys ! i) \<noteq> el_id (ys ! 0)" using False inj [of 0] ne by simp
    with False tabs(2) show ?thesis unfolding m eq by simp
  qed
  show ?thesis unfolding Let_def ys_def [symmetric] using fwd bwd by blast
qed

text \<open>A sheet of a link, a disabled button and a button.\<close>

definition demo_elements :: "nat element list" where
  "demo_elements =
     [\<lparr>el_id = 0, el_tag = Anchor True, el_disabled = False, el_tabindex = None, el_rendered = True\<rparr>,
      \<lparr>el_id = 1, el_tag = Control, el_disabled = True, el_tabindex = None, el_rendered = True\<rparr>,
      \<lparr>el_id = 2, el_tag = Control, el_disabled = False, el_tabindex = None, el_rendered = True\<rparr>]"

lemmas element_simps = FOCUSABLE_SELECTOR_def tab_stop_def can_focus_def

theorem focus_goes_round_witness:
  "sheet_tab False demo_elements (On 2) = On 0 \<and> sheet_tab True demo_elements (On 2) = On 0"
  using focus_goes_round [of demo_elements 1] by (simp add: demo_elements_def element_simps Let_def)

text \<open>
  The rail is the sidebar's last element (app-sidebar.tsx).  Its classes hide it below the width of the media query, and its
  \<open>tabindex\<close> is -1.
\<close>

definition rail_element :: "bool \<Rightarrow> 'i \<Rightarrow> 'i element" where
  "rail_element narrow i = \<lparr>el_id = i, el_tag = Control, el_disabled = False, el_tabindex = Some (- 1), el_rendered = (\<not> narrow)\<rparr>"

definition app_sheet :: "bool \<Rightarrow> 'i element list \<Rightarrow> 'i \<Rightarrow> 'i element list" where
  "app_sheet narrow els i = els @ [rail_element narrow i]"

text \<open>C37: The trap of the application's sheet does not hold.  Its selector finds the rail, which the sheet does not show, and takes it
  for the last stop: Tab on the last element of the sheet leaves the sheet, and Shift+Tab on the first goes nowhere.\<close>

theorem focus_leaves_by_the_rail:
  assumes "distinct (map el_id (app_sheet True els rail))" "\<forall>e \<in> set els. FOCUSABLE_SELECTOR e \<longleftrightarrow> tab_stop e"
    and "filter tab_stop els \<noteq> []"
  shows "sheet_tab False (app_sheet True els rail) (On (el_id (last (filter tab_stop els)))) = Outside \<and>
    sheet_tab True (app_sheet True els rail) (On (el_id (hd (filter tab_stop els)))) = On (el_id (hd (filter tab_stop els)))"
proof -
  define ys where "ys = filter tab_stop els"
  define r where "r = rail_element True rail"
  have r: "FOCUSABLE_SELECTOR r" "\<not> tab_stop r" "\<not> can_focus r" "el_id r = rail"
    by (simp_all add: r_def rail_element_def element_simps)
  have e: "filter FOCUSABLE_SELECTOR els = ys" unfolding ys_def by (rule filter_cong) (use assms(2) in simp_all)
  have f: "filter FOCUSABLE_SELECTOR (app_sheet True els rail) = ys @ [r]"
    using e r(1) by (simp add: app_sheet_def r_def)
  have t: "filter tab_stop (app_sheet True els rail) = ys"
    using r(2) by (simp add: ys_def app_sheet_def r_def)
  have ne: "ys \<noteq> []" using assms(3) by (simp add: ys_def)
  have "last ys \<in> set els" using last_in_set [OF ne] by (simp add: ys_def)
  then have "el_id (last ys) \<noteq> rail" using assms(1) by (auto simp: app_sheet_def rail_element_def)
  moreover have "browser_tab False (app_sheet True els rail) (On (el_id (last ys))) = Outside"
    using tab_forward [OF assms(1), of "length ys - 1"] ne unfolding t by (simp add: last_conv_nth)
  moreover note eq = sheet_tab_eq [OF f]
  ultimately show ?thesis using ne r(3,4) unfolding ys_def [symmetric] by (simp add: eq focus_on_def)
qed

theorem focus_leaves_by_the_rail_witness:
  "sheet_tab False (app_sheet True demo_elements 9) (On 2) = Outside \<and> sheet_tab True (app_sheet True demo_elements 9) (On 0) = On 0"
  using focus_leaves_by_the_rail [of demo_elements 9]
  by (simp add: demo_elements_def element_simps app_sheet_def rail_element_def)

subsection \<open>Choosing entries\<close>

text \<open>Choosing a project brings its sections within reach, on any window: on its page its tree is open with its secrets lit, a
  rail that was collapsed unfolds to hold the tree, and the sheet of a narrow window stays as it is.  Choosing anything
  that leads elsewhere closes that sheet.\<close>

theorem sections_come_within_reach:
  assumes "CHR ''/'' \<notin> set p" "p \<noteq> ''environments''" "p \<in> set projects"
  shows "(p, True, [''Secrets'']) \<in> set (sb_projects (app_sidebar (project_base p) projects)) \<and>
    submenu_shown own_state c True (sidebar_step own_state c els s (MenuSelect False None (Some opened))) \<and>
    sheet_open own_state (sidebar_step own_state c els s (MenuSelect False None (Some opened))) = sheet_open own_state s \<and>
    \<not> sheet_open own_state (sidebar_step own_state c els s (MenuSelect False None None)) \<and>
    \<not> sheet_open own_state (sidebar_step own_state c els s (SubSelect False True))"
proof -
  have sec: "([], ''Secrets'') \<in> set PROJECT_SECTIONS" by (simp add: PROJECT_SECTIONS_def)
  have l: "section_active (project_base p) p t \<longleftrightarrow> t = []" if "(t, m) \<in> set PROJECT_SECTIONS" for t m
    using section_lit_iff [OF assms(1,2) sec that] by simp
  have "openProjectId (project_base p) = Some p" using openProjectId_page [OF assms(1), of "[]"] by simp
  then have "(p, True, [''Secrets'']) \<in> set (sb_projects (app_sidebar (project_base p) projects))"
    using lit_sections [of "project_base p" p "[]", OF l sec] assms(3) by (auto simp: app_sidebar_def image_iff)
  moreover have "submenu_shown own_state c True (sidebar_step own_state c els s (MenuSelect False None (Some opened)))"
    by (auto simp: submenu_shown_def sidebar_step_def panel_collapsed_def menu_select_def own_state_def Let_def)
  ultimately show ?thesis
    by (auto simp: sidebar_step_def sheet_open_def menu_select_def sub_select_def own_state_def Let_def)
qed

theorem sections_come_within_reach_witness:
  "submenu_shown own_state Icon True (sidebar_step own_state Icon demo_elements (demo_sidebar\<lparr>sd_open := False\<rparr>) (MenuSelect False None (Some False)))"
  using sections_come_within_reach [of "''p1''" "[''p1'']" Icon demo_elements "demo_sidebar\<lparr>sd_open := False\<rparr>" False] by simp

end
