(* ===== verification/Widgets.thy ===== *)
theory Widgets imports Ui Controllable begin

text \<open>
  The widgets the forms are made of (web/components/motion: select.tsx, tabs.tsx, checkbox.tsx, input.tsx, button.tsx,
  shared-layout-bg.tsx, theme-toggle.tsx), as far as they decide something: what they hold, report, show and refuse.
\<close>

section \<open>The select\<close>

text \<open>
  An option: its React key, its value, its children where they are one string, and whether it is disabled.  The label it
  registers under its value is its text, or else its value.
\<close>

record select_item =
  si_key :: string
  si_value :: string
  si_children :: "string option"
  si_disabled :: bool

definition item_label :: "select_item \<Rightarrow> string" where
  "item_label i = (case si_children i of Some t \<Rightarrow> t | None \<Rightarrow> si_value i)"

datatype placement = Bottom | Top

record select =
  sl_open :: bool
  sl_value :: "string option"
  sl_labels :: "string \<rightharpoonup> string"
  sl_placement :: placement
  sl_changes :: "string list"
  sl_openings :: "bool list"

record select_props =
  sp_value :: "string option"
  sp_open :: "bool option"
  sp_off :: bool

definition select_current :: "string option \<Rightarrow> select \<Rightarrow> string option" where
  "select_current value s = (case value of Some v \<Rightarrow> Some v | None \<Rightarrow> sl_value s)"

definition select_open :: "bool option \<Rightarrow> select \<Rightarrow> bool" where
  "select_open opened s = (case opened of Some b \<Rightarrow> b | None \<Rightarrow> sl_open s)"

definition select_setOpen :: "bool option \<Rightarrow> bool \<Rightarrow> select \<Rightarrow> select" where
  "select_setOpen opened b s = (if opened = None then s\<lparr>sl_open := b\<rparr> else s)\<lparr>sl_openings := sl_openings s @ [b]\<rparr>"

definition select_report :: "string option \<Rightarrow> string \<Rightarrow> select \<Rightarrow> select" where
  "select_report value v s = (if value = None then s\<lparr>sl_value := Some v\<rparr> else s)\<lparr>sl_changes := sl_changes s @ [v]\<rparr>"

definition select_choose :: "select_props \<Rightarrow> string \<Rightarrow> select \<Rightarrow> select" where
  "select_choose P v s = select_setOpen (sp_open P) False (select_report (sp_value P) v s)"

definition register :: "(string \<rightharpoonup> string) \<Rightarrow> select_item \<Rightarrow> (string \<rightharpoonup> string)" where
  "register m i = (if m (si_value i) = Some (item_label i) then m else m(si_value i \<mapsto> item_label i))"

definition unregister :: "(string \<rightharpoonup> string) \<Rightarrow> select_item \<Rightarrow> (string \<rightharpoonup> string)" where
  "unregister m i = (if si_value i \<notin> dom m then m else m(si_value i := None))"

text \<open>
  Rendering other options: an option's effect is kept when the same key had the same value and label before; the cleanups
  of the others run before the effects of the new ones.
\<close>

definition same_effect :: "select_item \<Rightarrow> select_item \<Rightarrow> bool" where
  "same_effect i j = (si_key i = si_key j \<and> si_value i = si_value j \<and> item_label i = item_label j)"

definition rerender_items :: "select_item list \<Rightarrow> select_item list \<Rightarrow> select \<Rightarrow> select" where
  "rerender_items old new s = s\<lparr>sl_labels :=
     foldl register
       (foldl unregister (sl_labels s) (filter (\<lambda>i. \<not> list_ex (same_effect i) new) old))
       (filter (\<lambda>i. \<not> list_ex (same_effect i) old) new)\<rparr>"

text \<open>\<open>label ?? placeholder ?? "Select"\<close>\<close>

definition select_text :: "select_props \<Rightarrow> string option \<Rightarrow> select \<Rightarrow> string" where
  "select_text P placeholder s =
     (case Option.bind (select_current (sp_value P) s) (sl_labels s) of
        Some l \<Rightarrow> l
      | None \<Rightarrow> (case placeholder of Some t \<Rightarrow> t | None \<Rightarrow> ''Select''))"

text \<open>On opening: the height of the list, where the trigger ends, where it begins, and the height of the window.\<close>

definition place_panel :: "int \<Rightarrow> int \<Rightarrow> int \<Rightarrow> int \<Rightarrow> placement" where
  "place_panel h ends begins innerHeight =
     (let below = innerHeight - ends; above = begins in if below < h + 16 \<and> below < above then Top else Bottom)"

text \<open>
  The trigger, an option, a key of the window, a pointer going down inside the field or outside it, and the rendering of
  other options; and, when the panel has opened, the measurements its layout effect takes.
\<close>

datatype select_event = SelectTrigger | SelectItem string | SelectKey string | SelectPointer bool | SelectRender "select_item list"
  | SelectMeasured int int int int

text \<open>A trigger and an option can be pressed unless disabled; the list is inert while closed.\<close>

fun select_offers :: "select_props \<Rightarrow> select_item list \<times> select \<Rightarrow> select_event \<Rightarrow> bool" where
  "select_offers P (items, s) SelectTrigger = (\<not> sp_off P)"
| "select_offers P (items, s) (SelectItem v) =
     (select_open (sp_open P) s \<and> (\<exists>i \<in> set items. si_value i = v \<and> \<not> si_disabled i))"
| "select_offers P (items, s) (SelectRender new) = distinct (map si_value new)"
| "select_offers P (items, s) (SelectMeasured h ends begins height) = select_open (sp_open P) s"
| "select_offers P (items, s) _ = True"

fun select_step :: "select_props \<Rightarrow> select_item list \<times> select \<Rightarrow> select_event \<Rightarrow> select_item list \<times> select" where
  "select_step P (items, s) SelectTrigger = (items, select_setOpen (sp_open P) (\<not> select_open (sp_open P) s) s)"
| "select_step P (items, s) (SelectItem v) = (items, select_choose P v s)"
| "select_step P (items, s) (SelectKey k) =
     (items, if select_open (sp_open P) s \<and> k = ''Escape'' then select_setOpen (sp_open P) False s else s)"
| "select_step P (items, s) (SelectPointer inside) =
     (items, if select_open (sp_open P) s \<and> \<not> inside then select_setOpen (sp_open P) False s else s)"
| "select_step P (items, s) (SelectRender new) = (new, rerender_items items new s)"
| "select_step P (items, s) (SelectMeasured h ends begins height) = (items, s\<lparr>sl_placement := place_panel h ends begins height\<rparr>)"

definition select_start :: "string option \<Rightarrow> bool \<Rightarrow> select" where
  "select_start defaultValue defaultOpen = \<lparr>sl_open = defaultOpen, sl_value = defaultValue, sl_labels = Map.empty,
     sl_placement = Bottom, sl_changes = [], sl_openings = []\<rparr>"

section \<open>Tabs\<close>

record tabs =
  tb_value :: string
  tb_changes :: "string list"

definition tabs_current :: "string option \<Rightarrow> tabs \<Rightarrow> string" where
  "tabs_current value s = (case value of Some v \<Rightarrow> v | None \<Rightarrow> tb_value s)"

definition tabs_setValue :: "string option \<Rightarrow> string \<Rightarrow> tabs \<Rightarrow> tabs" where
  "tabs_setValue value v s = (if value = None then s\<lparr>tb_value := v\<rparr> else s)\<lparr>tb_changes := tb_changes s @ [v]\<rparr>"

definition tab_active :: "string option \<Rightarrow> tabs \<Rightarrow> string \<Rightarrow> bool" where
  "tab_active value s v = (tabs_current value s = v)"

section \<open>The checkbox\<close>

datatype aria_checked = Mixed | Checked bool

definition checkbox_state :: "bool \<Rightarrow> bool \<Rightarrow> aria_checked \<times> string \<times> bool" where
  "checkbox_state checked indeterminate =
     (if indeterminate then Mixed else Checked checked,
      if checked then ''checked'' else if indeterminate then ''indeterminate'' else ''unchecked'',
      checked \<or> indeterminate)"

definition checkbox_press :: "bool \<Rightarrow> bool \<Rightarrow> bool option" where
  "checkbox_press off checked = (if off then None else Some (\<not> checked))"

section \<open>The input\<close>

text \<open>The prop \<open>error\<close> is absent, a boolean, or a message.\<close>

datatype input_error = NoError | Flag bool | Message string

record input =
  in_value :: string
  in_focused :: bool
  in_changes :: "string list"

definition input_current :: "string option \<Rightarrow> input \<Rightarrow> string" where
  "input_current value s = (case value of Some v \<Rightarrow> v | None \<Rightarrow> in_value s)"

definition handleChange :: "string option \<Rightarrow> string \<Rightarrow> input \<Rightarrow> input" where
  "handleChange value t s = (if value = None then s\<lparr>in_value := t\<rparr> else s)\<lparr>in_changes := in_changes s @ [t]\<rparr>"

definition hasError :: "input_error \<Rightarrow> bool" where
  "hasError e = (case e of NoError \<Rightarrow> False | Flag b \<Rightarrow> b | Message m \<Rightarrow> m \<noteq> [])"

definition errorMessage :: "input_error \<Rightarrow> string option" where
  "errorMessage e = (case e of Message m \<Rightarrow> Some m | _ \<Rightarrow> None)"

definition input_state :: "input_error \<Rightarrow> bool \<Rightarrow> input \<Rightarrow> string" where
  "input_state e success s =
     (if hasError e then ''error'' else if success then ''success'' else if in_focused s then ''focused'' else ''idle'')"

text \<open>The id the field is described by unless its owner names another, and the alert below it with its id: an empty message is no message.\<close>

definition input_described :: "string \<Rightarrow> input_error \<Rightarrow> string option" where
  "input_described i e = (case errorMessage e of Some (c # cs) \<Rightarrow> Some (i @ ''-error'') | _ \<Rightarrow> None)"

definition input_alert :: "string \<Rightarrow> input_error \<Rightarrow> (string \<times> string) option" where
  "input_alert i e = (case errorMessage e of Some (c # cs) \<Rightarrow> Some (i @ ''-error'', c # cs) | _ \<Rightarrow> None)"

section \<open>Buttons and backgrounds\<close>

text \<open>
  A button, pressed or rendered as another element: whether it is disabled, whether it is marked busy, and what takes the
  place of its label.  As another element it drops both props.
\<close>

record button_view =
  bv_disabled :: bool
  bv_busy :: bool
  bv_spinner :: bool
  bv_label :: bool

definition button_of :: "bool \<Rightarrow> bool \<Rightarrow> bool \<Rightarrow> string \<Rightarrow> button_view" where
  "button_of asChild off loading shape =
     (if asChild then \<lparr>bv_disabled = False, bv_busy = False, bv_spinner = False, bv_label = True\<rparr>
      else \<lparr>bv_disabled = (off \<or> loading), bv_busy = loading, bv_spinner = loading,
        bv_label = (shape \<noteq> ''icon'' \<or> \<not> loading)\<rparr>)"

text \<open>Ripples: the numbers of those under way, and the next.\<close>

record ripples =
  rp_shown :: "nat list"
  rp_next :: nat

definition ripple_down :: "bool \<Rightarrow> bool \<Rightarrow> ripples \<Rightarrow> ripples" where
  "ripple_down ripple reduce s =
     (if ripple \<and> \<not> reduce then s\<lparr>rp_shown := rp_shown s @ [rp_next s], rp_next := Suc (rp_next s)\<rparr> else s)"

definition ripple_done :: "nat \<Rightarrow> ripples \<Rightarrow> ripples" where
  "ripple_done i s = s\<lparr>rp_shown := filter (\<lambda>j. j \<noteq> i) (rp_shown s)\<rparr>"

text \<open>The background of a list: the keys of its rows, and the one the pointer entered last.  Each row whether it shows the pill.\<close>

definition child_keys :: "string option list \<Rightarrow> string list" where
  "child_keys ks = map (\<lambda>(i, k). case k of Some (c # cs) \<Rightarrow> c # cs | _ \<Rightarrow> ''item-'' @ show_nat i) (enumerate 0 ks)"

definition pill_rows :: "string option list \<Rightarrow> string option \<Rightarrow> bool list" where
  "pill_rows ks activeId = map (\<lambda>k. activeId = Some k) (child_keys ks)"

section \<open>The theme switch\<close>

text \<open>\<open>resolvedTheme\<close> as next-themes gives it, if it does.\<close>

definition isDark :: "bool \<Rightarrow> string option \<Rightarrow> bool" where
  "isDark mounted resolvedTheme = (mounted \<and> resolvedTheme = Some ''dark'')"

definition toggle_theme :: "bool \<Rightarrow> string option \<Rightarrow> string" where
  "toggle_theme mounted resolvedTheme = (if isDark mounted resolvedTheme then ''light'' else ''dark'')"

definition theme_label :: "bool \<Rightarrow> string option \<Rightarrow> string" where
  "theme_label mounted resolvedTheme =
     (if mounted \<and> isDark mounted resolvedTheme then ''Switch to light mode'' else ''Switch to dark mode'')"

section \<open>Who holds the value\<close>

interpretation select_value: controllable select_current select_report sl_changes
  by unfold_locales (simp_all add: select_current_def select_report_def)

interpretation select_opening: controllable "\<lambda>c s. Some (select_open c s)" select_setOpen sl_openings
  by unfold_locales (simp_all add: select_open_def select_setOpen_def)

interpretation tabs_value: controllable "\<lambda>c s. Some (tabs_current c s)" tabs_setValue tb_changes
  by unfold_locales (simp_all add: tabs_current_def tabs_setValue_def)

interpretation input_value: controllable "\<lambda>c s. Some (input_current c s)" handleChange in_changes
  by unfold_locales (simp_all add: input_current_def handleChange_def)

text \<open>A select, tabs and an input behave the same whether they hold their value or their owner does: an owner that adopts each
  reported value sees the widget show what it would have shown by itself, after the same reports.\<close>

theorem owned_widgets_agree:
  "(select_current None s = Some v \<longrightarrow>
      (case select_value.owned v xs t of (w, u) \<Rightarrow> select_current (Some w) u) = select_current None (fold (select_report None) xs s)) \<and>
   (case tabs_value.owned (tb_value a) xs b of (w, u) \<Rightarrow> tabs_current (Some w) u) = tabs_current None (fold (tabs_setValue None) xs a) \<and>
   (case input_value.owned (in_value c) xs d of (w, u) \<Rightarrow> input_current (Some w) u) = input_current None (fold (handleChange None) xs c)"
proof (intro conjI impI)
  show "(case select_value.owned v xs t of (w, u) \<Rightarrow> select_current (Some w) u) = select_current None (fold (select_report None) xs s)"
    if "select_current None s = Some v"
    using select_value.owner_agrees [OF that, of xs t] by simp
  show "(case tabs_value.owned (tb_value a) xs b of (w, u) \<Rightarrow> tabs_current (Some w) u) = tabs_current None (fold (tabs_setValue None) xs a)"
    using tabs_value.owner_agrees [of a "tb_value a" xs b] by (simp add: tabs_current_def split_beta)
  show "(case input_value.owned (in_value c) xs d of (w, u) \<Rightarrow> input_current (Some w) u) = input_current None (fold (handleChange None) xs c)"
    using input_value.owner_agrees [of c "in_value c" xs d] by (simp add: input_current_def split_beta)
qed

section \<open>The label on the trigger\<close>

definition labels_of :: "select_item list \<Rightarrow> string \<rightharpoonup> string" where
  "labels_of items = map_of (map (\<lambda>i. (si_value i, item_label i)) items)"

lemma foldl_register:
  "foldl register m items = m ++ labels_of (rev items)"
  unfolding labels_of_def
proof (induction items arbitrary: m)
  case (Cons i items)
  have "register m i = m(si_value i \<mapsto> item_label i)" by (auto simp: register_def)
  with Cons show ?case by (simp add: map_add_upd_left map_add_assoc [symmetric] map_add_def fun_eq_iff split: option.split)
qed simp

lemma foldl_unregister:
  "foldl unregister m items = m |` (- set (map si_value items))"
proof (induction items arbitrary: m)
  case (Cons i items)
  have "unregister m i = m |` (- {si_value i})" by (auto simp: unregister_def restrict_map_def fun_eq_iff)
  with Cons show ?case by (simp add: Int_commute Compl_insert [symmetric]) (simp add: restrict_map_def fun_eq_iff)
qed (simp add: restrict_map_def)

lemma labels_None: "labels_of items v = None \<longleftrightarrow> v \<notin> si_value ` set items"
  unfolding labels_of_def map_of_eq_None_iff by (simp add: comp_def image_comp)

lemma labels_Some:
  assumes "distinct (map si_value items)"
  shows "labels_of items v = Some l \<longleftrightarrow> (\<exists>i \<in> set items. si_value i = v \<and> item_label i = l)"
proof -
  have "distinct (map fst (map (\<lambda>i. (si_value i, item_label i)) items))" using assms by (simp add: comp_def)
  from map_of_eq_Some_iff [OF this, of v l] show ?thesis by (auto simp: labels_of_def)
qed

lemma labels_item:
  "distinct (map si_value items) \<Longrightarrow> i \<in> set items \<Longrightarrow> labels_of items (si_value i) = Some (item_label i)"
  by (auto simp: labels_Some)

lemma same_value:
  assumes "distinct (map si_value items)" "i \<in> set items" "j \<in> set items" "si_value i = si_value j"
  shows "i = j"
  using assms by (auto simp: distinct_map inj_on_def)

text \<open>Whatever options were rendered before, the labels kept are those of the options rendered now.\<close>

lemma rerender_labels:
  assumes "distinct (map si_value old)" "distinct (map si_value new)" "sl_labels s = labels_of old"
  shows "sl_labels (rerender_items old new s) = labels_of new"
proof
  fix v
  define gone where "gone = filter (\<lambda>i. \<not> list_ex (same_effect i) new) old"
  define fresh where "fresh = filter (\<lambda>i. \<not> list_ex (same_effect i) old) new"
  have df: "distinct (map si_value (rev fresh))"
    using distinct_map_filter [OF assms(2)] by (simp add: fresh_def rev_map [symmetric])
  have l: "sl_labels (rerender_items old new s) v =
      (case labels_of (rev fresh) v of Some l \<Rightarrow> Some l | None \<Rightarrow> if v \<in> si_value ` set gone then None else labels_of old v)"
    by (simp add: rerender_items_def foldl_register foldl_unregister assms(3) gone_def [symmetric] fresh_def [symmetric]
        map_add_def restrict_map_def)
  show "sl_labels (rerender_items old new s) v = labels_of new v"
  proof (cases "v \<in> si_value ` set new")
    case True
    then obtain j where j: "j \<in> set new" "v = si_value j" by auto
    note lj = labels_item [OF assms(2) j(1)]
    show ?thesis
    proof (cases "list_ex (same_effect j) old")
      case True
      then obtain i where i: "i \<in> set old" "same_effect j i" by (auto simp: list_ex_iff)
      have "v \<notin> si_value ` set (rev fresh)"
        using same_value [OF assms(2) j(1)] j(2) True by (auto simp: fresh_def)
      moreover have "v \<notin> si_value ` set gone"
      proof
        assume "v \<in> si_value ` set gone"
        then obtain g where g: "g \<in> set old" "\<not> list_ex (same_effect g) new" "si_value g = v" by (auto simp: gone_def)
        have "si_value i = v" using i(2) j(2) by (simp add: same_effect_def)
        with same_value [OF assms(1) i(1) g(1)] g(3) have "g = i" by simp
        with g(2) i(2) j(1) show False by (auto simp: list_ex_iff same_effect_def)
      qed
      ultimately show ?thesis
        using l labels_item [OF assms(1) i(1)] lj i(2) j(2) labels_None [of "rev fresh" v]
        by (auto simp: same_effect_def split: option.split)
    next
      case False
      then have "j \<in> set (rev fresh)" using j(1) by (simp add: fresh_def)
      then show ?thesis using l labels_item [OF df] lj j(2) by simp
    qed
  next
    case False
    then have n: "labels_of new v = None" by (simp add: labels_None)
    have f: "labels_of (rev fresh) v = None" using False by (auto simp: labels_None fresh_def)
    show ?thesis
    proof (cases "v \<in> si_value ` set old")
      case True
      then obtain i where i: "i \<in> set old" "v = si_value i" by auto
      then have "i \<in> set gone" using False by (auto simp: gone_def list_ex_iff same_effect_def)
      with i(2) l f n show ?thesis by auto
    next
      case False
      then show ?thesis using l f n labels_None [of old v] by simp
    qed
  qed
qed

definition mounted_empty :: "string option \<Rightarrow> bool \<Rightarrow> select_item list \<times> select \<Rightarrow> bool" where
  "mounted_empty v b x = (x = ([], select_start v b))"

definition labelled :: "select_item list \<times> select \<Rightarrow> bool" where
  "labelled x = (case x of (items, s) \<Rightarrow> distinct (map si_value items) \<and> sl_labels s = labels_of items)"

lemma select_labels [simp]:
  "sl_labels (select_setOpen c b s) = sl_labels s" "sl_labels (select_choose P v s) = sl_labels s"
  "sl_changes (select_setOpen c b s) = sl_changes s" "sl_changes (select_choose P v s) = sl_changes s @ [v]"
  "sl_changes (rerender_items old new s) = sl_changes s"
  by (simp_all add: select_setOpen_def select_choose_def select_report_def rerender_items_def)

interpretation labelling: component "mounted_empty v b" "select_offers P" "select_step P" labelled for v b P
proof
  show "labelled x" if "mounted_empty v b x" for x
    using that by (simp add: mounted_empty_def labelled_def select_start_def labels_of_def)
  show "labelled (select_step P x e)" if "labelled x" "select_offers P x e" for x e
    using that by (cases x; cases e) (auto simp: labelled_def rerender_labels)
qed

text \<open>C38: The trigger shows the choice.  However the select is used and however its options change, its trigger reads the label of the
  option chosen as it is rendered now, or the placeholder when nothing is chosen or the chosen option is gone; a value is
  reported exactly when an option is pressed, it is that of an enabled option of an open list, and the list it was
  pressed in closes.\<close>

theorem trigger_shows_the_choice:
  assumes "reachable (mounted_empty v b) (select_offers P) (select_step P) (items, s)"
  shows "select_text P ph s =
      (case select_current (sp_value P) s of
         None \<Rightarrow> (case ph of Some t \<Rightarrow> t | None \<Rightarrow> ''Select'')
       | Some c \<Rightarrow> (case find (\<lambda>i. si_value i = c) items of
           Some i \<Rightarrow> item_label i | None \<Rightarrow> (case ph of Some t \<Rightarrow> t | None \<Rightarrow> ''Select''))) \<and>
    sl_changes (snd (select_step P (items, s) e)) = sl_changes s @ (case e of SelectItem c \<Rightarrow> [c] | _ \<Rightarrow> []) \<and>
    (\<forall>c. select_offers P (items, s) (SelectItem c) \<longrightarrow> select_open (sp_open P) s \<and>
      (\<exists>i \<in> set items. si_value i = c \<and> \<not> si_disabled i) \<and>
      last (sl_openings (snd (select_step P (items, s) (SelectItem c)))) = False)"
proof -
  have l: "distinct (map si_value items)" "sl_labels s = labels_of items"
    using labelling.always [OF assms] by (auto simp: labelled_def)
  have f: "labels_of items c = map_option item_label (find (\<lambda>i. si_value i = c) items)" for c
  proof (cases "find (\<lambda>i. si_value i = c) items")
    case None
    then show ?thesis using labels_None [of items c] by (auto simp: find_None_iff)
  next
    case (Some i)
    then have "i \<in> set items" "si_value i = c" by (auto simp: find_Some_iff)
    with Some labels_item [OF l(1)] show ?thesis by auto
  qed
  have "select_text P ph s =
      (case select_current (sp_value P) s of
         None \<Rightarrow> (case ph of Some t \<Rightarrow> t | None \<Rightarrow> ''Select'')
       | Some c \<Rightarrow> (case find (\<lambda>i. si_value i = c) items of
           Some i \<Rightarrow> item_label i | None \<Rightarrow> (case ph of Some t \<Rightarrow> t | None \<Rightarrow> ''Select'')))"
    unfolding select_text_def l(2) by (auto simp: f split: option.split)
  moreover have "sl_changes (snd (select_step P (items, s) e)) = sl_changes s @ (case e of SelectItem c \<Rightarrow> [c] | _ \<Rightarrow> [])"
    by (cases e) simp_all
  ultimately show ?thesis by (auto simp: select_choose_def select_setOpen_def)
qed

text \<open>A select of two identities whose second is renamed while it is chosen.\<close>

definition demo_options :: "string \<Rightarrow> select_item list" where
  "demo_options t = [\<lparr>si_key = ''a'', si_value = ''a'', si_children = Some ''Deploy'', si_disabled = False\<rparr>,
     \<lparr>si_key = ''b'', si_value = ''b'', si_children = Some t, si_disabled = False\<rparr>]"

definition free_select :: select_props where
  "free_select = \<lparr>sp_value = None, sp_open = None, sp_off = False\<rparr>"

definition demo_choice :: "select_item list \<times> select" where
  "demo_choice = foldl (select_step free_select) ([], select_start None False)
     [SelectRender (demo_options ''CI''), SelectTrigger, SelectItem ''b'', SelectRender (demo_options ''Build'')]"

lemma demo_choice_reachable: "reachable (mounted_empty None False) (select_offers free_select) (select_step free_select) demo_choice"
  unfolding demo_choice_def
  by (rule legal_reachable [OF reachable.initial])
    (simp_all add: mounted_empty_def free_select_def demo_options_def select_open_def select_setOpen_def rerender_items_def select_start_def)

theorem trigger_shows_the_choice_witness:
  "select_text free_select None (snd demo_choice) = ''Build'' \<and> sl_changes (snd demo_choice) = [''b'']"
proof -
  obtain items s where d: "demo_choice = (items, s)" by (cases demo_choice)
  have i: "items = demo_options ''Build''" using arg_cong [OF d, of fst] by (simp add: demo_choice_def)
  have v: "sl_value s = Some ''b''" "sl_changes s = [''b'']"
    using arg_cong [OF d, of snd]
    by (auto simp: demo_choice_def rerender_items_def select_choose_def select_setOpen_def select_report_def free_select_def select_start_def)
  from trigger_shows_the_choice [OF demo_choice_reachable [unfolded d], of None SelectTrigger] show ?thesis
    by (simp add: d i v select_current_def free_select_def demo_options_def item_label_def)
qed

section \<open>The other widgets\<close>

text \<open>What a field says of itself is there: it names an element as its description exactly when it renders an alert of that id, and
  then it is marked as being in error; a button that is loading refuses presses unless it is rendered as something
  else, in which case it refuses none; a checkbox draws its mark exactly when a reader is told that it is not simply off.\<close>

theorem widgets_tell_the_truth:
  "input_described i e = map_option fst (input_alert i e) \<and>
   (input_described i e \<noteq> None \<longrightarrow> hasError e \<and> input_state e success s = ''error'') \<and>
   (loading \<longrightarrow> bv_disabled (button_of False off loading shape) \<and> bv_busy (button_of False off loading shape)) \<and>
   \<not> bv_disabled (button_of True off loading shape) \<and>
   (case checkbox_state c m of (aria, state, mark) \<Rightarrow> mark \<longleftrightarrow> aria \<noteq> Checked False)"
  by (auto simp: input_described_def input_alert_def errorMessage_def hasError_def input_state_def button_of_def checkbox_state_def
      split: input_error.splits list.splits option.splits)

theorem widgets_tell_the_truth_witness: "input_state (Message ''No.'') False \<lparr>in_value = [], in_focused = True, in_changes = []\<rparr> = ''error''"
  using widgets_tell_the_truth [of "''f''" "Message ''No.''" False "\<lparr>in_value = [], in_focused = True, in_changes = []\<rparr>"]
  by (simp add: input_described_def errorMessage_def)

end
