(* ===== verification/AccountMenu.thy ===== *)
theory AccountMenu imports Routes Onboarding Sidebar begin

text \<open>
  Who is signed in, wherever the interface says so: the account control of the public header, which asks after the page has
  loaded (web/components/user-avatar.tsx), the menu at the foot of the sidebar (web/components/app-sidebar.tsx), and the
  breadcrumb of a project's pages (web/components/project-shell.tsx).
\<close>

section \<open>The public header\<close>

text \<open>
  \<open>ua_user\<close> is the user, \<open>null\<close> until the session route has answered; \<open>ua_live\<close> whether the component is still mounted; the
  sign-out dialog is the one of \<open>Onboarding\<close>, opened by the menu's last entry.
\<close>

record account = "unit form" +
  ua_user :: jsval
  ua_live :: bool
  ua_out :: signout

datatype account_event = AccountSettled nat reply | AccountGone | AccountVisit string | AccountOut signout_event

definition session_call :: api_call where
  "session_call = \<lparr>ac_path = ''/api/auth/session'', ac_method = ''GET'', ac_body = None\<rparr>"

definition account_start :: "account \<Rightarrow> bool" where
  "account_start s = (\<exists>d. signout_start d \<and>
     s = \<lparr>flights = [()], effects = [Calls session_call], pending = False, problem = None, ua_user = Some JNull, ua_live = True, ua_out = d\<rparr>)"

definition account_settle :: "reply \<Rightarrow> account \<Rightarrow> account" where
  "account_settle r s =
     (if \<not> ua_live s then s
      else case then_ok (apiResult r) (\<lambda>j. result_field j ''user'') of
        Inr v \<Rightarrow> s\<lparr>ua_user := v\<rparr>
      | Inl e \<Rightarrow> s)"

fun account_step :: "account \<Rightarrow> account_event \<Rightarrow> account" where
  "account_step s (AccountSettled i r) = (if i < length (flights s) then account_settle r (arrive i r s) else s)"
| "account_step s AccountGone = s\<lparr>ua_live := False\<rparr>"
| "account_step s (AccountVisit path) = emit (Visits path) s"
| "account_step s (AccountOut e) = s\<lparr>ua_out := signout_step (ua_out s) e\<rparr>"

definition account_view :: "account \<Rightarrow> account_event elem list" where
  "account_view s =
     (if \<not> truthy (ua_user s) then
        [Press ''Sign in'' (AccountVisit ''/login'') False, Press ''Get started'' (AccountVisit ''/signup'') False]
      else
        [Note (''Account: '' @ js_string (optfield (ua_user s) ''name'')), Note (js_string (optfield (ua_user s) ''email'')),
         Press ''Dashboard'' (AccountVisit ''/projects'') False, Press ''Identities'' (AccountVisit ''/identities'') False,
         Press ''Settings'' (AccountVisit ''/settings'') False] @
        map (map_elem AccountOut) (signout_view (ua_out s)))"

fun account_offers :: "account \<Rightarrow> account_event \<Rightarrow> bool" where
  "account_offers s (AccountSettled i r) = (i < length (flights s))"
| "account_offers s (AccountOut (SignOutSettled i r)) = signout_offers (ua_out s) (SignOutSettled i r)"
| "account_offers s AccountGone = ua_live s"
| "account_offers s e = (ua_live s \<and> pressable (account_view s) e)"

section \<open>The sidebar's groups and its user menu\<close>

text \<open>A group: its label, and of each entry its label, its address and whether it is lit.\<close>

definition NavGroup :: "string \<Rightarrow> (string \<times> string) list \<Rightarrow> string \<Rightarrow> string \<times> (string \<times> string \<times> bool) list" where
  "NavGroup label items pathname = (label, map (\<lambda>(href, l). (l, href, nav_active pathname href)) items)"

definition UserMenu :: "string \<Rightarrow> string \<Rightarrow> signout \<Rightarrow> account_event elem list" where
  "UserMenu name mail out =
     [Note name, Note mail, Press ''Settings'' (AccountVisit ''/settings'') False, Press ''Identities'' (AccountVisit ''/identities'') False] @
     map (map_elem AccountOut) (signout_view out)"

section \<open>The breadcrumb\<close>

text \<open>Each step: what it reads and where it leads, if it is a link.\<close>

definition project_crumbs :: "string \<Rightarrow> string \<Rightarrow> string option \<Rightarrow> (string \<times> string option) list" where
  "project_crumbs i name sec =
     (''Projects'', Some ''/projects'') #
     (case sec of
        Some (c # cs) \<Rightarrow> [(name, Some (project_base i)), (c # cs, None)]
      | _ \<Rightarrow> [(name, None)])"

section \<open>Lemmas\<close>

text \<open>The reply a browser gets of a response.\<close>

definition reply_of :: "response \<Rightarrow> reply" where
  "reply_of rs = Reply (rs_status rs) (Some (rs_body rs))"

definition account_inv :: "account \<Rightarrow> bool" where
  "account_inv s = (length (flights s) \<le> 1 \<and> (flights s = [()] \<longrightarrow> ua_user s = Some JNull) \<and> calls (effects s) = [session_call])"

lemma account_frame [simp]:
  "flights (s\<lparr>ua_user := u\<rparr>) = flights s" "flights (s\<lparr>ua_live := b\<rparr>) = flights s" "flights (s\<lparr>ua_out := d\<rparr>) = flights s"
  "effects (s\<lparr>ua_user := u\<rparr>) = effects s" "effects (s\<lparr>ua_live := b\<rparr>) = effects s" "effects (s\<lparr>ua_out := d\<rparr>) = effects s"
  "ua_user (emit x s) = ua_user s" "ua_live (emit x s) = ua_live s" "ua_out (emit x s) = ua_out s"
  "ua_user (arrive i r s) = ua_user s" "ua_live (arrive i r s) = ua_live s" "ua_out (arrive i r s) = ua_out s"
  by (cases s; simp add: emit_def arrive_def)+

lemma account_settle_sel [simp]:
  "flights (account_settle r s) = flights s" "effects (account_settle r s) = effects s"
  "ua_live (account_settle r s) = ua_live s" "ua_out (account_settle r s) = ua_out s"
  by (simp_all add: account_settle_def split: sum.split)

interpretation showing: component account_start account_offers account_step account_inv
proof
  show "account_inv s" if "account_start s" for s using that by (auto simp: account_start_def account_inv_def)
  show "account_inv (account_step s e)" if "account_inv s" for s e
  proof (cases e)
    case (AccountSettled i r)
    have "flights s = [()] \<and> i = 0" if "i < length (flights s)"
      using that \<open>account_inv s\<close> by (cases "flights s") (auto simp: account_inv_def)
    then show ?thesis using AccountSettled \<open>account_inv s\<close> by (auto simp: account_inv_def)
  qed (use that in \<open>simp_all add: account_inv_def\<close>)
qed

lemma session_GET_body:
  assumes "session_GET sv w = (Inr rs, w')"
  shows "rs_status rs = 200 \<and> rs_body rs = obj [(''user'', Some
    (case (if truthy (call_token get_options (w_jar w)) then fst (callCoreApi ''/auth/session'' get_options sv w) else Inl NotAuthenticatedError) of
       Inr user \<Rightarrow> if nullish user then JNull
         else obj [(''name'', optfield user ''name''), (''email'', optfield user ''email''), (''organization'', optfield user ''organization'')]
     | Inl e \<Rightarrow> JNull))]"
proof (cases "truthy (call_token get_options (w_jar w))")
  case True
  obtain r v where c: "callCoreApi ''/auth/session'' get_options sv w = (r, v)" by force
  show ?thesis
    using assms True
    by (cases r) (auto simp: session_GET_def seq_eval try_catch_eval getSessionToken_eval bff_simps c no_user_def jsonResponse_def getprop_def
        split: if_splits exn.splits)
next
  case False
  then show ?thesis using assms by (auto simp: session_GET_def seq_eval getSessionToken_eval bff_simps no_user_def jsonResponse_def)
qed

text \<open>C39: The public header tells who is signed in, and never sends anyone away.  Asked once, the session route's answer leaves the
  header with an account menu exactly when the browser has a session cookie and the core API, asked on this very request, names a
  user, and the menu then shows that user; in every other case, an expired session and an unreachable core API among
  them, it offers to sign in, and whatever happens the page stays where it is.\<close>

theorem header_tells_who_is_signed_in:
  assumes "reachable account_start account_offers account_step s" "flights s = [()]" "ua_live s"
    and "session_GET sv w = (Inr rs, w')"
  shows "(let t = account_step s (AccountSettled 0 (reply_of rs)) in
    effects t = effects s \<and> calls (effects t) = [session_call] \<and>
    (\<forall>user v. truthy (call_token get_options (w_jar w)) \<and> callCoreApi ''/auth/session'' get_options sv w = (Inr user, v) \<and> \<not> nullish user \<longrightarrow>
      ua_user t = Some (obj [(''name'', optfield user ''name''), (''email'', optfield user ''email''), (''organization'', optfield user ''organization'')]) \<and>
      pressable (account_view t) (AccountVisit ''/projects'')) \<and>
    (\<not> truthy (call_token get_options (w_jar w)) \<or> (\<exists>e v. callCoreApi ''/auth/session'' get_options sv w = (Inl e, v)) \<longrightarrow>
      account_view t = [Press ''Sign in'' (AccountVisit ''/login'') False, Press ''Get started'' (AccountVisit ''/signup'') False]))"
proof -
  define who where "who = (case (if truthy (call_token get_options (w_jar w)) then fst (callCoreApi ''/auth/session'' get_options sv w)
        else Inl NotAuthenticatedError) of
       Inr user \<Rightarrow> if nullish user then JNull
         else obj [(''name'', optfield user ''name''), (''email'', optfield user ''email''), (''organization'', optfield user ''organization'')]
     | Inl e \<Rightarrow> JNull)"
  define t where "t = account_step s (AccountSettled 0 (reply_of rs))"
  have b: "rs_status rs = 200" "rs_body rs = obj [(''user'', Some who)]"
    using session_GET_body [OF assms(4)] by (simp_all add: who_def)
  have inv: "account_inv s" using showing.always [OF assms(1)] .
  have "\<not> ends_session (reply_of rs)" by (simp add: reply_of_def ends_session_def b)
  moreover have "apiResult (reply_of rs) = Inr (obj [(''user'', Some who)])"
    by (simp add: reply_of_def apiResult_def reply_ok_def payload_of_def b)
  ultimately have t: "effects t = effects s" "ua_user t = Some who"
    using assms(2,3) by (simp_all add: t_def account_settle_def result_field_def)
  have "calls (effects s) = [session_call]" using inv by (simp add: account_inv_def)
  moreover have "truthy (Some (obj xs))" for xs by (simp add: obj_def)
  ultimately have "effects t = effects s \<and> calls (effects t) = [session_call] \<and>
    (\<forall>user v. truthy (call_token get_options (w_jar w)) \<and> callCoreApi ''/auth/session'' get_options sv w = (Inr user, v) \<and> \<not> nullish user \<longrightarrow>
      ua_user t = Some (obj [(''name'', optfield user ''name''), (''email'', optfield user ''email''), (''organization'', optfield user ''organization'')]) \<and>
      pressable (account_view t) (AccountVisit ''/projects'')) \<and>
    (\<not> truthy (call_token get_options (w_jar w)) \<or> (\<exists>e v. callCoreApi ''/auth/session'' get_options sv w = (Inl e, v)) \<longrightarrow>
      account_view t = [Press ''Sign in'' (AccountVisit ''/login'') False, Press ''Get started'' (AccountVisit ''/signup'') False])"
    using t by (auto simp: who_def account_view_def)
  then show ?thesis unfolding t_def Let_def .
qed

definition asking :: account where
  "asking = \<lparr>flights = [()], effects = [Calls session_call], pending = False, problem = None, ua_user = Some JNull, ua_live = True,
     ua_out = \<lparr>flights = [], effects = [], pending = False, problem = None, so_open = False\<rparr>\<rparr>"

definition demo_person :: json where
  "demo_person = JObj [(''name'', JStr ''Ada''), (''email'', JStr ''ada@example.com'')]"

theorem header_tells_who_is_signed_in_witness:
  "\<exists>rs w'. session_GET (demo_answers (CoreResponse 200 None (Some demo_person))) demo_world = (Inr rs, w') \<and>
     pressable (account_view (account_step asking (AccountSettled 0 (reply_of rs)))) (AccountVisit ''/projects'')"
proof -
  let ?sv = "demo_answers (CoreResponse 200 None (Some demo_person))"
  have r: "answer_result False (CoreResponse 200 None (Some demo_person)) = Inr (Some demo_person)"
    by (simp add: answer_result_def answer_def bff_simps)
  obtain v where v: "callCoreApi ''/auth/session'' get_options ?sv demo_world = (Inr (Some demo_person), v)"
    using answered_call [OF demo_answered [of "CoreResponse 200 None (Some demo_person)", unfolded r], of "''/auth/session''"]
    by (auto simp: relative_path_def startsWith_def)
  have t: "truthy (call_token get_options (w_jar demo_world))" using demo_answered by (simp add: answered_def)
  obtain rs w' where g: "session_GET ?sv demo_world = (Inr rs, w')" using session_GET_responds by blast
  have a: "reachable account_start account_offers account_step asking"
    by (rule reachable.initial) (simp add: account_start_def signout_start_def asking_def)
  have "flights asking = [()]" "ua_live asking" "\<not> nullish (Some demo_person)" by (simp_all add: asking_def demo_person_def)
  with header_tells_who_is_signed_in [OF a _ _ g] t v g show ?thesis unfolding Let_def by blast
qed

text \<open>The sidebar and the breadcrumb agree on where one is: on a section of a project the last step of the breadcrumb is the label
  of the one section the sidebar lights, the step before it leads to the project whose tree is open, and neither group of the
  sidebar has an entry lit.\<close>

theorem breadcrumb_and_sidebar_agree:
  assumes "CHR ''/'' \<notin> set p" "p \<noteq> ''environments''" "(segment, label) \<in> set PROJECT_SECTIONS" "p \<in> set projects"
  shows "(let place = project_base p @ segment; crumbs = project_crumbs p name (Some label); v = app_sidebar place projects in
    last crumbs = (label, None) \<and> (p, True, [label]) \<in> set (sb_projects v) \<and>
    (\<exists>base. crumbs ! 1 = (name, Some base) \<and> openProjectId base = Some p) \<and>
    \<not> list_ex (\<lambda>(l, href, lit). lit) (snd (NavGroup ''Organization'' ORGANIZATION place) @ snd (NavGroup ''Support'' SUPPORT place)))"
proof -
  have r: "segment = [] \<or> hd segment = CHR ''/''" "label \<noteq> []" using assms(3) by (auto simp: PROJECT_SECTIONS_def)
  have op: "openProjectId (project_base p @ segment) = Some p" using openProjectId_page [OF assms(1) r(1)] .
  note lit = lit_sections [of "project_base p @ segment" p segment, OF section_lit_iff [OF assms(1-3)] assms(3)]
  have "(p, True, [label]) \<in> set (sb_projects (app_sidebar (project_base p @ segment) projects))"
    using lit op assms(4) by (auto simp: app_sidebar_def image_iff)
  moreover have "project_crumbs p name (Some label) = [(''Projects'', Some ''/projects''), (name, Some (project_base p)), (label, None)]"
    using r(2) by (cases label) (simp_all add: project_crumbs_def)
  moreover have "openProjectId (project_base p) = Some p" using openProjectId_page [OF assms(1), of "[]"] by simp
  moreover have "\<not> nav_active (project_base p @ segment) href" if "(href, l) \<in> set (ORGANIZATION @ SUPPORT)" for href l
    using no_entry_lit [of p segment] that by (auto simp: filter_empty_conv)
  then have "\<not> list_ex (\<lambda>(l, href, lit). lit) (snd (NavGroup ''Organization'' ORGANIZATION (project_base p @ segment)) @
      snd (NavGroup ''Support'' SUPPORT (project_base p @ segment)))"
    by (fastforce simp: NavGroup_def list_ex_iff)
  ultimately show ?thesis by (simp add: Let_def)
qed

theorem breadcrumb_and_sidebar_agree_witness:
  "(''p1'', True, [''Access'']) \<in> set (sb_projects (app_sidebar (project_base ''p1'' @ ''/access'') [''p0'', ''p1'']))"
  using breadcrumb_and_sidebar_agree [of "''p1''" "''/access''" "''Access''" "[''p0'', ''p1'']" "''One''"]
  by (simp add: PROJECT_SECTIONS_def Let_def)

end
