(* ===== verification/Loader.thy ===== *)
theory Loader imports Complex_Main Prelude begin

text \<open>
  The loading indicator (web/components/motion/loader.tsx): which drawing each variant renders, and
  the drawings that keep state of their own under an interval timer (Ascii, Scramble, Percent) with
  the delays that order the cells of the two grids (DotMatrix, Dither).  A timer is the number of
  times it has fired; the durations and delays, doubles in the source, are rational numbers.  A glyph
  outside ASCII is its code point.  The shapes and keyframes handed to the animation library are left
  out.
\<close>

section \<open>Variants\<close>

datatype LoaderVariant = V_spinner | V_dots | V_bars | V_dot_matrix | V_dither | V_ascii
  | V_ascii_line | V_ascii_braille | V_ascii_blocks | V_ascii_bounce | V_morph | V_comet | V_scramble
  | V_metaballs | V_newton | V_helix | V_percent

fun ASCII_SETS :: "LoaderVariant \<Rightarrow> nat list option" where
  "ASCII_SETS V_ascii = Some [0x280B, 0x2819, 0x2839, 0x2838, 0x283C, 0x2834, 0x2826, 0x2827, 0x2807, 0x280F]"
| "ASCII_SETS V_ascii_line = Some [0x7C, 0x2F, 0x2D, 0x5C]"
| "ASCII_SETS V_ascii_braille = Some [0x28FE, 0x28FD, 0x28FB, 0x28BF, 0x287F, 0x28DF, 0x28EF, 0x28F7]"
| "ASCII_SETS V_ascii_blocks = Some [0x2581, 0x2582, 0x2583, 0x2584, 0x2585, 0x2586, 0x2587, 0x2588,
     0x2587, 0x2586, 0x2585, 0x2584, 0x2583, 0x2582]"
| "ASCII_SETS V_ascii_bounce = Some [0x2801, 0x2802, 0x2804, 0x2840, 0x2880, 0x2820, 0x2810, 0x2808]"
| "ASCII_SETS _ = None"

datatype drawing = Spinner | Dots | Bars | DotMatrix | Dither | Ascii "nat list" | Morph | Comet
  | Scramble | Metaballs | Newton | Helix | Percent

definition when_variant :: "bool \<Rightarrow> drawing \<Rightarrow> drawing list" where
  "when_variant b d = (if b then [d] else [])"

text \<open>The drawings inside the status element, each behind its condition, in the order of the markup.\<close>

definition Loader :: "LoaderVariant \<Rightarrow> drawing list" where
  "Loader v =
     when_variant (v = V_spinner) Spinner @ when_variant (v = V_dots) Dots @ when_variant (v = V_bars) Bars
     @ when_variant (v = V_dot_matrix) DotMatrix @ when_variant (v = V_dither) Dither
     @ (case ASCII_SETS v of None \<Rightarrow> [] | Some frames \<Rightarrow> [Ascii frames])
     @ when_variant (v = V_morph) Morph @ when_variant (v = V_comet) Comet
     @ when_variant (v = V_scramble) Scramble @ when_variant (v = V_metaballs) Metaballs
     @ when_variant (v = V_newton) Newton @ when_variant (v = V_helix) Helix
     @ when_variant (v = V_percent) Percent"

section \<open>Ascii\<close>

text \<open>The frame counter after one firing, and the glyph on show; the counter may have been left over
  from a longer set when the variant changes.\<close>

definition ascii_tick :: "nat list \<Rightarrow> nat \<Rightarrow> nat" where
  "ascii_tick frames f = (f + 1) mod length frames"

definition ascii_shows :: "nat list \<Rightarrow> nat \<Rightarrow> nat" where
  "ascii_shows frames f = frames ! (f mod length frames)"

section \<open>Scramble\<close>

definition SCRAMBLE_TARGET :: string where "SCRAMBLE_TARGET = ''LOADING''"
definition SCRAMBLE_GLYPHS :: string where
  "SCRAMBLE_GLYPHS = ''ABCDEFGHIJKLMNOPQRSTUVWXYZ0123456789<>/*#@''"

text \<open>One firing: letters below \<open>reveal\<close> are the target's, the others are drawn from the glyphs.
  \<open>floor_random i\<close> is \<open>Math.floor(Math.random() * SCRAMBLE_GLYPHS.length)\<close> at position \<open>i\<close>.\<close>

definition scramble_text :: "(nat \<Rightarrow> nat) \<Rightarrow> nat \<Rightarrow> string" where
  "scramble_text floor_random tick =
     (let total = length SCRAMBLE_TARGET + 4; reveal = tick mod total in
      map (\<lambda>i. if i < reveal then SCRAMBLE_TARGET ! i else SCRAMBLE_GLYPHS ! floor_random i)
        [0..<length SCRAMBLE_TARGET])"

record scramble =
  sc_text :: string
  sc_tick :: nat

definition scramble_init :: scramble where
  "scramble_init = \<lparr>sc_text = SCRAMBLE_TARGET, sc_tick = 0\<rparr>"

text \<open>The effect that runs when the motion preference changes: with reduced motion it restores the
  word and starts no timer.\<close>

definition scramble_effect :: "bool \<Rightarrow> scramble \<Rightarrow> scramble" where
  "scramble_effect reduce s = (if reduce then s\<lparr>sc_text := SCRAMBLE_TARGET\<rparr> else s\<lparr>sc_tick := 0\<rparr>)"

definition scramble_tick :: "(nat \<Rightarrow> nat) \<Rightarrow> scramble \<Rightarrow> scramble" where
  "scramble_tick floor_random s =
     \<lparr>sc_text = scramble_text floor_random (sc_tick s), sc_tick = sc_tick s + 1\<rparr>"

section \<open>Percent\<close>

definition tickMs :: rat where "tickMs = 40"

definition percent_dur :: "rat \<Rightarrow> bool \<Rightarrow> rat" where
  "percent_dur speed reduce = (if reduce then speed * 2 else speed) * 1000"

text \<open>\<open>Math.round\<close> takes a half upwards.\<close>

definition math_round :: "rat \<Rightarrow> int" where
  "math_round x = \<lfloor>x + 1 / 2\<rfloor>"

text \<open>The clock of the effect and the number on show.\<close>

record percent =
  pc_t :: rat
  pc_p :: int

definition percent_init :: percent where
  "percent_init = \<lparr>pc_t = 0, pc_p = 0\<rparr>"

definition percent_tick :: "rat \<Rightarrow> percent \<Rightarrow> percent" where
  "percent_tick dur s =
     (let t = pc_t s + tickMs; next_p = min 100 (math_round (t / dur * 100)) in
      \<lparr>pc_t = (if next_p \<ge> 100 then 0 else t), pc_p = next_p\<rparr>)"

section \<open>Grids\<close>

definition matrix_delay :: "rat \<Rightarrow> nat \<Rightarrow> rat" where
  "matrix_delay speed idx =
     (let n = 3; x = idx mod n; y = idx div n in of_nat (x + y) / of_nat (2 * (n - 1)) * speed)"

definition BAYER_4 :: "nat list" where
  "BAYER_4 = [0, 8, 2, 10, 12, 4, 14, 6, 3, 11, 1, 9, 15, 7, 13, 5]"

definition dither_delay :: "rat \<Rightarrow> nat \<Rightarrow> rat" where
  "dither_delay speed order = of_nat order / of_nat (length BAYER_4) * speed"

section \<open>Lemmas\<close>

lemma ascii_set_not_empty: "ASCII_SETS v = Some frames \<Longrightarrow> frames \<noteq> []"
  by (cases v) auto

lemma scramble_text_length [simp]: "length (scramble_text fr k) = length SCRAMBLE_TARGET"
  by (simp add: scramble_text_def Let_def)

lemma scramble_text_prefix:
  assumes "i < length SCRAMBLE_TARGET" "i < k mod (length SCRAMBLE_TARGET + 4)"
  shows "scramble_text fr k ! i = SCRAMBLE_TARGET ! i"
  using assms by (simp add: scramble_text_def Let_def)

lemma scramble_ticks: "sc_tick ((scramble_tick fr ^^ n) s) = sc_tick s + n"
  by (induction n) (simp_all add: scramble_tick_def)

definition percent_ok :: "rat \<Rightarrow> percent \<Rightarrow> bool" where
  "percent_ok dur s = (0 \<le> pc_t s \<and> pc_t s < dur \<and> 0 \<le> pc_p s \<and> pc_p s \<le> 100)"

lemma math_round_nonneg: "0 \<le> x \<Longrightarrow> 0 \<le> math_round x"
  by (simp add: math_round_def)

lemma percent_tick_ok:
  assumes "0 < dur" "percent_ok dur s"
  shows "percent_ok dur (percent_tick dur s)"
proof -
  let ?t = "pc_t s + tickMs"
  have t: "0 \<le> ?t" using assms by (simp add: percent_ok_def tickMs_def)
  have "0 \<le> ?t / dur * 100" using t assms(1) by simp
  note n = math_round_nonneg [OF this]
  have "?t < dur" if "math_round (?t / dur * 100) < 100"
  proof (rule ccontr)
    assume "\<not> ?t < dur"
    then have "1 \<le> ?t / dur" using assms(1) by (simp add: le_divide_eq)
    then have "100 \<le> ?t / dur * 100" using mult_right_mono [of 1 "?t / dur" 100] by simp
    then have "100 \<le> math_round (?t / dur * 100)" unfolding math_round_def le_floor_iff by simp
    with that show False by simp
  qed
  with n t assms(1) show ?thesis by (simp add: percent_ok_def percent_tick_def Let_def)
qed

lemma math_round_0 [simp]: "math_round 0 = 0"
  unfolding math_round_def by (rule floor_unique) simp_all

lemma percent_climbs:
  assumes "0 < dur" "of_nat n * tickMs / dur * 100 < 199 / 2"
  shows "(percent_tick dur ^^ n) percent_init
    = \<lparr>pc_t = of_nat n * tickMs, pc_p = math_round (of_nat n * tickMs / dur * 100)\<rparr>"
  using assms(2)
proof (induction n)
  case 0
  then show ?case by (simp add: percent_init_def)
next
  case (Suc n)
  have "of_nat n * tickMs / dur * 100 \<le> of_nat (Suc n) * tickMs / dur * 100"
    using assms(1) by (simp add: tickMs_def divide_right_mono)
  with Suc have IH: "(percent_tick dur ^^ n) percent_init
      = \<lparr>pc_t = of_nat n * tickMs, pc_p = math_round (of_nat n * tickMs / dur * 100)\<rparr>" by simp
  have "math_round (of_nat (Suc n) * tickMs / dur * 100) < 100"
    using Suc.prems by (simp add: math_round_def floor_less_iff)
  then have "percent_tick dur \<lparr>pc_t = of_nat n * tickMs, pc_p = x\<rparr>
      = \<lparr>pc_t = of_nat (Suc n) * tickMs, pc_p = math_round (of_nat (Suc n) * tickMs / dur * 100)\<rparr>" for x
    by (simp add: percent_tick_def Let_def distrib_right add.commute)
  with IH show ?case by simp
qed

section \<open>Properties\<close>

text \<open>Every variant renders exactly one drawing, and the glyph the terminal-style variants show is one
  of their own frames whatever the counter holds.\<close>

theorem loader_draws_one_thing:
  "length (Loader v) = 1 \<and> (\<forall>frames f. Loader v = [Ascii frames] \<longrightarrow> ascii_shows frames f \<in> set frames)"
  by (cases v) (auto simp: Loader_def when_variant_def ascii_shows_def simp del: List.set_simps intro!: nth_mem)

text \<open>At every firing the scrambled word is as long as the target; its revealed letters are right, and
  in four firings of every eleven (the seventh to the tenth, counted from zero) it reads LOADING,
  whatever the random glyphs are
  and whatever an earlier timer left.\<close>

theorem scramble_reads_loading:
  assumes "7 \<le> n mod 11"
  shows "sc_text (scramble_tick fr ((scramble_tick fr ^^ n) (scramble_effect False s))) = ''LOADING''"
proof -
  have k: "sc_tick ((scramble_tick fr ^^ n) (scramble_effect False s)) = n"
    by (simp add: scramble_ticks scramble_effect_def)
  have "scramble_text fr n = SCRAMBLE_TARGET"
  proof (rule nth_equalityI)
    fix i assume "i < length (scramble_text fr n)"
    then show "scramble_text fr n ! i = SCRAMBLE_TARGET ! i"
      using assms by (intro scramble_text_prefix) (simp_all add: SCRAMBLE_TARGET_def)
  qed simp
  with k show ?thesis by (simp add: scramble_tick_def SCRAMBLE_TARGET_def)
qed

theorem scramble_reads_loading_witness:
  "sc_text (scramble_tick (\<lambda>i. i) ((scramble_tick (\<lambda>i. i) ^^ 18) (scramble_effect False scramble_init))) = ''LOADING''"
  by (rule scramble_reads_loading) simp

text \<open>The percentage is never outside 0 to 100, however long the timer runs.\<close>

theorem percent_in_range:
  assumes "0 < speed"
  shows "pc_p ((percent_tick (percent_dur speed reduce) ^^ n) percent_init) \<in> {0..100}"
proof -
  have d: "0 < percent_dur speed reduce" using assms by (simp add: percent_dur_def)
  have "percent_ok (percent_dur speed reduce) ((percent_tick (percent_dur speed reduce) ^^ n) percent_init)"
  proof (induction n)
    case 0
    then show ?case using d by (simp add: percent_ok_def percent_init_def)
  qed (simp add: percent_tick_ok d)
  then show ?thesis by (simp add: percent_ok_def)
qed

theorem percent_in_range_witness:
  "pc_p ((percent_tick (percent_dur 1 False) ^^ 30) percent_init) \<in> {0..100}"
  by (rule percent_in_range) simp

text \<open>Percent always completes: with a positive speed some firing shows 100 and sets the clock back.\<close>

theorem percent_completes:
  assumes "0 < speed"
  shows "\<exists>n. (percent_tick (percent_dur speed reduce) ^^ n) percent_init = \<lparr>pc_t = 0, pc_p = 100\<rparr>"
proof -
  let ?d = "percent_dur speed reduce"
  let ?f = "\<lambda>n. of_nat n * tickMs / ?d * 100"
  have d: "0 < ?d" using assms by (simp add: percent_dur_def)
  obtain m :: nat where "199 / 2 * ?d / 4000 < of_nat m" using reals_Archimedean2 by blast
  then have m: "\<not> ?f m < 199 / 2" using d by (simp add: tickMs_def field_simps)
  define k where "k = (LEAST n. \<not> ?f n < 199 / 2)"
  have k: "\<not> ?f k < 199 / 2" unfolding k_def using m by (rule LeastI)
  have "k \<noteq> 0" using k by (intro notI) simp
  then obtain j where j: "k = Suc j" by (cases k) auto
  have "?f j < 199 / 2" using not_less_Least [of j "\<lambda>n. \<not> ?f n < 199 / 2"] j k_def by auto
  note climb = percent_climbs [OF d this]
  have "100 \<le> math_round (?f (Suc j))" using k j by (simp add: math_round_def le_floor_iff)
  then have "percent_tick ?d \<lparr>pc_t = of_nat j * tickMs, pc_p = x\<rparr> = \<lparr>pc_t = 0, pc_p = 100\<rparr>" for x
    by (simp add: percent_tick_def Let_def distrib_right add.commute)
  with climb have "(percent_tick ?d ^^ Suc j) percent_init = \<lparr>pc_t = 0, pc_p = 100\<rparr>" by simp
  then show ?thesis by blast
qed

theorem percent_completes_witness:
  "\<exists>n. (percent_tick (percent_dur 1 False) ^^ n) percent_init = \<lparr>pc_t = 0, pc_p = 100\<rparr>"
  by (rule percent_completes) simp

text \<open>The grids light each cell within one cycle: the wave's delays run from none to a whole cycle, the
  sixteen dithering delays are different and all shorter than one.\<close>

theorem cells_light_within_a_cycle:
  assumes "0 < speed"
  shows "(\<forall>idx < 9. 0 \<le> matrix_delay speed idx \<and> matrix_delay speed idx \<le> speed)
    \<and> (\<forall>k \<in> set BAYER_4. 0 \<le> dither_delay speed k \<and> dither_delay speed k < speed)
    \<and> distinct (map (dither_delay speed) BAYER_4)"
proof (intro conjI allI impI ballI)
  fix idx :: nat assume "idx < 9"
  then have "idx mod 3 + idx div 3 \<le> 4" by linarith
  then have "(of_nat (idx mod 3 + idx div 3) :: rat) \<le> of_nat 4" by (simp only: of_nat_le_iff)
  then have "(of_nat (idx mod 3 + idx div 3) :: rat) / 4 \<le> 1" by simp
  then show "matrix_delay speed idx \<le> speed"
    using assms mult_right_mono [of "of_nat (idx mod 3 + idx div 3) / 4" 1 speed] by (simp add: matrix_delay_def Let_def)
  show "0 \<le> matrix_delay speed idx" using assms by (simp add: matrix_delay_def Let_def)
next
  fix k assume "k \<in> set BAYER_4"
  then show "0 \<le> dither_delay speed k" "dither_delay speed k < speed"
    using assms by (auto simp: dither_delay_def BAYER_4_def)
next
  show "distinct (map (dither_delay speed) BAYER_4)"
    using assms by (simp add: dither_delay_def BAYER_4_def)
qed

theorem cells_light_within_a_cycle_witness:
  "distinct (map (dither_delay 1) BAYER_4)"
  using cells_light_within_a_cycle [of 1] by simp

end
