(* ===== verification/Spec2Isabelle.thy ===== *)
theory Spec2Isabelle
imports Dotenv Routes Webauthn Middleware Docs LoginForm AddSecrets AcceptInvitation SecretsTable NewAccess Onboarding PasskeysPanel Pages Toasts AuditTrail Gestures DocsPages Sidebar Widgets AccountMenu Loader DotenvTests
begin

text \<open>
  A verification library of the web application of Warder (web/ in the repository): a Next.js server that stands between
  a browser and the core API (the Go service, outside this library), and the components it sends to that browser.

  \<^bold>\<open>The program and its parts.\<close>  A browser holds two cookies, the session (unreadable to scripts) and a CSRF
  token.  A component calls \<open>apiFetch\<close>, which copies the CSRF token into a header; a route verifies it, reads the body
  with the readers of route-helpers.ts, calls the core API once through \<open>callCoreApi\<close>, which adds the service token and
  the session, and shapes the answer.  A page runs in the same server, calls the core API itself and hands its results to
  the components.  The theories follow that path.

  \<^item> Vocabulary: \<open>Prelude\<close> (the JavaScript string functions the source uses, the collection \<open>js_simps\<close>), \<open>Codec\<close> (the
    contract of an encoding), \<open>Base64\<close> (the platform's btoa and atob), \<open>Json\<close> (JSON values; an expression that may be
    undefined has type \<open>json option\<close>), \<open>Errors\<close> (every exception of the server code as a value), \<open>Server\<close> (the process as
    explicit state: cookies, cached configuration, requests sent, random draws, log; an action returns an exception
    or a value and a new state), \<open>Traces\<close> (what an action sends), \<open>Ui\<close> (components as state machines).
  \<^item> Server: \<open>Connection\<close> (lib/connection.ts), \<open>Env\<close> (lib/env.ts), \<open>Session\<close> (lib/session.ts), \<open>Csrf\<close> (lib/csrf.ts),
    \<open>CoreApi\<close> (lib/core-api.ts), \<open>RouteHelpers\<close> (lib/route-helpers.ts), \<open>AuthRoutes\<close> and \<open>ResourceRoutes\<close> (app/api and
    app/.well-known), \<open>Routes\<close> (all routes in one table, the discovery document included), \<open>Middleware\<close> (middleware.ts, next.config.ts), \<open>Pages\<close> (the pages
    and layouts of app/(dashboard), app/login, app/signup and app/welcome), \<open>Docs\<close> and \<open>DocsPages\<close> (lib/docs.ts,
    app/(public)/docs, components/docs).
  \<^item> Browser libraries: \<open>ClientApi\<close> (lib/client-api.ts), \<open>Webauthn\<close> (lib/webauthn.ts), \<open>Dotenv\<close> (lib/dotenv.ts, with the
    repository's own test cases evaluated on it in \<open>DotenvTests\<close>), \<open>Toasts\<close>
    (motion/animated-toast-stack.tsx, ui/toast.tsx), \<open>Gestures\<close> (lib/touch.ts, lib/hooks, motion/tooltip.tsx),
    \<open>Controllable\<close> (a value a widget or its owner holds), \<open>Widgets\<close> (the select, tabs, checkbox, input, button and theme switch of
    components/motion), \<open>Loader\<close> (motion/loader.tsx: the variants and the timers).
  \<^item> Browser components: \<open>LoginForm\<close>, \<open>AccountForms\<close>, \<open>AcceptInvitation\<close>, \<open>PasskeysPanel\<close>, \<open>Onboarding\<close>; \<open>SecretsTable\<close>,
    \<open>SecretDialogs\<close>, \<open>AddSecrets\<close>; \<open>AccessView\<close>, \<open>NewAccess\<close>, \<open>KeyPicker\<close>, \<open>OneTime\<close>, \<open>RowActions\<close>; \<open>AuditTrail\<close>; \<open>Navigation\<close>, \<open>Sidebar\<close>, \<open>AccountMenu\<close>.
    Each names its files under web/components in its first lines.

  \<^bold>\<open>How code became definitions.\<close>  A handler that waits is cut at its awaits: what it waits for is a flight in the
  component's state, and the event \<open>...Settled i r\<close> resumes the flight \<open>i\<close> with the outcome \<open>r\<close>, so answers arrive in
  any order.  A component has a state record (its \<open>useState\<close> and \<open>useRef\<close> cells, the flights, and the \<open>effects\<close> it had on
  the rest of the page: calls, toasts, navigation), a step function over an event datatype, a \<open>_view\<close> function for what it
  renders and an \<open>_offers\<close> predicate: an event can happen when it is a press or an input on something rendered and
  enabled, or the completion of a flight.  \<open>reachable\<close> is the closure of these; invariants are by its induction.
  An effect with a cleanup (the key picker, the organization switcher) marks its flights dead instead of removing them.
  Timeouts and intervals of the browser are explicit lists or counters of pending ones.

  \<^bold>\<open>Interfaces.\<close>  \<open>codec\<close> is the contract of an encoding, interpreted on base64url, the query encoding and the .env
  renderer; \<open>simulation\<close> (\<open>Toasts\<close>) is the contract between a step relation and its specification, interpreted on the
  toast provider; \<open>controllable\<close> is the contract of a value that a widget or its owner holds, interpreted on the select, the tabs,
  the input and both open states of the sidebar; \<open>component\<close> (\<open>Ui\<close>) is a state machine with an invariant, extended by
  \<open>request_form\<close> (\<open>ClientApi\<close>), \<open>reporting_form\<close>, \<open>shown_once\<close> and \<open>following_slug\<close>; the other locales state what a route wrapper or a form's submission guarantees and are interpreted on
  the definitions that provide it, in the theory that declares those.

  \<^bold>\<open>What the lemmas show.\<close>  Server: no forged request has an effect, no route leaks the session credential or an
  exception, exactly which requests are sent with which credential, which inputs the readers accept, and that what a route
  sends on is no wider than what it was asked.  Browser: for each form, that one request at a time is outstanding, that
  typed secrets are dropped when the request ends, and exactly what is sent; for each one-time credential, where it is
  held; and the functional content of the renderings.  \<open>Middleware\<close> reads its own policy back as a browser does (\<open>script_sources\<close>).  \<open>Toasts\<close> and \<open>AccessView\<close> have abstract specifications and
  refinement theorems; \<open>Dotenv\<close>, \<open>Webauthn\<close>, \<open>DocsPages\<close> and \<open>Navigation\<close> have round trips.  The compositions at the
  end of this theory follow a value from the form that sends it through the route to the core API, down to the exact body: a
  route's requests are \<open>new_requests\<close> of its run, \<open>let_through\<close> says that the guard passes a request and the session and
  configuration are there, and \<open>required_text\<close>, \<open>optional_text\<close> and \<open>optional_texts\<close> (all in \<open>Traces\<close>) say what a body
  contains without the readers of the code.  \<open>usable\<close> and \<open>numbered\<close> (\<open>ResourceRoutes\<close>) describe the versions of a
  secret in the same way: ordinals that are not numbers, which JavaScript would compare as NaN, are outside the theorem about them.

  \<^bold>\<open>Bounds and abstractions.\<close>  A string is a list of Latin-1 code units; case mapping is ASCII outside \<open>Docs\<close>, and
  the ellipsis of the interface's texts is written as three dots.  JavaScript numbers are \<open>int\<close> or \<open>nat\<close> where the
  code uses them as integers.  The only fuel is the number of redirects of \<open>browse\<close> (\<open>Pages\<close>), over which the theorem
  about it quantifies, and \<open>run_out\<close> (\<open>Toasts\<close>), where as many firings as there are toasts are shown to be enough.
  The platform is a parameter: fetch, random bytes, the clock and the URL parser (\<open>server\<close>), \<open>decodeURIComponent\<close>,
  \<open>navigator.credentials\<close>, \<open>localeCompare\<close> (\<open>collate\<close>), Date (\<open>dates\<close>, \<open>date\<close>), the file system.  A refused header value
  is not modelled: a value the platform's Headers would refuse is passed on.  \<open>Promise.all\<close> is its attempts one after the
  other with the first listed failure.  The browser's own checks of a field (\<open>required\<close>, \<open>pattern\<close>) are left out, so
  the events of a form include what they would stop.  The development mode that mounts a component twice is left out.
  A component's props are fixed for its lifetime.

  \<^bold>\<open>Not modelled.\<close>  The Go service; the markup, icons, styles and animation of every component; the landing page, the
  shells, the logo and avatars; the shapes the loader draws, the dock (which nothing imports) and components/ui, which animate or style what they
  are given; time stamps where a table only prints them.
\<close>

section \<open>From the browser to the guard\<close>

text \<open>
  The request a route sees for a call of a page: names in lower case, the \<open>Origin\<close> the browser adds for
  the page it runs in.
\<close>

definition incoming :: "string \<Rightarrow> browser_request \<Rightarrow> request" where
  "incoming origin brq = \<lparr>rq_method = br_method brq,
     rq_headers = [''origin'' \<mapsto> origin] ++
       (\<lambda>n. case find (\<lambda>m. toLowerCase m = n) [''Accept'', ''Content-Type'', csrf_header] of
          Some m \<Rightarrow> br_headers brq m | None \<Rightarrow> None),
     rq_body = br_body brq, rq_params = []\<rparr>"

text \<open>The cookies a browser returns: the values it was given, without their attributes.\<close>

definition returned :: "(string \<rightharpoonup> cookie) \<Rightarrow> (string \<rightharpoonup> cookie)" where
  "returned j = (\<lambda>n. case cookie_get j n of Some v \<Rightarrow> Some (Received (json_string v)) | None \<Rightarrow> None)"

lemma lowered_names:
  "toLowerCase ''Accept'' = ''accept''" "toLowerCase ''Content-Type'' = ''content-type''"
  "toLowerCase ''x-csrf-token'' = ''x-csrf-token''"
  "toUpperCase ''GET'' = ''GET''" "toUpperCase ''HEAD'' = ''HEAD''"
  by code_simp+

lemma apiRequest_Some: "\<exists>brq. apiRequest Some cookie c = Inr brq"
proof -
  have "readCsrfToken Some cookie = Inr (case match_csrf cookie of Some t \<Rightarrow> t | None \<Rightarrow> [])"
    by (auto simp: readCsrfToken_def split: option.splits list.splits)
  then show ?thesis by (simp add: apiRequest_def api_headers_def Let_def)
qed

lemma incoming_headers:
  "rq_method (incoming og brq) = br_method brq"
  "header (incoming og brq) ''origin'' = (if og = [] then None else Some og)"
  "header (incoming og brq) CSRF_HEADER = (case br_headers brq ''x-csrf-token'' of Some (c # cs) \<Rightarrow> Some (c # cs) | _ \<Rightarrow> None)"
  by (cases og; simp add: incoming_def header_def lowered_names csrf_header_def CSRF_HEADER_def map_add_def split: option.splits)+

lemma not_hex: "is_hex_digit (CHR '';'') = False" "is_hex_digit (CHR ''%'') = False"
  by code_simp+

lemma fresh_csrf_text:
  assumes "\<And>i n. length (sv_random sv i n) = n"
  shows "fresh_csrf sv w \<noteq> []" "CHR '';'' \<notin> set (fresh_csrf sv w)" "CHR ''%'' \<notin> set (fresh_csrf sv w)"
proof -
  have "length (fresh_csrf sv w) = 64" using assms by (simp add: fresh_csrf_def hex_bytes_length)
  then show "fresh_csrf sv w \<noteq> []" by auto
  show "CHR '';'' \<notin> set (fresh_csrf sv w)" "CHR ''%'' \<notin> set (fresh_csrf sv w)"
    using hex_bytes_hex [of "CHR '';''"] hex_bytes_hex [of "CHR ''%''"] by (auto simp: fresh_csrf_def not_hex)
qed


text \<open>C7: 
  From the session cookie to the guard.  After a session has started, every call a page of the application
  makes through \<open>apiFetch\<close>, with the readable cookies of its browser, passes the CSRF guard at the server;
  and a call made with the cookies of a browser that lacks the CSRF cookie does not, unless its method is
  one the guard lets through.
\<close>

theorem own_calls_pass_the_guard:
  assumes random: "\<And>i n. length (sv_random sv i n) = n" and decode: "\<And>t. CHR ''%'' \<notin> set t \<Longrightarrow> de t = Some t"
    and start: "startSession t e sv w = (Inr csrf, w1)"
    and conf: "conn_result sv w1 = Inr c" "appOrigin c \<noteq> []"
    and cookies: "list_all plain_cookie others" "''warder_csrf'' \<notin> fst ` set others"
  shows "(\<forall>brq. apiRequest de (document_cookie (others @ [(''warder_csrf'', csrf)])) call = Inr brq \<longrightarrow>
      (\<exists>w2. assertCsrf (incoming (appOrigin c) brq) sv (w1\<lparr>w_jar := returned (w_jar w1)\<rparr>) = (Inr (), w2))) \<and>
    (\<forall>brq og sv' w'. apiRequest de (document_cookie others) call = Inr brq \<and> \<not> safe_method (incoming og brq) \<longrightarrow>
      (\<nexists>w2. assertCsrf (incoming og brq) sv' w' = (Inr (), w2)))"
proof (intro conjI allI impI)
  have none: "map_of others ''warder_csrf'' = None" using cookies(2) by (simp add: map_of_eq_None_iff)
  have csrf: "csrf = fresh_csrf sv w" and w1: "w1 = started t e sv w" using start by (simp_all add: startSession_eval)
  note shape = fresh_csrf_text [OF random, where w = w, folded csrf]
  fix brq assume sent: "apiRequest de (document_cookie (others @ [(''warder_csrf'', csrf)])) call = Inr brq"
  have "match_csrf (document_cookie (others @ [(''warder_csrf'', csrf)])) = Some csrf"
    using cookies(1) shape none by (subst match_csrf_cookies) (auto simp: plain_cookie_def map_add_def)
  then have "readCsrfToken de (document_cookie (others @ [(''warder_csrf'', csrf)])) = Inr csrf"
    using shape decode by (auto simp: readCsrfToken_def split: list.splits)
  then have hdr: "br_headers brq ''x-csrf-token'' = (if ac_method call \<in> {''GET'', ''HEAD''} then None else Some csrf)"
    and m: "br_method brq = ac_method call"
    using sent by (auto simp: apiRequest_def api_headers_def csrf_header_def Let_def then_ok_Inr split: if_splits)
  show "\<exists>w2. assertCsrf (incoming (appOrigin c) brq) sv (w1\<lparr>w_jar := returned (w_jar w1)\<rparr>) = (Inr (), w2)"
  proof (cases "safe_method (incoming (appOrigin c) brq)")
    case False
    then have "header (incoming (appOrigin c) brq) CSRF_HEADER = Some csrf"
      using shape m hdr by (auto simp: incoming_headers safe_method_def SAFE_METHODS_def lowered_names split: list.splits if_splits)
    moreover have "cookie_get (returned (w_jar w1)) CSRF_COOKIE = Some (JStr csrf)"
      by (simp add: returned_def w1 csrf cookies.get_put cookie_get_def cookie_set_def)
    moreover have "origin_ok sv c (incoming (appOrigin c) brq)" "conn_result sv (w1\<lparr>w_jar := j\<rparr>) = Inr c" for j
      using conf by (simp_all add: origin_ok_def incoming_headers conn_result_def)
    ultimately show ?thesis using False shape by (auto simp: assertCsrf_ok)
  qed (simp add: assertCsrf_ok)
next
  fix brq og sv' w' assume *: "apiRequest de (document_cookie others) call = Inr brq \<and> \<not> safe_method (incoming og brq)"
  have "map_of others ''warder_csrf'' = None" using cookies(2) by (simp add: map_of_eq_None_iff)
  then have "readCsrfToken de (document_cookie others) = Inr []"
    by (simp add: readCsrfToken_def match_csrf_cookies cookies(1))
  then have "header (incoming og brq) CSRF_HEADER = None"
    using * by (auto simp: apiRequest_def api_headers_def csrf_header_def Let_def then_ok_Inr incoming_headers split: if_splits)
  with * show "\<nexists>w2. assertCsrf (incoming og brq) sv' w' = (Inr (), w2)" by (auto simp: assertCsrf_ok)
qed

theorem own_calls_pass_the_guard_witness:
  "\<exists>csrf w1 brq w2. startSession (Some (JStr ''s3ss'')) None demo_server demo_world = (Inr csrf, w1) \<and>
     apiRequest Some (document_cookie [(''warder_csrf'', csrf)]) (post_call ''/api/auth/logout'' JNull) = Inr brq \<and>
     assertCsrf (incoming (appOrigin demo_connection) brq) demo_server (w1\<lparr>w_jar := returned (w_jar w1)\<rparr>) = (Inr (), w2)"
proof -
  let ?csrf = "fresh_csrf demo_server demo_world" and ?w1 = "started (Some (JStr ''s3ss'')) None demo_server demo_world"
  have r: "length (sv_random demo_server i n) = n" for i n by (simp add: demo_server_def)
  have s: "startSession (Some (JStr ''s3ss'')) None demo_server demo_world = (Inr ?csrf, ?w1)" by (simp add: startSession_eval)
  have c: "conn_result demo_server ?w1 = Inr demo_connection"
    using demo_parse by (simp add: started_def conn_result_def conn_world_def demo_server_def demo_world_def)
  obtain brq where b: "apiRequest Some (document_cookie [(''warder_csrf'', ?csrf)]) (post_call ''/api/auth/logout'' JNull) = Inr brq"
    using apiRequest_Some by blast
  have "\<exists>w2. assertCsrf (incoming (appOrigin demo_connection) brq) demo_server (?w1\<lparr>w_jar := returned (w_jar ?w1)\<rparr>) = (Inr (), w2)"
    using own_calls_pass_the_guard [OF r refl s c, of "[]" "post_call ''/api/auth/logout'' JNull"] b
    by (simp add: demo_connection_def)
  with s b show ?thesis by blast
qed

section \<open>From the dialog to the batch route\<close>

text \<open>What the batch route makes of a row of the dialog.\<close>

definition forwarded :: "row \<Rightarrow> json" where
  "forwarded r = JObj [(''key'', JStr (trim (row_key r))), (''value'', JStr (trim (row_value r))), (''description'', JStr [])]"

lemma batch_entry_of_row:
  assumes "trim (row_key r) \<noteq> []" "length (trim (row_key r)) \<le> 128" "length (trim (row_value r)) \<le> 65536"
  shows "batch_entry (JObj [(''key'', JStr (trim (row_key r))), (''value'', JStr (row_value r))]) =
    (if trim (row_value r) = [] then Inl (invalid_request ''value is required.'') else Inr (forwarded r))"
  using assms by (simp add: batch_entry_def requireString_def optionalString_def forwarded_def Let_def nullish_def)

lemma batch_of_rows:
  assumes "\<forall>r \<in> set rows. trim (row_key r) \<noteq> [] \<and> length (trim (row_key r)) \<le> 128 \<and> length (trim (row_value r)) \<le> 65536"
  shows "map_ok batch_entry (map (\<lambda>r. JObj [(''key'', JStr (trim (row_key r))), (''value'', JStr (row_value r))]) rows) =
      (if \<forall>r \<in> set rows. trim (row_value r) \<noteq> [] then Inr (map forwarded rows) else Inl (invalid_request ''value is required.''))"
  using assms by (induction rows) (simp_all add: batch_entry_of_row)

text \<open>What pressing the button of the dialog asks for, when it asks for anything.\<close>

lemma add_submit_sent:
  assumes "calls (effects (add_submit D s)) = calls (effects s) @ [c]"
  shows "filled (ad_rows s) \<noteq> [] \<and> (\<exists>t. date_sent D (ad_expires s) t \<and>
    c = post_call (''/api/environments/'' @ ad_env s @ ''/secrets/batch'') (JObj [
      (''secrets'', JArr (map (\<lambda>r. JObj [(''key'', JStr (trim (row_key r))), (''value'', JStr (row_value r))]) (filled (ad_rows s)))),
      (''expiresAt'', JStr t)]))"
proof -
  have "expiry_iso D (ad_expires s) = Inl e \<Longrightarrow> calls (effects (add_submit D s)) = calls (effects s)" for e
    by (simp add: add_submit_def Let_def split: option.split)
  then obtain t where t: "expiry_iso D (ad_expires s) = Inr t" using assms by (cases "expiry_iso D (ad_expires s)") auto
  then show ?thesis
    using assms by (auto simp: add_submit_def Let_def batch_call_def add_body_def date_sent_iso split: option.splits if_splits)
qed

text \<open>C16: 
  From the button of the dialog to the core API.  When pressing it makes a request, the rows with a key are within the route's bounds and the
  route lets that request through, then either exactly one request goes on, to the environment's batch, with an entry for every row with a key,
  in order, each value without the white space around it, and with the date of the form; or, when there are more than a hundred
  such rows or the value of one is white space only, which the dialog does not notice, nothing goes on and the answer is the refusal of an
  invalid request.
\<close>

theorem typed_batches_arrive:
  assumes "calls (effects (add_step D envs cur s AddSubmit)) = calls (effects s) @ [c]"
    and "\<forall>r \<in> set (ad_rows s). length (trim (row_key r)) \<le> 128 \<and> length (trim (row_value r)) \<le> 65536"
    and "rq_body rq = ac_body c" "let_through rq sv w con" "UUID_PATTERN p" "batch_POST rq p sv w = (r, w')"
    and "\<forall>d. length (trim (dt_iso D d)) \<le> 64"
  shows "let rows = filter (\<lambda>r. trim (row_key r) \<noteq> []) (ad_rows s) in
    if length rows \<le> 100 \<and> (\<forall>r \<in> set rows. trim (row_value r) \<noteq> [])
    then \<exists>t x. date_sent D (ad_expires s) t \<and> new_requests w w' = [x] \<and>
      cr_url x = coreApiUrl con @ ''/environments/'' @ p @ ''/secrets/batch'' \<and>
      cr_body x = Some (JObj [(''secrets'', JArr (map (\<lambda>r. JObj [(''key'', JStr (trim (row_key r))), (''value'', JStr (trim (row_value r))),
        (''description'', JStr [])]) rows)), (''expiresAt'', JStr (trim t))])
    else new_requests w w' = [] \<and> (\<exists>m. r = Inr (error_response (invalid_request m)))"
proof -
  let ?rows = "filter (\<lambda>r. trim (row_key r) \<noteq> []) (ad_rows s)"
  let ?entries = "map (\<lambda>r. JObj [(''key'', JStr (trim (row_key r))), (''value'', JStr (row_value r))]) ?rows"
  obtain t where t: "date_sent D (ad_expires s) t" "?rows \<noteq> []"
      "rq_body rq = Some (JObj [(''secrets'', JArr ?entries), (''expiresAt'', JStr t)])"
    using add_submit_sent [of D s c] assms(1,3) by (auto simp: filled_def post_call_def)
  let ?body = "JObj [(''secrets'', JArr ?entries), (''expiresAt'', JStr t)]"
  have f: "field ?body ''secrets'' = Some (JArr ?entries)" by simp
  have m: "map_ok batch_entry ?entries =
      (if \<forall>r \<in> set ?rows. trim (row_value r) \<noteq> [] then Inr (map forwarded ?rows) else Inl (invalid_request ''value is required.''))"
    using assms(2) by (intro batch_of_rows) simp
  have w: "r = fst (batch_POST rq p sv w)" "w' = snd (batch_POST rq p sv w)" using assms(6) by simp_all
  show ?thesis
  proof (cases "length ?rows \<le> 100 \<and> (\<forall>r \<in> set ?rows. trim (row_value r) \<noteq> [])")
    case True
    have "length (trim t) \<le> 64" using t(1) assms(7) by (auto simp: date_sent_def split: if_splits)
    then have e: "optional_text ?body ''expiresAt'' 64 (trim t)" by (simp add: optional_text_def)
    have k: "map_ok batch_entry ?entries = Inr (map forwarded ?rows)" using True m by simp
    have "?entries \<noteq> []" "length ?entries \<le> MAX_SECRETS" using t(2) True by (simp_all add: MAX_SECRETS_def)
    from batch_POST_goes_through [OF assms(4,5) t(3) f this k e] t(1)
    show ?thesis unfolding Let_def if_P [OF True] w(2) forwarded_def by auto
  next
    case False
    obtain v where v: "assertCsrf rq sv w = (Inr (), v)" using assms(4) by (auto simp: let_through_def)
    have "?entries = [] \<or> MAX_SECRETS < length ?entries \<or> map_ok batch_entry ?entries = Inl (invalid_request ''value is required.'')"
      using False m by (auto simp: MAX_SECRETS_def)
    from batch_POST_refuses [OF v t(3) f this] show ?thesis unfolding Let_def if_not_P [OF False] w by blast
  qed
qed

definition padded_row :: row where
  "padded_row = \<lparr>row_id = 0, row_key = ''KEY'', row_value = '' v ''\<rparr>"

lemma padded_row_eval: "trim (row_key padded_row) = ''KEY''" "trim (row_value padded_row) = ''v''"
  by code_simp+

definition padded_dialog :: add where
  "padded_dialog = add_opened\<lparr>ad_rows := [padded_row, blank 1]\<rparr>"

definition padded_call :: api_call where
  "padded_call = post_call ''/api/environments/e1/secrets/batch'' (JObj [
     (''secrets'', JArr [JObj [(''key'', JStr ''KEY''), (''value'', JStr '' v '')]]), (''expiresAt'', JStr [])])"

lemma padded_dialog_sends: "calls (effects (add_step demo_dates envs cur padded_dialog AddSubmit)) = calls (effects padded_dialog) @ [padded_call]"
proof -
  have "filled (ad_rows padded_dialog) = [padded_row]" by (simp add: padded_dialog_def filled_def padded_row_eval blank_def)
  then show ?thesis
    using padded_row_eval(1)
    by (simp add: add_submit_def Let_def batch_call_def add_body_def expiry_iso_def padded_call_def)
      (simp add: padded_dialog_def add_opened_eval add_demo_def padded_row_def)
qed

theorem typed_batches_arrive_witness:
  "\<exists>x. new_requests demo_world (snd (batch_POST (demo_post (the (ac_body padded_call))) demo_id demo_down demo_world)) = [x] \<and>
     cr_body x = Some (JObj [(''secrets'', JArr [JObj [(''key'', JStr ''KEY''), (''value'', JStr ''v''), (''description'', JStr [])]]),
       (''expiresAt'', JStr [])])"
proof -
  have b: "rq_body (demo_post (the (ac_body padded_call))) = ac_body padded_call" by (simp add: demo_post_def padded_call_def post_call_def)
  have k: "\<forall>r \<in> set (ad_rows padded_dialog). length (trim (row_key r)) \<le> 128 \<and> length (trim (row_value r)) \<le> 65536"
    "filter (\<lambda>r. trim (row_key r) \<noteq> []) (ad_rows padded_dialog) = [padded_row]" "ad_expires padded_dialog = []"
    by (simp_all add: padded_dialog_def padded_row_eval blank_def add_opened_eval add_demo_def)
  have "length (trim ''2030-01-01T00:00:00.000Z'') \<le> 64" by code_simp
  then have d: "\<forall>d. length (trim (dt_iso demo_dates d)) \<le> 64" by (simp add: demo_dates_def)
  from typed_batches_arrive [OF padded_dialog_sends k(1) b demo_let_through [of _ "NetworkFailure ''refused''", folded demo_down_def]
      demo_id_pattern prod.collapse [symmetric] d]
  show ?thesis by (auto simp: Let_def k padded_row_eval date_sent_def)
qed

section \<open>From the dialogs that give access to the core API\<close>

lemma map_JStr_eq: "map JStr xs = map JStr ys \<longleftrightarrow> xs = ys"
  by (rule inj_map_eq_map) (simp add: inj_def)

text \<open>C31: The token that was asked for is the token that is made.  Whenever an event of the token dialog makes a request, and the token
  route is called with it, every request the route sends on goes to the tokens of its project and is exactly this: a token for using secrets and
  for nothing else, for the identity, name and environment of the form at that moment, with the date of the form, and for exactly the keys
  selected in its picker, of which the route lets at most 128 through.  And when the guard lets the request through and the texts
  are within the route's bounds, that request is sent, once.\<close>

theorem token_requests_arrive:
  assumes "reachable (token_start envs) (token_offers envs ids) (token_step D pid) s" "token_offers envs ids s e"
    and "calls (effects (token_step D pid s e)) = calls (effects s) @ [c]"
    and "rq_body rq = ac_body c" "tokens_POST rq p sv w = (r, w')"
  shows "\<exists>t fwd. date_sent D (td_expires s) t \<and>
    fwd = JObj [(''identityId'', JStr (trim (td_identity s))), (''name'', JStr (trim (td_name s))), (''environmentId'', JStr (trim (td_env s))),
      (''capabilities'', JArr [JStr ''USE_SECRET'']), (''secretKeys'', JArr (map JStr (kp_selected (td_picker s)))), (''expiresAt'', JStr (trim t))] \<and>
    (\<forall>x \<in> set (new_requests w w'). core_path x (''/projects/'' @ p @ ''/tokens'') \<and> cr_body x = Some fwd \<and>
      length (kp_selected (td_picker s)) \<le> 128) \<and>
    (\<forall>con. let_through rq sv w con \<and> UUID_PATTERN p \<and>
        (\<forall>(v, n) \<in> {(td_identity s, 64), (td_name s, 128), (td_env s, 64)}. trim v \<noteq> [] \<and> length (trim v) \<le> n) \<and>
        length (kp_selected (td_picker s)) \<le> 128 \<and> length (trim t) \<le> 64 \<longrightarrow>
      (\<exists>x. new_requests w w' = [x] \<and> cr_url x = coreApiUrl con @ ''/projects/'' @ p @ ''/tokens'' \<and> cr_body x = Some fwd))"
proof -
  obtain b where b: "token_described D s b" "c = post_call (''/api/projects/'' @ pid @ ''/tokens'') b"
    using token_step_calls [OF assms(2), of D pid] assms(3) by auto
  then obtain t where t: "date_sent D (td_expires s) t" and body: "rq_body rq = Some (JObj [(''identityId'', JStr (td_identity s)), (''name'', JStr (td_name s)),
      (''environmentId'', JStr (td_env s)), (''capabilities'', JArr [JStr ''USE_SECRET'']),
      (''secretKeys'', JArr (map JStr (kp_selected (td_picker s)))), (''expiresAt'', JStr t)])" (is "_ = Some ?asked")
    using assms(4) by (auto simp: token_described_def post_call_def)
  define fwd where "fwd = JObj [(''identityId'', JStr (trim (td_identity s))), (''name'', JStr (trim (td_name s))), (''environmentId'', JStr (trim (td_env s))),
      (''capabilities'', JArr [JStr ''USE_SECRET'']), (''secretKeys'', JArr (map JStr (kp_selected (td_picker s)))), (''expiresAt'', JStr (trim t))]"
  have caps: "[JStr ''USE_SECRET''] = map JStr ks \<longleftrightarrow> ks = [''USE_SECRET'']" for ks by (cases ks) auto
  have same: "made = fwd \<and> length (kp_selected (td_picker s)) \<le> 128" if "narrow_token ?asked made" for made
    using that by (auto simp: narrow_token_def required_text_def optional_text_def optional_texts_def fwd_def map_JStr_eq caps)
  have safe: "core_path x (''/projects/'' @ p @ ''/tokens'') \<and> cr_body x = Some fwd \<and> length (kp_selected (td_picker s)) \<le> 128"
    if "x \<in> set (new_requests w w')" for x
    using sendsD [OF tokens_POST_sends assms(5)] that body same unfolding new_requests_def by fastforce
  have live: "\<exists>x. new_requests w w' = [x] \<and> cr_url x = coreApiUrl con @ ''/projects/'' @ p @ ''/tokens'' \<and> cr_body x = Some fwd"
    if "let_through rq sv w con \<and> UUID_PATTERN p \<and>
        (\<forall>(v, n) \<in> {(td_identity s, 64), (td_name s, 128), (td_env s, 64)}. trim v \<noteq> [] \<and> length (trim v) \<le> n) \<and>
        length (kp_selected (td_picker s)) \<le> 128 \<and> length (trim t) \<le> 64" for con
  proof -
    have "narrow_token ?asked fwd"
      unfolding narrow_token_def fwd_def
      by (rule exI [of _ "trim (td_identity s)"], rule exI [of _ "trim (td_name s)"], rule exI [of _ "trim (td_env s)"],
          rule exI [of _ "[''USE_SECRET'']"], rule exI [of _ "kp_selected (td_picker s)"], rule exI [of _ "trim t"])
        (use that in \<open>simp add: required_text_def optional_text_def optional_texts_def\<close>)
    moreover have "w' = snd (tokens_POST rq p sv w)" using assms(5) by simp
    ultimately show ?thesis using tokens_POST_goes_through [OF _ _ body] that by blast
  qed
  show ?thesis using t safe live unfolding fwd_def by blast
qed

definition demo_token_body :: json where
  "demo_token_body = JObj [(''identityId'', JStr ''i1''), (''name'', JStr ''ci''), (''environmentId'', JStr ''e1''),
     (''capabilities'', JArr [JStr ''USE_SECRET'']), (''secretKeys'', JArr [JStr ''API_KEY'']), (''expiresAt'', JStr [])]"

lemma narrowed_demo_asks:
  "calls (effects (token_step D ''p1'' (narrowed_demo D ''p1'') TokenSubmit)) =
     calls (effects (narrowed_demo D ''p1'')) @ [post_call ''/api/projects/p1/tokens'' demo_token_body]"
  using token_submit_calls [of D "''p1''" "narrowed_demo D ''p1''"]
  by (auto simp: token_step_def narrowed_demo_eval token_described_def date_sent_def demo_token_body_def)

lemma narrowed_demo_offers: "token_offers demo_envs demo_machine (narrowed_demo D pid) TokenSubmit"
  using narrowed_demo_eval [of D pid] by (simp add: token_view_def form_shown_def)

theorem token_requests_arrive_witness:
  "\<exists>x. new_requests demo_world (snd (tokens_POST (demo_post demo_token_body) demo_id demo_down demo_world)) = [x] \<and>
     cr_body x = Some demo_token_body"
proof -
  have b: "rq_body (demo_post demo_token_body) = ac_body (post_call ''/api/projects/p1/tokens'' demo_token_body)"
    by (simp add: demo_post_def demo_token_body_def post_call_def)
  have t: "trim ''i1'' = ''i1''" "trim ''ci'' = ''ci''" "trim ''e1'' = ''e1''" by code_simp+
  from token_requests_arrive [where p = demo_id and sv = demo_down and w = demo_world,
      OF narrowed_demo_reachable narrowed_demo_offers narrowed_demo_asks b prod.collapse [symmetric]]
  show ?thesis
    using demo_let_through [of demo_token_body "NetworkFailure ''refused''", folded demo_down_def] demo_id_pattern
    by (auto simp: narrowed_demo_eval date_sent_def t demo_token_body_def)
qed

text \<open>C29: What a person grants in the dialog is what is granted.  Whenever an event of the grant dialog makes a request, and the
  access route is called with it, every request the route sends on goes to the grants of its project and is exactly this: a grant to the
  person or machine chosen in the form, listed by the dialog, for the environment of the form and never for all of them or for a single
  secret, of the capabilities ticked, at least one, until the date of the form and with its reason, which is more than white space whenever
  seeing is ticked.  And when the guard lets the request through and the texts are within the route's bounds, that request is sent, once.\<close>

theorem granted_access_arrives:
  assumes "reachable (grant_start envs) (grant_offers envs ids ms) (grant_step D pid) s"
    and "\<forall>m \<in> set ms. plain_id (pe_userId m)" "\<forall>x \<in> set ids. plain_id (ni_id x)"
    and "calls (effects (grant_step D pid s e)) = calls (effects s) @ [c]"
    and "rq_body rq = ac_body c" "access_POST rq p sv w = (r, w')"
  shows "\<exists>ty i t caps fwd. gd_subject s = ty @ '':'' @ i \<and>
    (ty = ''USER'' \<and> i \<in> pe_userId ` set ms \<or> ty = ''MACHINE'' \<and> i \<in> ni_id ` set ids) \<and>
    date_sent D (gd_expires s) t \<and>
    caps = (if gd_use s then [''USE_SECRET''] else []) @ (if gd_reveal s then [''READ_SECRET''] else []) \<and> caps \<noteq> [] \<and>
    (gd_reveal s \<longrightarrow> trim (gd_reason s) \<noteq> []) \<and>
    fwd = JObj [(''subjectType'', JStr ty), (''subjectId'', JStr (trim i)), (''environmentId'', JStr (trim (gd_env s))), (''secretId'', JStr []),
      (''allEnvironments'', JBool False), (''capabilities'', JArr (map JStr caps)), (''expiresAt'', JStr (trim t)),
      (''reason'', JStr (trim (gd_reason s)))] \<and>
    (\<forall>x \<in> set (new_requests w w'). core_path x (''/projects/'' @ p @ ''/access'') \<and> cr_body x = Some fwd) \<and>
    (\<forall>con. let_through rq sv w con \<and> UUID_PATTERN p \<and>
        (\<forall>v \<in> {i, gd_env s}. trim v \<noteq> [] \<and> length (trim v) \<le> 64) \<and> length (trim t) \<le> 64 \<and> length (trim (gd_reason s)) \<le> 512 \<longrightarrow>
      (\<exists>x. new_requests w w' = [x] \<and> cr_url x = coreApiUrl con @ ''/projects/'' @ p @ ''/access'' \<and> cr_body x = Some fwd))"
proof -
  obtain ty i t caps where g: "grant_described D s ty i t caps" "c = post_call (''/api/projects/'' @ pid @ ''/access'') (grant_asked s ty i t caps)"
    using grant_step_calls [of D pid s e] assms(4) by auto
  have parts: "subject_parts (gd_subject s) = Some (ty, i)" using g(1) by (simp add: grant_described_def)
  have "grant_inv pid (subject_choices ms ids) s" using assms(1) by (rule granting.always)
  then have "gd_subject s \<in> set (subject_choices ms ids)" using parts by (auto simp: grant_inv_def)
  note who = offered_subject [OF this parts assms(2,3)] chosen_subject [OF this parts assms(2,3)]
  have body: "rq_body rq = Some (grant_asked s ty i t caps)" using assms(5) g(2) by (simp add: post_call_def)
  define fwd where "fwd = JObj [(''subjectType'', JStr ty), (''subjectId'', JStr (trim i)), (''environmentId'', JStr (trim (gd_env s))), (''secretId'', JStr []),
      (''allEnvironments'', JBool False), (''capabilities'', JArr (map JStr caps)), (''expiresAt'', JStr (trim t)),
      (''reason'', JStr (trim (gd_reason s)))]"
  have ty: "trim ty = ty" "ty = ''USER'' \<or> ty = ''MACHINE''" "length ty \<le> 16" "ty \<noteq> []"
    using who(1) subject_kinds by auto
  have same: "made = fwd" if "narrow_grant (grant_asked s ty i t caps) made" for made
    using that ty(1) by (auto simp: narrow_grant_def grant_asked_def required_text_def optional_text_def optional_texts_def fwd_def map_JStr_eq)
  have safe: "core_path x (''/projects/'' @ p @ ''/access'') \<and> cr_body x = Some fwd" if "x \<in> set (new_requests w w')" for x
    using sendsD [OF access_POST_sends assms(6)] that body same unfolding new_requests_def by fastforce
  have caps: "length caps \<le> 16" using g(1) by (auto simp: grant_described_def)
  have live: "\<exists>x. new_requests w w' = [x] \<and> cr_url x = coreApiUrl con @ ''/projects/'' @ p @ ''/access'' \<and> cr_body x = Some fwd"
    if "let_through rq sv w con \<and> UUID_PATTERN p \<and>
        (\<forall>v \<in> {i, gd_env s}. trim v \<noteq> [] \<and> length (trim v) \<le> 64) \<and> length (trim t) \<le> 64 \<and> length (trim (gd_reason s)) \<le> 512" for con
  proof -
    have "narrow_grant (grant_asked s ty i t caps) fwd"
      unfolding narrow_grant_def fwd_def grant_asked_def
      by (rule exI [of _ ty], rule exI [of _ "trim i"], rule exI [of _ "trim (gd_env s)"], rule exI [of _ "[]"], rule exI [of _ False],
          rule exI [of _ caps], rule exI [of _ "trim t"], rule exI [of _ "trim (gd_reason s)"])
        (use that ty caps in \<open>simp add: required_text_def optional_text_def optional_texts_def\<close>)
    moreover have "w' = snd (access_POST rq p sv w)" using assms(6) by simp
    ultimately show ?thesis using access_POST_goes_through [OF _ _ body] that by blast
  qed
  show ?thesis
    using g(1) who safe live unfolding grant_described_def fwd_def by blast
qed

definition demo_grant_body :: json where
  "demo_grant_body = grant_asked grant_ready ''USER'' ''u1'' [] [''USE_SECRET'', ''READ_SECRET'']"

theorem granted_access_arrives_witness:
  "\<exists>x. new_requests demo_world (snd (access_POST (demo_post demo_grant_body) demo_id demo_down demo_world)) = [x] \<and>
     cr_body x = Some (JObj [(''subjectType'', JStr ''USER''), (''subjectId'', JStr ''u1''), (''environmentId'', JStr ''e1''), (''secretId'', JStr []),
       (''allEnvironments'', JBool False), (''capabilities'', JArr [JStr ''USE_SECRET'', JStr ''READ_SECRET'']), (''expiresAt'', JStr []),
       (''reason'', JStr ''audit'')])"
proof -
  have t: "trim ''audit'' = ''audit''" "trim ''u1'' = ''u1''" "trim ''e1'' = ''e1''" by code_simp+
  have p: "subject_parts ''USER:u1'' = Some (''USER'', ''u1'')" by code_simp
  have c: "calls (effects (grant_step demo_dates ''p1'' grant_ready GrantSubmit)) =
      calls (effects grant_ready) @ [post_call ''/api/projects/p1/access'' demo_grant_body]"
    by (simp add: grant_ready_def grant_submit_def p chosen_capabilities_def t expiry_iso_def grant_call_def demo_grant_body_def grant_asked_def)
  have people: "\<forall>m \<in> set demo_people. plain_id (pe_userId m)" "\<forall>x \<in> set []. plain_id (ni_id x)"
    by (simp_all add: demo_people_def plain_id_def)
  have b: "rq_body (demo_post demo_grant_body) = ac_body (post_call ''/api/projects/p1/access'' demo_grant_body)"
    by (simp add: demo_post_def post_call_def demo_grant_body_def grant_asked_def)
  from granted_access_arrives [where p = demo_id and sv = demo_down and w = demo_world,
      OF grant_ready_reachable people c b prod.collapse [symmetric]]
  show ?thesis
    using demo_let_through [of demo_grant_body "NetworkFailure ''refused''", folded demo_down_def] demo_id_pattern
    by (auto simp: grant_ready_def date_sent_def t)
qed

end
